(* ===== verification/Prelude.thy ===== *)
theory Prelude
  imports Complex_Main "HOL-Library.Word" "HOL-Library.AList" "HOL-Library.Code_Target_Nat"
begin

text \<open>
  What the component theories share: the types of the model (bytes, sequence numbers,
  points in time), the errors the Python code raises, the Python slices and dictionaries
  the code uses, and the generic lemmas on them.

  \<^item> A Python \<open>bytes\<close> or \<open>bytearray\<close> value is a list of \<open>8 word\<close>.
  \<^item> A Python \<open>int\<close> is an \<open>int\<close>; where the code masks it (\<open>& 0xFFFFFFFF\<close>), the mask is
    written in the definition.
  \<^item> A \<open>float\<close> (clock readings, delays, the RTT estimate) is an exact rational: every
    finite float is one, and the rounding of the arithmetic on them is not modelled.
  \<^item> A Python \<open>dict\<close> is an association list in insertion order, with the update and
    delete of \<open>HOL-Library.AList\<close>: overwriting a key keeps its place, as Python does.
  \<^item> A raised exception is a value \<open>Inl e\<close>; the message texts are left out.
\<close>

unbundle bit_operations_syntax

type_synonym byte = "8 word"
type_synonym bytes = "byte list"
type_synonym seqno = int
type_synonym time = rat

datatype py_error =
    ValueError
  | StructError
  | TypeError
  | TCPStateError
  | StackError
  | LinkError
  | OSError
  | TimeoutError
  | ConnectionRefusedError
  | ConnectionResetError
  | AssertionError

text \<open>The exceptions that are an \<open>OSError\<close>.\<close>

definition is_os_error :: "py_error \<Rightarrow> bool" where
  "is_os_error e \<longleftrightarrow> e = OSError \<or> e = TimeoutError \<or> e = ConnectionRefusedError \<or> e = ConnectionResetError"

lemma is_os_error_self [simp]: "is_os_error OSError"
  by (simp add: is_os_error_def)

text \<open>Collections of rewrite rules: arithmetic on sequence numbers, unfolding of the
  connection's small steps, and the fields an operation leaves alone.\<close>

named_theorems seq_simps
named_theorems codec_simps
named_theorems conn_defs
named_theorems conn_frame


section \<open>Sequencing of operations that may raise\<close>

definition sum_bind :: "'e + 'a \<Rightarrow> ('a \<Rightarrow> 'e + 'b) \<Rightarrow> 'e + 'b" where
  "sum_bind m f = (case m of Inl e \<Rightarrow> Inl e | Inr x \<Rightarrow> f x)"

definition raise_if :: "bool \<Rightarrow> 'e \<Rightarrow> 'e + unit" where
  "raise_if c e = (if c then Inl e else Inr ())"

lemma sum_bind_simps [simp]: "sum_bind (Inl e) f = Inl e" "sum_bind (Inr x) f = f x"
  by (simp_all add: sum_bind_def)

lemma sum_bind_Inr: "sum_bind m f = Inr y \<longleftrightarrow> (\<exists>x. m = Inr x \<and> f x = Inr y)"
  by (cases m) simp_all

lemma sum_bind_Inl: "sum_bind m f = Inl e \<longleftrightarrow> m = Inl e \<or> (\<exists>x. m = Inr x \<and> f x = Inl e)"
  by (cases m) simp_all

lemma raise_if_simps [simp]: "raise_if c e = Inr u \<longleftrightarrow> \<not> c" "raise_if c e = Inl e' \<longleftrightarrow> c \<and> e' = e"
  by (auto simp: raise_if_def)


section \<open>Bit fields\<close>

text \<open>A field of \<open>k\<close> bits below a shifted one: \<open>|\<close> is addition, \<open>&\<close> with a mask of ones is
  the remainder.\<close>

lemma and_ones: "(x :: int) AND (2 ^ k - 1) = x mod 2 ^ k"
  by (simp add: take_bit_eq_mask [symmetric] mask_eq_exp_minus_1 [symmetric] take_bit_eq_mod)

lemma and_0xFF: "(x :: int) AND 0xFF = x mod 256"
  using and_ones [of x 8] by simp

lemma mask_16: "(x :: int) AND 0xFFFF = x mod 65536"
  using and_ones [of x 16] by simp

lemma and_1: "(x :: int) AND 1 = x mod 2"
  by (rule and_one_eq)

lemma or_shifted_add:
  fixes x d :: int
  assumes "0 \<le> x" and "x < 2 ^ k"
  shows "push_bit k d OR x = 2 ^ k * d + x"
proof -
  have x: "take_bit k x = x"
    using assms by (simp add: take_bit_eq_mod)
  have "push_bit k d + x = push_bit k d OR x"
  proof (rule disjunctive_add)
    fix n
    show "\<not> bit (push_bit k d) n \<or> \<not> bit x n"
      using x by (metis bit_push_bit_iff bit_take_bit_iff linorder_not_le)
  qed
  then show ?thesis by (simp add: push_bit_eq_mult mult.commute)
qed

text \<open>Shifts by a count: \<open>a << n\<close> and \<open>a >> n\<close>.\<close>

lemma push_bit_mult: "push_bit n (a :: int) = a * 2 ^ n"
  by (simp add: push_bit_eq_mult)


section \<open>Python slices\<close>

text \<open>\<open>xs[:n]\<close> and \<open>xs[n:]\<close>; a negative index counts from the end of the list and stops
  at its beginning.\<close>

definition py_upto :: "'a list \<Rightarrow> int \<Rightarrow> 'a list" where
  "py_upto xs n =
     (if 0 \<le> n then take (nat n) xs else take (length xs - nat (- n)) xs)"

definition py_from :: "'a list \<Rightarrow> int \<Rightarrow> 'a list" where
  "py_from xs n =
     (if 0 \<le> n then drop (nat n) xs else drop (length xs - nat (- n)) xs)"

abbreviation len :: "'a list \<Rightarrow> int" where
  "len xs \<equiv> int (length xs)"

lemma py_upto_nonneg [simp]: "0 \<le> n \<Longrightarrow> py_upto xs n = take (nat n) xs"
  by (simp add: py_upto_def)

lemma py_from_nonneg [simp]: "0 \<le> n \<Longrightarrow> py_from xs n = drop (nat n) xs"
  by (simp add: py_from_def)

lemma py_from_far_negative: "n < 0 \<Longrightarrow> len xs \<le> - n \<Longrightarrow> py_from xs n = xs"
  by (simp add: py_from_def)

lemma len_take_nat [simp]: "0 \<le> n \<Longrightarrow> len (take (nat n) xs) = min n (len xs)"
  by auto

lemma len_eq_0 [simp]: "len xs = 0 \<longleftrightarrow> xs = []"
  by simp

lemma nat_int_diff [simp]: "nat (int n - int p) = n - p"
  by simp

lemma take_min_length [simp]: "take (min (length d) k) d = take k d"
  by (simp add: min_def)


section \<open>Dictionaries\<close>

type_synonym ('k, 'v) dict = "('k \<times> 'v) list"

abbreviation dict_keys :: "('k, 'v) dict \<Rightarrow> 'k list" where
  "dict_keys d \<equiv> map fst d"

abbreviation dict_wf :: "('k, 'v) dict \<Rightarrow> bool" where
  "dict_wf d \<equiv> distinct (dict_keys d)"

lemma dict_wf_delete [simp, intro]: "dict_wf d \<Longrightarrow> dict_wf (AList.delete k d)"
  by (rule distinct_delete)

lemma dict_wf_update [simp, intro]: "dict_wf d \<Longrightarrow> dict_wf (AList.update k v d)"
  by (rule distinct_update)

lemma dict_update_fresh: "map_of d k = None \<Longrightarrow> AList.update k v d = d @ [(k, v)]"
  by (induction d) (auto split: if_splits)

lemma dict_update_fresh_keys: "k \<notin> set (dict_keys d) \<Longrightarrow> AList.update k v d = d @ [(k, v)]"
  by (rule dict_update_fresh) (simp add: map_of_eq_None_iff)

lemma set_dict_delete: "e \<in> set (AList.delete k d) \<Longrightarrow> e \<in> set d"
  by (auto simp: AList.delete_eq)

lemma dict_delete_absent: "map_of d k = None \<Longrightarrow> AList.delete k d = d"
  by (induction d) (auto simp: AList.delete_eq split: if_splits)

lemma length_dict_delete: "map_of d k = Some v \<Longrightarrow> length (AList.delete k d) < length d"
proof (induction d)
  case (Cons p d)
  have "length (AList.delete k d) \<le> length d"
    by (simp add: AList.delete_eq)
  with Cons show ?case by (cases p) (auto split: if_splits)
qed simp

lemma length_dict_update:
  "length (AList.update k v d) = (if map_of d k = None then Suc (length d) else length d)"
  by (induction d) auto

lemma dict_fold_delete:
  "dict_wf d \<Longrightarrow> dict_wf (fold AList.delete ks d)"
  "map_of (fold AList.delete ks d) k = (if k \<in> set ks then None else map_of d k)"
  "length (fold AList.delete ks d) \<le> length d"
proof -
  show "dict_wf d \<Longrightarrow> dict_wf (fold AList.delete ks d)"
    by (induction ks arbitrary: d) auto
  show "map_of (fold AList.delete ks d) k = (if k \<in> set ks then None else map_of d k)"
    by (induction ks arbitrary: d) (simp_all add: AList.delete_conv')
  show "length (fold AList.delete ks d) \<le> length d"
    by (induction ks arbitrary: d) (auto intro: le_trans [OF _ length_delete_le])
qed

text \<open>The total size of the values of a dictionary of byte strings.\<close>

definition dict_bytes :: "('k, 'a list) dict \<Rightarrow> int" where
  "dict_bytes d = (\<Sum>(k, v) \<leftarrow> d. len v)"

lemma dict_bytes_simps [simp]:
  "dict_bytes [] = 0"
  "dict_bytes ((k, v) # d) = len v + dict_bytes d"
  "dict_bytes (d @ e) = dict_bytes d + dict_bytes e"
  by (simp_all add: dict_bytes_def)

lemma dict_bytes_nonneg [simp]: "0 \<le> dict_bytes d"
  by (induction d) auto

lemma dict_bytes_delete:
  "dict_wf d \<Longrightarrow> map_of d k = Some v \<Longrightarrow>
     dict_bytes (AList.delete k d) = dict_bytes d - len v"
proof (induction d)
  case (Cons p d)
  obtain a b where p: "p = (a, b)" by (cases p)
  show ?case
  proof (cases "a = k")
    case True
    with Cons.prems p have "map_of d k = None"
      by (auto simp: map_of_eq_None_iff)
    then have "AList.delete k d = d" by (rule dict_delete_absent)
    with True p Cons.prems show ?thesis by simp
  next
    case False
    with Cons p show ?thesis by simp
  qed
qed simp



section \<open>Wire formats\<close>

text \<open>The contract of a wire format. \<open>wf\<close> holds of the messages the format can carry, \<open>view\<close>
  is what the receiver learns of one (everything but fields the encoder fills in, such as
  the checksum): decoding inverts encoding up to \<open>view\<close>.\<close>

locale codec =
  fixes wf :: "'a \<Rightarrow> bool"
    and view :: "'a \<Rightarrow> 'v"
    and encode :: "'a \<Rightarrow> py_error + bytes"
    and decode :: "bytes \<Rightarrow> py_error + 'a"
  assumes decode_encode: "wf x \<Longrightarrow> encode x = Inr b \<Longrightarrow> \<exists>y. decode b = Inr y \<and> view y = view x"
begin

text \<open>Two messages with the same bytes are the same message to the receiver.\<close>

lemma encode_injective:
  assumes "wf x" and "wf y" and "encode x = Inr b" and "encode y = Inr b"
  shows "view x = view y"
  using decode_encode [OF assms(1,3)] decode_encode [OF assms(2,4)] by auto

lemma encode_not_rejected: "wf x \<Longrightarrow> encode x = Inr b \<Longrightarrow> decode b \<noteq> Inl e"
  using decode_encode by fastforce

end

text \<open>A format whose decoder only produces messages the format can carry: passing a message
  on, once or many times, changes nothing.\<close>

locale strict_codec = codec +
  assumes decode_wf: "decode b = Inr y \<Longrightarrow> wf y"
begin

lemma forward_preserves:
  assumes "decode b = Inr x" and "encode x = Inr b'"
  obtains y where "decode b' = Inr y" and "view y = view x" and "wf y"
  using decode_encode [OF decode_wf [OF assms(1)] assms(2)] decode_wf by blast

end

end
