(* ===== verification/Seqno.thy ===== *)
theory Seqno
  imports Prelude
begin

text \<open>
  \<open>minitcp/net/tcp/seqno.py\<close>: arithmetic and comparison on 32-bit sequence numbers that
  wrap. The operations are the Python ones, masks included. The lemmas relate them to
  positions in an unbounded byte stream: \<open>wrap p\<close> is the sequence number of position
  \<open>p\<close>, and the comparisons agree with those of the positions as long as these are less
  than half the space apart.
\<close>

section \<open>The operations\<close>

definition SEQ_MASK :: int where
  "SEQ_MASK = 0xFFFFFFFF"

definition SEQ_HALF :: int where
  "SEQ_HALF = 0x80000000"

definition seq_add :: "seqno \<Rightarrow> int \<Rightarrow> seqno" where
  "seq_add seq offset = (seq + offset) AND SEQ_MASK"

definition seq_diff :: "seqno \<Rightarrow> seqno \<Rightarrow> int" where
  "seq_diff a b =
     (let diff = (a - b) AND SEQ_MASK
      in if SEQ_HALF \<le> diff then diff - 0x100000000 else diff)"

definition seq_lt :: "seqno \<Rightarrow> seqno \<Rightarrow> bool" where
  "seq_lt a b \<longleftrightarrow> 0 < ((b - a) AND SEQ_MASK) \<and> ((b - a) AND SEQ_MASK) < SEQ_HALF"

definition seq_le :: "seqno \<Rightarrow> seqno \<Rightarrow> bool" where
  "seq_le a b \<longleftrightarrow> a = b \<or> seq_lt a b"

definition seq_gt :: "seqno \<Rightarrow> seqno \<Rightarrow> bool" where
  "seq_gt a b \<longleftrightarrow> seq_lt b a"

definition seq_ge :: "seqno \<Rightarrow> seqno \<Rightarrow> bool" where
  "seq_ge a b \<longleftrightarrow> a = b \<or> seq_lt b a"

definition seq_between :: "seqno \<Rightarrow> seqno \<Rightarrow> seqno \<Rightarrow> bool" where
  "seq_between seq low high \<longleftrightarrow> seq_ge seq low \<and> seq_lt seq high"

definition seq_min :: "seqno \<Rightarrow> seqno \<Rightarrow> seqno" where
  "seq_min a b = (if seq_le a b then a else b)"

definition seq_max :: "seqno \<Rightarrow> seqno \<Rightarrow> seqno" where
  "seq_max a b = (if seq_ge a b then a else b)"


section \<open>Sequence numbers as stream positions modulo the size of the space\<close>

abbreviation SEQ_SPACE :: int where
  "SEQ_SPACE \<equiv> 0x100000000"

text \<open>A sequence number in range, and the one of a stream position.\<close>

definition valid_seq :: "seqno \<Rightarrow> bool" where
  "valid_seq s \<longleftrightarrow> 0 \<le> s \<and> s < SEQ_SPACE"

definition wrap :: "int \<Rightarrow> seqno" where
  "wrap p = p mod SEQ_SPACE"

lemma and_SEQ_MASK: "x AND SEQ_MASK = x mod SEQ_SPACE"
proof -
  have "x AND SEQ_MASK = take_bit 32 x"
    by (simp add: SEQ_MASK_def take_bit_eq_mask mask_eq_exp_minus_1)
  then show ?thesis by (simp add: take_bit_eq_mod)
qed

lemmas seq_defs =
  seq_add_def seq_diff_def seq_lt_def seq_le_def seq_gt_def seq_ge_def
  and_SEQ_MASK SEQ_HALF_def Let_def

lemma mod_congI: "x - y = M * k \<Longrightarrow> x mod M = y mod (M::int)"
  by (simp add: mod_eq_dvd_iff)

lemma mod_recentre:
  fixes x h :: int
  assumes "0 < h"
  shows "(if h \<le> x mod (2 * h) then x mod (2 * h) - 2 * h else x mod (2 * h))
         = (x + h) mod (2 * h) - h"
proof -
  define r where "r = x mod (2 * h)"
  have r: "0 \<le> r" "r < 2 * h"
    using assms by (simp_all add: r_def)
  have "x + h - (r + h) = 2 * h * (x div (2 * h))"
    by (simp add: r_def minus_mod_eq_mult_div)
  then have "(x + h) mod (2 * h) = (r + h) mod (2 * h)"
    by (rule mod_congI)
  also have "\<dots> = (if h \<le> r then r - h else r + h)"
  proof (cases "h \<le> r")
    case True
    have "(r + h) mod (2 * h) = (r - h) mod (2 * h)"
      by (rule mod_congI [of _ _ _ 1]) simp
    with True r show ?thesis by simp
  next
    case False
    with r show ?thesis by simp
  qed
  finally show ?thesis by (simp add: r_def)
qed

lemma seq_diff_signed:
  "seq_diff a b = ((a - b + SEQ_HALF) mod SEQ_SPACE) - SEQ_HALF"
  using mod_recentre [of SEQ_HALF "a - b"]
  by (simp add: seq_diff_def and_SEQ_MASK SEQ_HALF_def Let_def split: if_splits)

lemma valid_wrap [simp]: "valid_seq (wrap p)"
  by (simp add: valid_seq_def wrap_def)

lemma wrap_id [simp]: "valid_seq s \<Longrightarrow> wrap s = s"
  by (simp add: valid_seq_def wrap_def)

lemma valid_seq_add [simp]: "valid_seq (seq_add s n)"
  by (simp add: seq_add_def and_SEQ_MASK valid_seq_def)

lemma valid_seq_0 [simp]: "valid_seq 0"
  by (simp add: valid_seq_def)

lemma seq_add_wrap [seq_simps]: "seq_add (wrap p) k = wrap (p + k)"
  by (simp add: seq_add_def and_SEQ_MASK wrap_def mod_add_left_eq)

lemma seq_add_valid [seq_simps]: "seq_add s k = wrap (s + k)"
  by (simp add: seq_add_def and_SEQ_MASK wrap_def)

lemma wrap_eq_iff: "\<bar>p - q\<bar> < SEQ_SPACE \<Longrightarrow> wrap p = wrap q \<longleftrightarrow> p = q"
  using dvd_imp_le_int [of "p - q" SEQ_SPACE] by (auto simp: wrap_def mod_eq_dvd_iff)

lemma wrap_mod_cong: "wrap p = wrap q \<longleftrightarrow> SEQ_SPACE dvd p - q"
  by (simp add: wrap_def mod_eq_dvd_iff)

lemma wrap_decomp: obtains k where "wrap p = p - SEQ_SPACE * k"
proof
  show "wrap p = p - SEQ_SPACE * (p div SEQ_SPACE)"
    by (simp add: wrap_def minus_mult_div_eq_mod)
qed

lemma seq_diff_cong:
  "a - b - (c - d) = SEQ_SPACE * k \<Longrightarrow> seq_diff a b = seq_diff c d"
  unfolding seq_diff_signed
  by (rule arg_cong [where f = "\<lambda>x. x - SEQ_HALF"], rule mod_congI [of _ _ _ k]) simp

lemma seq_diff_small:
  "- SEQ_HALF \<le> a - b \<Longrightarrow> a - b < SEQ_HALF \<Longrightarrow> seq_diff a b = a - b"
  by (simp add: seq_diff_signed SEQ_HALF_def)

lemma seq_diff_decomp: obtains k where "seq_diff a b = a - b - SEQ_SPACE * k"
proof
  show "seq_diff a b = a - b - SEQ_SPACE * ((a - b + SEQ_HALF) div SEQ_SPACE)"
    by (simp add: seq_diff_signed minus_mult_div_eq_mod [symmetric])
qed

lemma seq_diff_wrap:
  assumes "- SEQ_HALF \<le> p - q" and "p - q < SEQ_HALF"
  shows "seq_diff (wrap p) (wrap q) = p - q"
proof -
  obtain k l where "wrap p = p - SEQ_SPACE * k" and "wrap q = q - SEQ_SPACE * l"
    using wrap_decomp by metis
  then have "wrap p - wrap q - (p - q) = SEQ_SPACE * (l - k)"
    by (simp add: algebra_simps)
  then have "seq_diff (wrap p) (wrap q) = seq_diff p q"
    by (rule seq_diff_cong)
  with assms show ?thesis by (simp add: seq_diff_small)
qed

lemma seq_diff_range: "- SEQ_HALF \<le> seq_diff a b \<and> seq_diff a b < SEQ_HALF"
  by (simp add: seq_diff_signed SEQ_HALF_def)

lemma seq_diff_self [simp]: "seq_diff a a = 0"
  by (simp add: seq_diff_def SEQ_HALF_def)

text \<open>Every comparison is a test on the signed distance.\<close>

lemma seq_lt_diff: "seq_lt a b \<longleftrightarrow> 0 < seq_diff b a"
  by (auto simp: seq_defs)

lemma seq_gt_diff: "seq_gt a b \<longleftrightarrow> 0 < seq_diff a b"
  by (simp add: seq_gt_def seq_lt_diff)

lemma seq_ge_diff: "seq_ge a b \<longleftrightarrow> a = b \<or> 0 < seq_diff a b"
  by (simp add: seq_ge_def seq_lt_diff)

lemma seq_le_diff: "seq_le a b \<longleftrightarrow> a = b \<or> 0 < seq_diff b a"
  by (simp add: seq_le_def seq_lt_diff)

text \<open>A sequence number seen from the position \<open>q\<close>: the distance gives the position back.\<close>

lemma seq_position:
  assumes "valid_seq s"
  shows "wrap (q + seq_diff s (wrap q)) = s"
proof -
  obtain k l where "wrap q = q - SEQ_SPACE * k"
    and "seq_diff s (wrap q) = s - wrap q - SEQ_SPACE * l"
    using wrap_decomp seq_diff_decomp by metis
  then have "q + seq_diff s (wrap q) - s = SEQ_SPACE * (k - l)"
    by (simp add: algebra_simps)
  then have "wrap (q + seq_diff s (wrap q)) = wrap s"
    unfolding wrap_def by (rule mod_congI)
  with assms show ?thesis by simp
qed

lemma seq_diff_eq_0: "valid_seq a \<Longrightarrow> valid_seq b \<Longrightarrow> seq_diff a b = 0 \<longleftrightarrow> a = b"
  using seq_position [of a b] by auto

lemma seq_add_diff: "valid_seq a \<Longrightarrow> valid_seq b \<Longrightarrow> seq_add b (seq_diff a b) = a"
  using seq_position [of a b] by (simp add: seq_add_valid)

lemma seq_diff_add:
  assumes "- SEQ_HALF \<le> seq_diff a b + k" and "seq_diff a b + k < SEQ_HALF"
  shows "seq_diff (seq_add a k) b = seq_diff a b + k"
proof -
  obtain l m where "wrap (a + k) = a + k - SEQ_SPACE * l"
    and "seq_diff a b = a - b - SEQ_SPACE * m"
    using wrap_decomp seq_diff_decomp by metis
  then have "seq_add a k - b - (seq_diff a b + k - 0) = SEQ_SPACE * (m - l)"
    by (simp add: seq_add_valid algebra_simps)
  then have "seq_diff (seq_add a k) b = seq_diff (seq_diff a b + k) 0"
    by (rule seq_diff_cong)
  with assms show ?thesis by (simp add: seq_diff_small)
qed

lemma seq_diff_sub:
  assumes "valid_seq a" and "valid_seq b" and "valid_seq c"
    and "- SEQ_HALF \<le> seq_diff a c - seq_diff b c" and "seq_diff a c - seq_diff b c < SEQ_HALF"
  shows "seq_diff a b = seq_diff a c - seq_diff b c"
proof -
  let ?p = "c + seq_diff a c" and ?q = "c + seq_diff b c"
  have "seq_diff (wrap ?p) (wrap ?q) = ?p - ?q"
    using assms by (intro seq_diff_wrap) simp_all
  then show ?thesis
    using assms seq_position [of a c] seq_position [of b c] by simp
qed


section \<open>The interface the buffers rely on\<close>

text \<open>
  A space of sequence numbers: an addition, a distance and a comparison that agree with
  those of stream positions while the positions are less than \<open>half\<close> apart. The laws of a
  window (a half-open interval of positions) follow from these alone.
\<close>

locale seq_space =
  fixes pos :: "int \<Rightarrow> 's"
    and add :: "'s \<Rightarrow> int \<Rightarrow> 's"
    and dist :: "'s \<Rightarrow> 's \<Rightarrow> int"
    and lt :: "'s \<Rightarrow> 's \<Rightarrow> bool"
    and half :: int
  assumes add_pos: "add (pos p) k = pos (p + k)"
    and dist_pos: "- half \<le> p - q \<Longrightarrow> p - q < half \<Longrightarrow> dist (pos p) (pos q) = p - q"
    and lt_dist: "lt a b \<longleftrightarrow> 0 < dist b a"
begin

lemma lt_pos: "\<bar>p - q\<bar> < half \<Longrightarrow> lt (pos p) (pos q) \<longleftrightarrow> p < q"
  by (simp add: lt_dist dist_pos)

lemma pos_eq: "\<bar>p - q\<bar> < half \<Longrightarrow> pos p = pos q \<longleftrightarrow> p = q"
  using dist_pos [of p q] dist_pos [of q q] by auto

lemma dist_add: "- half \<le> p + k - q \<Longrightarrow> p + k - q < half \<Longrightarrow> dist (add (pos p) k) (pos q) = p + k - q"
  by (simp add: add_pos dist_pos)

lemma lt_add: "0 < k \<Longrightarrow> k < half \<Longrightarrow> lt (pos p) (add (pos p) k)"
  by (simp add: add_pos lt_pos)

lemma lt_trans_window:
  "\<bar>p - q\<bar> < half \<Longrightarrow> \<bar>q - r\<bar> < half \<Longrightarrow> \<bar>p - r\<bar> < half \<Longrightarrow>
     lt (pos p) (pos q) \<Longrightarrow> lt (pos q) (pos r) \<Longrightarrow> lt (pos p) (pos r)"
  by (simp add: lt_pos)

lemma in_window:
  "0 \<le> w \<Longrightarrow> w < half \<Longrightarrow> \<bar>p - q\<bar> < half - w \<Longrightarrow>
     (pos p = pos q \<or> lt (pos q) (pos p)) \<and> lt (pos p) (add (pos q) w)
       \<longleftrightarrow> q \<le> p \<and> p < q + w"
  by (auto simp: add_pos lt_pos pos_eq)

end

interpretation seq: seq_space wrap seq_add seq_diff seq_lt SEQ_HALF
  by unfold_locales (simp_all add: seq_add_wrap seq_diff_wrap seq_lt_diff)

lemma seq_lt_wrap [seq_simps]: "\<bar>p - q\<bar> < SEQ_HALF \<Longrightarrow> seq_lt (wrap p) (wrap q) \<longleftrightarrow> p < q"
  by (rule seq.lt_pos)

lemma seq_gt_wrap [seq_simps]: "\<bar>p - q\<bar> < SEQ_HALF \<Longrightarrow> seq_gt (wrap p) (wrap q) \<longleftrightarrow> q < p"
  by (simp add: seq_gt_def seq.lt_pos)

lemma seq_ge_wrap [seq_simps]: "\<bar>p - q\<bar> < SEQ_HALF \<Longrightarrow> seq_ge (wrap p) (wrap q) \<longleftrightarrow> q \<le> p"
  by (auto simp: seq_ge_def seq.lt_pos seq.pos_eq)

lemma seq_le_wrap [seq_simps]: "\<bar>p - q\<bar> < SEQ_HALF \<Longrightarrow> seq_le (wrap p) (wrap q) \<longleftrightarrow> p \<le> q"
  by (auto simp: seq_le_def seq.lt_pos seq.pos_eq)

text \<open>The same space on machine words: a 32-bit addition, and the sign of a difference.\<close>

lemma sint_word32: "sint (word_of_int x :: 32 word) = seq_diff x 0"
proof -
  have "sint (word_of_int x :: 32 word) = signed_take_bit 31 x"
    by (simp add: sint_sbintrunc')
  also have "\<dots> = (x + 2 ^ 31) mod 2 ^ 32 - 2 ^ 31"
    by (simp add: signed_take_bit_eq_take_bit_shift take_bit_eq_mod)
  also have "\<dots> = seq_diff x 0"
    by (simp add: seq_diff_signed SEQ_HALF_def)
  finally show ?thesis .
qed

lemma seq_diff_shift: "seq_diff a b = seq_diff (a - b) 0"
  by (rule seq_diff_cong [of _ _ _ _ 0]) simp

lemma seq_diff_swap: "seq_diff a b \<noteq> - SEQ_HALF \<Longrightarrow> seq_diff b a = - seq_diff a b"
  and seq_diff_half: "seq_diff a b = - SEQ_HALF \<Longrightarrow> seq_diff b a = - SEQ_HALF"
proof -
  obtain k where "seq_diff a b = a - b - SEQ_SPACE * k"
    using seq_diff_decomp by metis
  then have "b - a - (- seq_diff a b - 0) = SEQ_SPACE * (- k)"
    by simp
  then have eq: "seq_diff b a = seq_diff (- seq_diff a b) 0"
    by (rule seq_diff_cong)
  have half_far: "seq_diff SEQ_HALF 0 = - SEQ_HALF"
    by (simp add: seq_diff_signed SEQ_HALF_def)
  show "seq_diff a b \<noteq> - SEQ_HALF \<Longrightarrow> seq_diff b a = - seq_diff a b"
    using seq_diff_range [of a b] by (subst eq, subst seq_diff_small) auto
  assume "seq_diff a b = - SEQ_HALF"
  with eq show "seq_diff b a = - SEQ_HALF"
    by (simp add: half_far)
qed


section \<open>Properties\<close>

text \<open>C25. Serial-number arithmetic is sound for a byte stream of any length: for two
  stream positions less than 2^31 apart, the comparisons and the signed distance of their
  wrapped sequence numbers are the comparisons and the distance of the positions, however
  often the sequence space has wrapped in between.\<close>

theorem seq_order_sound:
  assumes "\<bar>p - q\<bar> < SEQ_HALF"
  shows "(seq_lt (wrap p) (wrap q) \<longleftrightarrow> p < q) \<and> (seq_le (wrap p) (wrap q) \<longleftrightarrow> p \<le> q)
       \<and> (seq_gt (wrap p) (wrap q) \<longleftrightarrow> q < p) \<and> (seq_ge (wrap p) (wrap q) \<longleftrightarrow> q \<le> p)
       \<and> seq_diff (wrap p) (wrap q) = p - q
       \<and> seq_min (wrap p) (wrap q) = wrap (min p q)
       \<and> seq_max (wrap p) (wrap q) = wrap (max p q)"
  using assms by (auto simp: seq_simps seq_diff_wrap seq_min_def seq_max_def min_def max_def)

theorem seq_order_sound_witness:
  "seq_lt (wrap 4294967290) (wrap 4294967300) \<and> wrap 4294967300 = 4"
  using seq_order_sound [of 4294967290 4294967300]
  by (simp add: SEQ_HALF_def wrap_def)

text \<open>The ambiguous case of RFC 1982: any two sequence numbers are equal, or one
  precedes the other and not conversely, or they are exactly 2^31 apart, and then (and only
  then) all four comparisons answer False.\<close>

lemma seq_compare_cases:
  assumes "valid_seq a" and "valid_seq b"
  shows "(a = b \<and> \<not> seq_lt a b \<and> \<not> seq_lt b a)
       \<or> (a \<noteq> b \<and> seq_lt a b \<and> \<not> seq_lt b a)
       \<or> (a \<noteq> b \<and> seq_lt b a \<and> \<not> seq_lt a b)
       \<or> (seq_add a SEQ_HALF = b \<and> \<not> seq_lt a b \<and> \<not> seq_le a b \<and> \<not> seq_gt a b \<and> \<not> seq_ge a b)"
proof (cases "seq_diff b a = - SEQ_HALF")
  case True
  then have "seq_add a SEQ_HALF = b"
    using assms seq_add_diff [of b a] wrap_mod_cong [of "a + SEQ_HALF" "a - SEQ_HALF"]
    by (simp add: seq_add_valid SEQ_HALF_def)
  moreover have "a \<noteq> b"
    using True by (auto simp: SEQ_HALF_def)
  moreover have "seq_diff a b = - SEQ_HALF"
    using True by (rule seq_diff_half)
  ultimately show ?thesis
    using True by (auto simp: seq_lt_diff seq_le_def seq_gt_def seq_ge_def SEQ_HALF_def)
next
  case False
  then have "seq_diff a b = - seq_diff b a"
    by (rule seq_diff_swap)
  then show ?thesis
    using assms seq_diff_eq_0 [of a b] by (auto simp: seq_lt_diff)
qed

lemma seq_compare_cases_witness:
  "seq_add 5 SEQ_HALF = 2147483653 \<and> \<not> seq_le 5 2147483653 \<and> \<not> seq_ge 5 2147483653"
  using seq_compare_cases [of 5 2147483653]
  by (simp add: valid_seq_def seq_add_valid wrap_def SEQ_HALF_def seq_lt_def seq_le_def
      seq_ge_def and_SEQ_MASK)

text \<open>C26. The Python operations compute 32-bit two's-complement machine arithmetic:
  \<open>seq_add\<close> is the unsigned sum and \<open>seq_diff\<close> the signed reading of the difference.\<close>

theorem seq_machine_arithmetic:
  "seq_add a n = uint (word_of_int a + word_of_int n :: 32 word)
   \<and> seq_diff a b = sint (word_of_int a - word_of_int b :: 32 word)"
proof
  show "seq_add a n = uint (word_of_int a + word_of_int n :: 32 word)"
    by (simp add: seq_add_valid wrap_def uint_word_of_int flip: of_int_add)
  show "seq_diff a b = sint (word_of_int a - word_of_int b :: 32 word)"
    unfolding seq_diff_shift [of a b]
    by (simp add: sint_word32 [symmetric] flip: of_int_diff)
qed

text \<open>The receive-window test is exact: with a window smaller than half the space,
  \<open>seq_between\<close> accepts precisely the sequence numbers whose unsigned distance past the
  left edge is below the window size.\<close>

lemma seq_between_window:
  assumes "valid_seq s" and "valid_seq low" and "0 \<le> w" and "w < SEQ_HALF"
  shows "seq_between s low (seq_add low w) \<longleftrightarrow> (s - low) mod SEQ_SPACE < w"
proof -
  define d where "d = seq_diff s low"
  have d: "- SEQ_HALF \<le> d" "d < SEQ_HALF"
    using seq_diff_range [of s low] by (simp_all add: d_def)
  have s: "s = wrap (low + d)"
    using seq_position [OF assms(1), of low] assms(2) by (simp add: d_def)
  have "(s - low) mod SEQ_SPACE = d mod SEQ_SPACE"
    unfolding s wrap_def by (simp add: mod_diff_left_eq)
  also have "\<dots> = (if 0 \<le> d then d else d + SEQ_SPACE)"
    using d mod_pos_pos_trivial [of "d + SEQ_SPACE" SEQ_SPACE] by (simp add: SEQ_HALF_def)
  finally have off: "(s - low) mod SEQ_SPACE = (if 0 \<le> d then d else d + SEQ_SPACE)" .
  have ge: "seq_ge s low \<longleftrightarrow> 0 \<le> d"
    using seq_diff_eq_0 [OF assms(1,2)] by (auto simp: seq_ge_diff d_def)
  have "seq_lt s (seq_add low w) \<longleftrightarrow> d < w" if "0 \<le> d"
    unfolding s seq_add_valid using that d assms(3,4) by (subst seq_lt_wrap) auto
  with off ge d assms(4) show ?thesis
    by (auto simp: seq_between_def SEQ_HALF_def)
qed

lemma seq_between_window_witness:
  "seq_between 3 4294967290 (seq_add 4294967290 65535)"
  using seq_between_window [of 3 4294967290 65535] by (simp add: valid_seq_def SEQ_HALF_def)

end
