(* ===== verification/Reorder.thy ===== *)
theory Reorder
  imports Seqno
begin

text \<open>
  \<open>minitcp/net/tcp/reorder.py\<close>: the holding area for segments that arrived ahead of
  their turn. The record is the object's fields, the operations its methods; a method that
  changes the object returns the new one. The interface \<open>parking_area\<close> states what the
  receive queue relies on, and is interpreted on the operations of the class.
\<close>

section \<open>State and operations\<close>

record reorder_queue =
  ro_data :: "(seqno, bytes) dict"
  ro_capacity :: int
  ro_bytes_buffered :: int
  ro_duplicates :: int
  ro_overflows :: int

definition ReorderQueue_init :: "int \<Rightarrow> py_error + reorder_queue" where
  "ReorderQueue_init capacity =
     (if capacity \<le> 0 then Inl ValueError
      else Inr \<lparr>ro_data = [], ro_capacity = capacity, ro_bytes_buffered = 0,
                ro_duplicates = 0, ro_overflows = 0\<rparr>)"

definition ReorderQueue_insert :: "reorder_queue \<Rightarrow> seqno \<Rightarrow> bytes \<Rightarrow> reorder_queue \<times> bool" where
  "ReorderQueue_insert q seq payload =
     (if payload = [] then (q, True)
      else if map_of (ro_data q) seq \<noteq> None then
        (q\<lparr>ro_duplicates := ro_duplicates q + 1\<rparr>, False)
      else if ro_capacity q < ro_bytes_buffered q + len payload then
        (q\<lparr>ro_overflows := ro_overflows q + 1\<rparr>, False)
      else
        (q\<lparr>ro_data := AList.update seq payload (ro_data q),
           ro_bytes_buffered := ro_bytes_buffered q + len payload\<rparr>, True))"

definition ReorderQueue_take :: "reorder_queue \<Rightarrow> seqno \<Rightarrow> reorder_queue \<times> bytes option" where
  "ReorderQueue_take q seq =
     (case map_of (ro_data q) seq of
        None \<Rightarrow> (q, None)
      | Some data \<Rightarrow>
          (q\<lparr>ro_data := AList.delete seq (ro_data q),
             ro_bytes_buffered := ro_bytes_buffered q - len data\<rparr>, Some data))"

definition ReorderQueue_peek :: "reorder_queue \<Rightarrow> seqno \<Rightarrow> bytes option" where
  "ReorderQueue_peek q seq = map_of (ro_data q) seq"

text \<open>\<open>discard_before\<close> first lists the stale keys and then pops them one by one.\<close>

definition ReorderQueue_discard_before :: "reorder_queue \<Rightarrow> seqno \<Rightarrow> reorder_queue \<times> int" where
  "ReorderQueue_discard_before q seq =
     (let stale = filter (\<lambda>s. seq_lt s seq) (dict_keys (ro_data q))
      in (fold (\<lambda>key q'. fst (ReorderQueue_take q' key)) stale q, len stale))"

definition ReorderQueue_clear :: "reorder_queue \<Rightarrow> reorder_queue" where
  "ReorderQueue_clear q = q\<lparr>ro_data := [], ro_bytes_buffered := 0\<rparr>"

definition ReorderQueue_free :: "reorder_queue \<Rightarrow> int" where
  "ReorderQueue_free q = max (ro_capacity q - ro_bytes_buffered q) 0"

definition ReorderQueue_len :: "reorder_queue \<Rightarrow> int" where
  "ReorderQueue_len q = len (ro_data q)"

definition ReorderQueue_contains :: "reorder_queue \<Rightarrow> seqno \<Rightarrow> bool" where
  "ReorderQueue_contains q seq \<longleftrightarrow> seq \<in> set (dict_keys (ro_data q))"


section \<open>Accounting invariant\<close>

text \<open>The byte counter is the sum of the payloads held, no payload is empty, no sequence
  number is held twice, and the total is within the capacity.\<close>

definition reorder_inv :: "reorder_queue \<Rightarrow> bool" where
  "reorder_inv q \<longleftrightarrow>
     dict_wf (ro_data q) \<and> ro_bytes_buffered q = dict_bytes (ro_data q)
     \<and> ro_bytes_buffered q \<le> ro_capacity q \<and> 0 < ro_capacity q
     \<and> (\<forall>e \<in> set (ro_data q). snd e \<noteq> [])"

definition reorder_entries :: "reorder_queue \<Rightarrow> (seqno \<rightharpoonup> bytes)" where
  "reorder_entries q = map_of (ro_data q)"

lemma reorder_inv_init: "ReorderQueue_init cap = Inr q \<Longrightarrow> reorder_inv q"
  by (auto simp: ReorderQueue_init_def reorder_inv_def split: if_splits)

lemma reorder_inv_insert: "reorder_inv q \<Longrightarrow> reorder_inv (fst (ReorderQueue_insert q s d))"
  by (simp add: ReorderQueue_insert_def reorder_inv_def dict_update_fresh_keys map_of_eq_None_iff)

lemma reorder_inv_take: "reorder_inv q \<Longrightarrow> reorder_inv (fst (ReorderQueue_take q s))"
  by (auto simp: ReorderQueue_take_def reorder_inv_def dict_bytes_delete
      split: option.splits dest!: set_dict_delete)

lemma reorder_inv_fold_take:
  "reorder_inv q \<Longrightarrow> reorder_inv (fold (\<lambda>key q'. fst (ReorderQueue_take q' key)) ks q)"
  by (induction ks arbitrary: q) (auto simp: reorder_inv_take)

lemma reorder_inv_discard: "reorder_inv q \<Longrightarrow> reorder_inv (fst (ReorderQueue_discard_before q s))"
  by (simp add: ReorderQueue_discard_before_def Let_def reorder_inv_fold_take)

lemma reorder_inv_clear: "reorder_inv q \<Longrightarrow> reorder_inv (ReorderQueue_clear q)"
  by (simp add: ReorderQueue_clear_def reorder_inv_def)

lemma reorder_capacity [simp]:
  "ro_capacity (fst (ReorderQueue_insert q s d)) = ro_capacity q"
  "ro_capacity (fst (ReorderQueue_take q s)) = ro_capacity q"
  "ro_capacity (ReorderQueue_clear q) = ro_capacity q"
  by (auto simp: ReorderQueue_insert_def ReorderQueue_take_def ReorderQueue_clear_def
      split: option.splits)


section \<open>The interface the receive queue uses\<close>

text \<open>
  A parking area maps sequence numbers to payloads within a byte budget: an insertion
  stores a fresh payload that fits and nothing else, taking a sequence number returns what
  is stored there and removes it.
\<close>

locale parking_area =
  fixes insert :: "'q \<Rightarrow> 's \<Rightarrow> 'b list \<Rightarrow> 'q \<times> bool"
    and take :: "'q \<Rightarrow> 's \<Rightarrow> 'q \<times> 'b list option"
    and entries :: "'q \<Rightarrow> ('s \<rightharpoonup> 'b list)"
    and held :: "'q \<Rightarrow> int"
    and capacity :: "'q \<Rightarrow> int"
    and invar :: "'q \<Rightarrow> bool"
  assumes insert_entries: "invar q \<Longrightarrow> entries (fst (insert q s d)) =
      (if d \<noteq> [] \<and> entries q s = None \<and> held q + len d \<le> capacity q
       then (entries q)(s \<mapsto> d) else entries q)"
    and insert_held: "invar q \<Longrightarrow> held (fst (insert q s d)) =
      (if d \<noteq> [] \<and> entries q s = None \<and> held q + len d \<le> capacity q
       then held q + len d else held q)"
    and take_result: "invar q \<Longrightarrow> snd (take q s) = entries q s"
    and take_entries: "invar q \<Longrightarrow> entries (fst (take q s)) = (entries q)(s := None)"
    and take_held: "invar q \<Longrightarrow> held (fst (take q s)) =
      held q - (case entries q s of None \<Rightarrow> 0 | Some d \<Rightarrow> len d)"
    and insert_invar: "invar q \<Longrightarrow> invar (fst (insert q s d))"
    and take_invar: "invar q \<Longrightarrow> invar (fst (take q s))"
    and held_bound: "invar q \<Longrightarrow> 0 \<le> held q \<and> held q \<le> capacity q"
begin

lemma insert_then_take:
  "invar q \<Longrightarrow> d \<noteq> [] \<Longrightarrow> entries q s = None \<Longrightarrow> held q + len d \<le> capacity q \<Longrightarrow>
     snd (take (fst (insert q s d)) s) = Some d
     \<and> entries (fst (take (fst (insert q s d)) s)) = entries q
     \<and> held (fst (take (fst (insert q s d)) s)) = held q"
  by (simp add: take_result take_entries take_held insert_entries insert_held insert_invar
      fun_upd_idem)

lemma insert_entry_cases:
  "invar q \<Longrightarrow> entries (fst (insert q s d)) k = Some x \<Longrightarrow>
     entries q k = Some x \<or> (k = s \<and> x = d)"
  by (auto simp: insert_entries split: if_splits)

lemma take_entry: "invar q \<Longrightarrow> entries (fst (take q s)) k = Some x \<Longrightarrow> entries q k = Some x"
  by (auto simp: take_entries split: if_splits)

end

lemma map_of_dict_delete: "map_of (AList.delete k d) = (map_of d)(k := None)"
  by (rule AList.delete_conv')

interpretation reorder:
  parking_area ReorderQueue_insert ReorderQueue_take reorder_entries ro_bytes_buffered
    ro_capacity reorder_inv
proof unfold_locales
  fix q :: reorder_queue and s :: seqno and d :: bytes
  assume inv: "reorder_inv q"
  show "reorder_entries (fst (ReorderQueue_insert q s d)) =
      (if d \<noteq> [] \<and> reorder_entries q s = None \<and> ro_bytes_buffered q + len d \<le> ro_capacity q
       then (reorder_entries q)(s \<mapsto> d) else reorder_entries q)"
    by (simp add: ReorderQueue_insert_def reorder_entries_def update_conv')
  show "ro_bytes_buffered (fst (ReorderQueue_insert q s d)) =
      (if d \<noteq> [] \<and> reorder_entries q s = None \<and> ro_bytes_buffered q + len d \<le> ro_capacity q
       then ro_bytes_buffered q + len d else ro_bytes_buffered q)"
    by (simp add: ReorderQueue_insert_def reorder_entries_def)
  show "snd (ReorderQueue_take q s) = reorder_entries q s"
    and "reorder_entries (fst (ReorderQueue_take q s)) = (reorder_entries q)(s := None)"
    and "ro_bytes_buffered (fst (ReorderQueue_take q s)) =
      ro_bytes_buffered q - (case reorder_entries q s of None \<Rightarrow> 0 | Some d \<Rightarrow> len d)"
    by (simp_all add: ReorderQueue_take_def reorder_entries_def map_of_dict_delete
        fun_upd_idem split: option.splits)
  show "reorder_inv (fst (ReorderQueue_insert q s d))"
    and "reorder_inv (fst (ReorderQueue_take q s))"
    using inv by (rule reorder_inv_insert reorder_inv_take)+
  show "0 \<le> ro_bytes_buffered q \<and> ro_bytes_buffered q \<le> ro_capacity q"
    using inv by (simp add: reorder_inv_def)
qed


section \<open>Properties\<close>

text \<open>The operations a caller can apply to the queue, in any order.\<close>

datatype reorder_op = RInsert seqno bytes | RTake seqno | RDiscard seqno | RClear

fun reorder_apply :: "reorder_op \<Rightarrow> reorder_queue \<Rightarrow> reorder_queue" where
  "reorder_apply (RInsert s d) q = fst (ReorderQueue_insert q s d)"
| "reorder_apply (RTake s) q = fst (ReorderQueue_take q s)"
| "reorder_apply (RDiscard s) q = fst (ReorderQueue_discard_before q s)"
| "reorder_apply RClear q = ReorderQueue_clear q"

lemma reorder_inv_apply: "reorder_inv q \<Longrightarrow> reorder_inv (reorder_apply f q)"
  by (cases f) (simp_all add: reorder_inv_insert reorder_inv_take reorder_inv_discard
      reorder_inv_clear)

lemma reorder_capacity_fold [simp]:
  "ro_capacity (fold (\<lambda>key q'. fst (ReorderQueue_take q' key)) ks q) = ro_capacity q"
  by (induction ks arbitrary: q) auto

lemma reorder_capacity_apply: "ro_capacity (reorder_apply f q) = ro_capacity q"
  by (cases f) (simp_all add: ReorderQueue_discard_before_def Let_def)

lemma reorder_run:
  "reorder_inv q \<Longrightarrow> reorder_inv (fold reorder_apply fs q)
     \<and> ro_capacity (fold reorder_apply fs q) = ro_capacity q"
  by (induction fs arbitrary: q) (auto simp: reorder_inv_apply reorder_capacity_apply)

text \<open>The holding area is a hard memory bound: after any sequence of inserts, takes,
  discards and clears on a queue created with a positive capacity, the bytes held are
  exactly what the counter says and never exceed that capacity.\<close>

lemma reorder_memory_bound:
  assumes "ReorderQueue_init cap = Inr q0"
  shows "let q = fold reorder_apply fs q0
         in ro_bytes_buffered q = dict_bytes (ro_data q) \<and> ro_bytes_buffered q \<le> cap
            \<and> distinct (dict_keys (ro_data q))"
proof -
  have "ro_capacity q0 = cap"
    using assms by (auto simp: ReorderQueue_init_def split: if_splits)
  with reorder_run [OF reorder_inv_init [OF assms], of fs] show ?thesis
    by (simp add: reorder_inv_def Let_def)
qed

lemma reorder_memory_bound_witness:
  "\<exists>q0. ReorderQueue_init 3 = Inr q0
     \<and> ro_bytes_buffered (fold reorder_apply [RInsert 5 [1, 2], RInsert 9 [3, 4]] q0) = 2"
proof -
  obtain q0 where q0: "ReorderQueue_init 3 = Inr q0"
    by (simp add: ReorderQueue_init_def)
  have "ro_bytes_buffered (fold reorder_apply [RInsert 5 [1, 2], RInsert 9 [3, 4]] q0) \<le> 3"
    using reorder_memory_bound [OF q0, of "[RInsert 5 [1, 2], RInsert 9 [3, 4]]"]
    by (simp add: Let_def)
  with q0 show ?thesis
    by (auto simp: ReorderQueue_init_def ReorderQueue_insert_def)
qed

end
