(* ===== verification/Buffer.thy ===== *)
theory Buffer
  imports Reorder
begin

text \<open>
  \<open>minitcp/net/tcp/buffer.py\<close>: the byte streams of a connection. \<open>SendQueue\<close> keeps
  bytes until they are acknowledged, \<open>ReceiveQueue\<close> keeps them until the application
  reads them and parks what arrives early in a \<open>ReorderQueue\<close>. The lemmas show what the
  two classes implement of a byte stream: the send buffer is always the unacknowledged
  tail of what was written, and the receive buffer a gap-free piece of what the peer
  sent, whatever the order, overlap and duplication of the segments that arrive.
\<close>

section \<open>The send queue\<close>

record send_queue =
  sq_una :: seqno
  sq_nxt :: seqno
  sq_buf :: bytes
  sq_capacity :: int
  sq_bytes_written :: int

definition SendQueue_init :: "seqno \<Rightarrow> int \<Rightarrow> py_error + send_queue" where
  "SendQueue_init iss capacity =
     (if capacity \<le> 0 then Inl ValueError
      else Inr \<lparr>sq_una = iss, sq_nxt = iss, sq_buf = [], sq_capacity = capacity,
                sq_bytes_written = 0\<rparr>)"

definition SendQueue_write :: "send_queue \<Rightarrow> bytes \<Rightarrow> send_queue \<times> int" where
  "SendQueue_write q data =
     (let room = sq_capacity q - len (sq_buf q)
      in if room \<le> 0 then (q, 0)
         else let chunk = py_upto data room
              in (q\<lparr>sq_buf := sq_buf q @ chunk,
                    sq_bytes_written := sq_bytes_written q + len chunk\<rparr>, len chunk))"

definition SendQueue_peek :: "send_queue \<Rightarrow> seqno \<Rightarrow> int \<Rightarrow> bytes" where
  "SendQueue_peek q seq n =
     (let offset = seq_diff seq (sq_una q)
      in if offset < 0 \<or> n \<le> 0 then []
         else py_from (py_upto (sq_buf q) (offset + n)) offset)"

definition SendQueue_acknowledge :: "send_queue \<Rightarrow> seqno \<Rightarrow> send_queue \<times> int" where
  "SendQueue_acknowledge q ack =
     (if \<not> seq_gt ack (sq_una q) then (q, 0)
      else let count = seq_diff ack (sq_una q);
               dropped = min count (len (sq_buf q));
               q1 = (if dropped \<noteq> 0 then q\<lparr>sq_buf := py_from (sq_buf q) dropped\<rparr> else q);
               q2 = q1\<lparr>sq_una := ack\<rparr>;
               q3 = (if seq_lt (sq_nxt q2) ack then q2\<lparr>sq_nxt := ack\<rparr> else q2)
           in (q3, count))"

definition SendQueue_rewind :: "send_queue \<Rightarrow> seqno \<Rightarrow> send_queue" where
  "SendQueue_rewind q seq = q\<lparr>sq_nxt := seq\<rparr>"

definition SendQueue_buffered :: "send_queue \<Rightarrow> int" where
  "SendQueue_buffered q = len (sq_buf q)"

definition SendQueue_in_flight :: "send_queue \<Rightarrow> int" where
  "SendQueue_in_flight q = max (seq_diff (sq_nxt q) (sq_una q)) 0"

definition SendQueue_unsent :: "send_queue \<Rightarrow> int" where
  "SendQueue_unsent q = max (len (sq_buf q) - SendQueue_in_flight q) 0"

definition SendQueue_space :: "send_queue \<Rightarrow> int" where
  "SendQueue_space q = max (sq_capacity q - len (sq_buf q)) 0"

definition SendQueue_is_empty :: "send_queue \<Rightarrow> bool" where
  "SendQueue_is_empty q \<longleftrightarrow> sq_buf q = []"

definition SendQueue_clear :: "send_queue \<Rightarrow> send_queue" where
  "SendQueue_clear q = q\<lparr>sq_buf := []\<rparr>"


section \<open>The receive queue\<close>

record receive_queue =
  rq_nxt :: seqno
  rq_buf :: bytes
  rq_read_pos :: int
  rq_ooo :: reorder_queue
  rq_capacity :: int
  rq_bytes_received :: int
  rq_duplicates :: int

definition ReceiveQueue_init :: "seqno \<Rightarrow> int \<Rightarrow> py_error + receive_queue" where
  "ReceiveQueue_init irs capacity =
     (if capacity \<le> 0 then Inl ValueError
      else case ReorderQueue_init capacity of
             Inl e \<Rightarrow> Inl e
           | Inr ooo \<Rightarrow>
               Inr \<lparr>rq_nxt = seq_add irs 1, rq_buf = [], rq_read_pos = 0, rq_ooo = ooo,
                    rq_capacity = capacity, rq_bytes_received = 0, rq_duplicates = 0\<rparr>)"

definition ReceiveQueue_available :: "receive_queue \<Rightarrow> int" where
  "ReceiveQueue_available q = len (rq_buf q) - rq_read_pos q"

definition ReceiveQueue_held_out_of_order :: "receive_queue \<Rightarrow> int" where
  "ReceiveQueue_held_out_of_order q = ro_bytes_buffered (rq_ooo q)"

definition ReceiveQueue_window :: "receive_queue \<Rightarrow> int" where
  "ReceiveQueue_window q =
     (let used = ReceiveQueue_available q + ReceiveQueue_held_out_of_order q
      in max (rq_capacity q - used) 0)"

text \<open>Appending a piece that is next in order: the buffer, \<open>nxt\<close> and the counter move.\<close>

definition ReceiveQueue_extend :: "receive_queue \<Rightarrow> bytes \<Rightarrow> receive_queue" where
  "ReceiveQueue_extend q data =
     q\<lparr>rq_buf := rq_buf q @ data, rq_nxt := seq_add (rq_nxt q) (len data),
       rq_bytes_received := rq_bytes_received q + len data\<rparr>"

text \<open>The loop of \<open>_accept\<close> that pulls in whatever the holding area can now supply. Each
  round removes one parked segment, so it ends.\<close>

function ReceiveQueue_drain :: "receive_queue \<Rightarrow> int \<Rightarrow> receive_queue \<times> int" where
  "ReceiveQueue_drain q newly =
     (case ReorderQueue_take (rq_ooo q) (rq_nxt q) of
        (ooo, None) \<Rightarrow> (q\<lparr>rq_ooo := ooo\<rparr>, newly)
      | (ooo, Some data) \<Rightarrow>
          ReceiveQueue_drain (ReceiveQueue_extend (q\<lparr>rq_ooo := ooo\<rparr>) data) (newly + len data))"
  by pat_completeness auto
termination
  by (relation "measure (\<lambda>(q, newly). length (ro_data (rq_ooo q)))")
     (auto simp: ReorderQueue_take_def ReceiveQueue_extend_def length_dict_delete
       split: option.splits)

declare ReceiveQueue_drain.simps [simp del]

lemma ReceiveQueue_drain_code [code]:
  "ReceiveQueue_drain q newly =
     (case map_of (ro_data (rq_ooo q)) (rq_nxt q) of
        None \<Rightarrow> (q, newly)
      | Some data \<Rightarrow>
          ReceiveQueue_drain
            (ReceiveQueue_extend (q\<lparr>rq_ooo := fst (ReorderQueue_take (rq_ooo q) (rq_nxt q))\<rparr>) data)
            (newly + len data))"
  by (subst ReceiveQueue_drain.simps) (auto simp: ReorderQueue_take_def split: option.splits)

definition ReceiveQueue_accept :: "receive_queue \<Rightarrow> bytes \<Rightarrow> receive_queue \<times> int" where
  "ReceiveQueue_accept q payload =
     (let room = ReceiveQueue_window q
      in if room \<le> 0 then (q, 0)
         else let chunk = py_upto payload room
              in ReceiveQueue_drain (ReceiveQueue_extend q chunk) (len chunk))"

text \<open>\<open>insert\<close> calls itself once, with the part of an overlapping segment that is new; that
  call starts exactly at \<open>nxt\<close>.\<close>

function ReceiveQueue_insert :: "receive_queue \<Rightarrow> seqno \<Rightarrow> bytes \<Rightarrow> receive_queue \<times> int" where
  "ReceiveQueue_insert q seq payload =
     (if payload = [] then (q, 0)
      else if seq = rq_nxt q then ReceiveQueue_accept q payload
      else if seq_gt seq (rq_nxt q) then
        (let room = ReceiveQueue_window q;
             payload' = (if room < len payload then py_upto payload room else payload)
         in if payload' \<noteq> []
            then (q\<lparr>rq_ooo := fst (ReorderQueue_insert (rq_ooo q) seq payload')\<rparr>, 0)
            else (q, 0))
      else
        (let overlap = seq_diff (rq_nxt q) seq
         in if len payload \<le> overlap then (q\<lparr>rq_duplicates := rq_duplicates q + 1\<rparr>, 0)
            else ReceiveQueue_insert (q\<lparr>rq_duplicates := rq_duplicates q + 1\<rparr>)
                   (rq_nxt q) (py_from payload overlap)))"
  by pat_completeness auto
termination
  by (relation "measure (\<lambda>(q, seq, payload). if seq = rq_nxt q then 0 else 1)") auto

declare ReceiveQueue_insert.simps [simp del]

definition ReceiveQueue_read :: "receive_queue \<Rightarrow> int \<Rightarrow> receive_queue \<times> bytes" where
  "ReceiveQueue_read q max_bytes =
     (if max_bytes \<le> 0 then (q, [])
      else let stop = min (rq_read_pos q + max_bytes) (len (rq_buf q));
               chunk = py_from (py_upto (rq_buf q) stop) (rq_read_pos q);
               q1 = q\<lparr>rq_read_pos := stop\<rparr>;
               q2 = (if 65536 < rq_read_pos q1 \<and> len (rq_buf q1) < rq_read_pos q1 * 2
                     then q1\<lparr>rq_buf := py_from (rq_buf q1) (rq_read_pos q1), rq_read_pos := 0\<rparr>
                     else q1)
           in (q2, chunk))"

definition ReceiveQueue_discard_before :: "receive_queue \<Rightarrow> seqno \<Rightarrow> receive_queue" where
  "ReceiveQueue_discard_before q seq =
     q\<lparr>rq_ooo := fst (ReorderQueue_discard_before (rq_ooo q) seq)\<rparr>"

definition ReceiveQueue_clear :: "receive_queue \<Rightarrow> receive_queue" where
  "ReceiveQueue_clear q =
     q\<lparr>rq_buf := [], rq_read_pos := 0, rq_ooo := ReorderQueue_clear (rq_ooo q)\<rparr>"


section \<open>Invariants\<close>

definition send_inv :: "send_queue \<Rightarrow> bool" where
  "send_inv q \<longleftrightarrow> 0 < sq_capacity q \<and> len (sq_buf q) \<le> sq_capacity q
     \<and> valid_seq (sq_una q) \<and> valid_seq (sq_nxt q) \<and> 0 \<le> seq_diff (sq_nxt q) (sq_una q)"

definition recv_inv :: "receive_queue \<Rightarrow> bool" where
  "recv_inv q \<longleftrightarrow> 0 \<le> rq_read_pos q \<and> rq_read_pos q \<le> len (rq_buf q)
     \<and> reorder_inv (rq_ooo q) \<and> ro_capacity (rq_ooo q) = rq_capacity q \<and> 0 < rq_capacity q
     \<and> ReceiveQueue_available q + ReceiveQueue_held_out_of_order q \<le> rq_capacity q
     \<and> valid_seq (rq_nxt q)"

lemmas recv_defs =
  ReceiveQueue_available_def ReceiveQueue_held_out_of_order_def ReceiveQueue_window_def Let_def

lemma send_inv_init: "valid_seq iss \<Longrightarrow> SendQueue_init iss cap = Inr q \<Longrightarrow> send_inv q"
  by (auto simp: SendQueue_init_def send_inv_def split: if_splits)

lemma send_inv_write: "send_inv q \<Longrightarrow> send_inv (fst (SendQueue_write q d))"
  by (auto simp: SendQueue_write_def send_inv_def Let_def)

lemma send_inv_clear: "send_inv q \<Longrightarrow> send_inv (SendQueue_clear q)"
  by (simp add: SendQueue_clear_def send_inv_def)

text \<open>What \<open>acknowledge\<close> does to each field.\<close>

lemma SendQueue_acknowledge_old:
  "\<not> seq_gt ack (sq_una q) \<Longrightarrow> SendQueue_acknowledge q ack = (q, 0)"
  by (simp add: SendQueue_acknowledge_def)

lemma SendQueue_acknowledge_new:
  assumes "seq_gt ack (sq_una q)"
  shows "SendQueue_acknowledge q ack =
    (q\<lparr>sq_una := ack, sq_buf := drop (nat (seq_diff ack (sq_una q))) (sq_buf q),
       sq_nxt := (if seq_lt (sq_nxt q) ack then ack else sq_nxt q)\<rparr>,
     seq_diff ack (sq_una q))"
proof -
  have "0 < seq_diff ack (sq_una q)"
    using assms by (simp add: seq_gt_diff)
  then show ?thesis
    using assms by (cases q) (auto simp: SendQueue_acknowledge_def Let_def min_def nat_le_iff)
qed

lemma seq_diff_ack_nxt:
  assumes "send_inv q" and "seq_gt ack (sq_una q)" and "valid_seq ack"
  shows "seq_diff (sq_nxt q) ack = seq_diff (sq_nxt q) (sq_una q) - seq_diff ack (sq_una q)"
    and "seq_lt (sq_nxt q) ack \<longleftrightarrow>
           seq_diff (sq_nxt q) (sq_una q) < seq_diff ack (sq_una q)"
proof -
  have a: "0 < seq_diff ack (sq_una q)"
    using assms by (simp add: seq_gt_diff)
  have r: "seq_diff ack (sq_una q) < SEQ_HALF" "seq_diff (sq_nxt q) (sq_una q) < SEQ_HALF"
    by (simp_all add: seq_diff_range)
  have n: "0 \<le> seq_diff (sq_nxt q) (sq_una q)" "valid_seq (sq_una q)" "valid_seq (sq_nxt q)"
    using assms by (simp_all add: send_inv_def)
  show "seq_diff (sq_nxt q) ack = seq_diff (sq_nxt q) (sq_una q) - seq_diff ack (sq_una q)"
    using a r n assms(3) by (intro seq_diff_sub) linarith+
  have "seq_diff ack (sq_nxt q) = seq_diff ack (sq_una q) - seq_diff (sq_nxt q) (sq_una q)"
    using a r n assms(3) by (intro seq_diff_sub) linarith+
  then show "seq_lt (sq_nxt q) ack \<longleftrightarrow>
           seq_diff (sq_nxt q) (sq_una q) < seq_diff ack (sq_una q)"
    by (simp add: seq_lt_diff)
qed

lemma send_inv_acknowledge:
  assumes "send_inv q" and "valid_seq ack"
  shows "send_inv (fst (SendQueue_acknowledge q ack))"
proof (cases "seq_gt ack (sq_una q)")
  case True
  with assms seq_diff_ack_nxt [OF assms(1) True assms(2)] show ?thesis
    by (auto simp: SendQueue_acknowledge_new send_inv_def)
qed (simp add: SendQueue_acknowledge_old assms)

text \<open>The in-flight count after an acknowledgement: what was in flight less what was
  acknowledged, and nothing when more was acknowledged than had been sent.\<close>

lemma in_flight_acknowledge:
  assumes "send_inv q" and "valid_seq ack" and "seq_gt ack (sq_una q)"
  shows "SendQueue_in_flight (fst (SendQueue_acknowledge q ack))
         = max (SendQueue_in_flight q - seq_diff ack (sq_una q)) 0"
  using assms seq_diff_ack_nxt [OF assms(1,3,2)]
  by (auto simp: SendQueue_in_flight_def SendQueue_acknowledge_new max_def send_inv_def)

lemma recv_inv_init: "ReceiveQueue_init irs cap = Inr q \<Longrightarrow> recv_inv q"
  by (auto simp: ReceiveQueue_init_def recv_inv_def recv_defs ReorderQueue_init_def
      reorder_inv_def split: if_splits sum.splits)

lemma recv_inv_extend:
  "recv_inv q \<Longrightarrow> len d \<le> ReceiveQueue_window q \<Longrightarrow> recv_inv (ReceiveQueue_extend q d)"
  by (auto simp: recv_inv_def recv_defs ReceiveQueue_extend_def max_def split: if_splits)

text \<open>Moving a parked segment into the in-order buffer leaves the space used unchanged.\<close>

lemma recv_inv_drain_step:
  assumes "recv_inv q" and "ReorderQueue_take (rq_ooo q) (rq_nxt q) = (ooo, Some d)"
  shows "recv_inv (ReceiveQueue_extend (q\<lparr>rq_ooo := ooo\<rparr>) d)"
proof -
  have inv: "reorder_inv (rq_ooo q)"
    using assms by (simp add: recv_inv_def)
  from reorder.take_held [OF inv, of "rq_nxt q"] reorder.take_result [OF inv, of "rq_nxt q"]
  have "ro_bytes_buffered ooo = ro_bytes_buffered (rq_ooo q) - len d"
    using assms(2) by (auto split: option.splits)
  moreover have "reorder_inv ooo" "ro_capacity ooo = ro_capacity (rq_ooo q)"
    using reorder.take_invar [OF inv, of "rq_nxt q"] reorder_capacity(2) [of "rq_ooo q" "rq_nxt q"]
      assms(2) by simp_all
  ultimately show ?thesis
    using assms(1) by (auto simp: recv_inv_def recv_defs ReceiveQueue_extend_def)
qed

lemma reorder_take_None: "ReorderQueue_take r s = (r', None) \<Longrightarrow> r' = r"
  by (auto simp: ReorderQueue_take_def split: option.splits)

lemma recv_inv_drain: "recv_inv q \<Longrightarrow> recv_inv (fst (ReceiveQueue_drain q n))"
proof (induction q n rule: ReceiveQueue_drain.induct)
  case (1 q n)
  show ?case
    using "1.prems" "1.IH" recv_inv_drain_step [OF "1.prems"]
    by (subst ReceiveQueue_drain.simps)
       (auto split: prod.splits option.splits dest: reorder_take_None)
qed

lemma recv_inv_accept: "recv_inv q \<Longrightarrow> recv_inv (fst (ReceiveQueue_accept q d))"
  by (auto simp: ReceiveQueue_accept_def Let_def intro!: recv_inv_drain recv_inv_extend)

lemma recv_inv_park:
  assumes "recv_inv q" and "len d \<le> ReceiveQueue_window q"
  shows "recv_inv (q\<lparr>rq_ooo := fst (ReorderQueue_insert (rq_ooo q) s d)\<rparr>)"
  using assms reorder.insert_held [of "rq_ooo q" s d] reorder_inv_insert [of "rq_ooo q" s d]
  by (auto simp: recv_inv_def recv_defs max_def split: if_splits)

lemma recv_inv_duplicates: "recv_inv q \<Longrightarrow> recv_inv (q\<lparr>rq_duplicates := n\<rparr>)"
  by (simp add: recv_inv_def recv_defs)

lemma recv_inv_insert: "recv_inv q \<Longrightarrow> recv_inv (fst (ReceiveQueue_insert q s d))"
proof (induction q s d rule: ReceiveQueue_insert.induct)
  case (1 q s d)
  have "0 \<le> ReceiveQueue_window q"
    by (simp add: recv_defs)
  with 1 show ?case
    by (subst ReceiveQueue_insert.simps)
       (auto simp: Let_def recv_inv_accept recv_inv_duplicates intro!: recv_inv_park)
qed

lemma recv_inv_read: "recv_inv q \<Longrightarrow> recv_inv (fst (ReceiveQueue_read q n))"
  by (auto simp: ReceiveQueue_read_def recv_inv_def recv_defs)

lemma recv_inv_clear: "recv_inv q \<Longrightarrow> recv_inv (ReceiveQueue_clear q)"
  by (auto simp: ReceiveQueue_clear_def recv_inv_def recv_defs reorder_inv_clear)
     (simp add: ReorderQueue_clear_def)

lemma recv_inv_nxt: "recv_inv q \<Longrightarrow> valid_seq s \<Longrightarrow> recv_inv (q\<lparr>rq_nxt := s\<rparr>)"
  by (simp add: recv_inv_def recv_defs)

lemma reorder_capacity_discard [simp]:
  "ro_capacity (fst (ReorderQueue_discard_before q s)) = ro_capacity q"
  by (simp add: ReorderQueue_discard_before_def Let_def)



section \<open>The receive queue as a byte stream\<close>

text \<open>
  \<open>S\<close> is the stream the peer sends and \<open>b\<close> the sequence number of its first byte. A
  segment is a slice of \<open>S\<close>. The queue represents the stream up to position \<open>n\<close> with
  the first \<open>m\<close> bytes already read: the unread part of the buffer is the stream between
  \<open>m\<close> and \<open>n\<close>, \<open>nxt\<close> is the sequence number of position \<open>n\<close>, and every parked segment is
  a slice of \<open>S\<close> at the position its key names.
\<close>

definition is_slice :: "bytes \<Rightarrow> nat \<Rightarrow> bytes \<Rightarrow> bool" where
  "is_slice S p d \<longleftrightarrow> take (length d) (drop p S) = d"

definition unread :: "receive_queue \<Rightarrow> bytes" where
  "unread q = drop (nat (rq_read_pos q)) (rq_buf q)"

definition recv_stream :: "int \<Rightarrow> bytes \<Rightarrow> nat \<Rightarrow> nat \<Rightarrow> receive_queue \<Rightarrow> bool" where
  "recv_stream b S m n q \<longleftrightarrow>
     recv_inv q \<and> m \<le> n \<and> n \<le> length S \<and> rq_nxt q = wrap (b + int n)
     \<and> unread q = drop m (take n S)
     \<and> (\<forall>k d. reorder_entries (rq_ooo q) k = Some d \<longrightarrow>
           (\<exists>p. k = wrap (b + int p) \<and> is_slice S p d))"

lemma is_slice_length: "is_slice S p d \<Longrightarrow> d \<noteq> [] \<Longrightarrow> p + length d \<le> length S"
  unfolding is_slice_def by (cases d) (auto dest!: arg_cong [where f = length])

lemma is_slice_take: "is_slice S p d \<Longrightarrow> is_slice S p (take k d)"
  unfolding is_slice_def by (metis length_take min.cobounded2 take_take min.absorb1 min.commute)

lemma is_slice_drop: "is_slice S p d \<Longrightarrow> is_slice S (p + k) (drop k d)"
  unfolding is_slice_def by (metis drop_drop drop_take length_drop add.commute)

lemma is_slice_append: "is_slice S p d \<Longrightarrow> is_slice (S @ T) p d"
proof (cases "d = []")
  case False
  assume "is_slice S p d"
  moreover from this False have "p + length d \<le> length S"
    by (rule is_slice_length)
  ultimately show ?thesis
    by (simp add: is_slice_def)
qed (simp add: is_slice_def)

lemma take_is_slice:
  assumes "is_slice S n d"
  shows "take (n + length d) S = take n S @ d"
  using assms by (simp add: is_slice_def take_add)

lemma slice_extends:
  assumes "is_slice S n d" and "m \<le> n" and "n \<le> length S"
  shows "drop m (take (n + length d) S) = drop m (take n S) @ d"
  using assms by (simp add: take_is_slice)

lemma unread_length: "recv_inv q \<Longrightarrow> len (unread q) = ReceiveQueue_available q"
  by (simp add: unread_def recv_inv_def recv_defs nat_le_iff)

lemma unread_extend: "recv_inv q \<Longrightarrow> unread (ReceiveQueue_extend q d) = unread q @ d"
  by (simp add: unread_def ReceiveQueue_extend_def recv_inv_def nat_le_iff)

text \<open>Extending a queue by the slice at its end.\<close>

lemma recv_stream_extend:
  assumes "recv_stream b S m n q" and "is_slice S n d"
    and "recv_inv (ReceiveQueue_extend q d)"
  shows "recv_stream b S m (n + length d) (ReceiveQueue_extend q d)"
proof -
  have n: "m \<le> n" "n \<le> length S" "recv_inv q"
    using assms(1) by (simp_all add: recv_stream_def)
  have "n + length d \<le> length S"
    using is_slice_length [OF assms(2)] n by (cases "d = []") auto
  moreover have "unread (ReceiveQueue_extend q d) = drop m (take (n + length d) S)"
    using assms(1) n slice_extends [OF assms(2) n(1,2)]
    by (simp add: unread_extend recv_stream_def)
  moreover have "rq_nxt (ReceiveQueue_extend q d) = wrap (b + int (n + length d))"
    using assms(1) by (simp add: recv_stream_def ReceiveQueue_extend_def seq_add_wrap add.assoc)
  moreover have "rq_ooo (ReceiveQueue_extend q d) = rq_ooo q"
    by (simp add: ReceiveQueue_extend_def)
  ultimately show ?thesis
    using assms(1,3) n by (simp add: recv_stream_def)
qed

lemma recv_stream_ooo:
  assumes "recv_stream b S m n q" and "recv_inv (q\<lparr>rq_ooo := r\<rparr>)"
    and "\<And>k d. reorder_entries r k = Some d \<Longrightarrow>
           reorder_entries (rq_ooo q) k = Some d \<or> (\<exists>p. k = wrap (b + int p) \<and> is_slice S p d)"
  shows "recv_stream b S m n (q\<lparr>rq_ooo := r\<rparr>)"
  using assms by (fastforce simp: recv_stream_def unread_def)

text \<open>The drain loop delivers slices only. A parked key equals \<open>nxt\<close> only when its
  position does: positions of a stream shorter than the sequence space are told apart.\<close>

lemma recv_stream_parked_at_nxt:
  assumes "recv_stream b S m n q" and "length S < nat SEQ_SPACE"
    and held: "reorder_entries (rq_ooo q) (rq_nxt q) = Some d"
  shows "is_slice S n d"
proof -
  obtain p where p: "wrap (b + int n) = wrap (b + int p)" "is_slice S p d"
    using assms(1) held by (auto simp: recv_stream_def)
  have "(rq_nxt q, d) \<in> set (ro_data (rq_ooo q))"
    using held by (auto simp: reorder_entries_def dest: map_of_SomeD)
  then have "d \<noteq> []"
    using assms(1) by (auto simp: recv_stream_def recv_inv_def reorder_inv_def)
  then have "p \<le> length S"
    using is_slice_length [OF p(2)] by simp
  then have "int p = int n"
    using p(1) assms by (subst (asm) wrap_eq_iff) (auto simp: recv_stream_def)
  then show ?thesis using p(2) by simp
qed

lemma recv_inv_take_None_room:
  assumes "recv_inv q"
  shows "recv_inv (q\<lparr>rq_ooo := fst (ReorderQueue_take (rq_ooo q) s)\<rparr>)"
proof -
  have inv: "reorder_inv (rq_ooo q)"
    using assms by (simp add: recv_inv_def)
  have "ro_bytes_buffered (fst (ReorderQueue_take (rq_ooo q) s)) \<le> ro_bytes_buffered (rq_ooo q)"
    using reorder.take_held [OF inv, of s] by (simp split: option.splits)
  then show ?thesis
    using assms reorder.take_invar [OF inv, of s] by (auto simp: recv_inv_def recv_defs)
qed

lemma recv_stream_drain_step:
  assumes "recv_stream b S m n q" and "length S < nat SEQ_SPACE"
    and take: "ReorderQueue_take (rq_ooo q) (rq_nxt q) = (r, Some d)"
  shows "recv_stream b S m (n + length d) (ReceiveQueue_extend (q\<lparr>rq_ooo := r\<rparr>) d)"
proof -
  have inv: "recv_inv q" "reorder_inv (rq_ooo q)"
    using assms(1) by (simp_all add: recv_stream_def recv_inv_def)
  have r: "r = fst (ReorderQueue_take (rq_ooo q) (rq_nxt q))"
    using take by simp
  have "reorder_entries (rq_ooo q) (rq_nxt q) = Some d"
    using reorder.take_result [OF inv(2), of "rq_nxt q"] take by simp
  with assms(1,2) have "is_slice S n d"
    by (rule recv_stream_parked_at_nxt)
  moreover have "recv_stream b S m n (q\<lparr>rq_ooo := r\<rparr>)"
    using assms(1) inv reorder.take_entry [OF inv(2), of "rq_nxt q"] unfolding r
    by (intro recv_stream_ooo recv_inv_take_None_room) auto
  moreover have "recv_inv (ReceiveQueue_extend (q\<lparr>rq_ooo := r\<rparr>) d)"
    using inv(1) take by (rule recv_inv_drain_step)
  ultimately show ?thesis
    by (intro recv_stream_extend)
qed

lemma recv_stream_drain:
  assumes "recv_stream b S m n q" and "length S < nat SEQ_SPACE"
  shows "\<exists>k. snd (ReceiveQueue_drain q c) = c + int k
           \<and> recv_stream b S m (n + k) (fst (ReceiveQueue_drain q c))"
  using assms(1)
proof (induction q c arbitrary: n rule: ReceiveQueue_drain.induct)
  case (1 q c n)
  obtain r x where take: "ReorderQueue_take (rq_ooo q) (rq_nxt q) = (r, x)"
    by (cases "ReorderQueue_take (rq_ooo q) (rq_nxt q)")
  show ?case
  proof (cases x)
    case None
    with take have "ReceiveQueue_drain q c = (q, c)"
      by (subst ReceiveQueue_drain.simps) (auto dest: reorder_take_None)
    with "1.prems" show ?thesis by (auto intro: exI [of _ 0])
  next
    case (Some d)
    let ?q = "ReceiveQueue_extend (q\<lparr>rq_ooo := r\<rparr>) d"
    have "recv_stream b S m (n + length d) ?q"
      using "1.prems" assms(2) take Some by (intro recv_stream_drain_step) auto
    from "1.IH" [OF take [symmetric] Some this]
    obtain k where "snd (ReceiveQueue_drain ?q (c + len d)) = c + len d + int k"
      and "recv_stream b S m (n + length d + k) (fst (ReceiveQueue_drain ?q (c + len d)))"
      by blast
    moreover have "ReceiveQueue_drain q c = ReceiveQueue_drain ?q (c + len d)"
      using take Some by (subst ReceiveQueue_drain.simps) simp
    ultimately show ?thesis
      by (intro exI [of _ "length d + k"]) (simp add: add.assoc)
  qed
qed

lemma recv_stream_accept:
  assumes "recv_stream b S m n q" and "length S < nat SEQ_SPACE" and "is_slice S n d"
  shows "\<exists>k. snd (ReceiveQueue_accept q d) = int k
           \<and> recv_stream b S m (n + k) (fst (ReceiveQueue_accept q d))"
proof (cases "ReceiveQueue_window q \<le> 0")
  case True
  with assms(1) show ?thesis
    by (auto simp: ReceiveQueue_accept_def intro: exI [of _ 0])
next
  case False
  let ?c = "take (nat (ReceiveQueue_window q)) d"
  have "recv_inv (ReceiveQueue_extend q ?c)"
    using assms(1) False by (intro recv_inv_extend) (auto simp: recv_stream_def)
  then have "recv_stream b S m (n + length ?c) (ReceiveQueue_extend q ?c)"
    using assms by (intro recv_stream_extend is_slice_take)
  from recv_stream_drain [OF this assms(2), of "len ?c"]
  obtain k where "snd (ReceiveQueue_drain (ReceiveQueue_extend q ?c) (len ?c)) = len ?c + int k"
    and "recv_stream b S m (n + length ?c + k)
           (fst (ReceiveQueue_drain (ReceiveQueue_extend q ?c) (len ?c)))"
    by blast
  moreover have "ReceiveQueue_accept q d = ReceiveQueue_drain (ReceiveQueue_extend q ?c) (len ?c)"
    using False by (simp add: ReceiveQueue_accept_def Let_def)
  ultimately show ?thesis
    by (intro exI [of _ "length ?c + k"]) (simp add: add.assoc)
qed

lemma recv_stream_park:
  assumes "recv_stream b S m n q" and "is_slice S p d" and "len d \<le> ReceiveQueue_window q"
  shows "recv_stream b S m n
           (q\<lparr>rq_ooo := fst (ReorderQueue_insert (rq_ooo q) (wrap (b + int p)) d)\<rparr>)"
proof (rule recv_stream_ooo [OF assms(1)])
  have inv: "recv_inv q" "reorder_inv (rq_ooo q)"
    using assms(1) by (simp_all add: recv_stream_def recv_inv_def)
  then show "recv_inv (q\<lparr>rq_ooo := fst (ReorderQueue_insert (rq_ooo q) (wrap (b + int p)) d)\<rparr>)"
    using assms(3) by (intro recv_inv_park)
  show "reorder_entries (rq_ooo q) k = Some x \<or> (\<exists>p. k = wrap (b + int p) \<and> is_slice S p x)"
    if "reorder_entries (fst (ReorderQueue_insert (rq_ooo q) (wrap (b + int p)) d)) k = Some x" for k x
    using reorder.insert_entry_cases [OF inv(2) that] assms(2) by auto
qed

lemma recv_stream_duplicates:
  "recv_stream b S m n q \<Longrightarrow> recv_stream b S m n (q\<lparr>rq_duplicates := c\<rparr>)"
  by (auto simp: recv_stream_def recv_inv_duplicates unread_def)

text \<open>One segment, wherever it lies relative to what is already held.\<close>

lemma recv_stream_insert:
  assumes "recv_stream b S m n q" and "length S < nat SEQ_SPACE"
    and "is_slice S p d" and "\<bar>int p - int n\<bar> < SEQ_HALF"
  shows "\<exists>k. snd (ReceiveQueue_insert q (wrap (b + int p)) d) = int k
           \<and> recv_stream b S m (n + k) (fst (ReceiveQueue_insert q (wrap (b + int p)) d))"
proof -
  let ?s = "wrap (b + int p)"
  have nxt: "rq_nxt q = wrap (b + int n)"
    using assms(1) by (simp add: recv_stream_def)
  have here: "?s = rq_nxt q \<longleftrightarrow> p = n"
    using assms(4) seq.pos_eq [of "b + int p" "b + int n"] by (simp add: nxt)
  have ahead: "seq_gt ?s (rq_nxt q) \<longleftrightarrow> n < p"
    using assms(4) by (simp add: nxt seq_gt_wrap)
  have win: "0 \<le> ReceiveQueue_window q"
    by (simp add: recv_defs)
  consider "d = []" | "d \<noteq> []" "p = n" | "d \<noteq> []" "n < p" | "d \<noteq> []" "p < n"
    by linarith
  then show ?thesis
  proof cases
    case 1
    with assms(1) show ?thesis
      by (auto simp: ReceiveQueue_insert.simps [of q ?s "[]"] intro: exI [of _ 0])
  next
    case 2
    with here have "ReceiveQueue_insert q ?s d = ReceiveQueue_accept q d"
      by (subst ReceiveQueue_insert.simps) simp
    with 2 recv_stream_accept [OF assms(1,2)] assms(3) show ?thesis by simp
  next
    case 3
    with here ahead recv_stream_park [OF assms(1)] assms(1,3) win show ?thesis
      by (auto simp: ReceiveQueue_insert.simps [of q ?s d] Let_def is_slice_take
          intro!: exI [of _ 0])
  next
    case 4
    have over: "seq_diff (rq_nxt q) ?s = int (n - p)"
      using 4 assms(4) seq.dist_pos [of "b + int n" "b + int p"] by (simp add: nxt)
    let ?q = "q\<lparr>rq_duplicates := rq_duplicates q + 1\<rparr>"
    have q: "recv_stream b S m n ?q"
      using assms(1) by (rule recv_stream_duplicates)
    have "is_slice S n (drop (n - p) d)"
      using is_slice_drop [OF assms(3), of "n - p"] 4 by simp
    from recv_stream_accept [OF q assms(2) this] q 4 here ahead show ?thesis
      by (auto simp: ReceiveQueue_insert.simps [of q ?s d] ReceiveQueue_insert.simps [of ?q "rq_nxt q"]
          Let_def over intro: exI [of _ 0])
  qed
qed

text \<open>Reading takes a prefix of the unread bytes; compaction of the buffer is invisible.\<close>

lemma unread_read:
  assumes "recv_inv q" and "0 \<le> c"
  shows "snd (ReceiveQueue_read q c) = take (nat c) (unread q)"
    and "unread (fst (ReceiveQueue_read q c)) = drop (nat c) (unread q)"
    and "rq_nxt (fst (ReceiveQueue_read q c)) = rq_nxt q"
    and "rq_ooo (fst (ReceiveQueue_read q c)) = rq_ooo q"
proof -
  obtain r where r: "rq_read_pos q = int r" "r \<le> length (rq_buf q)"
    using assms(1) by (metis recv_inv_def nonneg_int_cases of_nat_le_iff)
  obtain k where k: "c = int k"
    using assms(2) nonneg_int_cases by metis
  have stop: "min (int r + int k) (len (rq_buf q)) = int (min (r + k) (length (rq_buf q)))"
    by simp
  show "snd (ReceiveQueue_read q c) = take (nat c) (unread q)"
    unfolding ReceiveQueue_read_def k Let_def r(1) stop
    by (auto simp: unread_def r drop_take min_def)
  show "unread (fst (ReceiveQueue_read q c)) = drop (nat c) (unread q)"
    unfolding ReceiveQueue_read_def k Let_def r(1) stop
    by (auto simp: unread_def r min_def add.commute)
qed (auto simp: ReceiveQueue_read_def Let_def)

lemma recv_stream_read:
  assumes "recv_stream b S m n q" and "0 \<le> c"
  shows "snd (ReceiveQueue_read q c) = take (nat c) (drop m (take n S))"
    and "recv_stream b S (m + length (snd (ReceiveQueue_read q c))) n (fst (ReceiveQueue_read q c))"
proof -
  have inv: "recv_inv q" and u: "unread q = drop m (take n S)" and mn: "m \<le> n" "n \<le> length S"
    using assms(1) by (simp_all add: recv_stream_def)
  show chunk: "snd (ReceiveQueue_read q c) = take (nat c) (drop m (take n S))"
    by (simp add: unread_read(1) [OF inv assms(2)] u)
  have "drop (nat c) (drop m (take n S))
        = drop (m + length (take (nat c) (drop m (take n S)))) (take n S)"
    using mn by (simp add: min_def add.commute)
  moreover have "m + length (take (nat c) (drop m (take n S))) \<le> n"
    using mn by simp
  ultimately show "recv_stream b S (m + length (snd (ReceiveQueue_read q c))) n (fst (ReceiveQueue_read q c))"
    using assms(1) recv_inv_read [OF inv, of c] unread_read(2-4) [OF inv assms(2)] unfolding chunk
    by (simp add: recv_stream_def)
qed

lemma recv_stream_init:
  assumes "ReceiveQueue_init irs cap = Inr q"
  shows "recv_stream (irs + 1) S 0 0 q"
  using recv_inv_init [OF assms] assms
  by (auto simp: recv_stream_def ReceiveQueue_init_def ReorderQueue_init_def unread_def
      reorder_entries_def seq_add_valid split: if_splits)

lemma recv_stream_append: "recv_stream b S m n q \<Longrightarrow> recv_stream b (S @ T) m n q"
  by (fastforce simp: recv_stream_def intro: is_slice_append)


section \<open>The contract of a stream receiver\<close>

text \<open>
  What a receiver of a byte stream promises its client: segments may be offered in any
  order, any number of times and cut anywhere; reads return consecutive pieces of the
  stream. \<open>rep S m n q\<close> says that \<open>q\<close> holds the stream \<open>S\<close> up to position \<open>n\<close> and that
  the client has read \<open>m\<close> bytes of it.
\<close>

datatype 'b recv_event = Segment nat "'b list" | Read int

fun feed ::
  "('q \<Rightarrow> nat \<Rightarrow> 'b list \<Rightarrow> 'q) \<Rightarrow> ('q \<Rightarrow> int \<Rightarrow> 'q \<times> 'b list) \<Rightarrow> 'q \<Rightarrow> 'b recv_event list \<Rightarrow> 'q \<times> 'b list"
where
  "feed offer get q [] = (q, [])"
| "feed offer get q (Segment p d # es) = feed offer get (offer q p d) es"
| "feed offer get q (Read c # es) =
     (case get q c of (q', out) \<Rightarrow>
        (case feed offer get q' es of (q'', rest) \<Rightarrow> (q'', out @ rest)))"

text \<open>An event is admissible for the stream when its segment is cut from it.\<close>

definition admissible ::
  "('b list \<Rightarrow> nat \<Rightarrow> 'b list \<Rightarrow> bool) \<Rightarrow> 'b list \<Rightarrow> 'b recv_event \<Rightarrow> bool" where
  "admissible is_cut S e = (case e of Segment p d \<Rightarrow> is_cut S p d | Read c \<Rightarrow> 0 \<le> c)"

locale stream_receiver =
  fixes offer :: "'q \<Rightarrow> nat \<Rightarrow> 'b list \<Rightarrow> 'q"
    and get :: "'q \<Rightarrow> int \<Rightarrow> 'q \<times> 'b list"
    and is_cut :: "'b list \<Rightarrow> nat \<Rightarrow> 'b list \<Rightarrow> bool"
    and rep :: "'b list \<Rightarrow> nat \<Rightarrow> nat \<Rightarrow> 'q \<Rightarrow> bool"
    and limit :: nat
  assumes rep_offer: "rep S m n q \<Longrightarrow> length S < limit \<Longrightarrow> is_cut S p d \<Longrightarrow>
      \<exists>n' \<ge> n. rep S m n' (offer q p d)"
    and rep_get: "rep S m n q \<Longrightarrow> 0 \<le> c \<Longrightarrow>
      snd (get q c) = take (nat c) (drop m (take n S))
      \<and> rep S (m + length (snd (get q c))) n (fst (get q c))"
    and rep_bounds: "rep S m n q \<Longrightarrow> m \<le> n \<and> n \<le> length S"
begin

lemma get_out:
  assumes "rep S m n q" and "0 \<le> c" and "get q c = (q', out)"
  shows "take (length out) (drop m S) = out" and "rep S (m + length out) n q'"
proof -
  have "out = take (nat c) (drop m (take n S))"
    using rep_get [OF assms(1,2)] assms(3) by simp
  then show "take (length out) (drop m S) = out"
    using rep_bounds [OF assms(1)] by (simp add: drop_take min_def)
  show "rep S (m + length out) n q'"
    using rep_get [OF assms(1,2)] assms(3) by (metis fst_conv snd_conv)
qed

lemma feed_prefix:
  assumes "rep S m n q" and "length S < limit" and "\<forall>e \<in> set es. admissible is_cut S e"
    and "feed offer get q es = (q', out)"
  shows "take (length out) (drop m S) = out \<and> (\<exists>n' \<ge> n. rep S (m + length out) n' q')"
  using assms
proof (induction es arbitrary: q m n out)
  case (Cons e es)
  show ?case
  proof (cases e)
    case (Segment p d)
    then obtain n1 where n1: "n \<le> n1" "rep S m n1 (offer q p d)"
      using rep_offer [of S m n q p d] Cons.prems by (auto simp: admissible_def)
    have "take (length out) (drop m S) = out \<and> (\<exists>n' \<ge> n1. rep S (m + length out) n' q')"
      using n1(2) Cons.prems Segment by (intro Cons.IH) auto
    with n1(1) show ?thesis by (meson le_trans)
  next
    case (Read c)
    then have c: "0 \<le> c"
      using Cons.prems(3) by (simp add: admissible_def)
    obtain q1 out1 where get: "get q c = (q1, out1)" by (cases "get q c")
    obtain rest where rest: "feed offer get q1 es = (q', rest)" and out: "out = out1 @ rest"
      using Cons.prems(4) Read get by (auto split: prod.splits)
    note out1 = get_out [OF Cons.prems(1) c get]
    have "take (length rest) (drop (m + length out1) S) = rest
        \<and> (\<exists>n' \<ge> n. rep S (m + length out1 + length rest) n' q')"
      using out1(2) Cons.prems(2,3) rest by (intro Cons.IH) auto
    with out1(1) show ?thesis
      by (simp add: out take_add add.commute add.left_commute)
  qed
qed auto

end

text \<open>The receive queue keeps that contract for streams shorter than half the space, where
  every two positions are close enough to be compared.\<close>

definition ReceiveQueue_offer :: "int \<Rightarrow> receive_queue \<Rightarrow> nat \<Rightarrow> bytes \<Rightarrow> receive_queue" where
  "ReceiveQueue_offer b q p d = fst (ReceiveQueue_insert q (wrap (b + int p)) d)"

interpretation recv_queue:
  stream_receiver "ReceiveQueue_offer b" ReceiveQueue_read is_slice "recv_stream b" "nat SEQ_HALF"
  for b
proof unfold_locales
  fix S m n q p and d :: bytes
  assume rep: "recv_stream b S m n q" and S: "length S < nat SEQ_HALF" and d: "is_slice S p d"
  show "\<exists>n' \<ge> n. recv_stream b S m n' (ReceiveQueue_offer b q p d)"
  proof (cases "d = []")
    case True
    with rep show ?thesis
      by (auto simp: ReceiveQueue_offer_def ReceiveQueue_insert.simps [of q _ "[]"])
  next
    case False
    have "p \<le> length S"
      using is_slice_length [OF d False] by simp
    moreover have "n \<le> length S"
      using rep by (simp add: recv_stream_def)
    ultimately have "\<bar>int p - int n\<bar> < SEQ_HALF"
      using S by (simp add: SEQ_HALF_def)
    then obtain k where "recv_stream b S m (n + k) (ReceiveQueue_offer b q p d)"
      using recv_stream_insert [OF rep _ d] S by (auto simp: ReceiveQueue_offer_def SEQ_HALF_def)
    then show ?thesis by (intro exI [of _ "n + k"]) simp
  qed
next
  fix S m n q and c :: int
  assume "recv_stream b S m n q" and "0 \<le> c"
  then show "snd (ReceiveQueue_read q c) = take (nat c) (drop m (take n S))
      \<and> recv_stream b S (m + length (snd (ReceiveQueue_read q c))) n (fst (ReceiveQueue_read q c))"
    by (intro conjI recv_stream_read)
qed (simp add: recv_stream_def)


section \<open>The send queue as a byte stream\<close>

text \<open>
  \<open>W\<close> is everything the application has written and \<open>b\<close> the sequence number of its first
  byte; \<open>a\<close> bytes have been acknowledged and \<open>n\<close> transmitted. The buffer is what is left
  of \<open>W\<close> after \<open>a\<close>.
\<close>

definition send_stream :: "int \<Rightarrow> bytes \<Rightarrow> nat \<Rightarrow> nat \<Rightarrow> send_queue \<Rightarrow> bool" where
  "send_stream b W a n q \<longleftrightarrow>
     send_inv q \<and> sq_capacity q < SEQ_HALF \<and> a \<le> n \<and> n \<le> length W
     \<and> sq_una q = wrap (b + int a) \<and> sq_nxt q = wrap (b + int n) \<and> sq_buf q = drop a W"

lemma send_stream_close:
  "send_stream b W a n q \<Longrightarrow> p \<le> length W \<Longrightarrow> a \<le> p \<Longrightarrow> int p - int a < SEQ_HALF"
  by (auto simp: send_stream_def send_inv_def)

lemma send_stream_init:
  "SendQueue_init b cap = Inr q \<Longrightarrow> valid_seq b \<Longrightarrow> cap < SEQ_HALF \<Longrightarrow> send_stream b [] 0 0 q"
  by (auto simp: send_stream_def SendQueue_init_def send_inv_def split: if_splits)

lemma send_stream_write:
  assumes "send_stream b W a n q"
  shows "\<exists>c. snd (SendQueue_write q d) = int c
           \<and> send_stream b (W @ take c d) a n (fst (SendQueue_write q d))"
proof -
  let ?room = "nat (sq_capacity q - len (sq_buf q))"
  have "SendQueue_write q d =
      (q\<lparr>sq_buf := sq_buf q @ take ?room d,
         sq_bytes_written := sq_bytes_written q + len (take ?room d)\<rparr>, len (take ?room d))"
    by (auto simp: SendQueue_write_def Let_def)
  moreover have "send_inv (fst (SendQueue_write q d))"
    using assms by (intro send_inv_write) (simp add: send_stream_def)
  moreover have "take ?room d = take (length (take ?room d)) d"
    by simp
  ultimately show ?thesis
    using assms by (intro exI [of _ "length (take ?room d)"]) (simp add: send_stream_def)
qed

lemma send_stream_peek:
  assumes "send_stream b W a n q" and "a \<le> p" and "p \<le> length W"
  shows "SendQueue_peek q (wrap (b + int p)) k = take (nat k) (drop p W)"
proof -
  have una: "sq_una q = wrap (b + int a)" and buf: "sq_buf q = drop a W"
    using assms(1) by (simp_all add: send_stream_def)
  have off: "seq_diff (wrap (b + int p)) (sq_una q) = int (p - a)"
    unfolding una using assms send_stream_close [OF assms(1,3,2)]
    by (subst seq_diff_wrap) (auto simp: SEQ_HALF_def)
  have "py_from (py_upto (drop a W) (int (p - a) + k)) (int (p - a)) = take (nat k) (drop p W)"
    if "0 < k"
    using that assms(2) by (simp add: nat_add_distrib drop_take)
  then show ?thesis
    unfolding SendQueue_peek_def off buf Let_def by auto
qed

lemma send_stream_acknowledge:
  assumes "send_stream b W a n q" and "a \<le> p" and "p \<le> n"
  shows "snd (SendQueue_acknowledge q (wrap (b + int p))) = int (p - a)"
    and "send_stream b W p n (fst (SendQueue_acknowledge q (wrap (b + int p))))"
proof -
  have rep: "send_inv q" "n \<le> length W" "sq_una q = wrap (b + int a)"
      "sq_nxt q = wrap (b + int n)" "sq_buf q = drop a W" "sq_capacity q < SEQ_HALF"
    using assms(1) by (simp_all add: send_stream_def)
  have close: "int p - int a < SEQ_HALF" "int n - int a < SEQ_HALF"
    using assms rep(2) by (auto intro: send_stream_close [OF assms(1)])
  have gt: "seq_gt (wrap (b + int p)) (sq_una q) \<longleftrightarrow> a < p"
    unfolding rep(3) using assms close by (subst seq_gt_wrap) auto
  have dist: "seq_diff (wrap (b + int p)) (sq_una q) = int (p - a)"
    unfolding rep(3) using assms close by (subst seq_diff_wrap) (auto simp: SEQ_HALF_def)
  have lt: "\<not> seq_lt (sq_nxt q) (wrap (b + int p))"
    unfolding rep(4) using assms close by (subst seq_lt_wrap) auto
  show "snd (SendQueue_acknowledge q (wrap (b + int p))) = int (p - a)"
    using gt dist assms(2)
    by (cases "a < p") (simp_all add: SendQueue_acknowledge_new SendQueue_acknowledge_old)
  have "send_inv (fst (SendQueue_acknowledge q (wrap (b + int p))))"
    using rep(1) by (rule send_inv_acknowledge) simp
  then show "send_stream b W p n (fst (SendQueue_acknowledge q (wrap (b + int p))))"
    using gt dist lt assms rep
    by (cases "a < p")
       (auto simp: send_stream_def SendQueue_acknowledge_new SendQueue_acknowledge_old)
qed

text \<open>A stale acknowledgement, of a position already passed, changes nothing.\<close>

lemma send_stream_acknowledge_stale:
  assumes "send_stream b W a n q" and "p \<le> a" and "int a - int p < SEQ_HALF"
  shows "SendQueue_acknowledge q (wrap (b + int p)) = (q, 0)"
  using assms seq_gt_wrap [of "b + int p" "b + int a"]
  by (intro SendQueue_acknowledge_old) (auto simp: send_stream_def)

lemma send_stream_advance:
  assumes "send_stream b W a n q" and "n + c \<le> length W"
  shows "send_stream b W a (n + c) (q\<lparr>sq_nxt := seq_add (sq_nxt q) (int c)\<rparr>)"
proof -
  have "int (n + c) - int a < SEQ_HALF"
    using assms by (intro send_stream_close [OF assms(1)]) (auto simp: send_stream_def)
  then have "0 \<le> seq_diff (wrap (b + int (n + c))) (wrap (b + int a))"
    using assms by (subst seq_diff_wrap) (auto simp: send_stream_def SEQ_HALF_def)
  with assms show ?thesis
    by (auto simp: send_stream_def send_inv_def seq_add_wrap add.assoc)
qed


section \<open>Arbitrary use of the receive queue\<close>

text \<open>The operations in any order and with any arguments, hostile ones included.\<close>

datatype recv_op = OInsert seqno bytes | ORead int | ODiscard seqno | OClear

fun recv_apply :: "recv_op \<Rightarrow> receive_queue \<Rightarrow> receive_queue" where
  "recv_apply (OInsert s d) q = fst (ReceiveQueue_insert q s d)"
| "recv_apply (ORead c) q = fst (ReceiveQueue_read q c)"
| "recv_apply (ODiscard s) q = ReceiveQueue_discard_before q s"
| "recv_apply OClear q = ReceiveQueue_clear q"

text \<open>The consumed prefix is reclaimed once it is worth it.\<close>

definition recv_compact :: "receive_queue \<Rightarrow> bool" where
  "recv_compact q \<longleftrightarrow> rq_read_pos q \<le> 65536 \<or> rq_read_pos q * 2 \<le> len (rq_buf q)"

lemma recv_drain_frame:
  "rq_capacity (fst (ReceiveQueue_drain q n)) = rq_capacity q
   \<and> rq_read_pos (fst (ReceiveQueue_drain q n)) = rq_read_pos q
   \<and> length (rq_buf q) \<le> length (rq_buf (fst (ReceiveQueue_drain q n)))"
proof (induction q n rule: ReceiveQueue_drain.induct)
  case (1 q n)
  obtain r x where take: "ReorderQueue_take (rq_ooo q) (rq_nxt q) = (r, x)"
    by (cases "ReorderQueue_take (rq_ooo q) (rq_nxt q)")
  show ?case
  proof (cases x)
    case None
    with take show ?thesis by (simp add: ReceiveQueue_drain.simps [of q n])
  next
    case (Some d)
    with take "1.IH" [OF take [symmetric] Some] show ?thesis
      by (simp add: ReceiveQueue_drain.simps [of q n] ReceiveQueue_extend_def)
  qed
qed

lemma recv_accept_frame:
  "rq_capacity (fst (ReceiveQueue_accept q d)) = rq_capacity q
   \<and> rq_read_pos (fst (ReceiveQueue_accept q d)) = rq_read_pos q
   \<and> length (rq_buf q) \<le> length (rq_buf (fst (ReceiveQueue_accept q d)))"
proof (cases "ReceiveQueue_window q \<le> 0")
  case False
  let ?c = "take (nat (ReceiveQueue_window q)) d"
  have "rq_capacity (ReceiveQueue_extend q ?c) = rq_capacity q"
    and "rq_read_pos (ReceiveQueue_extend q ?c) = rq_read_pos q"
    and "length (rq_buf q) \<le> length (rq_buf (ReceiveQueue_extend q ?c))"
    by (simp_all add: ReceiveQueue_extend_def)
  with False recv_drain_frame [of "ReceiveQueue_extend q ?c" "len ?c"] show ?thesis
    by (simp add: ReceiveQueue_accept_def Let_def)
qed (simp add: ReceiveQueue_accept_def)

lemma recv_insert_frame:
  "rq_capacity (fst (ReceiveQueue_insert q s d)) = rq_capacity q
   \<and> rq_read_pos (fst (ReceiveQueue_insert q s d)) = rq_read_pos q
   \<and> length (rq_buf q) \<le> length (rq_buf (fst (ReceiveQueue_insert q s d)))"
proof (induction q s d rule: ReceiveQueue_insert.induct)
  case (1 q s d)
  then show ?case
    by (subst ReceiveQueue_insert.simps, subst ReceiveQueue_insert.simps,
        subst ReceiveQueue_insert.simps)
       (auto simp: Let_def recv_accept_frame)
qed

lemma recv_compact_insert: "recv_compact q \<Longrightarrow> recv_compact (fst (ReceiveQueue_insert q s d))"
  using recv_insert_frame [of q s d] by (auto simp: recv_compact_def)

lemma recv_compact_read: "recv_compact q \<Longrightarrow> recv_compact (fst (ReceiveQueue_read q c))"
  by (auto simp: recv_compact_def ReceiveQueue_read_def Let_def)

lemma reorder_held_fold:
  "reorder_inv q \<Longrightarrow>
     ro_bytes_buffered (fold (\<lambda>key q'. fst (ReorderQueue_take q' key)) ks q) \<le> ro_bytes_buffered q"
proof (induction ks arbitrary: q)
  case (Cons k ks)
  have "ro_bytes_buffered (fst (ReorderQueue_take q k)) \<le> ro_bytes_buffered q"
    using reorder.take_held [OF Cons.prems, of k] by (simp split: option.splits)
  with Cons.IH [OF reorder_inv_take [OF Cons.prems, of k]] show ?case by simp
qed simp

lemma reorder_held_discard:
  "reorder_inv q \<Longrightarrow> ro_bytes_buffered (fst (ReorderQueue_discard_before q s)) \<le> ro_bytes_buffered q"
  by (simp add: ReorderQueue_discard_before_def Let_def reorder_held_fold)

lemma recv_inv_discard: "recv_inv q \<Longrightarrow> recv_inv (ReceiveQueue_discard_before q s)"
  using reorder_held_discard [of "rq_ooo q" s] reorder_inv_discard [of "rq_ooo q" s]
  by (auto simp: recv_inv_def recv_defs ReceiveQueue_discard_before_def)

lemma recv_inv_apply: "recv_inv q \<Longrightarrow> recv_inv (recv_apply f q)"
  by (cases f) (simp_all add: recv_inv_insert recv_inv_read recv_inv_discard recv_inv_clear)

lemma recv_compact_apply: "recv_compact q \<Longrightarrow> recv_compact (recv_apply f q)"
  by (cases f)
     (simp_all add: recv_compact_insert recv_compact_read,
      simp_all add: recv_compact_def ReceiveQueue_discard_before_def ReceiveQueue_clear_def)

lemma recv_capacity_apply: "rq_capacity (recv_apply f q) = rq_capacity q"
  by (cases f)
     (simp_all add: recv_insert_frame ReceiveQueue_discard_before_def ReceiveQueue_clear_def
       ReceiveQueue_read_def Let_def)

lemma recv_run:
  "recv_inv q \<Longrightarrow> recv_compact q \<Longrightarrow>
     recv_inv (fold recv_apply fs q) \<and> recv_compact (fold recv_apply fs q)
     \<and> rq_capacity (fold recv_apply fs q) = rq_capacity q"
  by (induction fs arbitrary: q)
     (auto simp: recv_inv_apply recv_compact_apply recv_capacity_apply)

lemma recv_storage: "recv_inv q \<Longrightarrow> recv_compact q \<Longrightarrow> len (rq_buf q) \<le> 2 * rq_capacity q + 65536"
  using reorder.held_bound [of "rq_ooo q"] by (auto simp: recv_inv_def recv_compact_def recv_defs)

lemma recv_capacity_init: "ReceiveQueue_init irs cap = Inr q \<Longrightarrow> rq_capacity q = cap"
  and recv_compact_init: "ReceiveQueue_init irs cap = Inr q \<Longrightarrow> recv_compact q"
  by (auto simp: ReceiveQueue_init_def recv_compact_def split: if_splits sum.splits)


lemma recv_drain_count: "c \<le> snd (ReceiveQueue_drain q c)"
proof (induction q c rule: ReceiveQueue_drain.induct)
  case (1 q c)
  obtain r x where take: "ReorderQueue_take (rq_ooo q) (rq_nxt q) = (r, x)"
    by (cases "ReorderQueue_take (rq_ooo q) (rq_nxt q)")
  with "1.IH" [OF take [symmetric]] show ?case
    by (cases x) (fastforce simp: ReceiveQueue_drain.simps [of q c])+
qed

lemma recv_drain_complete:
  "reorder_entries (rq_ooo (fst (ReceiveQueue_drain q c))) (rq_nxt (fst (ReceiveQueue_drain q c))) = None"
proof (induction q c rule: ReceiveQueue_drain.induct)
  case (1 q c)
  obtain r x where take: "ReorderQueue_take (rq_ooo q) (rq_nxt q) = (r, x)"
    by (cases "ReorderQueue_take (rq_ooo q) (rq_nxt q)")
  show ?case
  proof (cases x)
    case None
    with take show ?thesis
      by (auto simp: ReceiveQueue_drain.simps [of q c] ReorderQueue_take_def reorder_entries_def
          split: option.splits)
  next
    case (Some d)
    with take "1.IH" [OF take [symmetric] Some] show ?thesis
      by (simp add: ReceiveQueue_drain.simps [of q c])
  qed
qed


section \<open>Properties\<close>

text \<open>C27. Reassembly is correct: however the segments of the peer's stream are cut,
  duplicated, overlapped and reordered, the concatenation of everything the application
  reads, followed by what is still unread, is a prefix of that stream (for streams below
  2 GiB, where sequence numbers are unambiguous).\<close>

theorem receive_queue_delivers_prefix:
  assumes "ReceiveQueue_init irs cap = Inr q0" and "length S < nat SEQ_HALF"
    and "\<forall>e \<in> set es. admissible is_slice S e"
    and "feed (ReceiveQueue_offer (irs + 1)) ReceiveQueue_read q0 es = (q, out)"
  shows "take (length (out @ unread q)) S = out @ unread q"
proof -
  obtain n where out: "take (length out) S = out" and rep: "recv_stream (irs + 1) S (length out) n q"
    using recv_queue.feed_prefix [OF recv_stream_init [OF assms(1)] assms(2-4)] by auto
  then have u: "unread q = drop (length out) (take n S)" and n: "length out \<le> n" "n \<le> length S"
    by (simp_all add: recv_stream_def)
  have "out @ unread q = take n S"
    using out n by (metis append_take_drop_id take_take min.absorb1 u)
  moreover from this have "length (out @ unread q) = n"
    using n by simp
  ultimately show ?thesis by simp
qed

theorem receive_queue_delivers_prefix_witness:
  "\<exists>q0 q. ReceiveQueue_init 99 16 = Inr q0
     \<and> feed (ReceiveQueue_offer 100) ReceiveQueue_read q0
          [Segment 2 [3, 4], Segment 0 [1, 2], Read 3, Segment 1 [2, 3, 4, 5], Read 9]
        = (q, [1, 2, 3, 4, 5])
     \<and> take (length ([1, 2, 3, 4, 5] @ unread q)) [1, 2, 3, 4, 5, 6] = [1, 2, 3, 4, 5] @ unread q"
proof -
  let ?es = "[Segment 2 [3, 4], Segment 0 [1, 2], Read 3, Segment 1 [2, 3, 4, 5], Read 9]"
  obtain q0 where q0: "ReceiveQueue_init 99 16 = Inr q0"
    by (simp add: ReceiveQueue_init_def ReorderQueue_init_def)
  obtain q out where run: "feed (ReceiveQueue_offer (99 + 1)) ReceiveQueue_read q0 ?es = (q, out)"
    by (cases "feed (ReceiveQueue_offer (99 + 1)) ReceiveQueue_read q0 ?es")
  have "case ReceiveQueue_init 99 16 of Inl e \<Rightarrow> False
    | Inr q0 \<Rightarrow> snd (feed (ReceiveQueue_offer (99 + 1)) ReceiveQueue_read q0 ?es) = [1, 2, 3, 4, 5]"
    by code_simp
  with q0 run have out: "out = [1, 2, 3, 4, 5]" by simp
  have "take (length (out @ unread q)) [1, 2, 3, 4, 5, 6] = out @ unread q"
    by (rule receive_queue_delivers_prefix [OF q0 _ _ run])
       (simp_all add: SEQ_HALF_def admissible_def is_slice_def)
  with q0 run out show ?thesis by auto
qed

text \<open>C28. Flow control is a hard bound: whatever segments arrive, with any sequence
  numbers and sizes, in-order plus parked bytes never exceed the capacity the queue was
  created with, the advertised window is the room that is left, and the storage behind the
  in-order part stays within twice the capacity plus 64 KiB.\<close>

theorem receive_queue_memory_bound:
  assumes "ReceiveQueue_init irs cap = Inr q0"
  shows "let q = fold recv_apply fs q0
         in ReceiveQueue_available q + ReceiveQueue_held_out_of_order q \<le> cap
            \<and> ReceiveQueue_window q
                = cap - (ReceiveQueue_available q + ReceiveQueue_held_out_of_order q)
            \<and> len (rq_buf q) \<le> 2 * cap + 65536"
proof -
  let ?q = "fold recv_apply fs q0"
  have inv: "recv_inv ?q" "recv_compact ?q" "rq_capacity ?q = cap"
    using recv_run [OF recv_inv_init [OF assms] recv_compact_init [OF assms], of fs]
      recv_capacity_init [OF assms] by simp_all
  with recv_storage [OF inv(1,2)] show ?thesis
    by (simp add: recv_inv_def recv_defs)
qed

theorem receive_queue_memory_bound_witness:
  "\<exists>q0 q. ReceiveQueue_init 0 4 = Inr q0
     \<and> q = fold recv_apply [OInsert 1 [1, 2, 3, 4, 5, 6], OInsert 9 [7]] q0
     \<and> ReceiveQueue_window q = 0
     \<and> ReceiveQueue_available q + ReceiveQueue_held_out_of_order q = 4"
proof -
  let ?fs = "[OInsert 1 [1, 2, 3, 4, 5, 6], OInsert 9 [7]]"
  obtain q0 where q0: "ReceiveQueue_init 0 4 = Inr q0"
    by (simp add: ReceiveQueue_init_def ReorderQueue_init_def)
  define q where "q = fold recv_apply ?fs q0"
  have "case ReceiveQueue_init 0 4 of Inl e \<Rightarrow> False
    | Inr q0 \<Rightarrow> ReceiveQueue_window (fold recv_apply ?fs q0) = 0"
    by code_simp
  then have w: "ReceiveQueue_window q = 0"
    by (simp only: q0 q_def sum.case)
  have "ReceiveQueue_available q + ReceiveQueue_held_out_of_order q = 4"
    using receive_queue_memory_bound [OF q0, of ?fs] w
    unfolding q_def [symmetric] Let_def by linarith
  with q0 q_def w show ?thesis by blast
qed

text \<open>Progress of the data path: a non-empty segment that starts exactly at \<open>nxt\<close>
  while the window is open delivers at least as many bytes as fit, and afterwards no
  parked segment is left that could be delivered.\<close>

lemma receive_queue_progress:
  assumes "recv_inv q" and "d \<noteq> []" and "0 < ReceiveQueue_window q"
  shows "min (len d) (ReceiveQueue_window q) \<le> snd (ReceiveQueue_insert q (rq_nxt q) d)
       \<and> reorder_entries (rq_ooo (fst (ReceiveQueue_insert q (rq_nxt q) d)))
            (rq_nxt (fst (ReceiveQueue_insert q (rq_nxt q) d))) = None"
proof -
  let ?c = "take (nat (ReceiveQueue_window q)) d"
  have "ReceiveQueue_insert q (rq_nxt q) d = ReceiveQueue_drain (ReceiveQueue_extend q ?c) (len ?c)"
    using assms by (simp add: ReceiveQueue_insert.simps [of q] ReceiveQueue_accept_def Let_def)
  with recv_drain_count [of "len ?c" "ReceiveQueue_extend q ?c"]
    recv_drain_complete [of "ReceiveQueue_extend q ?c" "len ?c"] assms(3)
  show ?thesis by simp
qed

lemma receive_queue_progress_witness:
  "\<exists>q. ReceiveQueue_init 0 4 = Inr q \<and> 3 \<le> snd (ReceiveQueue_insert q (rq_nxt q) [1, 2, 3])"
proof -
  obtain q where q: "ReceiveQueue_init 0 4 = Inr q"
    by (simp add: ReceiveQueue_init_def ReorderQueue_init_def)
  then have "ReceiveQueue_window q = 4"
    by (auto simp: ReceiveQueue_init_def ReorderQueue_init_def recv_defs)
  with receive_queue_progress [OF recv_inv_init [OF q], of "[1, 2, 3]"] q show ?thesis
    by auto
qed

text \<open>The one distance the comparisons refuse to order is not refused here: a segment
  that starts exactly 2^31 away from \<open>nxt\<close> is neither behind nor ahead, the overlap comes out
  negative, the Python slice with a negative start keeps the whole payload, and \<open>insert\<close>
  accepts it as the next bytes of the stream.\<close>

lemma receive_queue_accepts_half_space:
  assumes "valid_seq (rq_nxt q)" and "d \<noteq> []" and "len d \<le> SEQ_HALF"
  shows "ReceiveQueue_insert q (seq_add (rq_nxt q) SEQ_HALF) d
       = ReceiveQueue_accept (q\<lparr>rq_duplicates := rq_duplicates q + 1\<rparr>) d"
proof -
  let ?n = "rq_nxt q" and ?s = "seq_add (rq_nxt q) SEQ_HALF"
  have n: "?n = wrap ?n" and s: "?s = wrap (?n + SEQ_HALF)"
    using assms(1) by (simp_all add: seq_add_valid)
  have ns: "?s \<noteq> ?n"
    unfolding s by (subst n) (simp add: wrap_mod_cong SEQ_HALF_def)
  have far: "seq_diff ?n ?s = - SEQ_HALF"
    unfolding s by (subst n, subst seq_diff_wrap) (simp_all add: SEQ_HALF_def)
  then have "seq_diff ?s ?n = - SEQ_HALF"
    by (rule seq_diff_half)
  then have "\<not> seq_gt ?s ?n"
    by (simp add: seq_gt_diff SEQ_HALF_def)
  moreover have "py_from d (- SEQ_HALF) = d"
    using assms(3) by (simp add: py_from_far_negative SEQ_HALF_def)
  moreover have "\<not> len d \<le> - SEQ_HALF"
    by (simp add: SEQ_HALF_def)
  ultimately show ?thesis
    using assms(2) ns far
    by (simp add: ReceiveQueue_insert.simps [of q ?s d]
        ReceiveQueue_insert.simps [of "q\<lparr>rq_duplicates := rq_duplicates q + 1\<rparr>" ?n d])
qed

lemma receive_queue_accepts_half_space_witness:
  "\<exists>q. ReceiveQueue_init 0 4 = Inr q
     \<and> snd (ReceiveQueue_insert q (seq_add (rq_nxt q) SEQ_HALF) [66, 65, 68]) = 3"
proof -
  obtain q where q: "ReceiveQueue_init 0 4 = Inr q"
    by (simp add: ReceiveQueue_init_def ReorderQueue_init_def)
  then have "rq_nxt q = 1"
    by (auto simp: ReceiveQueue_init_def ReorderQueue_init_def seq_add_valid wrap_def)
  then have "ReceiveQueue_insert q (seq_add (rq_nxt q) SEQ_HALF) [66, 65, 68]
      = ReceiveQueue_accept (q\<lparr>rq_duplicates := rq_duplicates q + 1\<rparr>) [66, 65, 68]"
    by (intro receive_queue_accepts_half_space) (simp_all add: valid_seq_def SEQ_HALF_def)
  moreover have "case ReceiveQueue_init 0 4 of Inl e \<Rightarrow> False
    | Inr q \<Rightarrow> snd (ReceiveQueue_accept (q\<lparr>rq_duplicates := rq_duplicates q + 1\<rparr>) [66, 65, 68]) = 3"
    by code_simp
  ultimately show ?thesis using q by auto
qed

text \<open>A parked segment that is overtaken is never reclaimed: after the segments
  \<open>[3, 4]\<close> (early) and \<open>[1, 2, 3, 4, 5]\<close> of a five-byte stream, the application has read the
  whole stream and nothing can be outstanding, but two bytes of the window stay used.\<close>

lemma receive_queue_window_leak:
  "case ReceiveQueue_init 99 16 of Inl e \<Rightarrow> False
   | Inr q0 \<Rightarrow>
       (case feed (ReceiveQueue_offer 100) ReceiveQueue_read q0
               [Segment 2 [3, 4], Segment 0 [1, 2, 3, 4, 5], Read 16] of
          (q, out) \<Rightarrow> out = [1, 2, 3, 4, 5] \<and> ReceiveQueue_available q = 0
                      \<and> rq_nxt q = 105 \<and> ReceiveQueue_window q = 14)"
  by code_simp

end
