(* ===== verification/Congestion.thy ===== *)
theory Congestion
  imports Seqno
begin

text \<open>
  \<open>minitcp/net/tcp/congestion.py\<close>: the Reno congestion window. The record holds the
  fields of \<open>RenoCongestion\<close>; the optional arguments of the constructor and of the ACK
  handlers are options.
\<close>

section \<open>State and operations\<close>

datatype reno_state = SLOW_START | CONGESTION_AVOIDANCE | FAST_RECOVERY

record reno =
  re_mss :: int
  re_cwnd :: int
  re_ssthresh :: int
  re_state :: reno_state
  re_duplicate_acks :: int
  re_recover :: seqno
  re_timeouts :: int
  re_fast_retransmits :: int

definition INITIAL_WINDOW_CAP :: int where
  "INITIAL_WINDOW_CAP = 14600"

definition MAX_CWND :: int where
  "MAX_CWND = 2 ^ 30"

definition RenoCongestion_init :: "int \<Rightarrow> int option \<Rightarrow> int option \<Rightarrow> py_error + reno" where
  "RenoCongestion_init mss initial_window initial_ssthresh =
     (if mss \<le> 0 then Inl ValueError
      else Inr \<lparr>re_mss = mss,
                re_cwnd = (case initial_window of
                             Some w \<Rightarrow> w
                           | None \<Rightarrow> min (10 * mss) (max (2 * mss) INITIAL_WINDOW_CAP)),
                re_ssthresh = (case initial_ssthresh of Some t \<Rightarrow> t | None \<Rightarrow> MAX_CWND),
                re_state = SLOW_START, re_duplicate_acks = 0, re_recover = 0,
                re_timeouts = 0, re_fast_retransmits = 0\<rparr>)"

definition RenoCongestion_on_ack :: "reno \<Rightarrow> int \<Rightarrow> seqno option \<Rightarrow> reno" where
  "RenoCongestion_on_ack r bytes_acked ack_number =
     (if bytes_acked \<le> 0 then r
      else if re_state r = FAST_RECOVERY then
        (if (case ack_number of Some a \<Rightarrow> seq_ge a (re_recover r) | None \<Rightarrow> False)
         then r\<lparr>re_cwnd := max (re_ssthresh r) (re_mss r), re_state := CONGESTION_AVOIDANCE,
                re_duplicate_acks := 0\<rparr>
         else r\<lparr>re_cwnd := max (re_ssthresh r) (re_cwnd r - bytes_acked) + bytes_acked\<rparr>)
      else
        let r = r\<lparr>re_duplicate_acks := 0\<rparr>
        in if re_state r = SLOW_START then
             (let r = r\<lparr>re_cwnd := min (re_cwnd r + bytes_acked) MAX_CWND\<rparr>
              in if re_ssthresh r \<le> re_cwnd r then r\<lparr>re_state := CONGESTION_AVOIDANCE\<rparr> else r)
           else
             (let increment = (re_mss r * bytes_acked) div (max (re_cwnd r) 1)
              in r\<lparr>re_cwnd := min (re_cwnd r + max increment 1) MAX_CWND\<rparr>))"

definition RenoCongestion_on_duplicate_ack :: "reno \<Rightarrow> seqno option \<Rightarrow> reno \<times> bool" where
  "RenoCongestion_on_duplicate_ack r ack_number =
     (if re_state r = FAST_RECOVERY
      then (r\<lparr>re_cwnd := min (re_cwnd r + re_mss r) MAX_CWND\<rparr>, False)
      else
        let r = r\<lparr>re_duplicate_acks := re_duplicate_acks r + 1\<rparr>
        in if re_duplicate_acks r = 3 then
             (let r = r\<lparr>re_ssthresh := max (re_cwnd r div 2) (2 * re_mss r)\<rparr>
              in (r\<lparr>re_cwnd := re_ssthresh r + 3 * re_mss r,
                    re_recover := (case ack_number of Some a \<Rightarrow> a | None \<Rightarrow> 0),
                    re_state := FAST_RECOVERY,
                    re_fast_retransmits := re_fast_retransmits r + 1\<rparr>, True))
           else (r, False))"

definition RenoCongestion_on_timeout :: "reno \<Rightarrow> reno" where
  "RenoCongestion_on_timeout r =
     r\<lparr>re_ssthresh := max (re_cwnd r div 2) (2 * re_mss r), re_cwnd := re_mss r,
       re_state := SLOW_START, re_duplicate_acks := 0, re_timeouts := re_timeouts r + 1\<rparr>"

definition RenoCongestion_on_partial_ack :: "reno \<Rightarrow> seqno \<Rightarrow> reno" where
  "RenoCongestion_on_partial_ack r ack_number =
     (if re_state r = FAST_RECOVERY \<and> seq_ge ack_number (re_recover r)
      then r\<lparr>re_cwnd := max (re_ssthresh r) (re_mss r), re_state := CONGESTION_AVOIDANCE,
             re_duplicate_acks := 0\<rparr>
      else r)"

definition RenoCongestion_in_recovery :: "reno \<Rightarrow> bool" where
  "RenoCongestion_in_recovery r \<longleftrightarrow> re_state r = FAST_RECOVERY"

definition RenoCongestion_effective_window :: "reno \<Rightarrow> int \<Rightarrow> int" where
  "RenoCongestion_effective_window r receiver_window =
     max (min (re_cwnd r) receiver_window) (re_mss r)"


section \<open>Invariant\<close>

text \<open>The window is at least one segment, the threshold at least the MSS, fewer than three
  duplicate ACKs are pending outside recovery.\<close>

definition reno_inv :: "reno \<Rightarrow> bool" where
  "reno_inv r \<longleftrightarrow> 0 < re_mss r \<and> re_mss r \<le> re_cwnd r \<and> re_mss r \<le> re_ssthresh r
     \<and> 0 \<le> re_duplicate_acks r
     \<and> (re_state r \<noteq> FAST_RECOVERY \<longrightarrow> re_duplicate_acks r < 3)
     \<and> 0 \<le> re_timeouts r \<and> 0 \<le> re_fast_retransmits r"

lemmas reno_defs =
  RenoCongestion_on_ack_def RenoCongestion_on_duplicate_ack_def RenoCongestion_on_timeout_def
  RenoCongestion_on_partial_ack_def Let_def

lemma reno_mss [simp]:
  "re_mss (RenoCongestion_on_ack r n a) = re_mss r"
  "re_mss (fst (RenoCongestion_on_duplicate_ack r a)) = re_mss r"
  "re_mss (RenoCongestion_on_timeout r) = re_mss r"
  by (auto simp: reno_defs)

lemma reno_inv_init:
  "RenoCongestion_init mss None None = Inr r \<Longrightarrow> mss \<le> MAX_CWND \<Longrightarrow> reno_inv r"
  by (auto simp: RenoCongestion_init_def reno_inv_def split: if_splits)

lemma reno_inv_on_ack:
  "reno_inv r \<Longrightarrow> re_mss r \<le> MAX_CWND \<Longrightarrow> reno_inv (RenoCongestion_on_ack r n a)"
  by (auto simp: reno_inv_def RenoCongestion_on_ack_def Let_def split: option.splits)

lemma reno_inv_on_duplicate_ack:
  "reno_inv r \<Longrightarrow> re_mss r \<le> MAX_CWND \<Longrightarrow> reno_inv (fst (RenoCongestion_on_duplicate_ack r a))"
  by (auto simp: reno_inv_def RenoCongestion_on_duplicate_ack_def Let_def)

lemma reno_inv_on_timeout: "reno_inv r \<Longrightarrow> reno_inv (RenoCongestion_on_timeout r)"
  by (auto simp: reno_inv_def RenoCongestion_on_timeout_def)

lemma reno_inv_on_partial_ack: "reno_inv r \<Longrightarrow> reno_inv (RenoCongestion_on_partial_ack r a)"
  by (auto simp: reno_inv_def RenoCongestion_on_partial_ack_def)



section \<open>The interface the sender relies on\<close>

text \<open>
  A congestion controller is driven by three events and gives the sender a window. It
  never closes that window: at least one segment may be in flight at any time.
\<close>

datatype cc_event = Ack int "seqno option" | DupAck "seqno option" | Timeout

locale congestion_control =
  fixes on_event :: "cc_event \<Rightarrow> 'c \<Rightarrow> 'c"
    and window :: "'c \<Rightarrow> int \<Rightarrow> int"
    and segment_size :: "'c \<Rightarrow> int"
    and invar :: "'c \<Rightarrow> bool"
  assumes invar_event: "invar c \<Longrightarrow> invar (on_event e c)"
    and size_event: "segment_size (on_event e c) = segment_size c"
    and window_open: "invar c \<Longrightarrow> 0 < segment_size c \<and> segment_size c \<le> window c w"
begin

lemma run_invar: "invar c \<Longrightarrow> invar (fold on_event es c)"
  by (induction es arbitrary: c) (auto simp: invar_event)

lemma run_size: "segment_size (fold on_event es c) = segment_size c"
  by (induction es arbitrary: c) (auto simp: size_event)

lemma run_window_open:
  "invar c \<Longrightarrow> 0 < segment_size c \<and> segment_size c \<le> window (fold on_event es c) w"
  using window_open [OF run_invar [of c es], of w] by (simp add: run_size)

end

fun reno_event :: "cc_event \<Rightarrow> reno \<Rightarrow> reno" where
  "reno_event (Ack n a) r = RenoCongestion_on_ack r n a"
| "reno_event (DupAck a) r = fst (RenoCongestion_on_duplicate_ack r a)"
| "reno_event Timeout r = RenoCongestion_on_timeout r"

interpretation reno:
  congestion_control reno_event RenoCongestion_effective_window re_mss
    "\<lambda>r. reno_inv r \<and> re_mss r \<le> MAX_CWND"
proof unfold_locales
  fix r e w
  show "re_mss (reno_event e r) = re_mss r"
    by (cases e) simp_all
  assume inv: "reno_inv r \<and> re_mss r \<le> MAX_CWND"
  then show "reno_inv (reno_event e r) \<and> re_mss (reno_event e r) \<le> MAX_CWND"
    by (cases e) (simp_all add: reno_inv_on_ack reno_inv_on_duplicate_ack reno_inv_on_timeout)
  from inv show "0 < re_mss r \<and> re_mss r \<le> RenoCongestion_effective_window r w"
    by (simp add: reno_inv_def RenoCongestion_effective_window_def)
qed


section \<open>Properties\<close>



text \<open>Fast retransmit fires on the third duplicate ACK and only there: outside
  recovery with no duplicate counted, the first two return False and leave the window
  alone, the third returns True, halves the threshold (two segments at least) and enters
  recovery with the window inflated by three segments.\<close>

lemma reno_third_duplicate_ack:
  assumes "re_state r \<noteq> FAST_RECOVERY" and "re_duplicate_acks r = 0"
  shows "let (r1, f1) = RenoCongestion_on_duplicate_ack r a1;
             (r2, f2) = RenoCongestion_on_duplicate_ack r1 a2;
             (r3, f3) = RenoCongestion_on_duplicate_ack r2 (Some a3)
         in \<not> f1 \<and> \<not> f2 \<and> f3 \<and> re_cwnd r2 = re_cwnd r \<and> re_ssthresh r2 = re_ssthresh r
            \<and> re_state r3 = FAST_RECOVERY \<and> re_recover r3 = a3
            \<and> re_ssthresh r3 = max (re_cwnd r div 2) (2 * re_mss r)
            \<and> re_cwnd r3 = re_ssthresh r3 + 3 * re_mss r"
  using assms by (simp add: RenoCongestion_on_duplicate_ack_def Let_def)

lemma reno_third_duplicate_ack_witness:
  "\<exists>r. RenoCongestion_init 1000 (Some 8000) None = Inr r
     \<and> (case RenoCongestion_on_duplicate_ack r None of (r1, f1) \<Rightarrow>
         case RenoCongestion_on_duplicate_ack r1 None of (r2, f2) \<Rightarrow>
         case RenoCongestion_on_duplicate_ack r2 (Some 7) of (r3, f3) \<Rightarrow>
           \<not> f2 \<and> f3 \<and> re_ssthresh r3 = 4000 \<and> re_cwnd r3 = 7000)"
proof -
  obtain r where r: "RenoCongestion_init 1000 (Some 8000) None = Inr r"
    by (simp add: RenoCongestion_init_def)
  then have "re_state r = SLOW_START" "re_duplicate_acks r = 0" "re_cwnd r = 8000" "re_mss r = 1000"
    by (auto simp: RenoCongestion_init_def)
  with reno_third_duplicate_ack [of r None None 7] r show ?thesis
    by (auto simp: Let_def split: prod.splits)
qed

text \<open>Recovery ends with the first advancing ACK: the handler records the duplicate
  ACK's own number as the recovery point, so every later ACK that acknowledges new data
  passes the test and the partial-ACK branch of \<open>on_ack\<close> is never taken.\<close>

lemma reno_recovery_ends_at_first_ack:
  assumes "RenoCongestion_on_duplicate_ack r (Some a) = (r', True)"
    and "seq_gt a' a" and "0 < n"
  shows "re_state (RenoCongestion_on_ack r' n (Some a')) = CONGESTION_AVOIDANCE
       \<and> re_cwnd (RenoCongestion_on_ack r' n (Some a')) = max (re_ssthresh r') (re_mss r')"
proof -
  have "re_state r' = FAST_RECOVERY" and "re_recover r' = a"
    using assms(1) by (auto simp: RenoCongestion_on_duplicate_ack_def Let_def split: if_splits)
  moreover have "seq_ge a' a"
    using assms(2) by (simp add: seq_ge_def seq_gt_def)
  ultimately show ?thesis
    using assms(3) by (simp add: RenoCongestion_on_ack_def)
qed

lemma reno_recovery_ends_at_first_ack_witness:
  "\<exists>r r'. RenoCongestion_on_duplicate_ack r (Some 100) = (r', True)
     \<and> re_state (RenoCongestion_on_ack r' 1 (Some 101)) = CONGESTION_AVOIDANCE"
proof -
  let ?r = "\<lparr>re_mss = 1000, re_cwnd = 8000, re_ssthresh = 9000, re_state = SLOW_START,
    re_duplicate_acks = 2, re_recover = 0, re_timeouts = 0, re_fast_retransmits = 0\<rparr>"
  obtain r' where "RenoCongestion_on_duplicate_ack ?r (Some 100) = (r', True)"
    by (simp add: RenoCongestion_on_duplicate_ack_def Let_def)
  moreover have "seq_gt 101 100"
    by (simp add: seq_gt_def seq_lt_def and_SEQ_MASK SEQ_HALF_def)
  ultimately show ?thesis
    using reno_recovery_ends_at_first_ack [of ?r 100 r' 101 1] by auto
qed

text \<open>Growth: in slow start an ACK of \<open>n\<close> bytes grows the window by exactly \<open>n\<close> up to
  the cap, so a window's worth of ACKs doubles it; in congestion avoidance an ACK of at
  most a window's worth grows it by at least one byte and at most one segment.\<close>

lemma reno_growth:
  assumes "reno_inv r" and "0 < n"
  shows "(re_state r = SLOW_START \<longrightarrow>
            re_cwnd (RenoCongestion_on_ack r n a) = min (re_cwnd r + n) MAX_CWND)
       \<and> (re_state r = CONGESTION_AVOIDANCE \<longrightarrow> n \<le> re_cwnd r \<longrightarrow> re_cwnd r < MAX_CWND \<longrightarrow>
            re_cwnd r < re_cwnd (RenoCongestion_on_ack r n a)
            \<and> re_cwnd (RenoCongestion_on_ack r n a) \<le> re_cwnd r + re_mss r)"
proof -
  have cwnd: "1 \<le> re_cwnd r" and mss: "1 \<le> re_mss r"
    using assms(1) by (simp_all add: reno_inv_def)
  have "re_mss r * n div re_cwnd r \<le> re_mss r" if "n \<le> re_cwnd r"
  proof -
    have "re_mss r * n div re_cwnd r \<le> re_mss r * re_cwnd r div re_cwnd r"
      using that cwnd mss by (intro zdiv_mono1 mult_left_mono) auto
    with cwnd show ?thesis by simp
  qed
  with assms(2) cwnd mss show ?thesis
    by (auto simp: RenoCongestion_on_ack_def Let_def max_def min_def)
qed

lemma reno_growth_witness:
  "\<exists>r. RenoCongestion_init 1000 (Some 2000) None = Inr r
     \<and> re_cwnd (RenoCongestion_on_ack r 2000 None) = 4000"
proof -
  obtain r where r: "RenoCongestion_init 1000 (Some 2000) None = Inr r"
    by (simp add: RenoCongestion_init_def)
  then have "reno_inv r" "re_state r = SLOW_START" "re_cwnd r = 2000"
    by (auto simp: RenoCongestion_init_def reno_inv_def MAX_CWND_def)
  with reno_growth [of r 2000 None] r show ?thesis by (auto simp: MAX_CWND_def)
qed

text \<open>The sender may exceed the receiver's window: when the peer advertises less than
  one MSS, \<open>effective_window\<close> still answers a full MSS.\<close>

lemma reno_effective_window_exceeds_receiver:
  assumes "reno_inv r" and "w < re_mss r"
  shows "RenoCongestion_effective_window r w = re_mss r
       \<and> w < RenoCongestion_effective_window r w"
  using assms by (auto simp: RenoCongestion_effective_window_def reno_inv_def)

lemma reno_effective_window_exceeds_receiver_witness:
  "\<exists>r. RenoCongestion_init 1460 None None = Inr r \<and> RenoCongestion_effective_window r 10 = 1460"
proof -
  obtain r where r: "RenoCongestion_init 1460 None None = Inr r"
    by (simp add: RenoCongestion_init_def)
  then have "reno_inv r" "re_mss r = 1460"
    using reno_inv_init [OF r] by (auto simp: RenoCongestion_init_def MAX_CWND_def)
  with reno_effective_window_exceeds_receiver [of r 10] r show ?thesis by auto
qed

end
