(* ===== verification/Byteio.thy ===== *)
theory Byteio
  imports Prelude
begin

text \<open>
  Network byte order. The first part models what the code uses of the standard module
  \<open>struct\<close>: \<open>struct.pack\<close> with a big-endian format (each field checked against its width,
  \<open>struct.error\<close> otherwise) and the reads of \<open>struct.unpack_from\<close>. The second part is
  \<open>minitcp/util/byteio.py\<close>, the sequential \<open>Reader\<close> and \<open>Writer\<close>, which turn every
  range problem into \<open>ValueError\<close>.
\<close>

section \<open>struct.pack and struct.unpack\<close>

definition be16 :: "int \<Rightarrow> bytes" where
  "be16 v = [word_of_int (v div 256), word_of_int v]"

definition be32 :: "int \<Rightarrow> bytes" where
  "be32 v = [word_of_int (v div 16777216), word_of_int (v div 65536), word_of_int (v div 256),
             word_of_int v]"

datatype field = FB int | FH int | FI int | FS bytes

fun pack_field :: "field \<Rightarrow> py_error + bytes" where
  "pack_field (FB v) = (if 0 \<le> v \<and> v < 2 ^ 8 then Inr [word_of_int v] else Inl StructError)"
| "pack_field (FH v) = (if 0 \<le> v \<and> v < 2 ^ 16 then Inr (be16 v) else Inl StructError)"
| "pack_field (FI v) = (if 0 \<le> v \<and> v < 2 ^ 32 then Inr (be32 v) else Inl StructError)"
| "pack_field (FS d) = Inr d"

fun struct_pack :: "field list \<Rightarrow> py_error + bytes" where
  "struct_pack [] = Inr []"
| "struct_pack (f # fs) =
     (case pack_field f of
        Inl e \<Rightarrow> Inl e
      | Inr b \<Rightarrow> (case struct_pack fs of Inl e \<Rightarrow> Inl e | Inr bs \<Rightarrow> Inr (b @ bs)))"

text \<open>Reads at a fixed offset; every caller checks the length of the data first.\<close>

definition get_u8 :: "bytes \<Rightarrow> nat \<Rightarrow> int" where
  "get_u8 data i = uint (data ! i)"

definition get_u16 :: "bytes \<Rightarrow> nat \<Rightarrow> int" where
  "get_u16 data i = uint (data ! i) * 256 + uint (data ! (i + 1))"

definition get_u32 :: "bytes \<Rightarrow> nat \<Rightarrow> int" where
  "get_u32 data i =
     uint (data ! i) * 16777216 + uint (data ! (i + 1)) * 65536 + uint (data ! (i + 2)) * 256
     + uint (data ! (i + 3))"

lemma length_be [simp]: "length (be16 v) = 2" "length (be32 v) = 4"
  by (simp_all add: be16_def be32_def)

lemma uint_byte [simp]: "uint (word_of_int v :: byte) = v mod 256"
  by (simp add: uint_word_of_int)

lemma uint_byte_bounds [simp]: "0 \<le> uint (b :: byte)" "uint (b :: byte) < 256" "uint (b :: byte) \<le> 255"
proof -
  have "uint b < 2 ^ LENGTH(8)" by (rule uint_bounded)
  then show "uint b < 256" "uint b \<le> 255" by simp_all
qed simp

lemma get_u8_bounds [simp]: "0 \<le> get_u8 d i" "get_u8 d i < 256" "get_u8 d i \<le> 255"
  by (simp_all add: get_u8_def)

lemma get_u16_bounds [simp]: "0 \<le> get_u16 d i" "get_u16 d i < 65536" "get_u16 d i \<le> 65535"
  using uint_byte_bounds [of "d ! i"] uint_byte_bounds [of "d ! (i + 1)"]
  by (simp_all add: get_u16_def del: uint_byte_bounds)

lemma get_u32_bounds [simp]: "0 \<le> get_u32 d i" "get_u32 d i < 4294967296" "get_u32 d i \<le> 4294967295"
  using uint_byte_bounds [of "d ! i"] uint_byte_bounds [of "d ! (i + 1)"]
    uint_byte_bounds [of "d ! (i + 2)"] uint_byte_bounds [of "d ! (i + 3)"]
  by (simp_all add: get_u32_def del: uint_byte_bounds)

text \<open>Decoding inverts encoding, at the front of a buffer and behind a prefix.\<close>

lemma get_u16_be16: "0 \<le> v \<Longrightarrow> v < 65536 \<Longrightarrow> get_u16 (be16 v @ r) 0 = v"
  by (simp add: get_u16_def be16_def)

lemma base256_recompose:
  fixes v x y z m0 m1 m2 :: int
  shows "v = x * 256 + m0 \<Longrightarrow> x = y * 256 + m1 \<Longrightarrow> y = z * 256 + m2 \<Longrightarrow>
    z * 16777216 + m2 * 65536 + m1 * 256 + m0 = v"
  by simp

lemma get_u32_be32: "0 \<le> v \<Longrightarrow> v < 4294967296 \<Longrightarrow> get_u32 (be32 v @ r) 0 = v"
proof -
  assume v: "0 \<le> v" "v < 4294967296"
  have h1: "v div 256 = v div 65536 * 256 + v div 256 mod 256"
    using div_mult_mod_eq [of "v div 256" 256] by (simp add: zdiv_zmult2_eq [symmetric])
  have h2: "v div 65536 = v div 16777216 * 256 + v div 65536 mod 256"
    using div_mult_mod_eq [of "v div 65536" 256] by (simp add: zdiv_zmult2_eq [symmetric])
  have top: "v div 16777216 mod 256 = v div 16777216"
    using v by (intro mod_pos_pos_trivial) (auto simp: div_less_iff_less_mult)
  have "get_u32 (be32 v @ r) 0 = v div 16777216 mod 256 * 16777216
      + v div 65536 mod 256 * 65536 + v div 256 mod 256 * 256 + v mod 256"
    by (simp add: get_u32_def be32_def)
  also have "\<dots> = v"
    unfolding top by (rule base256_recompose [OF div_mult_mod_eq [symmetric] h1 h2])
  finally show ?thesis .
qed

lemma get_u8_skip: "length p = n \<Longrightarrow> get_u8 (p @ r) (n + i) = get_u8 r i"
  and get_u16_skip: "length p = n \<Longrightarrow> get_u16 (p @ r) (n + i) = get_u16 r i"
  and get_u32_skip: "length p = n \<Longrightarrow> get_u32 (p @ r) (n + i) = get_u32 r i"
  by (auto simp: get_u8_def get_u16_def get_u32_def nth_append)

lemma get_u8_at: "data = p @ word_of_int v # r \<Longrightarrow> length p = n \<Longrightarrow> 0 \<le> v \<Longrightarrow> v < 256 \<Longrightarrow> get_u8 data n = v"
  by (simp add: get_u8_def nth_append)

lemma get_u16_at: "data = p @ be16 v @ r \<Longrightarrow> length p = n \<Longrightarrow> 0 \<le> v \<Longrightarrow> v < 65536 \<Longrightarrow> get_u16 data n = v"
  using get_u16_skip [of p n "be16 v @ r" 0] get_u16_be16 [of v r] by simp

lemma get_u32_at: "data = p @ be32 v @ r \<Longrightarrow> length p = n \<Longrightarrow> 0 \<le> v \<Longrightarrow> v < 4294967296 \<Longrightarrow> get_u32 data n = v"
  using get_u32_skip [of p n "be32 v @ r" 0] get_u32_be32 [of v r] by simp

lemma be16_get: "be16 (uint a * 256 + uint b) = [a, b]"
proof -
  have "(uint a * 256 + uint b) div 256 = uint a"
    by simp
  moreover have "word_of_int (uint a * 256 + uint b) = b"
    by (rule word_uint_eqI, subst uint_byte) simp
  ultimately show ?thesis
    by (simp add: be16_def del: of_int_add of_int_mult)
qed

lemma struct_pack_error: "struct_pack fs = Inl e \<Longrightarrow> e = StructError"
proof (induction fs)
  case (Cons f fs)
  then show ?case
    by (cases f) (auto split: sum.splits if_splits)
qed simp


section \<open>Reader\<close>

record reader =
  rd_data :: bytes
  rd_pos :: int

definition Reader_init :: "bytes \<Rightarrow> reader" where
  "Reader_init data = \<lparr>rd_data = data, rd_pos = 0\<rparr>"

definition Reader_remaining :: "reader \<Rightarrow> int" where
  "Reader_remaining r = len (rd_data r) - rd_pos r"

definition Reader_need :: "reader \<Rightarrow> int \<Rightarrow> py_error + unit" where
  "Reader_need r n = (if len (rd_data r) < rd_pos r + n then Inl ValueError else Inr ())"

definition Reader_u8 :: "reader \<Rightarrow> py_error + int \<times> reader" where
  "Reader_u8 r =
     (case Reader_need r 1 of
        Inl e \<Rightarrow> Inl e
      | Inr _ \<Rightarrow> Inr (get_u8 (rd_data r) (nat (rd_pos r)), r\<lparr>rd_pos := rd_pos r + 1\<rparr>))"

definition Reader_u16 :: "reader \<Rightarrow> py_error + int \<times> reader" where
  "Reader_u16 r =
     (case Reader_need r 2 of
        Inl e \<Rightarrow> Inl e
      | Inr _ \<Rightarrow> Inr (get_u16 (rd_data r) (nat (rd_pos r)), r\<lparr>rd_pos := rd_pos r + 2\<rparr>))"

definition Reader_u32 :: "reader \<Rightarrow> py_error + int \<times> reader" where
  "Reader_u32 r =
     (case Reader_need r 4 of
        Inl e \<Rightarrow> Inl e
      | Inr _ \<Rightarrow> Inr (get_u32 (rd_data r) (nat (rd_pos r)), r\<lparr>rd_pos := rd_pos r + 4\<rparr>))"

definition Reader_raw :: "reader \<Rightarrow> int \<Rightarrow> py_error + bytes \<times> reader" where
  "Reader_raw r n =
     (case Reader_need r n of
        Inl e \<Rightarrow> Inl e
      | Inr _ \<Rightarrow> Inr (py_from (py_upto (rd_data r) (rd_pos r + n)) (rd_pos r),
                      r\<lparr>rd_pos := rd_pos r + n\<rparr>))"

definition Reader_rest :: "reader \<Rightarrow> bytes \<times> reader" where
  "Reader_rest r = (py_from (rd_data r) (rd_pos r), r\<lparr>rd_pos := len (rd_data r)\<rparr>)"


section \<open>Writer\<close>

type_synonym writer = "bytes list"

definition Writer_check :: "int \<Rightarrow> nat \<Rightarrow> py_error + unit" where
  "Writer_check v bits = (if 0 \<le> v \<and> v < 2 ^ bits then Inr () else Inl ValueError)"

definition Writer_u8 :: "writer \<Rightarrow> int \<Rightarrow> py_error + writer" where
  "Writer_u8 w v = (case Writer_check v 8 of Inl e \<Rightarrow> Inl e | Inr _ \<Rightarrow> Inr (w @ [[word_of_int v]]))"

definition Writer_u16 :: "writer \<Rightarrow> int \<Rightarrow> py_error + writer" where
  "Writer_u16 w v = (case Writer_check v 16 of Inl e \<Rightarrow> Inl e | Inr _ \<Rightarrow> Inr (w @ [be16 v]))"

definition Writer_u32 :: "writer \<Rightarrow> int \<Rightarrow> py_error + writer" where
  "Writer_u32 w v = (case Writer_check v 32 of Inl e \<Rightarrow> Inl e | Inr _ \<Rightarrow> Inr (w @ [be32 v]))"

definition Writer_raw :: "writer \<Rightarrow> bytes \<Rightarrow> writer" where
  "Writer_raw w d = w @ [d]"

definition Writer_bytes :: "writer \<Rightarrow> bytes" where
  "Writer_bytes w = concat w"

definition Writer_len :: "writer \<Rightarrow> int" where
  "Writer_len w = sum_list (map len w)"

end
