(* ===== verification/Checksum.thy ===== *)
theory Checksum
  imports Byteio
begin

text \<open>
  \<open>minitcp/util/checksum.py\<close>: the Internet checksum of RFC 1071. The sum of the 16-bit
  words is folded by a loop; the loop is proved to compute the representative of the sum
  modulo 65535, which is what makes the checksum independent of where the carries occur.
\<close>

section \<open>The operations\<close>

text \<open>\<open>struct.unpack("!nH")\<close> on data of even length.\<close>

fun be_words :: "bytes \<Rightarrow> nat list" where
  "be_words (a # b # r) = (unat a * 256 + unat b) # be_words r"
| "be_words _ = []"

lemma and_0xFFFF: "(n :: nat) AND 0xFFFF = n mod 65536"
proof -
  have "n AND 0xFFFF = take_bit 16 n"
    by (simp add: take_bit_eq_mask mask_eq_exp_minus_1)
  then show ?thesis by (simp add: take_bit_eq_mod)
qed

lemma split_16:
  obtains q r :: nat where "n = 65536 * q + r" and "r < 65536"
    and "n AND 0xFFFF = r" and "drop_bit 16 n = q"
proof
  show "n = 65536 * (n div 65536) + n mod 65536" by simp
  show "n mod 65536 < 65536" by simp
  show "n AND 0xFFFF = n mod 65536" by (rule and_0xFFFF)
  show "drop_bit 16 n = n div 65536" by (simp add: drop_bit_eq_div)
qed

lemma fold_step_smaller: "drop_bit 16 n \<noteq> 0 \<Longrightarrow> (n AND 0xFFFF) + drop_bit 16 n < (n :: nat)"
  by (rule split_16 [of n]) simp

text \<open>\<open>while total >> 16: total = (total & 0xFFFF) + (total >> 16)\<close>; the total of unsigned
  words is not negative.\<close>

function fold_carries :: "nat \<Rightarrow> nat" where
  "fold_carries t =
     (if drop_bit 16 t \<noteq> 0 then fold_carries ((t AND 0xFFFF) + drop_bit 16 t) else t)"
  by pat_completeness auto

termination
  by (relation "measure id") (auto simp: fold_step_smaller)

declare fold_carries.simps [simp del]

definition ones_complement_sum :: "bytes \<Rightarrow> nat" where
  "ones_complement_sum data =
     (let data = (if odd (length data) then data @ [0] else data)
      in fold_carries (sum_list (be_words data)))"

definition checksum :: "bytes \<Rightarrow> int" where
  "checksum data = (NOT (int (ones_complement_sum data))) AND 0xFFFF"

definition transport_checksum :: "bytes \<Rightarrow> bytes \<Rightarrow> int \<Rightarrow> bytes \<Rightarrow> py_error + int" where
  "transport_checksum src dst protocol segment =
     (case struct_pack [FB 0, FB protocol, FH (len segment)] of
        Inl e \<Rightarrow> Inl e
      | Inr tail \<Rightarrow> Inr (checksum ((src @ dst @ tail) @ segment)))"

definition verify :: "bytes \<Rightarrow> bool" where
  "verify data \<longleftrightarrow> checksum data = 0"


section \<open>Folding is reduction modulo 65535\<close>

lemma fold_carries_range: "fold_carries n < 65536"
proof (induction n rule: fold_carries.induct)
  case (1 n)
  then show ?case
    by (subst fold_carries.simps) (auto simp: drop_bit_eq_div)
qed

lemma fold_carries_mod: "fold_carries n mod 65535 = n mod 65535"
proof (induction n rule: fold_carries.induct)
  case (1 n)
  show ?case
  proof (cases "drop_bit 16 n \<noteq> 0")
    case True
    have "((n AND 0xFFFF) + drop_bit 16 n) mod 65535 = n mod 65535"
    proof (rule split_16 [of n])
      fix q r :: nat
      assume "n = 65536 * q + r" and "n AND 0xFFFF = r" and "drop_bit 16 n = q"
      moreover have "65536 * q + r = (r + q) + 65535 * q" by simp
      ultimately show ?thesis by (metis mod_mult_self2)
    qed
    with True "1.IH" show ?thesis
      by (subst fold_carries.simps) simp
  next
    case False
    then show ?thesis by (subst fold_carries.simps) simp
  qed
qed

lemma fold_carries_0: "fold_carries n = 0 \<longleftrightarrow> n = 0"
proof (induction n rule: fold_carries.induct)
  case (1 n)
  show ?case
  proof (cases "drop_bit 16 n \<noteq> 0")
    case True
    with "1.IH" have "fold_carries n = 0 \<longleftrightarrow> (n AND 0xFFFF) + drop_bit 16 n = 0"
      by (subst fold_carries.simps) simp
    moreover have "n \<noteq> 0"
      using True by (intro notI) simp
    ultimately show ?thesis using True by simp
  next
    case False
    then show ?thesis by (subst fold_carries.simps) simp
  qed
qed

text \<open>The folded value is all ones exactly for the positive multiples of 65535.\<close>

lemma fold_carries_ones: "fold_carries n = 65535 \<longleftrightarrow> 0 < n \<and> 65535 dvd n"
proof -
  have "65535 dvd n \<longleftrightarrow> 65535 dvd fold_carries n"
    using fold_carries_mod [of n] by (simp add: dvd_eq_mod_eq_0)
  moreover have "65535 dvd fold_carries n \<longleftrightarrow> fold_carries n = 0 \<or> fold_carries n = 65535"
    using fold_carries_range [of n] by (auto elim!: dvdE)
  ultimately show ?thesis
    using fold_carries_0 [of n] by auto
qed

lemma fold_carries_cong:
  "m mod 65535 = n mod 65535 \<Longrightarrow> 0 < m \<Longrightarrow> 0 < n \<Longrightarrow> fold_carries m = fold_carries n"
proof -
  assume h: "m mod 65535 = n mod 65535" "0 < m" "0 < n"
  then have "fold_carries m mod 65535 = fold_carries n mod 65535"
    by (simp add: fold_carries_mod)
  moreover have "0 < fold_carries m" "0 < fold_carries n"
    using h(2,3) fold_carries_0 [of m] fold_carries_0 [of n] by simp_all
  moreover have "x = y" if "x mod 65535 = y mod 65535" "0 < x" "0 < y" "x < 65536" "y < 65536"
    for x y :: nat
  proof (cases "x = 65535 \<or> y = 65535")
    case True
    with that show ?thesis by (auto simp: dvd_eq_mod_eq_0 [symmetric] dest: nat_dvd_not_less)
  next
    case False
    with that have "x mod 65535 = x" "y mod 65535 = y" by simp_all
    with that(1) show ?thesis by simp
  qed
  ultimately show ?thesis
    using fold_carries_range by blast
qed

definition word_sum :: "bytes \<Rightarrow> nat" where
  "word_sum data = sum_list (be_words (if odd (length data) then data @ [0] else data))"

lemma ones_complement_sum_eq: "ones_complement_sum data = fold_carries (word_sum data)"
  by (simp add: ones_complement_sum_def word_sum_def)

lemma checksum_eq: "checksum data = 65535 - int (fold_carries (word_sum data))"
proof -
  let ?s = "int (fold_carries (word_sum data))"
  have s: "0 \<le> ?s" "?s < 65536"
    using fold_carries_range by simp_all
  have "NOT ?s AND 0xFFFF = (- ?s - 1) mod 65536"
    using take_bit_eq_mask [of 16 "NOT ?s"]
    by (simp add: mask_eq_exp_minus_1 take_bit_eq_mod not_int_def)
  also have "\<dots> = (65535 - ?s) mod 65536"
    by (simp add: mod_eq_dvd_iff)
  also have "\<dots> = 65535 - ?s"
    using s by simp
  finally show ?thesis by (simp add: checksum_def ones_complement_sum_eq)
qed

lemma checksum_range: "0 \<le> checksum data \<and> checksum data < 65536"
  using fold_carries_range [of "word_sum data"] by (simp add: checksum_eq)

lemma checksum_0: "checksum data = 0 \<longleftrightarrow> 0 < word_sum data \<and> 65535 dvd word_sum data"
  using fold_carries_ones [of "word_sum data"] by (auto simp: checksum_eq)



section \<open>Filling in and checking\<close>

lemma be_words_append: "even (length p) \<Longrightarrow> be_words (p @ d) = be_words p @ be_words d"
  by (induction p rule: be_words.induct) auto

lemma word_sum_append: "even (length p) \<Longrightarrow> word_sum (p @ d) = sum_list (be_words p) + word_sum d"
  by (simp add: word_sum_def be_words_append)

lemma word_sum_word: "word_sum (a # b # d) = unat a * 256 + unat b + word_sum d"
  by (simp add: word_sum_def)

lemma unat_byte: "0 \<le> v \<Longrightarrow> unat (word_of_int v :: byte) = nat (v mod 256)"
  by (metis uint_byte nat_uint_eq)

lemma word_sum_be16:
  assumes "0 \<le> c" and "c < 65536"
  shows "word_sum (be16 c @ d) = nat c + word_sum d"
proof -
  have "int (nat (c div 256) * 256 + nat (c mod 256)) = c div 256 * 256 + c mod 256"
    using assms by (simp add: pos_imp_zdiv_nonneg_iff del: div_mult_mod_eq)
  then have "nat (c div 256) * 256 + nat (c mod 256) = nat c"
    by (metis nat_int div_mult_mod_eq)
  moreover have "c div 256 mod 256 = c div 256"
    using assms by (intro mod_pos_pos_trivial) (auto simp: div_less_iff_less_mult)
  ultimately show ?thesis
    using assms by (simp add: be16_def word_sum_word unat_byte pos_imp_zdiv_nonneg_iff)
qed

lemma word_sum_fill:
  assumes "even (length pre)" and "0 \<le> c" and "c < 65536"
  shows "word_sum (pre @ be16 c @ post) = word_sum (pre @ [0, 0] @ post) + nat c"
  unfolding word_sum_append [OF assms(1)] word_sum_be16 [OF assms(2,3)]
  by (simp add: word_sum_word)

text \<open>Writing the checksum of the zeroed message into its field makes the sum all ones. The
  two zeros of one's complement arithmetic are interchangeable there.\<close>

lemma checksum_filled:
  assumes "even (length pre)" and "checksum (pre @ [0, 0] @ post) = c"
  shows "checksum (pre @ be16 c @ post) = 0"
    and "c = 0 \<Longrightarrow> checksum (pre @ be16 65535 @ post) = 0"
proof -
  let ?n = "word_sum (pre @ [0, 0] @ post)"
  have c: "c = 65535 - int (fold_carries ?n)" "0 \<le> c" "c < 65536"
    using assms(2) checksum_range checksum_eq by auto
  have f: "fold_carries ?n \<le> 65535"
    using fold_carries_range [of ?n] by simp
  have nat_c: "nat c = 65535 - fold_carries ?n"
    using c(1) f by simp
  have "65535 dvd ?n + nat c"
  proof -
    have "(?n + nat c) mod 65535 = (fold_carries ?n + nat c) mod 65535"
      by (metis fold_carries_mod mod_add_left_eq)
    also have "\<dots> = 0"
      using f by (simp add: nat_c)
    finally show ?thesis by (simp add: dvd_eq_mod_eq_0)
  qed
  moreover have "0 < ?n + nat c"
    using fold_carries_0 [of ?n] nat_c by (cases "?n = 0") auto
  ultimately show "checksum (pre @ be16 c @ post) = 0"
    unfolding checksum_0 word_sum_fill [OF assms(1) c(2,3)] by simp
  assume "c = 0"
  then have "65535 dvd ?n"
    using assms(2) checksum_0 by blast
  then show "checksum (pre @ be16 65535 @ post) = 0"
    using word_sum_fill [OF assms(1), of 65535] by (simp add: checksum_0)
qed

lemma be_words_update:
  "i < length d \<Longrightarrow> even (length d) \<Longrightarrow>
     int (sum_list (be_words (d[i := b])))
     = int (sum_list (be_words d)) + (uint b - uint (d ! i)) * (if even i then 256 else 1)"
proof (induction d arbitrary: i rule: be_words.induct)
  case (1 x y d)
  consider "i = 0" | "i = 1" | j where "i = Suc (Suc j)"
    by (metis One_nat_def nat.exhaust)
  then show ?case
  proof cases
    case (3 j)
    with 1 show ?thesis by simp
  qed (simp_all add: algebra_simps)
qed simp_all

lemma word_sum_update:
  assumes "i < length d"
  shows "int (word_sum (d[i := b]))
       = int (word_sum d) + (uint b - uint (d ! i)) * (if even i then 256 else 1)"
proof (cases "even (length d)")
  case True
  with assms show ?thesis by (simp add: word_sum_def be_words_update)
next
  case False
  have "int (sum_list (be_words ((d @ [0])[i := b]))) = int (sum_list (be_words (d @ [0])))
      + (uint b - uint ((d @ [0]) ! i)) * (if even i then 256 else 1)"
    using False assms by (intro be_words_update) auto
  with False assms show ?thesis
    by (simp add: word_sum_def list_update_append1 nth_append)
qed

lemma checksum_eq_dvd: "checksum d = checksum d' \<Longrightarrow> (65535 :: int) dvd int (word_sum d) - int (word_sum d')"
proof -
  assume "checksum d = checksum d'"
  then have "fold_carries (word_sum d) = fold_carries (word_sum d')"
    by (simp add: checksum_eq)
  then have "word_sum d mod 65535 = word_sum d' mod 65535"
    by (metis fold_carries_mod)
  then show ?thesis
    by (metis mod_eq_dvd_iff of_nat_mod of_nat_numeral)
qed


lemma checksum_update:
  assumes "i < length d" and "b \<noteq> d ! i"
  shows "checksum (d[i := b]) \<noteq> checksum d"
proof
  assume "checksum (d[i := b]) = checksum d"
  then have dvd: "65535 dvd (uint b - uint (d ! i)) * (if even i then 256 else 1)"
    using checksum_eq_dvd word_sum_update [OF assms(1), of b] by fastforce
  have "uint b \<noteq> uint (d ! i)"
    using assms(2) word_uint_eqI by blast
  moreover have "\<bar>uint b - uint (d ! i)\<bar> \<le> 255"
    using uint_byte_bounds [of b] uint_byte_bounds [of "d ! i"] by linarith
  ultimately show False
    using dvd_imp_le_int [OF _ dvd] by (cases "even i") (auto simp: abs_mult)
qed


section \<open>The transport checksum\<close>

text \<open>The value written into the zeroed field is accepted by the verification, and a changed byte
  is not.\<close>

lemma transport_checksum_eq:
  "transport_checksum src dst p seg =
     (if \<not> (0 \<le> p \<and> p < 2 ^ 8 \<and> len seg < 2 ^ 16) then Inl StructError
      else Inr (checksum ((src @ dst @ [0, word_of_int p] @ be16 (len seg)) @ seg)))"
  by (auto simp: transport_checksum_def)

lemma transport_checksum_fill:
  assumes "transport_checksum src dst p (pre @ [0, 0] @ post) = Inr c"
    and "even (length src + length dst)" and "even (length pre)"
  shows "transport_checksum src dst p (pre @ be16 c @ post) = Inr 0"
    and "0 \<le> c" and "c < 65536"
proof -
  let ?hdr = "src @ dst @ [0, word_of_int p] @ be16 (len (pre @ [0, 0] @ post))"
  from assms(1) have ok: "0 \<le> p" "p < 2 ^ 8" "len (pre @ [0, 0] @ post) < 2 ^ 16"
    and c: "checksum ((?hdr @ pre) @ [0, 0] @ post) = c"
    by (auto simp: transport_checksum_eq split: if_splits)
  show "0 \<le> c" "c < 65536"
    using checksum_range c by auto
  have "even (length (?hdr @ pre))" using assms(2,3) by simp
  from checksum_filled(1) [OF this c] ok
  show "transport_checksum src dst p (pre @ be16 c @ post) = Inr 0"
    by (simp add: transport_checksum_eq)
qed

lemma transport_checksum_update:
  assumes "transport_checksum src dst p b = Inr c" and "i < length b" and "v \<noteq> b ! i"
  shows "\<exists>c'. transport_checksum src dst p (b[i := v]) = Inr c' \<and> c' \<noteq> c"
proof -
  let ?hdr = "src @ dst @ [0, word_of_int p] @ be16 (len b)"
  have "checksum ((?hdr @ b)[length ?hdr + i := v]) \<noteq> checksum (?hdr @ b)"
    using assms(2,3) by (intro checksum_update) (simp_all add: nth_append)
  then show ?thesis
    using assms(1) by (auto simp: transport_checksum_eq list_update_append split: if_splits)
qed


section \<open>Properties\<close>

text \<open>A message protected by its checksum verifies: writing \<open>checksum\<close> of the message
  with a zeroed 16-bit field into that field (at any even offset) makes \<open>verify\<close> accept.\<close>

lemma checksum_verifies:
  assumes "even (length pre)"
  shows "verify (pre @ be16 (checksum (pre @ [0, 0] @ post)) @ post)"
  using checksum_filled(1) [OF assms refl] by (simp add: verify_def)

lemma checksum_verifies_witness:
  "verify ([0x45, 0] @ be16 (checksum ([0x45, 0] @ [0, 0] @ [1, 2, 3])) @ [1, 2, 3])"
  by (rule checksum_verifies) simp

text \<open>Every corruption confined to one byte is detected: changing a single byte of a
  message, in any way and at any place, changes its checksum; so a message that verified
  no longer does.\<close>

lemma checksum_detects_byte_corruption:
  assumes "i < length d" and "b \<noteq> d ! i"
  shows "checksum (d[i := b]) \<noteq> checksum d \<and> (verify d \<longrightarrow> \<not> verify (d[i := b]))"
  using checksum_update [OF assms] by (auto simp: verify_def)

lemma checksum_detects_byte_corruption_witness:
  "checksum ([0x45, 0, 7] [1 := 4]) \<noteq> checksum [0x45, 0, 7]"
  using checksum_detects_byte_corruption [of 1 "[0x45, 0, 7]" 4] by simp

text \<open>The published worked example of RFC 1071 and the canonical IPv4 header.\<close>

lemma checksum_rfc_examples:
  "checksum [0x00, 0x01, 0xf2, 0x03, 0xf4, 0xf5, 0xf6, 0xf7] = 0x220d
   \<and> checksum [0x45, 0x00, 0x00, 0x73, 0x00, 0x00, 0x40, 0x00, 0x40, 0x11, 0x00, 0x00,
               0xc0, 0xa8, 0x00, 0x01, 0xc0, 0xa8, 0x00, 0xc7] = 0xb861"
  by (simp add: checksum_def ones_complement_sum_def fold_carries.simps)

end
