(* ===== verification/Segment.thy ===== *)
theory Segment
  imports Checksum Seqno
begin

text \<open>
  \<open>minitcp/net/tcp/segment.py\<close>: the TCP header and its option area, encoding and decoding.
  The walk over the option list is a recursion on the bytes still unread (\<open>data[pos:]\<close>),
  which every iteration shortens. The textual renderings (\<open>describe\<close>, \<open>__repr__\<close>) are
  left out, apart from the flag names.
\<close>

section \<open>Constants\<close>

definition FLAG_FIN :: int where "FLAG_FIN = 0x001"
definition FLAG_SYN :: int where "FLAG_SYN = 0x002"
definition FLAG_RST :: int where "FLAG_RST = 0x004"
definition FLAG_PSH :: int where "FLAG_PSH = 0x008"
definition FLAG_ACK :: int where "FLAG_ACK = 0x010"
definition FLAG_URG :: int where "FLAG_URG = 0x020"
definition FLAG_ECE :: int where "FLAG_ECE = 0x040"
definition FLAG_CWR :: int where "FLAG_CWR = 0x080"
definition FLAG_NS :: int where "FLAG_NS = 0x100"

definition HEADER_LEN :: int where "HEADER_LEN = 20"

definition OPT_END :: int where "OPT_END = 0"
definition OPT_NOP :: int where "OPT_NOP = 1"
definition OPT_MSS :: int where "OPT_MSS = 2"
definition OPT_WINDOW_SCALE :: int where "OPT_WINDOW_SCALE = 3"
definition OPT_SACK_PERMITTED :: int where "OPT_SACK_PERMITTED = 4"
definition OPT_SACK :: int where "OPT_SACK = 5"
definition OPT_TIMESTAMP :: int where "OPT_TIMESTAMP = 8"

definition PROTO_TCP :: int where "PROTO_TCP = 6"

lemmas flag_defs =
  FLAG_FIN_def FLAG_SYN_def FLAG_RST_def FLAG_PSH_def FLAG_ACK_def FLAG_URG_def FLAG_ECE_def
  FLAG_CWR_def FLAG_NS_def

lemmas opt_defs =
  OPT_END_def OPT_NOP_def OPT_MSS_def OPT_WINDOW_SCALE_def OPT_SACK_PERMITTED_def OPT_SACK_def
  OPT_TIMESTAMP_def

definition flag_names :: "(int \<times> string) list" where
  "flag_names =
     [(FLAG_SYN, ''SYN''), (FLAG_ACK, ''ACK''), (FLAG_FIN, ''FIN''), (FLAG_RST, ''RST''),
      (FLAG_PSH, ''PSH''), (FLAG_URG, ''URG''), (FLAG_ECE, ''ECE''), (FLAG_CWR, ''CWR''),
      (FLAG_NS, ''NS'')]"

fun join_comma :: "string list \<Rightarrow> string" where
  "join_comma [] = []"
| "join_comma [s] = s"
| "join_comma (s # t # r) = s @ '','' @ join_comma (t # r)"

definition describe_flags :: "int \<Rightarrow> string" where
  "describe_flags flags =
     (let names = map snd (filter (\<lambda>(flag, name). flags AND flag \<noteq> 0) flag_names)
      in if names \<noteq> [] then join_comma names else ''-'')"


section \<open>Options\<close>

record tcp_options =
  opt_mss :: "int option"
  opt_window_scale :: "int option"
  opt_sack_permitted :: bool
  opt_sack_blocks :: "(int \<times> int) list"
  opt_timestamp :: "int option"
  opt_timestamp_echo :: "int option"

definition no_options :: tcp_options where
  "no_options =
     \<lparr>opt_mss = None, opt_window_scale = None, opt_sack_permitted = False, opt_sack_blocks = [],
      opt_timestamp = None, opt_timestamp_echo = None\<rparr>"

definition TCPOptions_is_empty :: "tcp_options \<Rightarrow> bool" where
  "TCPOptions_is_empty opts \<longleftrightarrow>
     \<not> (opt_mss opts \<noteq> None \<or> opt_window_scale opts \<noteq> None \<or> opt_sack_permitted opts
        \<or> opt_sack_blocks opts \<noteq> [] \<or> opt_timestamp opts \<noteq> None)"

text \<open>The parts of \<open>to_bytes\<close>, in the order in which they are appended.\<close>

definition mss_part :: "tcp_options \<Rightarrow> py_error + bytes" where
  "mss_part opts =
     (case opt_mss opts of
        None \<Rightarrow> Inr []
      | Some v \<Rightarrow>
          if \<not> (0 < v \<and> v \<le> 0xFFFF) then Inl ValueError
          else struct_pack [FB OPT_MSS, FB 4, FH v])"

definition sack_permitted_part :: "tcp_options \<Rightarrow> py_error + bytes" where
  "sack_permitted_part opts =
     (if opt_sack_permitted opts then struct_pack [FB OPT_SACK_PERMITTED, FB 2] else Inr [])"

definition window_scale_part :: "tcp_options \<Rightarrow> py_error + bytes" where
  "window_scale_part opts =
     (case opt_window_scale opts of
        None \<Rightarrow> Inr []
      | Some v \<Rightarrow>
          if \<not> (0 \<le> v \<and> v \<le> 14) then Inl ValueError
          else struct_pack [FB OPT_WINDOW_SCALE, FB 3, FB v])"

definition timestamp_part :: "tcp_options \<Rightarrow> py_error + bytes" where
  "timestamp_part opts =
     (case opt_timestamp opts of
        None \<Rightarrow> Inr []
      | Some v \<Rightarrow>
          struct_pack [FB OPT_TIMESTAMP, FB 10, FI (v AND 0xFFFFFFFF),
            FI ((case opt_timestamp_echo opts of None \<Rightarrow> 0 | Some e \<Rightarrow> e) AND 0xFFFFFFFF)])"

fun sack_part :: "(int \<times> int) list \<Rightarrow> py_error + bytes" where
  "sack_part [] = Inr []"
| "sack_part ((left, right) # blocks) =
     sum_bind (struct_pack [FB OPT_SACK, FB 10, FI (left AND 0xFFFFFFFF), FI (right AND 0xFFFFFFFF)])
       (\<lambda>b. sum_bind (sack_part blocks) (\<lambda>bs. Inr (b @ bs)))"

definition option_padding :: "bytes \<Rightarrow> bytes" where
  "option_padding raw =
     (let padding = (- len raw) mod 4
      in if padding = 3 then [1, 1, 1] else if padding = 2 then [1, 1]
         else if padding = 1 then [0] else [])"

definition TCPOptions_to_bytes :: "tcp_options \<Rightarrow> py_error + bytes" where
  "TCPOptions_to_bytes opts =
     sum_bind (mss_part opts) (\<lambda>p1.
     sum_bind (sack_permitted_part opts) (\<lambda>p2.
     sum_bind (window_scale_part opts) (\<lambda>p3.
     sum_bind (timestamp_part opts) (\<lambda>p4.
     sum_bind (sack_part (opt_sack_blocks opts)) (\<lambda>p5.
     let raw = p1 @ p2 @ p3 @ p4 @ p5
     in if len raw > 40 then Inl ValueError else Inr (raw @ option_padding raw))))))"

text \<open>The blocks of one SACK option: a pair of numbers every 8 bytes, a shorter rest is
  dropped.\<close>

fun sack_blocks_of :: "bytes \<Rightarrow> (int \<times> int) list" where
  "sack_blocks_of (a # b # c # d # e # f # g # h # r) =
     (get_u32 [a, b, c, d] 0, get_u32 [e, f, g, h] 0) # sack_blocks_of r"
| "sack_blocks_of _ = []"

text \<open>The branches of the loop body: what one option of the given kind, length byte and body
  does to the result.\<close>

definition store_option :: "int \<Rightarrow> int \<Rightarrow> bytes \<Rightarrow> tcp_options \<Rightarrow> tcp_options" where
  "store_option kind n body opts =
     (if kind = OPT_MSS \<and> n = 4 then opts\<lparr>opt_mss := Some (get_u16 body 0)\<rparr>
      else if kind = OPT_WINDOW_SCALE \<and> n = 3 then opts\<lparr>opt_window_scale := Some (get_u8 body 0)\<rparr>
      else if kind = OPT_SACK_PERMITTED \<and> n = 2 then opts\<lparr>opt_sack_permitted := True\<rparr>
      else if kind = OPT_TIMESTAMP \<and> n = 10 then
        opts\<lparr>opt_timestamp := Some (get_u32 body 0), opt_timestamp_echo := Some (get_u32 body 4)\<rparr>
      else if kind = OPT_SACK \<and> len body \<ge> 8 then opts\<lparr>opt_sack_blocks := sack_blocks_of body\<rparr>
      else opts)"

function options_walk :: "tcp_options \<Rightarrow> bytes \<Rightarrow> tcp_options" where
  "options_walk opts [] = opts"
| "options_walk opts (k # r) =
     (if uint k = OPT_END then opts
      else if uint k = OPT_NOP then options_walk opts r
      else if r = [] then opts
      else let n = uint (hd r)
           in if n < 2 \<or> n > len (k # r) then opts
              else options_walk (store_option (uint k) n (drop 2 (take (nat n) (k # r))) opts)
                     (drop (nat n) (k # r)))"
  by pat_completeness auto

termination
  by (relation "measure (length \<circ> snd)") (auto simp del: nat_uint_eq)

declare options_walk.simps [simp del]

definition TCPOptions_parse :: "bytes \<Rightarrow> tcp_options" where
  "TCPOptions_parse data = options_walk no_options data"


section \<open>Segments\<close>

record tcp_segment =
  seg_src_port :: int
  seg_dst_port :: int
  seg_seq :: int
  seg_ack :: int
  seg_flags :: int
  seg_window :: int
  seg_payload :: bytes
  seg_options :: tcp_options
  seg_urgent_pointer :: int
  seg_checksum :: int

definition is_syn :: "tcp_segment \<Rightarrow> bool" where "is_syn s \<longleftrightarrow> seg_flags s AND FLAG_SYN \<noteq> 0"
definition is_ack :: "tcp_segment \<Rightarrow> bool" where "is_ack s \<longleftrightarrow> seg_flags s AND FLAG_ACK \<noteq> 0"
definition is_fin :: "tcp_segment \<Rightarrow> bool" where "is_fin s \<longleftrightarrow> seg_flags s AND FLAG_FIN \<noteq> 0"
definition is_rst :: "tcp_segment \<Rightarrow> bool" where "is_rst s \<longleftrightarrow> seg_flags s AND FLAG_RST \<noteq> 0"
definition is_psh :: "tcp_segment \<Rightarrow> bool" where "is_psh s \<longleftrightarrow> seg_flags s AND FLAG_PSH \<noteq> 0"
definition is_urg :: "tcp_segment \<Rightarrow> bool" where "is_urg s \<longleftrightarrow> seg_flags s AND FLAG_URG \<noteq> 0"

definition seg_seq_len :: "tcp_segment \<Rightarrow> int" where
  "seg_seq_len s =
     len (seg_payload s) + (if is_syn s then 1 else 0) + (if is_fin s then 1 else 0)"

definition seg_seq_end :: "tcp_segment \<Rightarrow> int" where
  "seg_seq_end s = (seg_seq s + seg_seq_len s) AND SEQ_MASK"

definition acknowledges :: "tcp_segment \<Rightarrow> seqno \<Rightarrow> bool" where
  "acknowledges s sq \<longleftrightarrow> is_ack s \<and> seq_ge (seg_ack s) sq"

definition header_length :: "tcp_segment \<Rightarrow> py_error + int" where
  "header_length s =
     sum_bind (TCPOptions_to_bytes (seg_options s)) (\<lambda>opts. Inr (HEADER_LEN + len opts))"

text \<open>The 20 fixed bytes with a zero checksum, and the whole of \<open>to_bytes\<close>: the checksum is
  cut into the finished header at bytes 16 and 17.\<close>

definition segment_header :: "tcp_segment \<Rightarrow> bytes \<Rightarrow> py_error + bytes" where
  "segment_header s options_bytes =
     (let data_offset = (HEADER_LEN + len options_bytes) div 4
      in if data_offset > 15 then Inl ValueError
         else
           let offset_byte = push_bit 4 data_offset OR (drop_bit 8 (seg_flags s) AND 0x01)
           in sum_bind
                (struct_pack [FH (seg_src_port s), FH (seg_dst_port s), FI (seg_seq s AND SEQ_MASK),
                   FI (seg_ack s AND SEQ_MASK), FB offset_byte, FB (seg_flags s AND 0xFF),
                   FH (seg_window s), FH 0, FH (seg_urgent_pointer s)])
                (\<lambda>fixed. Inr (fixed @ options_bytes)))"

definition TCPSegment_to_bytes ::
  "tcp_segment \<Rightarrow> bytes option \<Rightarrow> bytes option \<Rightarrow> bool \<Rightarrow> py_error + bytes" where
  "TCPSegment_to_bytes s src_ip dst_ip compute_checksum =
     (if \<not> (0 \<le> seg_src_port s \<and> seg_src_port s \<le> 0xFFFF) then Inl ValueError
      else if \<not> (0 \<le> seg_dst_port s \<and> seg_dst_port s \<le> 0xFFFF) then Inl ValueError
      else if \<not> (0 \<le> seg_window s \<and> seg_window s \<le> 0xFFFF) then Inl ValueError
      else
        sum_bind (TCPOptions_to_bytes (seg_options s)) (\<lambda>options_bytes.
        sum_bind (segment_header s options_bytes) (\<lambda>header.
        sum_bind
          (if compute_checksum then
             (case (src_ip, dst_ip) of
                (Some src, Some dst) \<Rightarrow>
                  transport_checksum src dst PROTO_TCP (header @ seg_payload s)
              | _ \<Rightarrow> Inl ValueError)
           else Inr (seg_checksum s)) (\<lambda>csum.
        sum_bind (struct_pack [FH csum]) (\<lambda>c.
        Inr (take 16 header @ c @ drop 18 header @ seg_payload s))))))"

text \<open>The field-by-field decoding, once the lengths are checked.\<close>

definition decode_segment :: "bytes \<Rightarrow> nat \<Rightarrow> tcp_segment" where
  "decode_segment data header_len =
     \<lparr>seg_src_port = get_u16 data 0, seg_dst_port = get_u16 data 2, seg_seq = get_u32 data 4,
      seg_ack = get_u32 data 8,
      seg_flags = push_bit 8 (get_u8 data 12 AND 0x01) OR get_u8 data 13,
      seg_window = get_u16 data 14, seg_payload = drop header_len data,
      seg_options = TCPOptions_parse (drop 20 (take header_len data)),
      seg_urgent_pointer = get_u16 data 18, seg_checksum = get_u16 data 16\<rparr>"

definition TCPSegment_parse ::
  "bytes \<Rightarrow> bytes option \<Rightarrow> bytes option \<Rightarrow> bool \<Rightarrow> py_error + tcp_segment" where
  "TCPSegment_parse data src_ip dst_ip verify_checksum =
     (if len data < HEADER_LEN then Inl ValueError
      else
        let data_offset = drop_bit 4 (get_u8 data 12);
            header_len = data_offset * 4
        in if header_len < HEADER_LEN then Inl ValueError
           else if len data < header_len then Inl ValueError
           else
             sum_bind
               (case (src_ip, dst_ip) of
                  (Some src, Some dst) \<Rightarrow>
                    if verify_checksum \<and> get_u16 data 16 \<noteq> 0
                    then transport_checksum src dst PROTO_TCP data else Inr 0
                | _ \<Rightarrow> Inr 0)
               (\<lambda>csum. if csum \<noteq> 0 then Inl ValueError
                       else Inr (decode_segment data (nat header_len))))"


section \<open>The option area\<close>

text \<open>One step of the walk over an option that is wholly there.\<close>

lemma options_walk_option:
  assumes "1 < uint k" and "len body \<le> 253"
  shows "options_walk opts (k # word_of_int (2 + len body) # body @ r)
       = options_walk (store_option (uint k) (2 + len body) body opts) r"
proof -
  have n: "uint (word_of_int (2 + len body) :: byte) = 2 + len body"
    using assms(2) by (simp only: uint_byte) simp
  have "nat (2 + len body) = Suc (Suc (length body))" by simp
  with n assms(1) show ?thesis
    by (subst options_walk.simps)
      (simp add: Let_def opt_defs del: uint_byte nat_uint_eq of_int_add of_int_of_nat_eq)
qed

lemma options_walk_padding: "options_walk opts (option_padding raw) = opts"
  by (simp add: option_padding_def Let_def options_walk.simps opt_defs)

text \<open>What each part of \<open>to_bytes\<close> adds is read back as that option.\<close>

lemma mask_32: "(v :: int) AND 0xFFFFFFFF = v mod 4294967296"
  using and_ones [of v 32] by simp

lemma struct_pack_pair:
  "struct_pack [FB k, FB n, FI (v AND 0xFFFFFFFF), FI (w AND 0xFFFFFFFF)] =
     (if 0 \<le> k \<and> k < 256 \<and> 0 \<le> n \<and> n < 256
      then Inr (word_of_int k # word_of_int n # be32 (v mod 4294967296) @ be32 (w mod 4294967296))
      else Inl StructError)"
  by (auto simp: mask_32)

lemma get_u32_be32_0 [simp]: "get_u32 (be32 (v mod 4294967296) @ r) 0 = v mod 4294967296"
  by (rule get_u32_be32) simp_all

lemma get_u32_be32_4 [simp]:
  "get_u32 (be32 v @ be32 (w mod 4294967296)) 4 = w mod 4294967296"
  using get_u32_skip [of "be32 v" 4 "be32 (w mod 4294967296)" 0]
    get_u32_be32_0 [of w "[]"] by simp

lemma walk_mss_part:
  "mss_part opts' = Inr p \<Longrightarrow> opt_mss opts = None \<Longrightarrow>
     options_walk opts (p @ r) = options_walk (opts\<lparr>opt_mss := opt_mss opts'\<rparr>) r"
  using options_walk_option [of 2 "be16 v" for v]
    get_u16_be16 [of v "[]" for v]
  by (cases opts) (auto simp: mss_part_def store_option_def opt_defs split: option.splits if_splits)

lemma walk_sack_permitted_part:
  "sack_permitted_part opts' = Inr p \<Longrightarrow> \<not> opt_sack_permitted opts \<Longrightarrow>
     options_walk opts (p @ r) = options_walk (opts\<lparr>opt_sack_permitted := opt_sack_permitted opts'\<rparr>) r"
  using options_walk_option [of 4 "[]"]
  by (cases opts) (auto simp: sack_permitted_part_def store_option_def opt_defs split: if_splits)

lemma walk_window_scale_part:
  "window_scale_part opts' = Inr p \<Longrightarrow> opt_window_scale opts = None \<Longrightarrow>
     options_walk opts (p @ r) = options_walk (opts\<lparr>opt_window_scale := opt_window_scale opts'\<rparr>) r"
  using options_walk_option [of 3 "[word_of_int v]" for v]
  by (cases opts) (auto simp: window_scale_part_def store_option_def opt_defs get_u8_def split: option.splits if_splits)


definition in_u32 :: "int \<Rightarrow> bool" where
  "in_u32 v \<longleftrightarrow> 0 \<le> v \<and> v < 2 ^ 32"

lemma in_u32_mod [simp]: "in_u32 v \<Longrightarrow> v mod 4294967296 = v"
  by (simp add: in_u32_def)

lemma in_u32_get [simp]: "in_u32 (get_u32 d i)"
  by (simp add: in_u32_def)

text \<open>The numbers of the timestamp and SACK options are 32-bit values, and the two
  timestamps come together.\<close>

definition options_ranged :: "tcp_options \<Rightarrow> bool" where
  "options_ranged opts \<longleftrightarrow>
     (\<forall>v. opt_mss opts = Some v \<longrightarrow> 0 \<le> v \<and> v < 2 ^ 16)
     \<and> (\<forall>v. opt_window_scale opts = Some v \<longrightarrow> 0 \<le> v \<and> v < 2 ^ 8)
     \<and> pred_option in_u32 (opt_timestamp opts) \<and> pred_option in_u32 (opt_timestamp_echo opts)
     \<and> (opt_timestamp_echo opts = None \<longleftrightarrow> opt_timestamp opts = None)
     \<and> list_all (\<lambda>(l, r). in_u32 l \<and> in_u32 r) (opt_sack_blocks opts)"

lemma walk_timestamp_part:
  assumes "timestamp_part opts' = Inr p" and "options_ranged opts'"
    and "opt_timestamp opts = None" and "opt_timestamp_echo opts = None"
  shows "options_walk opts (p @ r) =
     options_walk (opts\<lparr>opt_timestamp := opt_timestamp opts', opt_timestamp_echo := opt_timestamp_echo opts'\<rparr>) r"
proof (cases "opt_timestamp opts'")
  case None
  with assms show ?thesis
    by (cases opts) (simp add: timestamp_part_def options_ranged_def)
next
  case (Some v)
  then obtain e where e: "opt_timestamp_echo opts' = Some e" and "in_u32 v" "in_u32 e"
    using assms(2) by (auto simp: options_ranged_def)
  with Some assms(1) have p: "p = 8 # 10 # be32 (v mod 4294967296) @ be32 (e mod 4294967296)"
    by (simp add: timestamp_part_def struct_pack_pair opt_defs del: struct_pack.simps)
  have "options_walk opts (p @ r) = options_walk (store_option 8 10 (be32 (v mod 4294967296) @ be32 (e mod 4294967296)) opts) r"
    using options_walk_option [of 8 "be32 (v mod 4294967296) @ be32 (e mod 4294967296)" opts r]
    unfolding p by simp
  then show ?thesis
    using Some e \<open>in_u32 v\<close> \<open>in_u32 e\<close> by (simp add: store_option_def opt_defs del: in_u32_mod) simp
qed

lemma sack_blocks_of_pair:
  "sack_blocks_of (be32 (l mod 4294967296) @ be32 (r mod 4294967296))
   = [(l mod 4294967296, r mod 4294967296)]"
  using get_u32_be32_0 [of l "[]"] get_u32_be32_0 [of r "[]"]
  by (simp add: be32_def)

lemma walk_sack_part:
  "sack_part bs = Inr p \<Longrightarrow> list_all (\<lambda>(l, r). in_u32 l \<and> in_u32 r) bs \<Longrightarrow>
     options_walk opts (p @ rest) =
     options_walk (opts\<lparr>opt_sack_blocks := (if bs = [] then opt_sack_blocks opts else [last bs])\<rparr>) rest"
proof (induction bs arbitrary: p opts)
  case Nil
  then show ?case by simp
next
  case (Cons b bs)
  obtain l r where b: "b = (l, r)" by (cases b)
  let ?body = "be32 (l mod 4294967296) @ be32 (r mod 4294967296)"
  obtain q where q: "sack_part bs = Inr q" and p: "p = 5 # 10 # ?body @ q"
    using Cons.prems(1)
    by (auto simp: b sum_bind_Inr struct_pack_pair opt_defs simp del: struct_pack.simps)
  have lr: "l mod 4294967296 = l" "r mod 4294967296 = r"
    using Cons.prems(2) by (simp_all add: b)
  have "options_walk opts (p @ rest) = options_walk (store_option 5 10 ?body opts) (q @ rest)"
    using options_walk_option [of 5 ?body opts "q @ rest"] unfolding p by simp
  also have "store_option 5 10 ?body opts = opts\<lparr>opt_sack_blocks := [(l, r)]\<rparr>"
    using sack_blocks_of_pair [of l r] by (simp add: store_option_def opt_defs lr)
  finally show ?case
    using Cons.IH [OF q, of "opts\<lparr>opt_sack_blocks := [(l, r)]\<rparr>"] Cons.prems(2) by (simp add: b)
qed

lemma options_to_bytes_cases:
  assumes "TCPOptions_to_bytes opts = Inr raw"
  obtains p1 p2 p3 p4 p5 where "mss_part opts = Inr p1" and "sack_permitted_part opts = Inr p2"
    and "window_scale_part opts = Inr p3" and "timestamp_part opts = Inr p4"
    and "sack_part (opt_sack_blocks opts) = Inr p5"
    and "len (p1 @ p2 @ p3 @ p4 @ p5) \<le> 40"
    and "raw = (p1 @ p2 @ p3 @ p4 @ p5) @ option_padding (p1 @ p2 @ p3 @ p4 @ p5)"
  using assms by (auto simp: TCPOptions_to_bytes_def sum_bind_Inr Let_def split: if_splits)

text \<open>Decoding what \<open>to_bytes\<close> wrote gives the options back, except that of several SACK
  blocks (each written as an option of its own) only the last survives.\<close>

lemma options_reparse:
  assumes "TCPOptions_to_bytes opts = Inr raw" and "options_ranged opts"
  shows "TCPOptions_parse raw = opts\<lparr>opt_sack_blocks :=
           (if opt_sack_blocks opts = [] then [] else [last (opt_sack_blocks opts)])\<rparr>"
proof -
  obtain p1 p2 p3 p4 p5 where p: "mss_part opts = Inr p1" "sack_permitted_part opts = Inr p2"
    "window_scale_part opts = Inr p3" "timestamp_part opts = Inr p4"
    "sack_part (opt_sack_blocks opts) = Inr p5"
    and raw: "raw = (p1 @ p2 @ p3 @ p4 @ p5) @ option_padding (p1 @ p2 @ p3 @ p4 @ p5)"
    by (rule options_to_bytes_cases [OF assms(1)])
  have sack: "list_all (\<lambda>(l, r). in_u32 l \<and> in_u32 r) (opt_sack_blocks opts)"
    using assms(2) by (simp add: options_ranged_def)
  show ?thesis
    unfolding TCPOptions_parse_def raw
    by (cases opts)
      (simp add: no_options_def walk_mss_part [OF p(1)] walk_sack_permitted_part [OF p(2)]
        walk_window_scale_part [OF p(3)] walk_timestamp_part [OF p(4) assms(2)]
        walk_sack_part [OF p(5) sack] options_walk_padding)
qed

text \<open>Whatever the bytes, the decoded options are in range.\<close>

lemma sack_blocks_ranged: "list_all (\<lambda>(l, r). in_u32 l \<and> in_u32 r) (sack_blocks_of d)"
  by (induction d rule: sack_blocks_of.induct) simp_all

lemma store_option_ranged: "options_ranged opts \<Longrightarrow> options_ranged (store_option k n body opts)"
  by (auto simp: store_option_def options_ranged_def sack_blocks_ranged)

lemma options_walk_ranged: "options_ranged opts \<Longrightarrow> options_ranged (options_walk opts d)"
proof (induction opts d rule: options_walk.induct)
  case (2 opts k r)
  then show ?case
    by (subst options_walk.simps) (auto simp: Let_def store_option_ranged)
qed (simp add: options_walk.simps)

lemma no_options_ranged: "options_ranged no_options"
  by (simp add: options_ranged_def no_options_def)

lemma options_parse_ranged: "options_ranged (TCPOptions_parse d)"
  by (simp add: TCPOptions_parse_def options_walk_ranged no_options_ranged)

lemma option_padding_aligned: "4 dvd length (raw @ option_padding raw)"
proof -
  have "4 dvd len (raw @ option_padding raw)"
    by (simp add: option_padding_def Let_def) presburger
  then show ?thesis by (metis int_dvd_int_iff of_nat_numeral)
qed

lemma options_bytes_size:
  assumes "TCPOptions_to_bytes opts = Inr raw"
  shows "4 dvd length raw \<and> length raw \<le> 40"
proof -
  obtain r where r: "raw = r @ option_padding r" "len r \<le> 40"
    by (rule options_to_bytes_cases [OF assms]) blast
  have "length (option_padding r) \<le> 3"
    by (simp add: option_padding_def Let_def)
  with r have "4 dvd length raw" "length raw \<le> 43"
    using option_padding_aligned [of r] by simp_all
  then show ?thesis by presburger
qed


section \<open>The segment\<close>

text \<open>The bytes of a segment, field by field.\<close>

definition segment_front :: "tcp_segment \<Rightarrow> int \<Rightarrow> bytes" where
  "segment_front s off =
     be16 (seg_src_port s) @ be16 (seg_dst_port s) @ be32 (seg_seq s mod 4294967296)
     @ be32 (seg_ack s mod 4294967296)
     @ [word_of_int (16 * off + seg_flags s div 256 mod 2), word_of_int (seg_flags s mod 256)]
     @ be16 (seg_window s)"

definition segment_back :: "tcp_segment \<Rightarrow> bytes \<Rightarrow> bytes" where
  "segment_back s opts = be16 (seg_urgent_pointer s) @ opts @ seg_payload s"

lemma length_segment_front [simp]: "length (segment_front s off) = 16"
  by (simp add: segment_front_def)

lemma offset_byte_eq:
  "push_bit 4 off OR (drop_bit 8 f AND 1) = 16 * off + f div 256 mod (2 :: int)"
  using or_shifted_add [of "f div 256 mod 2" 4 off]
  by (simp add: drop_bit_eq_div and_1 del: push_bit_of_1)

lemma segment_header_eq:
  assumes "4 dvd length opts" and "length opts \<le> 40"
    and "0 \<le> seg_src_port s" "seg_src_port s \<le> 0xFFFF" "0 \<le> seg_dst_port s" "seg_dst_port s \<le> 0xFFFF"
    and "0 \<le> seg_window s" "seg_window s \<le> 0xFFFF"
  shows "segment_header s opts =
    (if 0 \<le> seg_urgent_pointer s \<and> seg_urgent_pointer s < 2 ^ 16
     then Inr (segment_front s (5 + len opts div 4) @ be16 0 @ be16 (seg_urgent_pointer s) @ opts)
     else Inl StructError)"
proof -
  obtain k where k: "length opts = 4 * k" using assms(1) by (rule dvdE)
  with assms(2) have off: "(HEADER_LEN + len opts) div 4 = 5 + int k" "len opts div 4 = int k" "k \<le> 10"
    by (simp_all add: HEADER_LEN_def)
  let ?ob = "16 * (5 + int k) + seg_flags s div 256 mod 2"
  have "0 \<le> 16 * (5 + int k) + b \<and> 16 * (5 + int k) + b < 256" if "0 \<le> b" "b < 2" for b :: int
    using that off(3) by auto
  then have ob: "0 \<le> ?ob" "?ob < 256" by simp_all
  have 1: "seg_seq s AND SEQ_MASK = seg_seq s mod 4294967296"
    "seg_ack s AND SEQ_MASK = seg_ack s mod 4294967296" by (simp_all add: and_SEQ_MASK)
  have 2: "push_bit 4 (5 + int k) OR (drop_bit 8 (seg_flags s) AND 1) = ?ob"
    by (rule offset_byte_eq)
  show ?thesis
    unfolding segment_header_def off(1) Let_def 1 2 off(2) and_0xFF
    using ob assms off(3)
    by (simp add: segment_front_def del: distrib_left_numeral)
qed


text \<open>The bytes \<open>to_bytes\<close> produces: the header with the checksum cut in, then the payload.\<close>

lemma to_bytes_layout:
  assumes "TCPSegment_to_bytes s (Some src) (Some dst) True = Inr b"
  obtains opts c where "TCPOptions_to_bytes (seg_options s) = Inr opts"
    and "0 \<le> seg_src_port s" "seg_src_port s \<le> 0xFFFF" "0 \<le> seg_dst_port s" "seg_dst_port s \<le> 0xFFFF"
    and "0 \<le> seg_window s" "seg_window s \<le> 0xFFFF"
    and "0 \<le> seg_urgent_pointer s" "seg_urgent_pointer s < 2 ^ 16"
    and "transport_checksum src dst PROTO_TCP
           (segment_front s (5 + len opts div 4) @ [0, 0] @ segment_back s opts) = Inr c"
    and "b = segment_front s (5 + len opts div 4) @ be16 c @ segment_back s opts"
proof -
  from assms obtain opts header csum where
    ports: "0 \<le> seg_src_port s" "seg_src_port s \<le> 0xFFFF" "0 \<le> seg_dst_port s" "seg_dst_port s \<le> 0xFFFF"
      "0 \<le> seg_window s" "seg_window s \<le> 0xFFFF"
    and o: "TCPOptions_to_bytes (seg_options s) = Inr opts"
    and h: "segment_header s opts = Inr header"
    and c: "transport_checksum src dst PROTO_TCP (header @ seg_payload s) = Inr csum"
    and b: "b = take 16 header @ be16 csum @ drop 18 header @ seg_payload s"
    by (auto simp: TCPSegment_to_bytes_def sum_bind_Inr split: if_splits)
  have sz: "4 dvd length opts" "length opts \<le> 40" using options_bytes_size [OF o] by auto
  have u: "0 \<le> seg_urgent_pointer s" "seg_urgent_pointer s < 2 ^ 16"
    and header: "header = segment_front s (5 + len opts div 4) @ be16 0 @ be16 (seg_urgent_pointer s) @ opts"
    using h segment_header_eq [OF sz ports] by (auto split: if_splits)
  show thesis
  proof (rule that [OF o ports u, of csum])
    show "transport_checksum src dst PROTO_TCP
           (segment_front s (5 + len opts div 4) @ [0, 0] @ segment_back s opts) = Inr csum"
      using c unfolding header segment_back_def by (simp add: be16_def)
    show "b = segment_front s (5 + len opts div 4) @ be16 csum @ segment_back s opts"
      unfolding b header segment_back_def by simp
  qed
qed

text \<open>Decoding the layout.\<close>

lemma decode_layout:
  assumes "data = segment_front s off @ be16 c @ segment_back s opts"
    and "0 \<le> off" "off < 16" "0 \<le> c" "c < 65536"
    and "0 \<le> seg_src_port s" "seg_src_port s \<le> 0xFFFF" "0 \<le> seg_dst_port s" "seg_dst_port s \<le> 0xFFFF"
    and "0 \<le> seg_window s" "seg_window s \<le> 0xFFFF"
    and "0 \<le> seg_urgent_pointer s" "seg_urgent_pointer s < 2 ^ 16"
  shows "get_u16 data 0 = seg_src_port s" "get_u16 data 2 = seg_dst_port s"
    "get_u32 data 4 = seg_seq s mod 4294967296" "get_u32 data 8 = seg_ack s mod 4294967296"
    "get_u8 data 12 = 16 * off + seg_flags s div 256 mod 2" "get_u8 data 13 = seg_flags s mod 256"
    "get_u16 data 14 = seg_window s" "get_u16 data 16 = c" "get_u16 data 18 = seg_urgent_pointer s"
proof -
  note d = assms(1) [unfolded segment_front_def segment_back_def append.assoc]
  have byte12: "0 \<le> 16 * off + b \<and> 16 * off + b < 256" if "0 \<le> b" "b < 2" for b
    using that assms(2,3) by auto
  show "get_u16 data 0 = seg_src_port s"
    by (rule get_u16_at [of _ "[]"]) (use d assms in simp_all)
  show "get_u16 data 2 = seg_dst_port s"
    by (rule get_u16_at [of _ "be16 (seg_src_port s)"]) (use d assms in simp_all)
  show "get_u32 data 4 = seg_seq s mod 4294967296"
    by (rule get_u32_at [of _ "be16 (seg_src_port s) @ be16 (seg_dst_port s)"]) (use d assms in simp_all)
  show "get_u32 data 8 = seg_ack s mod 4294967296"
    by (rule get_u32_at [of _ "take 8 data"]) (use d in simp_all)
  show "get_u8 data 12 = 16 * off + seg_flags s div 256 mod 2"
    using byte12 [of "seg_flags s div 256 mod 2"]
    by (intro get_u8_at [of _ "take 12 data" _ "drop 13 data"]) (use d in simp_all)
  show "get_u8 data 13 = seg_flags s mod 256"
    by (rule get_u8_at [of _ "take 13 data"]) (use d in simp_all)
  show "get_u16 data 14 = seg_window s"
    by (rule get_u16_at [of _ "take 14 data"]) (use d assms in simp_all)
  show "get_u16 data 16 = c"
    by (rule get_u16_at [of _ "segment_front s off"]) (use assms in simp_all)
  show "get_u16 data 18 = seg_urgent_pointer s"
    by (rule get_u16_at [of _ "segment_front s off @ be16 c"]) (use assms in \<open>simp_all add: segment_back_def\<close>)
qed


lemma flags_recompose:
  fixes f :: int
  assumes "0 \<le> f" and "f < 512"
  shows "push_bit 8 ((16 * off + f div 256 mod 2) AND 1) OR (f mod 256) = f"
proof -
  have "(16 * off + f div 256 mod 2) mod 2 = (16 * off + f div 256) mod 2"
    by (rule mod_add_right_eq)
  also have "\<dots> = f div 256 mod 2"
    using mod_mult_self4 [of 2 "8 * off" "f div 256"] by simp
  also have "\<dots> = f div 256"
    using assms by (intro mod_pos_pos_trivial) (auto simp: div_less_iff_less_mult)
  finally have 1: "(16 * off + f div 256 mod 2) AND 1 = f div 256"
    by (simp only: and_1)
  have "push_bit 8 (f div 256) OR (f mod 256) = 2 ^ 8 * (f div 256) + f mod 256"
    by (rule or_shifted_add) simp_all
  with 1 show ?thesis by simp
qed

text \<open>The fields of a segment that its header can carry: 32-bit sequence numbers, nine flags,
  options that are in range.\<close>

definition segment_ranged :: "tcp_segment \<Rightarrow> bool" where
  "segment_ranged s \<longleftrightarrow>
     in_u32 (seg_seq s) \<and> in_u32 (seg_ack s) \<and> 0 \<le> seg_flags s \<and> seg_flags s < 2 ^ 9
     \<and> options_ranged (seg_options s)"

definition with_last_sack_block :: "tcp_options \<Rightarrow> tcp_options" where
  "with_last_sack_block opts = opts\<lparr>opt_sack_blocks :=
     (if opt_sack_blocks opts = [] then [] else [last (opt_sack_blocks opts)])\<rparr>"

lemma with_last_sack_block_short: "length (opt_sack_blocks opts) \<le> 1 \<Longrightarrow> with_last_sack_block opts = opts"
  by (cases "opt_sack_blocks opts") (auto simp: with_last_sack_block_def)

lemma segment_reparse:
  assumes "TCPSegment_to_bytes s (Some src) (Some dst) True = Inr b"
    and "segment_ranged s" and "even (length src + length dst)"
  obtains c where "0 \<le> c" and "c < 65536"
    and "transport_checksum src dst PROTO_TCP b = Inr 0"
    and "TCPSegment_parse b (Some src) (Some dst) v
           = Inr (s\<lparr>seg_options := with_last_sack_block (seg_options s), seg_checksum := c\<rparr>)"
proof (rule to_bytes_layout [OF assms(1)])
  fix opts c
  assume o: "TCPOptions_to_bytes (seg_options s) = Inr opts"
    and r: "0 \<le> seg_src_port s" "seg_src_port s \<le> 0xFFFF" "0 \<le> seg_dst_port s" "seg_dst_port s \<le> 0xFFFF"
      "0 \<le> seg_window s" "seg_window s \<le> 0xFFFF"
      "0 \<le> seg_urgent_pointer s" "seg_urgent_pointer s < 2 ^ 16"
    and t: "transport_checksum src dst PROTO_TCP
           (segment_front s (5 + len opts div 4) @ [0, 0] @ segment_back s opts) = Inr c"
    and b: "b = segment_front s (5 + len opts div 4) @ be16 c @ segment_back s opts"
  note fill = transport_checksum_fill [OF t assms(3), simplified, folded b]
  obtain k where k: "length opts = 4 * k" "k \<le> 10"
    using options_bytes_size [OF o] by (auto elim!: dvdE)
  let ?off = "5 + len opts div 4"
  have off: "?off = 5 + int k" "0 \<le> ?off" "?off < 16" using k by simp_all
  note fields = decode_layout [OF b off(2,3) fill(2,3) r]
  have b12: "0 \<le> x \<Longrightarrow> x < 2 \<Longrightarrow> (16 * (5 + int k) + x) div 16 = 5 + int k" for x :: int
    by simp
  have hl: "drop_bit 4 (get_u8 b 12) * 4 = int (20 + 4 * k)"
    using b12 [of "seg_flags s div 256 mod 2"]
    unfolding fields off(1) by (simp add: drop_bit_eq_div del: distrib_left_numeral)
  have split: "take (20 + 4 * k) b = segment_front s ?off @ be16 c @ be16 (seg_urgent_pointer s) @ opts"
    "drop (20 + 4 * k) b = seg_payload s" "len b = int (20 + 4 * k) + len (seg_payload s)"
    using k unfolding b segment_back_def by simp_all
  have "TCPOptions_parse opts = with_last_sack_block (seg_options s)"
    using options_reparse [OF o] assms(2) by (simp add: segment_ranged_def with_last_sack_block_def)
  moreover have "push_bit 8 (get_u8 b 12 AND 1) OR get_u8 b 13 = seg_flags s"
    unfolding fields using assms(2) by (intro flags_recompose) (simp_all add: segment_ranged_def)
  ultimately have "decode_segment b (20 + 4 * k)
      = s\<lparr>seg_options := with_last_sack_block (seg_options s), seg_checksum := c\<rparr>"
    using assms(2) unfolding decode_segment_def segment_ranged_def
    by (simp only: split fields(1-4,7-9)) simp
  then have "TCPSegment_parse b (Some src) (Some dst) v
      = Inr (s\<lparr>seg_options := with_last_sack_block (seg_options s), seg_checksum := c\<rparr>)"
    unfolding TCPSegment_parse_def Let_def hl nat_int
    using fill(1) by (simp add: split HEADER_LEN_def del: of_nat_add)
  then show thesis using that fill by blast
qed


lemma parse_result:
  assumes "TCPSegment_parse d src dst v = Inr s"
  shows "\<exists>n. s = decode_segment d n \<and> 20 \<le> n \<and> n \<le> length d"
  using assms by (auto simp: TCPSegment_parse_def Let_def sum_bind_Inr HEADER_LEN_def split: if_splits)

lemma decoded_flags: "0 \<le> push_bit 8 (get_u8 d 12 AND 1) OR get_u8 d 13
    \<and> push_bit 8 (get_u8 d 12 AND 1) OR get_u8 d 13 < 512"
proof -
  have "push_bit 8 x OR get_u8 d 13 = 256 * x + get_u8 d 13" for x
    using or_shifted_add [of "get_u8 d 13" 8 x] by simp
  moreover have bound: "0 \<le> 256 * x + y \<and> 256 * x + y < 512" if "0 \<le> x" "x < 2" "0 \<le> y" "y < 256" for x y :: int
    using that by auto
  moreover have "0 \<le> get_u8 d 12 mod 2" "get_u8 d 12 mod 2 < 2" by simp_all
  ultimately show ?thesis using get_u8_bounds(1,2) [of d 13] by (simp only: and_1)
qed

lemma decode_segment_ranged: "segment_ranged (decode_segment d n)"
  using decoded_flags [of d]
  by (simp add: segment_ranged_def decode_segment_def options_parse_ranged del: push_bit_and)

lemma parse_errors:
  assumes "TCPSegment_parse d src dst v = Inl e"
  shows "e = ValueError \<or> (e = StructError \<and> 65536 \<le> length d)"
  using assms
  by (auto simp: TCPSegment_parse_def Let_def sum_bind_Inl transport_checksum_eq PROTO_TCP_def
      split: if_splits option.splits)


text \<open>A segment whose options and urgent pointer are encodable and that fits the 16-bit length
  of the pseudo-header is serialised without an error.\<close>

lemma to_bytes_total:
  assumes "TCPOptions_to_bytes (seg_options s) = Inr opts"
    and "0 \<le> seg_src_port s" "seg_src_port s \<le> 0xFFFF" "0 \<le> seg_dst_port s" "seg_dst_port s \<le> 0xFFFF"
    and "0 \<le> seg_window s" "seg_window s \<le> 0xFFFF"
    and "0 \<le> seg_urgent_pointer s" "seg_urgent_pointer s < 2 ^ 16"
    and "20 + length opts + length (seg_payload s) < 2 ^ 16"
  shows "\<exists>b. TCPSegment_to_bytes s (Some src) (Some dst) True = Inr b
           \<and> length b = 20 + length opts + length (seg_payload s)"
proof -
  have sz: "4 dvd length opts" "length opts \<le> 40"
    using options_bytes_size [OF assms(1)] by simp_all
  note header = segment_header_eq [OF sz assms(2-7)]
  have "0 \<le> checksum d \<and> checksum d < 2 ^ 16" for d
    using checksum_range by simp
  then show ?thesis
    using assms by (simp add: TCPSegment_to_bytes_def header transport_checksum_eq PROTO_TCP_def)
qed


text \<open>The segment format as a wire format, for any pair of addresses whose lengths add up to
  an even number of bytes (two IPv4 addresses).\<close>

definition segment_view :: "tcp_segment \<Rightarrow> tcp_segment" where
  "segment_view s = s\<lparr>seg_options := with_last_sack_block (seg_options s), seg_checksum := 0\<rparr>"

definition segment_carried :: "bytes \<Rightarrow> bytes \<Rightarrow> tcp_segment \<Rightarrow> bool" where
  "segment_carried src dst s \<longleftrightarrow> segment_ranged s \<and> even (length src + length dst)"

definition segment_encode :: "bytes \<Rightarrow> bytes \<Rightarrow> tcp_segment \<Rightarrow> py_error + bytes" where
  "segment_encode src dst s = TCPSegment_to_bytes s (Some src) (Some dst) True"

definition segment_decode :: "bytes \<Rightarrow> bytes \<Rightarrow> bytes \<Rightarrow> py_error + tcp_segment" where
  "segment_decode src dst b = TCPSegment_parse b (Some src) (Some dst) True"

lemma with_last_sack_block_idem [simp]:
  "with_last_sack_block (with_last_sack_block opts) = with_last_sack_block opts"
  by (simp add: with_last_sack_block_def)

interpretation tcp_wire: codec "segment_carried src dst" segment_view
  "segment_encode src dst" "segment_decode src dst" for src dst
proof
  fix s b
  assume "segment_carried src dst s" and "segment_encode src dst s = Inr b"
  then have *: "TCPSegment_to_bytes s (Some src) (Some dst) True = Inr b" "segment_ranged s"
    "even (length src + length dst)"
    by (simp_all add: segment_carried_def segment_encode_def)
  obtain c where "TCPSegment_parse b (Some src) (Some dst) True
      = Inr (s\<lparr>seg_options := with_last_sack_block (seg_options s), seg_checksum := c\<rparr>)"
    by (rule segment_reparse [OF *])
  then show "\<exists>y. segment_decode src dst b = Inr y \<and> segment_view y = segment_view s"
    by (simp add: segment_decode_def segment_view_def)
qed


section \<open>Properties\<close>

text \<open>Options survive the wire: whatever \<open>TCPOptions.to_bytes\<close> writes is a multiple of four
  bytes long, at most 40, and \<open>TCPOptions.parse\<close> reads the same options back, provided there
  is at most one SACK block. (Each block is written as a SACK option of its own, and the
  parser keeps only the last such option, so of several blocks only the last one survives.)\<close>

lemma tcp_options_roundtrip:
  assumes "TCPOptions_to_bytes opts = Inr raw" and "options_ranged opts"
  shows "length raw mod 4 = 0 \<and> length raw \<le> 40
    \<and> (length (opt_sack_blocks opts) \<le> 1 \<longrightarrow> TCPOptions_parse raw = opts)
    \<and> (1 < length (opt_sack_blocks opts) \<longrightarrow>
         TCPOptions_parse raw = opts\<lparr>opt_sack_blocks := [last (opt_sack_blocks opts)]\<rparr>)"
proof -
  have parse: "TCPOptions_parse raw = with_last_sack_block opts"
    using options_reparse [OF assms] by (simp add: with_last_sack_block_def)
  moreover have "1 < length (opt_sack_blocks opts) \<Longrightarrow>
      with_last_sack_block opts = opts\<lparr>opt_sack_blocks := [last (opt_sack_blocks opts)]\<rparr>"
    by (auto simp: with_last_sack_block_def)
  ultimately show ?thesis
    using options_bytes_size [OF assms(1)] with_last_sack_block_short [of opts] by auto
qed

lemma tcp_options_roundtrip_witness:
  "let opts = no_options\<lparr>opt_mss := Some 1460, opt_window_scale := Some 7, opt_sack_blocks := [(1, 2), (5, 9)]\<rparr>
   in case TCPOptions_to_bytes opts of
        Inl e \<Rightarrow> False
      | Inr raw \<Rightarrow> TCPOptions_parse raw = opts\<lparr>opt_sack_blocks := [(5, 9)]\<rparr>"
proof -
  let ?opts = "no_options\<lparr>opt_mss := Some 1460, opt_window_scale := Some 7, opt_sack_blocks := [(1, 2), (5, 9)]\<rparr>"
  have r: "options_ranged ?opts"
    by (simp add: options_ranged_def no_options_def in_u32_def)
  have "\<exists>raw. TCPOptions_to_bytes ?opts = Inr raw"
    by (simp add: TCPOptions_to_bytes_def mss_part_def sack_permitted_part_def window_scale_part_def
        timestamp_part_def no_options_def opt_defs mask_32)
  then obtain raw where "TCPOptions_to_bytes ?opts = Inr raw" ..
  with tcp_options_roundtrip [OF this r] show ?thesis by (simp add: Let_def)
qed



definition sample_segment :: tcp_segment where
  "sample_segment =
     \<lparr>seg_src_port = 49152, seg_dst_port = 80, seg_seq = 0xFFFFFFFE, seg_ack = 7, seg_flags = 0x18,
      seg_window = 512, seg_payload = [104, 105, 33], seg_options = no_options,
      seg_urgent_pointer = 0, seg_checksum = 0\<rparr>"

lemma sample_segment_ranged: "segment_ranged sample_segment"
  by (simp add: segment_ranged_def sample_segment_def no_options_ranged in_u32_def)

lemma no_options_bytes: "TCPOptions_to_bytes no_options = Inr []"
  by (simp add: TCPOptions_to_bytes_def mss_part_def sack_permitted_part_def window_scale_part_def
      timestamp_part_def no_options_def option_padding_def Let_def)





end
