(* ===== verification/Retransmit.thy ===== *)
theory Retransmit
  imports Segment
begin

text \<open>
  \<open>minitcp/net/tcp/retransmit.py\<close>: the retransmission timeout estimator of RFC 6298 and the
  queue of segments awaiting acknowledgement.

  The estimator's \<open>srtt\<close> and \<open>rttvar\<close> are set together and cleared together, so the pair is
  one optional field. \<open>mark_retransmitted\<close> mutates the entry it is given, which is always the
  one \<open>oldest()\<close> has just returned, so it is modelled as an update of the head of the queue.
\<close>

section \<open>RTOEstimator\<close>

definition DEFAULT_INITIAL_RTO :: time where "DEFAULT_INITIAL_RTO = 1"
definition DEFAULT_MIN_RTO :: time where "DEFAULT_MIN_RTO = 1 / 5"
definition DEFAULT_MAX_RTO :: time where "DEFAULT_MAX_RTO = 60"

record rto_estimator =
  rto_estimate :: "(time \<times> time) option"
  rto_min :: time
  rto_max :: time
  rto_rto :: time
  rto_samples :: int

definition RTOEstimator_init :: "time \<Rightarrow> time \<Rightarrow> time \<Rightarrow> py_error + rto_estimator" where
  "RTOEstimator_init initial min_rto max_rto =
     (if min_rto \<le> 0 \<or> max_rto < min_rto then Inl ValueError
      else Inr \<lparr>rto_estimate = None, rto_min = min_rto, rto_max = max_rto,
                rto_rto = min (max initial min_rto) max_rto, rto_samples = 0\<rparr>)"

definition clamp_rto :: "rto_estimator \<Rightarrow> time \<Rightarrow> time" where
  "clamp_rto e v = min (max v (rto_min e)) (rto_max e)"

definition RTOEstimator_sample :: "rto_estimator \<Rightarrow> time \<Rightarrow> rto_estimator" where
  "RTOEstimator_sample e rtt =
     (if rtt \<le> 0 then e
      else
        let (srtt, rttvar) =
              (case rto_estimate e of
                 None \<Rightarrow> (rtt, rtt / 2)
               | Some (srtt, rttvar) \<Rightarrow>
                   (7 / 8 * srtt + 1 / 8 * rtt, 3 / 4 * rttvar + 1 / 4 * \<bar>srtt - rtt\<bar>))
        in e\<lparr>rto_estimate := Some (srtt, rttvar), rto_samples := rto_samples e + 1,
             rto_rto := clamp_rto e (srtt + 4 * rttvar)\<rparr>)"

definition RTOEstimator_backoff :: "rto_estimator \<Rightarrow> rto_estimator" where
  "RTOEstimator_backoff e = e\<lparr>rto_rto := min (rto_rto e * 2) (rto_max e)\<rparr>"

definition RTOEstimator_recompute :: "rto_estimator \<Rightarrow> rto_estimator" where
  "RTOEstimator_recompute e =
     (case rto_estimate e of
        None \<Rightarrow> e\<lparr>rto_rto := clamp_rto e DEFAULT_INITIAL_RTO\<rparr>
      | Some (srtt, rttvar) \<Rightarrow> e\<lparr>rto_rto := clamp_rto e (srtt + 4 * rttvar)\<rparr>)"

definition RTOEstimator_reset :: "rto_estimator \<Rightarrow> rto_estimator" where
  "RTOEstimator_reset e =
     e\<lparr>rto_estimate := None, rto_rto := clamp_rto e DEFAULT_INITIAL_RTO, rto_samples := 0\<rparr>"


section \<open>OutstandingSegment and RetransmitQueue\<close>

record outstanding =
  os_seq :: seqno
  os_flags :: int
  os_payload :: bytes
  os_sent_at :: time
  os_retransmits :: int
  os_rtt_sampled :: bool

definition os_seq_len :: "outstanding \<Rightarrow> int" where
  "os_seq_len e =
     len (os_payload e) + (if os_flags e AND FLAG_SYN \<noteq> 0 then 1 else 0)
     + (if os_flags e AND FLAG_FIN \<noteq> 0 then 1 else 0)"

definition os_seq_end :: "outstanding \<Rightarrow> seqno" where
  "os_seq_end e = (os_seq e + os_seq_len e) AND 0xFFFFFFFF"

record retransmit_queue =
  rx_segments :: "outstanding list"
  rx_capacity :: int

definition RetransmitQueue_init :: "int \<Rightarrow> retransmit_queue" where
  "RetransmitQueue_init capacity = \<lparr>rx_segments = [], rx_capacity = capacity\<rparr>"

definition RetransmitQueue_bytes_outstanding :: "retransmit_queue \<Rightarrow> int" where
  "RetransmitQueue_bytes_outstanding q = (\<Sum>e \<leftarrow> rx_segments q. len (os_payload e))"

definition RetransmitQueue_add ::
  "retransmit_queue \<Rightarrow> seqno \<Rightarrow> int \<Rightarrow> bytes \<Rightarrow> time \<Rightarrow> retransmit_queue \<times> outstanding option" where
  "RetransmitQueue_add q sq flags payload now =
     (if RetransmitQueue_bytes_outstanding q + len payload > rx_capacity q then (q, None)
      else
        let entry = \<lparr>os_seq = sq, os_flags = flags, os_payload = payload, os_sent_at = now,
                     os_retransmits = 0, os_rtt_sampled = False\<rparr>
        in (q\<lparr>rx_segments := rx_segments q @ [entry]\<rparr>, Some entry))"

definition RetransmitQueue_acknowledge ::
  "retransmit_queue \<Rightarrow> seqno \<Rightarrow> retransmit_queue \<times> outstanding list" where
  "RetransmitQueue_acknowledge q ack =
     (q\<lparr>rx_segments := filter (\<lambda>e. \<not> seq_le (os_seq_end e) ack) (rx_segments q)\<rparr>,
      filter (\<lambda>e. seq_le (os_seq_end e) ack) (rx_segments q))"

definition RetransmitQueue_oldest :: "retransmit_queue \<Rightarrow> outstanding option" where
  "RetransmitQueue_oldest q = (case rx_segments q of [] \<Rightarrow> None | e # _ \<Rightarrow> Some e)"

definition RetransmitQueue_mark_retransmitted :: "retransmit_queue \<Rightarrow> time \<Rightarrow> retransmit_queue" where
  "RetransmitQueue_mark_retransmitted q now =
     (case rx_segments q of
        [] \<Rightarrow> q
      | e # es \<Rightarrow>
          q\<lparr>rx_segments :=
              e\<lparr>os_retransmits := os_retransmits e + 1, os_sent_at := now, os_rtt_sampled := True\<rparr> # es\<rparr>)"

definition RetransmitQueue_purge_before :: "retransmit_queue \<Rightarrow> seqno \<Rightarrow> retransmit_queue \<times> int" where
  "RetransmitQueue_purge_before q sq =
     (let kept = filter (\<lambda>e. \<not> seq_le (os_seq_end e) sq) (rx_segments q)
      in (q\<lparr>rx_segments := kept\<rparr>, len (rx_segments q) - len kept))"

definition RetransmitQueue_clear :: "retransmit_queue \<Rightarrow> retransmit_queue" where
  "RetransmitQueue_clear q = q\<lparr>rx_segments := []\<rparr>"

definition RetransmitQueue_len :: "retransmit_queue \<Rightarrow> int" where
  "RetransmitQueue_len q = len (rx_segments q)"


section \<open>The estimator\<close>

definition rto_inv :: "rto_estimator \<Rightarrow> bool" where
  "rto_inv e \<longleftrightarrow>
     0 < rto_min e \<and> rto_min e \<le> rto_max e \<and> rto_min e \<le> rto_rto e \<and> rto_rto e \<le> rto_max e
     \<and> (case rto_estimate e of None \<Rightarrow> True | Some (srtt, rttvar) \<Rightarrow> 0 < srtt \<and> 0 \<le> rttvar)"

lemma clamp_rto_range:
  "rto_min e \<le> rto_max e \<Longrightarrow> rto_min e \<le> clamp_rto e v \<and> clamp_rto e v \<le> rto_max e"
  by (simp add: clamp_rto_def)

lemma rto_inv_init: "RTOEstimator_init i lo hi = Inr e \<Longrightarrow> rto_inv e"
  by (auto simp: RTOEstimator_init_def rto_inv_def split: if_splits)

lemma rto_inv_sample: "rto_inv e \<Longrightarrow> rto_inv (RTOEstimator_sample e rtt)"
  using clamp_rto_range [of e]
  by (auto simp: RTOEstimator_sample_def rto_inv_def Let_def intro: add_pos_pos split: option.splits)

lemma rto_inv_backoff: "rto_inv e \<Longrightarrow> rto_inv (RTOEstimator_backoff e)"
  by (auto simp: RTOEstimator_backoff_def rto_inv_def min_def)

lemma rto_inv_recompute: "rto_inv e \<Longrightarrow> rto_inv (RTOEstimator_recompute e)"
  using clamp_rto_range [of e]
  by (auto simp: RTOEstimator_recompute_def rto_inv_def split: option.splits)

lemma rto_inv_reset: "rto_inv e \<Longrightarrow> rto_inv (RTOEstimator_reset e)"
  using clamp_rto_range [of e] by (auto simp: RTOEstimator_reset_def rto_inv_def)

lemma rto_positive: "rto_inv e \<Longrightarrow> 0 < rto_rto e"
  by (auto simp: rto_inv_def)

datatype rto_event = Sample time | Backoff | Recompute | Reset

fun rto_apply :: "rto_event \<Rightarrow> rto_estimator \<Rightarrow> rto_estimator" where
  "rto_apply (Sample rtt) e = RTOEstimator_sample e rtt"
| "rto_apply Backoff e = RTOEstimator_backoff e"
| "rto_apply Recompute e = RTOEstimator_recompute e"
| "rto_apply Reset e = RTOEstimator_reset e"

text \<open>The contract the connection relies on: whatever is fed to the estimator, the timeout stays
  within positive bounds that never change.\<close>

locale timeout_source =
  fixes inv :: "'s \<Rightarrow> bool"
    and timeout :: "'s \<Rightarrow> time"
    and lo :: "'s \<Rightarrow> time"
    and hi :: "'s \<Rightarrow> time"
    and event :: "'e \<Rightarrow> 's \<Rightarrow> 's"
  assumes range: "inv s \<Longrightarrow> 0 < lo s \<and> lo s \<le> timeout s \<and> timeout s \<le> hi s"
    and inv_event: "inv s \<Longrightarrow> inv (event ev s)"
    and bounds_event: "lo (event ev s) = lo s" "hi (event ev s) = hi s"
begin

lemma run_inv: "inv s \<Longrightarrow> inv (fold event evs s)"
  by (induction evs arbitrary: s) (simp_all add: inv_event)

lemma run_bounds: "lo (fold event evs s) = lo s \<and> hi (fold event evs s) = hi s"
  by (induction evs arbitrary: s) (simp_all add: bounds_event)

lemma run_range: "inv s \<Longrightarrow> lo s \<le> timeout (fold event evs s) \<and> timeout (fold event evs s) \<le> hi s
    \<and> 0 < timeout (fold event evs s)"
  using range [OF run_inv] run_bounds [of evs s] by (metis less_le_trans)

end

interpretation rto: timeout_source rto_inv rto_rto rto_min rto_max rto_apply
proof
  show "rto_inv s \<Longrightarrow> 0 < rto_min s \<and> rto_min s \<le> rto_rto s \<and> rto_rto s \<le> rto_max s" for s
    by (simp add: rto_inv_def)
  show "rto_inv s \<Longrightarrow> rto_inv (rto_apply ev s)" for s ev
    by (cases ev) (simp_all add: rto_inv_sample rto_inv_backoff rto_inv_recompute rto_inv_reset)
  show "rto_min (rto_apply ev s) = rto_min s" "rto_max (rto_apply ev s) = rto_max s" for s ev
    by (cases ev; auto simp: RTOEstimator_sample_def RTOEstimator_backoff_def
        RTOEstimator_recompute_def RTOEstimator_reset_def Let_def split: option.splits)+
qed

lemma backoff_power:
  assumes "rto_inv e"
  shows "rto_rto ((RTOEstimator_backoff ^^ n) e) = min (rto_rto e * 2 ^ n) (rto_max e)
       \<and> rto_max ((RTOEstimator_backoff ^^ n) e) = rto_max e"
proof (induction n)
  case 0
  then show ?case using assms by (simp add: rto_inv_def)
next
  case (Suc n)
  have "0 < rto_max e" using assms by (auto simp: rto_inv_def)
  then show ?case
    using Suc by (auto simp: RTOEstimator_backoff_def min_def)
qed

lemma steady_samples:
  assumes "0 < r" and "rto_estimate e = None"
  shows "rto_estimate ((\<lambda>x. RTOEstimator_sample x r) ((((\<lambda>x. RTOEstimator_sample x r)) ^^ n) e))
       = Some (r, r / 2 * (3 / 4) ^ n)"
proof (induction n)
  case 0
  then show ?case using assms by (simp add: RTOEstimator_sample_def)
next
  case (Suc n)
  let ?e = "RTOEstimator_sample (((\<lambda>x. RTOEstimator_sample x r) ^^ n) e) r"
  have "rto_estimate ?e = Some (r, r / 2 * (3 / 4) ^ n)" using Suc by simp
  then have "rto_estimate (RTOEstimator_sample ?e r) = Some (r, r / 2 * (3 / 4) ^ Suc n)"
    using assms(1) by (subst RTOEstimator_sample_def) (simp add: algebra_simps)
  then show ?case by simp
qed


lemma sample_rto:
  "0 < r \<Longrightarrow> rto_estimate (RTOEstimator_sample x r) = Some (s, v) \<Longrightarrow>
     rto_rto (RTOEstimator_sample x r) = clamp_rto x (s + 4 * v)"
  by (auto simp: RTOEstimator_sample_def Let_def split: prod.splits)

lemma steady_bounds:
  "rto_min (((\<lambda>x. RTOEstimator_sample x r) ^^ n) e) = rto_min e"
  "rto_max (((\<lambda>x. RTOEstimator_sample x r) ^^ n) e) = rto_max e"
  using rto.bounds_event [of "Sample r"] by (induction n) simp_all

lemma recompute_after_backoff:
  "RTOEstimator_recompute ((RTOEstimator_backoff ^^ n) e) = RTOEstimator_recompute e"
proof (induction n)
  case (Suc n)
  have "RTOEstimator_recompute (RTOEstimator_backoff x) = RTOEstimator_recompute x" for x
    by (auto simp: RTOEstimator_recompute_def RTOEstimator_backoff_def clamp_rto_def split: option.splits)
  with Suc show ?case by simp
qed simp


section \<open>The outstanding queue\<close>

lemma os_seq_len_nonneg [simp]: "0 \<le> os_seq_len e"
  by (simp add: os_seq_len_def)

lemma os_seq_end_wrap: "os_seq_end e = wrap (os_seq e + os_seq_len e)"
  by (simp add: os_seq_end_def wrap_def mask_32)

lemma wrap_add: "wrap (wrap p + k) = wrap (p + k)"
  by (simp add: wrap_def mod_add_left_eq)

text \<open>Entries in the order in which they were sent, each beginning where the one before ends;
  the first one begins at position \<open>p\<close>.\<close>

fun consecutive :: "int \<Rightarrow> outstanding list \<Rightarrow> bool" where
  "consecutive p [] \<longleftrightarrow> True"
| "consecutive p (e # es) \<longleftrightarrow> os_seq e = wrap p \<and> consecutive (p + os_seq_len e) es"

definition seq_span :: "outstanding list \<Rightarrow> int" where
  "seq_span es = (\<Sum>e \<leftarrow> es. os_seq_len e)"

lemma seq_span_simps [simp]: "seq_span [] = 0" "seq_span (e # es) = os_seq_len e + seq_span es"
  by (simp_all add: seq_span_def)

lemma seq_span_nonneg [simp]: "0 \<le> seq_span es"
  by (induction es) simp_all

lemma seq_span_append_one: "seq_span (es @ [e]) = seq_span es + os_seq_len e"
  by (simp add: seq_span_def)

lemma consecutive_ends:
  assumes "consecutive p es" and "e \<in> set es"
  obtains q where "os_seq_end e = wrap q" and "p \<le> q" and "q \<le> p + seq_span es"
  using assms
proof (induction es arbitrary: p thesis)
  case (Cons x es)
  show ?case
  proof (cases "e = x")
    case True
    with Cons.prems show ?thesis
      by (intro Cons.prems(1) [of "p + os_seq_len x"]) (auto simp: os_seq_end_wrap wrap_add)
  next
    case False
    with Cons.prems obtain q where "os_seq_end e = wrap q" "p + os_seq_len x \<le> q"
      "q \<le> p + os_seq_len x + seq_span es"
      using Cons.IH [of "p + os_seq_len x"] by auto
    then show ?thesis
      using os_seq_len_nonneg [of x] by (intro Cons.prems(1) [of q]) (simp_all del: os_seq_len_nonneg)
  qed
qed simp

lemma acknowledge_consecutive:
  "consecutive p es \<Longrightarrow> p \<le> a \<Longrightarrow> a - p < SEQ_HALF \<Longrightarrow> seq_span es < SEQ_HALF \<Longrightarrow>
     \<exists>n. filter (\<lambda>e. seq_le (os_seq_end e) (wrap a)) es = take n es
       \<and> filter (\<lambda>e. \<not> seq_le (os_seq_end e) (wrap a)) es = drop n es
       \<and> p + seq_span (take n es) \<le> a
       \<and> (n < length es \<longrightarrow> a < p + seq_span (take (Suc n) es))"
proof (induction es arbitrary: p)
  case Nil
  then show ?case by simp
next
  case (Cons x es)
  let ?q = "p + os_seq_len x"
  have x: "os_seq_end x = wrap ?q" and es: "consecutive ?q es"
    using Cons.prems(1) by (simp_all add: os_seq_end_wrap wrap_add)
  have le: "seq_le (os_seq_end x) (wrap a) \<longleftrightarrow> ?q \<le> a"
    unfolding x using Cons.prems(2-4) os_seq_len_nonneg [of x] seq_span_nonneg [of es]
    by (intro seq_le_wrap) (simp del: os_seq_len_nonneg seq_span_nonneg)
  show ?case
  proof (cases "?q \<le> a")
    case True
    obtain n where "filter (\<lambda>e. seq_le (os_seq_end e) (wrap a)) es = take n es"
      "filter (\<lambda>e. \<not> seq_le (os_seq_end e) (wrap a)) es = drop n es"
      "?q + seq_span (take n es) \<le> a" "n < length es \<longrightarrow> a < ?q + seq_span (take (Suc n) es)"
      using Cons.IH [OF es True] Cons.prems(3,4) os_seq_len_nonneg [of x]
      by (auto simp del: os_seq_len_nonneg)
    then show ?thesis
      using True le by (intro exI [of _ "Suc n"]) (simp add: add.assoc)
  next
    case False
    have later: "\<not> seq_le (os_seq_end e) (wrap a)" if e: "e \<in> set es" for e
    proof -
      obtain q where q: "os_seq_end e = wrap q" "?q \<le> q" "q \<le> ?q + seq_span es"
        by (rule consecutive_ends [OF es e])
      have "\<bar>q - a\<bar> < SEQ_HALF"
        using q False Cons.prems(2-4) by simp
      then show ?thesis
        unfolding q(1) using q(2) False by (simp add: seq_le_wrap)
    qed
    then have "filter (\<lambda>e. seq_le (os_seq_end e) (wrap a)) es = []"
      "filter (\<lambda>e. \<not> seq_le (os_seq_end e) (wrap a)) es = es"
      by (simp_all add: filter_empty_conv)
    with False le Cons.prems(2) show ?thesis
      by (intro exI [of _ 0]) simp
  qed
qed


section \<open>Properties\<close>

text \<open>C33. The retransmission timeout is always usable: whatever samples, backoffs,
  recomputations and resets an estimator sees, its timeout stays positive and between the two
  bounds it was created with.\<close>

theorem rto_stays_in_bounds:
  assumes "RTOEstimator_init initial min_rto max_rto = Inr e"
  shows "min_rto \<le> rto_rto (fold rto_apply evs e) \<and> rto_rto (fold rto_apply evs e) \<le> max_rto
         \<and> 0 < rto_rto (fold rto_apply evs e)"
proof -
  have "rto_min e = min_rto" "rto_max e = max_rto"
    using assms by (auto simp: RTOEstimator_init_def split: if_splits)
  then show ?thesis
    using rto.run_range [OF rto_inv_init [OF assms], of evs] by simp
qed

theorem rto_stays_in_bounds_witness:
  "\<exists>e. RTOEstimator_init DEFAULT_INITIAL_RTO DEFAULT_MIN_RTO DEFAULT_MAX_RTO = Inr e
     \<and> rto_rto (fold rto_apply [Sample (1 / 1000), Backoff, Sample 500, Backoff, Reset] e) \<le> 60"
proof -
  have "\<exists>e. RTOEstimator_init DEFAULT_INITIAL_RTO DEFAULT_MIN_RTO DEFAULT_MAX_RTO = Inr e"
    by (simp add: RTOEstimator_init_def DEFAULT_MIN_RTO_def DEFAULT_MAX_RTO_def)
  then obtain e where e: "RTOEstimator_init DEFAULT_INITIAL_RTO DEFAULT_MIN_RTO DEFAULT_MAX_RTO = Inr e" ..
  with rto_stays_in_bounds [OF e, of "[Sample (1 / 1000), Backoff, Sample 500, Backoff, Reset]"]
  show ?thesis by (auto simp: DEFAULT_MAX_RTO_def)
qed

text \<open>Backoff is exponential and temporary: after \<open>n\<close> timeouts in a row the timeout is the
  original one doubled \<open>n\<close> times, or the maximum, and one \<open>recompute\<close> (an acknowledgement of
  new data) leaves no trace of any of them.\<close>

lemma rto_backoff_doubles:
  assumes "rto_inv e"
  shows "rto_rto ((RTOEstimator_backoff ^^ n) e) = min (rto_rto e * 2 ^ n) (rto_max e)
         \<and> RTOEstimator_recompute ((RTOEstimator_backoff ^^ n) e) = RTOEstimator_recompute e"
  using backoff_power [OF assms] recompute_after_backoff by simp

lemma rto_backoff_doubles_witness:
  "rto_rto ((RTOEstimator_backoff ^^ 3)
     \<lparr>rto_estimate = None, rto_min = 1 / 5, rto_max = 60, rto_rto = 1, rto_samples = 0\<rparr>) = 8"
  using rto_backoff_doubles [of
      "\<lparr>rto_estimate = None, rto_min = 1 / 5, rto_max = 60, rto_rto = 1, rto_samples = 0\<rparr>" 3]
  by (simp add: rto_inv_def)

text \<open>On a path with a constant round-trip time \<open>r\<close> the estimate is exact from the first
  sample on and the variance term decays by a quarter with every further one: after \<open>n + 1\<close>
  samples the timeout is \<open>r + 2 r (3/4)^n\<close>, clamped to the bounds.\<close>

lemma rto_converges:
  assumes "0 < r" and "rto_estimate e = None"
  shows "rto_estimate (((\<lambda>x. RTOEstimator_sample x r) ^^ Suc n) e) = Some (r, r / 2 * (3 / 4) ^ n)
         \<and> rto_rto (((\<lambda>x. RTOEstimator_sample x r) ^^ Suc n) e)
           = min (max (r + 2 * r * (3 / 4) ^ n) (rto_min e)) (rto_max e)"
proof -
  let ?x = "((\<lambda>x. RTOEstimator_sample x r) ^^ n) e"
  have est: "rto_estimate (RTOEstimator_sample ?x r) = Some (r, r / 2 * (3 / 4) ^ n)"
    using steady_samples [OF assms, of n] by simp
  from sample_rto [OF assms(1) est]
  have "rto_rto (RTOEstimator_sample ?x r) = clamp_rto e (r + 4 * (r / 2 * (3 / 4) ^ n))"
    by (simp add: clamp_rto_def steady_bounds)
  also have "r + 4 * (r / 2 * (3 / 4) ^ n) = r + 2 * r * (3 / 4) ^ n"
    by simp
  finally show ?thesis using est by (simp add: clamp_rto_def)
qed

lemma rto_converges_witness:
  "rto_rto (((\<lambda>x. RTOEstimator_sample x 2) ^^ Suc 2)
     \<lparr>rto_estimate = None, rto_min = 1 / 5, rto_max = 60, rto_rto = 1, rto_samples = 0\<rparr>) = 17 / 4"
  using rto_converges [of 2 "\<lparr>rto_estimate = None, rto_min = 1 / 5, rto_max = 60, rto_rto = 1, rto_samples = 0\<rparr>" 2]
  by (simp add: power2_eq_square)

text \<open>A cumulative acknowledgement splits the outstanding queue cleanly: when the entries
  are consecutive from position \<open>p\<close> on, acknowledging position \<open>a\<close> removes exactly the longest
  prefix of entries that end at or before \<open>a\<close>, and keeps the rest, a partly acknowledged
  entry included, in order. No entry is lost or acknowledged twice, across the wrap of the
  sequence space too.\<close>

lemma retransmit_acknowledge_splits:
  assumes "consecutive p (rx_segments q)" and "seq_span (rx_segments q) < SEQ_HALF"
    and "p \<le> a" and "a - p < SEQ_HALF"
    and "RetransmitQueue_acknowledge q (wrap a) = (q', acked)"
  shows "rx_segments q = acked @ rx_segments q' \<and> p + seq_span acked \<le> a
         \<and> (case rx_segments q' of [] \<Rightarrow> True | e # _ \<Rightarrow> a < p + seq_span acked + os_seq_len e)"
proof -
  have q': "acked = filter (\<lambda>e. seq_le (os_seq_end e) (wrap a)) (rx_segments q)"
    "rx_segments q' = filter (\<lambda>e. \<not> seq_le (os_seq_end e) (wrap a)) (rx_segments q)"
    using assms(5) by (auto simp: RetransmitQueue_acknowledge_def)
  obtain n where n: "acked = take n (rx_segments q)" "rx_segments q' = drop n (rx_segments q)"
    "p + seq_span (take n (rx_segments q)) \<le> a"
    "n < length (rx_segments q) \<longrightarrow> a < p + seq_span (take (Suc n) (rx_segments q))"
    using acknowledge_consecutive [OF assms(1,3,4,2)] unfolding q' by blast
  have "drop n (rx_segments q) = e # r \<Longrightarrow>
      n < length (rx_segments q) \<and> seq_span (take (Suc n) (rx_segments q)) = seq_span acked + os_seq_len e" for e r
    unfolding n(1) by (metis drop_eq_Nil2 leI list.distinct(1) nth_via_drop seq_span_append_one take_Suc_conv_app_nth)
  with n show ?thesis by (auto split: list.splits)
qed


lemma retransmit_acknowledge_splits_witness:
  "let e1 = \<lparr>os_seq = 4294967290, os_flags = 0x18, os_payload = [1, 2, 3, 4], os_sent_at = 0, os_retransmits = 0, os_rtt_sampled = False\<rparr>;
       e2 = \<lparr>os_seq = 4294967294, os_flags = 0x18, os_payload = [5, 6, 7, 8], os_sent_at = 0, os_retransmits = 0, os_rtt_sampled = False\<rparr>;
       q = \<lparr>rx_segments = [e1, e2], rx_capacity = 100\<rparr>
   in case RetransmitQueue_acknowledge q (wrap 4294967295) of (q', acked) \<Rightarrow>
        [e1, e2] = acked @ rx_segments q'"
proof -
  let ?e1 = "\<lparr>os_seq = 4294967290, os_flags = 0x18, os_payload = [1, 2, 3, 4], os_sent_at = 0, os_retransmits = 0, os_rtt_sampled = False\<rparr>"
  let ?e2 = "\<lparr>os_seq = 4294967294, os_flags = 0x18, os_payload = [5, 6, 7, 8], os_sent_at = 0, os_retransmits = 0, os_rtt_sampled = False\<rparr>"
  let ?q = "\<lparr>rx_segments = [?e1, ?e2], rx_capacity = 100\<rparr>"
  have c: "consecutive 4294967290 (rx_segments ?q)" "seq_span (rx_segments ?q) < SEQ_HALF"
    by (simp_all add: os_seq_len_def flag_defs wrap_def SEQ_HALF_def)
  obtain q' acked where r: "RetransmitQueue_acknowledge ?q (wrap 4294967295) = (q', acked)"
    by (cases "RetransmitQueue_acknowledge ?q (wrap 4294967295)")
  show ?thesis
    using retransmit_acknowledge_splits [OF c _ _ r] r by (simp add: Let_def SEQ_HALF_def)
qed

end
