(* ===== verification/State.thy ===== *)
theory State
  imports Prelude
begin

text \<open>
  \<open>minitcp/net/tcp/state.py\<close>: the eleven states, and the arrows of its diagram as an
  \<open>inductive\<close> relation.
\<close>

datatype tcp_state =
    CLOSED | LISTEN | SYN_SENT | SYN_RECEIVED | ESTABLISHED | FIN_WAIT_1 | FIN_WAIT_2
  | CLOSE_WAIT | CLOSING | LAST_ACK | TIME_WAIT

definition ALL_STATES :: "tcp_state list" where
  "ALL_STATES =
     [CLOSED, LISTEN, SYN_SENT, SYN_RECEIVED, ESTABLISHED, FIN_WAIT_1, FIN_WAIT_2, CLOSE_WAIT,
      CLOSING, LAST_ACK, TIME_WAIT]"

definition is_closed :: "tcp_state \<Rightarrow> bool" where
  "is_closed state \<longleftrightarrow> state = CLOSED"

definition is_synchronised :: "tcp_state \<Rightarrow> bool" where
  "is_synchronised state \<longleftrightarrow>
     state \<in> {ESTABLISHED, FIN_WAIT_1, FIN_WAIT_2, CLOSE_WAIT, CLOSING, LAST_ACK, TIME_WAIT}"

lemma ALL_STATES_complete: "s \<in> set ALL_STATES"
  by (cases s) (simp_all add: ALL_STATES_def)

lemma is_synchronised_code [code]:
  "is_synchronised s =
     (case s of CLOSED \<Rightarrow> False | LISTEN \<Rightarrow> False | SYN_SENT \<Rightarrow> False | SYN_RECEIVED \<Rightarrow> False | _ \<Rightarrow> True)"
  by (cases s) (simp_all add: is_synchronised_def)

text \<open>The arrows of the diagram in the module's documentation. The active open goes from
  \<open>CLOSED\<close> to \<open>SYN_SENT\<close>.\<close>

inductive diagram :: "tcp_state \<Rightarrow> tcp_state \<Rightarrow> bool" where
  passive_open: "diagram CLOSED LISTEN"
| active_open: "diagram CLOSED SYN_SENT"
| listen_syn: "diagram LISTEN SYN_RECEIVED"
| syn_sent_syn: "diagram SYN_SENT SYN_RECEIVED"
| syn_sent_syn_ack: "diagram SYN_SENT ESTABLISHED"
| syn_received_ack: "diagram SYN_RECEIVED ESTABLISHED"
| established_close: "diagram ESTABLISHED FIN_WAIT_1"
| established_fin: "diagram ESTABLISHED CLOSE_WAIT"
| fin_wait_1_ack: "diagram FIN_WAIT_1 FIN_WAIT_2"
| fin_wait_1_fin: "diagram FIN_WAIT_1 CLOSING"
| close_wait_close: "diagram CLOSE_WAIT LAST_ACK"
| last_ack_ack: "diagram LAST_ACK CLOSED"
| fin_wait_2_fin: "diagram FIN_WAIT_2 TIME_WAIT"
| closing_ack: "diagram CLOSING TIME_WAIT"
| time_wait_expiry: "diagram TIME_WAIT CLOSED"

code_pred diagram .

inductive_simps diagram_from [simp]:
  "diagram CLOSED s" "diagram LISTEN s" "diagram SYN_SENT s" "diagram SYN_RECEIVED s"
  "diagram ESTABLISHED s" "diagram FIN_WAIT_1 s" "diagram FIN_WAIT_2 s" "diagram CLOSE_WAIT s"
  "diagram CLOSING s" "diagram LAST_ACK s" "diagram TIME_WAIT s"

text \<open>A path along the arrows, of length two at most: a segment that carries both an
  acknowledgement of our FIN and the peer's FIN takes two arrows at once.\<close>

definition diagram_path :: "tcp_state \<Rightarrow> tcp_state \<Rightarrow> bool" where
  "diagram_path s t \<longleftrightarrow> s = t \<or> diagram s t \<or> (\<exists>u. diagram s u \<and> diagram u t)"

lemma diagram_path_refl [simp]: "diagram_path s s"
  by (simp add: diagram_path_def)

lemma diagram_pathI: "diagram s t \<Longrightarrow> diagram_path s t"
  by (simp add: diagram_path_def)

lemma diagram_path_2: "diagram s u \<Longrightarrow> diagram u t \<Longrightarrow> diagram_path s t"
  by (auto simp: diagram_path_def)

lemma diagram_path_rtranclp: "diagram_path s t \<Longrightarrow> diagram\<^sup>*\<^sup>* s t"
  by (auto simp: diagram_path_def intro: converse_rtranclp_into_rtranclp)

end
