(* ===== verification/Connection.thy ===== *)
theory Connection
  imports Buffer Congestion Retransmit State
begin

text \<open>
  \<open>minitcp/net/tcp/connection.py\<close>: one TCP connection, the state machine, its timers and its
  data path. This theory holds the model; \<open>Conn_Invariant\<close> and \<open>Conn_Theorems\<close> hold what is
  proved of it.

  \<^item> The keyword arguments of the constructor, which no later step changes, form the record
    \<open>conn_config\<close>; of the callbacks it records whether they are set.
  \<^item> Calls of \<open>transmit\<close> and of the callbacks are appended, in order, to the list \<open>c_out\<close>; a
    callback that calls back into the connection while it runs is not modelled. The child
    connection a listener creates, which \<open>on_accept\<close> receives when it is set, is the second
    component of the result of \<open>on_segment\<close>; what the child transmits is in its own list.
  \<^item> \<open>now\<close> is the value of \<open>self._now(now)\<close>, and \<open>rnd\<close> the 32 bits that \<open>getrandbits(32)\<close>
    would deliver to \<open>_choose_iss\<close>.
  \<^item> Constructing a queue may raise \<open>ValueError\<close>, and operations invalid in a state raise
    \<open>TCPStateError\<close>: such operations return a sum.
\<close>

section \<open>Data\<close>

definition DEFAULT_MSS :: int where "DEFAULT_MSS = 1460"
definition DEFAULT_WINDOW :: int where "DEFAULT_WINDOW = 65535"
definition DEFAULT_MSL :: time where "DEFAULT_MSL = 30"
definition DEFAULT_DELAYED_ACK :: time where "DEFAULT_DELAYED_ACK = 1 / 20"
definition MAX_RETRANSMITS :: int where "MAX_RETRANSMITS = 15"
definition DEFAULT_PERSIST_DELAY :: time where "DEFAULT_PERSIST_DELAY = 1 / 2"
definition MAX_PERSIST_DELAY :: time where "MAX_PERSIST_DELAY = 60"

record conn_config =
  cfg_local_ip :: bytes
  cfg_local_port :: int
  cfg_remote_ip :: bytes
  cfg_remote_port :: int
  cfg_mss :: int
  cfg_receive_capacity :: int
  cfg_send_capacity :: int
  cfg_window_scale :: nat
  cfg_initial_window :: "int option"
  cfg_iss :: "int option"
  cfg_msl :: time
  cfg_delayed_ack :: bool
  cfg_delayed_ack_delay :: time
  cfg_on_established :: bool
  cfg_on_data :: bool
  cfg_on_closed :: bool
  cfg_on_accept :: bool
  cfg_on_reset :: bool

datatype conn_event =
    Transmit tcp_segment bytes
  | NotifyEstablished
  | NotifyData
  | NotifyClosed
  | NotifyReset

record conn =
  c_cfg :: conn_config
  c_state :: tcp_state
  c_iss :: seqno
  c_irs :: seqno
  c_peer_mss :: int
  c_snd_wscale :: int
  c_peer_window :: int
  c_send :: send_queue
  c_recv :: receive_queue
  c_reno :: reno
  c_rto :: rto_estimator
  c_retx :: retransmit_queue
  c_retransmit_at :: "time option"
  c_delayed_ack_at :: "time option"
  c_time_wait_until :: "time option"
  c_fin_seq :: "seqno option"
  c_syn_sent_at :: "time option"
  c_last_activity :: time
  c_persist_at :: "time option"
  c_persist_delay :: time
  c_segments_sent :: int
  c_segments_received :: int
  c_retransmissions :: int
  c_bytes_sent :: int
  c_bytes_received :: int
  c_reset_received :: bool
  c_out :: "conn_event list"

definition TCPConnection_init :: "conn_config \<Rightarrow> py_error + conn" where
  "TCPConnection_init cfg =
     sum_bind (SendQueue_init 0 (cfg_send_capacity cfg)) (\<lambda>snd_q.
     sum_bind (ReceiveQueue_init 0 (cfg_receive_capacity cfg)) (\<lambda>rcv_q.
     sum_bind (RenoCongestion_init (cfg_mss cfg) (cfg_initial_window cfg) None) (\<lambda>reno.
     sum_bind (RTOEstimator_init DEFAULT_INITIAL_RTO DEFAULT_MIN_RTO DEFAULT_MAX_RTO) (\<lambda>rto.
     Inr \<lparr>c_cfg = cfg, c_state = CLOSED, c_iss = 0, c_irs = 0, c_peer_mss = 536,
          c_snd_wscale = 0, c_peer_window = DEFAULT_WINDOW, c_send = snd_q, c_recv = rcv_q,
          c_reno = reno, c_rto = rto, c_retx = RetransmitQueue_init (2 ^ 20),
          c_retransmit_at = None, c_delayed_ack_at = None, c_time_wait_until = None,
          c_fin_seq = None, c_syn_sent_at = None, c_last_activity = 0, c_persist_at = None,
          c_persist_delay = DEFAULT_PERSIST_DELAY, c_segments_sent = 0,
          c_segments_received = 0, c_retransmissions = 0, c_bytes_sent = 0,
          c_bytes_received = 0, c_reset_received = False, c_out = []\<rparr>))))"


section \<open>Inspection\<close>

definition conn_snd_una :: "conn \<Rightarrow> seqno" where "conn_snd_una c = sq_una (c_send c)"
definition conn_snd_nxt :: "conn \<Rightarrow> seqno" where "conn_snd_nxt c = sq_nxt (c_send c)"
definition conn_rcv_nxt :: "conn \<Rightarrow> seqno" where "conn_rcv_nxt c = rq_nxt (c_recv c)"

definition conn_is_established :: "conn \<Rightarrow> bool" where
  "conn_is_established c \<longleftrightarrow> c_state c = ESTABLISHED"

definition conn_is_closed :: "conn \<Rightarrow> bool" where
  "conn_is_closed c \<longleftrightarrow> c_state c = CLOSED"

definition conn_can_send :: "conn \<Rightarrow> bool" where
  "conn_can_send c \<longleftrightarrow> c_state c = ESTABLISHED \<or> c_state c = CLOSE_WAIT"

definition conn_can_receive :: "conn \<Rightarrow> bool" where
  "conn_can_receive c \<longleftrightarrow>
     c_state c = ESTABLISHED \<or> c_state c = FIN_WAIT_1 \<or> c_state c = FIN_WAIT_2"

definition conn_peer_closed :: "conn \<Rightarrow> bool" where
  "conn_peer_closed c \<longleftrightarrow>
     c_state c = CLOSE_WAIT \<or> c_state c = CLOSING \<or> c_state c = LAST_ACK \<or> c_state c = TIME_WAIT"


section \<open>Helpers\<close>

definition conn_emit :: "conn_event \<Rightarrow> conn \<Rightarrow> conn" where
  "conn_emit ev c = c\<lparr>c_out := c_out c @ [ev]\<rparr>"

definition conn_notify_established :: "conn \<Rightarrow> conn" where
  "conn_notify_established c =
     (if cfg_on_established (c_cfg c) then conn_emit NotifyEstablished c else c)"

definition conn_notify_data :: "conn \<Rightarrow> conn" where
  "conn_notify_data c = (if cfg_on_data (c_cfg c) then conn_emit NotifyData c else c)"

definition conn_notify_closed :: "conn \<Rightarrow> conn" where
  "conn_notify_closed c = (if cfg_on_closed (c_cfg c) then conn_emit NotifyClosed c else c)"

definition conn_teardown :: "conn \<Rightarrow> conn" where
  "conn_teardown c =
     c\<lparr>c_state := CLOSED, c_retx := RetransmitQueue_clear (c_retx c),
       c_send := SendQueue_clear (c_send c), c_recv := ReceiveQueue_clear (c_recv c),
       c_retransmit_at := None, c_delayed_ack_at := None, c_time_wait_until := None\<rparr>"

definition conn_choose_iss :: "32 word \<Rightarrow> conn \<Rightarrow> seqno" where
  "conn_choose_iss rnd c =
     (case cfg_iss (c_cfg c) of Some iss \<Rightarrow> iss AND 0xFFFFFFFF | None \<Rightarrow> uint rnd)"

definition conn_syn_options :: "conn \<Rightarrow> tcp_options" where
  "conn_syn_options c =
     no_options\<lparr>opt_mss := Some (cfg_mss (c_cfg c)),
       opt_window_scale :=
         (if cfg_window_scale (c_cfg c) \<noteq> 0 then Some (int (cfg_window_scale (c_cfg c))) else None),
       opt_sack_permitted := True\<rparr>"

definition conn_apply_peer_options :: "tcp_options \<Rightarrow> conn \<Rightarrow> conn" where
  "conn_apply_peer_options options c =
     (let c1 = (case opt_mss options of
                  Some m \<Rightarrow> c\<lparr>c_peer_mss := max (min m (cfg_mss (c_cfg c))) 64\<rparr>
                | None \<Rightarrow> c)
      in case opt_window_scale options of
           Some w \<Rightarrow> c1\<lparr>c_snd_wscale := min w 14\<rparr>
         | None \<Rightarrow> c1)"

definition conn_acceptable :: "tcp_segment \<Rightarrow> conn \<Rightarrow> bool" where
  "conn_acceptable seg c =
     (if \<not> is_synchronised (c_state c) then True
      else
        let window = rq_capacity (c_recv c)
        in if window = 0 then seg_payload seg = [] \<and> seg_seq seg = rq_nxt (c_recv c)
           else
             let low = rq_nxt (c_recv c);
                 high = seq_add low window;
                 seg_end = seg_seq_end seg
             in if seg_payload seg = [] \<and> seg_seq_len seg = 0
                then seq_ge (seg_seq seg) low \<and> seq_lt (seg_seq seg) high
                else seq_lt (seg_seq seg) high \<and> seq_gt seg_end low)"

definition conn_advertised_window :: "conn \<Rightarrow> int" where
  "conn_advertised_window c =
     (let window = ReceiveQueue_window (c_recv c);
          window = (if cfg_window_scale (c_cfg c) \<noteq> 0
                    then drop_bit (cfg_window_scale (c_cfg c)) window else window)
      in min window 0xFFFF)"


section \<open>Timers and transmission\<close>

definition conn_arm_retransmit_timer :: "time \<Rightarrow> conn \<Rightarrow> conn" where
  "conn_arm_retransmit_timer now c =
     (if RetransmitQueue_len (c_retx c) > 0
      then c\<lparr>c_retransmit_at := Some (now + rto_rto (c_rto c))\<rparr>
      else c\<lparr>c_retransmit_at := None\<rparr>)"

definition conn_arm_persist_timer :: "time \<Rightarrow> conn \<Rightarrow> conn" where
  "conn_arm_persist_timer now c =
     (if SendQueue_unsent (c_send c) \<le> 0 \<and> SendQueue_in_flight (c_send c) \<le> 0
      then c\<lparr>c_persist_at := None\<rparr>
      else if c_persist_at c = None
      then c\<lparr>c_persist_at := Some (now + c_persist_delay c)\<rparr>
      else c)"

definition conn_segment :: "seqno \<Rightarrow> int \<Rightarrow> bytes \<Rightarrow> seqno option \<Rightarrow> tcp_options option \<Rightarrow> conn \<Rightarrow> tcp_segment" where
  "conn_segment sq flags payload ack options c =
     \<lparr>seg_src_port = cfg_local_port (c_cfg c), seg_dst_port = cfg_remote_port (c_cfg c),
      seg_seq = sq, seg_ack = (case ack of None \<Rightarrow> rq_nxt (c_recv c) | Some a \<Rightarrow> a),
      seg_flags = flags, seg_window = conn_advertised_window c, seg_payload = payload,
      seg_options = (case options of None \<Rightarrow> no_options | Some opts \<Rightarrow> opts),
      seg_urgent_pointer = 0, seg_checksum = 0\<rparr>"

definition conn_transmit ::
  "seqno \<Rightarrow> int \<Rightarrow> bytes \<Rightarrow> time \<Rightarrow> seqno option \<Rightarrow> tcp_options option \<Rightarrow> bool \<Rightarrow> conn \<Rightarrow> conn" where
  "conn_transmit sq flags payload now ack options track c =
     (let segment = conn_segment sq flags payload ack options c;
          c1 = c\<lparr>c_segments_sent := c_segments_sent c + 1,
                 c_bytes_sent := c_bytes_sent c + len payload\<rparr>;
          c2 = conn_emit (Transmit segment (cfg_remote_ip (c_cfg c))) c1
      in if track \<and> (flags AND (FLAG_SYN OR FLAG_FIN) \<noteq> 0 \<or> payload \<noteq> [])
         then conn_arm_retransmit_timer now
                (c2\<lparr>c_retx := fst (RetransmitQueue_add (c_retx c2) sq flags payload now)\<rparr>)
         else c2)"

definition conn_send_ack :: "time \<Rightarrow> conn \<Rightarrow> conn" where
  "conn_send_ack now c =
     (let c1 = c\<lparr>c_delayed_ack_at := None\<rparr>
      in if c_state c1 = CLOSED \<or> c_state c1 = LISTEN then c1
         else conn_transmit (sq_nxt (c_send c1)) FLAG_ACK [] now (Some (rq_nxt (c_recv c1))) None True c1)"

definition conn_set_snd_nxt :: "seqno \<Rightarrow> conn \<Rightarrow> conn" where
  "conn_set_snd_nxt sq c = c\<lparr>c_send := (c_send c)\<lparr>sq_nxt := sq\<rparr>\<rparr>"

definition conn_send_fin :: "time \<Rightarrow> conn \<Rightarrow> conn" where
  "conn_send_fin now c =
     (let fin_seq = sq_nxt (c_send c);
          c1 = c\<lparr>c_fin_seq := Some fin_seq\<rparr>;
          c2 = conn_transmit fin_seq (FLAG_ACK OR FLAG_FIN) [] now None None True c1
      in conn_set_snd_nxt (seq_add fin_seq 1) c2)"

definition conn_reject :: "tcp_segment \<Rightarrow> time \<Rightarrow> conn \<Rightarrow> conn" where
  "conn_reject seg now c =
     (if is_rst seg then c
      else if is_ack seg then conn_transmit (seg_ack seg) FLAG_RST [] now None None True c
      else conn_transmit 0 (FLAG_RST OR FLAG_ACK) [] now
             (Some (seq_add (seg_seq seg) (seg_seq_len seg))) None True c)"

text \<open>The loop of \<open>_flush\<close>. Each round that goes on transmits at least one buffered byte, so as
  many rounds as there are buffered bytes, and one more, are enough; \<open>flush_loop_done\<close> in
  \<open>Conn_Invariant\<close> shows that the fuel never runs out before the loop's own exit.\<close>

fun conn_flush_loop :: "nat \<Rightarrow> time \<Rightarrow> conn \<Rightarrow> conn" where
  "conn_flush_loop 0 now c = c"
| "conn_flush_loop (Suc fuel) now c =
     (let window = RenoCongestion_effective_window (c_reno c) (c_peer_window c);
          in_flight = SendQueue_in_flight (c_send c)
      in if in_flight \<ge> window then c
         else
           let allowed = min (window - in_flight) (c_peer_mss c);
               payload = SendQueue_peek (c_send c) (sq_nxt (c_send c)) allowed
           in if payload = [] then c
              else
                let c1 = conn_transmit (sq_nxt (c_send c)) (FLAG_ACK OR FLAG_PSH) payload now None None True c;
                    c2 = conn_set_snd_nxt (seq_add (sq_nxt (c_send c1)) (len payload)) c1
                in if len payload < allowed then c2 else conn_flush_loop fuel now c2)"

definition conn_flush :: "time \<Rightarrow> conn \<Rightarrow> conn" where
  "conn_flush now c =
     (if \<not> is_synchronised (c_state c) then c
      else if c_peer_window c \<le> 0 then conn_arm_persist_timer now c
      else
        let c1 = c\<lparr>c_persist_at := None, c_persist_delay := DEFAULT_PERSIST_DELAY\<rparr>
        in conn_flush_loop (Suc (length (sq_buf (c_send c1)))) now c1)"

text \<open>Sending the head of the outstanding queue again, common to the four places that do it.\<close>

definition conn_resend :: "outstanding \<Rightarrow> time \<Rightarrow> conn \<Rightarrow> conn" where
  "conn_resend oldest now c =
     conn_transmit (os_seq oldest) (os_flags oldest) (os_payload oldest) now None None False
       (c\<lparr>c_retransmissions := c_retransmissions c + 1,
          c_retx := RetransmitQueue_mark_retransmitted (c_retx c) now\<rparr>)"

definition conn_retransmit_oldest :: "time \<Rightarrow> bool \<Rightarrow> conn \<Rightarrow> conn" where
  "conn_retransmit_oldest now fast c =
     (case RetransmitQueue_oldest (c_retx c) of
        None \<Rightarrow> c
      | Some oldest \<Rightarrow>
          let c1 = conn_resend oldest now c
          in if \<not> fast then c1\<lparr>c_retransmit_at := Some (now + rto_rto (c_rto c1))\<rparr> else c1)"

definition conn_on_retransmit_timeout :: "time \<Rightarrow> conn \<Rightarrow> conn" where
  "conn_on_retransmit_timeout now c =
     (case RetransmitQueue_oldest (c_retx c) of
        None \<Rightarrow> c\<lparr>c_retransmit_at := None\<rparr>
      | Some oldest \<Rightarrow>
          if os_retransmits oldest \<ge> MAX_RETRANSMITS then conn_notify_closed (conn_teardown c)
          else
            let c1 = c\<lparr>c_reno := RenoCongestion_on_timeout (c_reno c),
                       c_rto := RTOEstimator_backoff (c_rto c)\<rparr>;
                c2 = conn_resend oldest now c1
            in c2\<lparr>c_retransmit_at := Some (now + rto_rto (c_rto c2))\<rparr>)"

definition conn_on_persist_timeout :: "time \<Rightarrow> conn \<Rightarrow> conn" where
  "conn_on_persist_timeout now c =
     (if c_peer_window c > 0
      then conn_flush now (c\<lparr>c_persist_at := None, c_persist_delay := DEFAULT_PERSIST_DELAY\<rparr>)
      else if \<not> is_synchronised (c_state c) then c\<lparr>c_persist_at := None\<rparr>
      else
        let c1 = (case RetransmitQueue_oldest (c_retx c) of
                    Some oldest \<Rightarrow> conn_resend oldest now c
                  | None \<Rightarrow>
                      let payload = SendQueue_peek (c_send c) (sq_nxt (c_send c)) 1
                      in if payload \<noteq> [] then
                           let c2 = conn_transmit (sq_nxt (c_send c)) (FLAG_ACK OR FLAG_PSH) payload
                                      now None None True c
                           in conn_set_snd_nxt (seq_add (sq_nxt (c_send c2)) (len payload)) c2
                         else c);
            delay = min (c_persist_delay c1 * 2) MAX_PERSIST_DELAY
        in c1\<lparr>c_persist_delay := delay, c_persist_at := Some (now + delay)\<rparr>)"

definition conn_enter_time_wait :: "time \<Rightarrow> conn \<Rightarrow> conn" where
  "conn_enter_time_wait now c =
     c\<lparr>c_state := TIME_WAIT, c_time_wait_until := Some (now + 2 * cfg_msl (c_cfg c)),
       c_retx := RetransmitQueue_clear (c_retx c), c_retransmit_at := None\<rparr>"


section \<open>Application-facing operations\<close>

definition conn_listen :: "conn \<Rightarrow> py_error + conn" where
  "conn_listen c =
     (if c_state c \<noteq> CLOSED then Inl TCPStateError else Inr (c\<lparr>c_state := LISTEN\<rparr>))"

definition conn_connect :: "32 word \<Rightarrow> time \<Rightarrow> conn \<Rightarrow> py_error + conn" where
  "conn_connect rnd now c =
     (if c_state c \<noteq> CLOSED then Inl TCPStateError
      else
        let iss = conn_choose_iss rnd c
        in sum_bind (SendQueue_init iss (cfg_send_capacity (c_cfg c))) (\<lambda>snd_q.
           sum_bind (ReceiveQueue_init 0 (cfg_receive_capacity (c_cfg c))) (\<lambda>rcv_q.
           sum_bind (RenoCongestion_init (cfg_mss (c_cfg c)) None None) (\<lambda>reno.
           let c1 = c\<lparr>c_iss := iss, c_send := snd_q, c_recv := rcv_q, c_reno := reno\<rparr>;
               c2 = conn_transmit iss FLAG_SYN [] now None (Some (conn_syn_options c1)) True c1;
               c3 = conn_set_snd_nxt (seq_add iss 1) c2
           in Inr (c3\<lparr>c_state := SYN_SENT, c_syn_sent_at := Some now\<rparr>)))))"

definition conn_send :: "bytes \<Rightarrow> time \<Rightarrow> conn \<Rightarrow> py_error + conn \<times> int" where
  "conn_send data now c =
     (if \<not> conn_can_send c then Inl TCPStateError
      else if data = [] then Inr (c, 0)
      else
        let (snd_q, written) = SendQueue_write (c_send c) data;
            c1 = c\<lparr>c_send := snd_q\<rparr>
        in if written \<noteq> 0 then Inr (conn_flush now c1, written) else Inr (c1, written))"

definition conn_recv :: "int \<Rightarrow> time \<Rightarrow> conn \<Rightarrow> conn \<times> bytes" where
  "conn_recv max_bytes now c =
     (if ReceiveQueue_available (c_recv c) = 0 then (c, [])
      else
        let (rcv_q, data) = ReceiveQueue_read (c_recv c) max_bytes;
            c1 = c\<lparr>c_recv := rcv_q\<rparr>
        in if data \<noteq> [] \<and> (c_state c1 = ESTABLISHED \<or> c_state c1 = FIN_WAIT_1 \<or> c_state c1 = FIN_WAIT_2)
           then (conn_send_ack now c1, data) else (c1, data))"

definition conn_abort :: "time \<Rightarrow> conn \<Rightarrow> conn" where
  "conn_abort now c =
     (let c1 = (if c_state c \<noteq> CLOSED \<and> c_state c \<noteq> LISTEN
                then conn_transmit (sq_nxt (c_send c)) (FLAG_RST OR FLAG_ACK) [] now
                       (Some (rq_nxt (c_recv c))) None True c
                else c)
      in conn_notify_closed (conn_teardown c1))"

definition conn_close :: "time \<Rightarrow> conn \<Rightarrow> conn" where
  "conn_close now c =
     (case c_state c of
        ESTABLISHED \<Rightarrow> (conn_send_fin now c)\<lparr>c_state := FIN_WAIT_1\<rparr>
      | CLOSE_WAIT \<Rightarrow> (conn_send_fin now c)\<lparr>c_state := LAST_ACK\<rparr>
      | SYN_SENT \<Rightarrow> conn_abort now c
      | SYN_RECEIVED \<Rightarrow> conn_abort now c
      | FIN_WAIT_1 \<Rightarrow> c
      | FIN_WAIT_2 \<Rightarrow> c
      | CLOSING \<Rightarrow> c
      | LAST_ACK \<Rightarrow> c
      | TIME_WAIT \<Rightarrow> c
      | _ \<Rightarrow> conn_notify_closed (c\<lparr>c_state := CLOSED\<rparr>))"



section \<open>Inbound segments\<close>

definition conn_update_peer_window :: "tcp_segment \<Rightarrow> conn \<Rightarrow> conn \<times> bool" where
  "conn_update_peer_window seg c =
     (let previous = c_peer_window c;
          c1 = c\<lparr>c_peer_window := push_bit (nat (c_snd_wscale c)) (seg_window seg)\<rparr>
      in (c1, previous \<le> 0 \<and> 0 < c_peer_window c1))"

text \<open>The \<open>for\<close> loop with the \<open>break\<close> and its \<open>else\<close>: the first acknowledged entry that was
  never retransmitted gives the one sample.\<close>

definition conn_rtt_update :: "time \<Rightarrow> outstanding list \<Rightarrow> rto_estimator \<Rightarrow> rto_estimator" where
  "conn_rtt_update now acked rto =
     (case find (\<lambda>e. os_retransmits e = 0) acked of
        Some e \<Rightarrow> RTOEstimator_sample rto (max (now - os_sent_at e) 0)
      | None \<Rightarrow> RTOEstimator_recompute rto)"

definition conn_duplicate_ack :: "tcp_segment \<Rightarrow> time \<Rightarrow> conn \<Rightarrow> conn" where
  "conn_duplicate_ack seg now c =
     (let una = sq_una (c_send c);
          (c1, reopened) = conn_update_peer_window seg c;
          (reno, fast) =
            (if seg_ack seg = una \<and> SendQueue_in_flight (c_send c1) > 0
             then RenoCongestion_on_duplicate_ack (c_reno c1) (Some (seg_ack seg))
             else (c_reno c1, False));
          c2 = c1\<lparr>c_reno := reno\<rparr>;
          c3 = (if fast then conn_retransmit_oldest now True c2
                else if reopened \<and> RetransmitQueue_oldest (c_retx c2) \<noteq> None
                then conn_retransmit_oldest now False c2
                else c2)
      in conn_flush now c3)"

definition conn_process_ack :: "tcp_segment \<Rightarrow> time \<Rightarrow> conn \<Rightarrow> conn" where
  "conn_process_ack seg now c =
     (if \<not> seq_gt (seg_ack seg) (sq_una (c_send c)) then conn_duplicate_ack seg now c
      else
        let (snd_q, acknowledged) = SendQueue_acknowledge (c_send c) (seg_ack seg);
            c1 = c\<lparr>c_send := snd_q\<rparr>
        in if acknowledged \<le> 0 then c1
           else
             let (retx, acked) = RetransmitQueue_acknowledge (c_retx c1) (seg_ack seg);
                 c2 = c1\<lparr>c_retx := retx, c_rto := conn_rtt_update now acked (c_rto c1),
                         c_reno := RenoCongestion_on_ack (c_reno c1) acknowledged (Some (seg_ack seg))\<rparr>;
                 c3 = fst (conn_update_peer_window seg c2)
             in conn_flush now (conn_arm_retransmit_timer now c3))"

definition conn_maybe_advance_after_ack :: "tcp_segment \<Rightarrow> time \<Rightarrow> conn \<Rightarrow> conn" where
  "conn_maybe_advance_after_ack seg now c =
     (case c_fin_seq c of
        None \<Rightarrow> c
      | Some fin_seq \<Rightarrow>
          if \<not> is_ack seg \<or> \<not> seq_ge (seg_ack seg) (seq_add fin_seq 1) then c
          else if c_state c = FIN_WAIT_1 then c\<lparr>c_state := FIN_WAIT_2\<rparr>
          else if c_state c = CLOSING then conn_enter_time_wait now c
          else if c_state c = LAST_ACK then conn_notify_closed (conn_teardown c)
          else c)"

definition conn_handle_data :: "tcp_segment \<Rightarrow> time \<Rightarrow> conn \<Rightarrow> conn" where
  "conn_handle_data seg now c =
     (let (rcv_q, newly) = ReceiveQueue_insert (c_recv c) (seg_seq seg) (seg_payload seg);
          c1 = c\<lparr>c_recv := rcv_q\<rparr>;
          c2 = (if newly \<noteq> 0
                then conn_notify_data (c1\<lparr>c_bytes_received := c_bytes_received c1 + newly\<rparr>) else c1)
      in if newly \<noteq> 0 \<or> seg_payload seg \<noteq> [] then
           (if cfg_delayed_ack (c_cfg c2) \<and> newly \<noteq> 0 then
              (if c_delayed_ack_at c2 = None
               then c2\<lparr>c_delayed_ack_at := Some (now + cfg_delayed_ack_delay (c_cfg c2))\<rparr> else c2)
            else conn_send_ack now c2)
         else c2)"

definition conn_handle_fin :: "tcp_segment \<Rightarrow> time \<Rightarrow> conn \<Rightarrow> conn" where
  "conn_handle_fin seg now c =
     (let fin_seq = seq_add (seg_seq seg) (len (seg_payload seg))
      in if seq_gt fin_seq (rq_nxt (c_recv c)) then conn_send_ack now c
         else if seq_lt fin_seq (rq_nxt (c_recv c)) then conn_send_ack now c
         else
           let c1 = c\<lparr>c_recv := (c_recv c)\<lparr>rq_nxt := seq_add (rq_nxt (c_recv c)) 1\<rparr>\<rparr>;
               c2 = conn_send_ack now c1
           in if c_state c2 = ESTABLISHED then c2\<lparr>c_state := CLOSE_WAIT\<rparr>
              else if c_state c2 = FIN_WAIT_1 then
                (if (case c_fin_seq c2 of
                       None \<Rightarrow> False
                     | Some f \<Rightarrow> seq_ge (sq_una (c_send c2)) (seq_add f 1))
                 then conn_enter_time_wait now c2 else c2\<lparr>c_state := CLOSING\<rparr>)
              else if c_state c2 = FIN_WAIT_2 then conn_enter_time_wait now c2
              else if c_state c2 = CLOSING then conn_enter_time_wait now c2
              else c2)"

definition conn_handle_rst :: "tcp_segment \<Rightarrow> time \<Rightarrow> conn \<Rightarrow> conn" where
  "conn_handle_rst seg now c =
     (let c1 = conn_teardown (c\<lparr>c_reset_received := True\<rparr>);
          c2 = (if cfg_on_reset (c_cfg c1) then conn_emit NotifyReset c1 else c1)
      in conn_notify_closed c2)"

definition conn_begin_passive_open :: "tcp_segment \<Rightarrow> 32 word \<Rightarrow> time \<Rightarrow> conn \<Rightarrow> py_error + conn" where
  "conn_begin_passive_open seg rnd now c =
     (let iss = conn_choose_iss rnd c
      in sum_bind (SendQueue_init iss (cfg_send_capacity (c_cfg c))) (\<lambda>snd_q.
         sum_bind (ReceiveQueue_init (seg_seq seg) (cfg_receive_capacity (c_cfg c))) (\<lambda>rcv_q.
         sum_bind (RenoCongestion_init (cfg_mss (c_cfg c)) None None) (\<lambda>reno.
         let c1 = conn_apply_peer_options (seg_options seg)
                    (c\<lparr>c_irs := seg_seq seg, c_iss := iss, c_send := snd_q, c_recv := rcv_q,
                       c_reno := reno, c_peer_window := seg_window seg\<rparr>);
             c2 = conn_transmit iss (FLAG_SYN OR FLAG_ACK) [] now (Some (rq_nxt (c_recv c1)))
                    (Some (conn_syn_options c1)) True c1;
             c3 = conn_set_snd_nxt (seq_add iss 1) c2
         in Inr (c3\<lparr>c_state := SYN_RECEIVED\<rparr>)))))"

definition conn_child_config :: "tcp_segment \<Rightarrow> bytes option \<Rightarrow> conn \<Rightarrow> conn_config" where
  "conn_child_config seg src_ip c =
     (c_cfg c)\<lparr>cfg_remote_ip := (case src_ip of Some ip \<Rightarrow> ip | None \<Rightarrow> cfg_remote_ip (c_cfg c)),
       cfg_remote_port := seg_src_port seg, cfg_initial_window := None\<rparr>"

definition conn_handle_segment_in_listen ::
  "tcp_segment \<Rightarrow> bytes option \<Rightarrow> 32 word \<Rightarrow> time \<Rightarrow> conn \<Rightarrow> py_error + conn \<times> conn option" where
  "conn_handle_segment_in_listen seg src_ip rnd now c =
     (if is_rst seg then Inr (c, None)
      else if \<not> is_syn seg then Inr (c, None)
      else
        sum_bind (TCPConnection_init (conn_child_config seg src_ip c)) (\<lambda>fresh.
        sum_bind (conn_begin_passive_open seg rnd now fresh) (\<lambda>child.
        Inr (c, Some child))))"

definition conn_handle_simultaneous_open :: "tcp_segment \<Rightarrow> time \<Rightarrow> conn \<Rightarrow> py_error + conn" where
  "conn_handle_simultaneous_open seg now c =
     sum_bind (ReceiveQueue_init (seg_seq seg) (cfg_receive_capacity (c_cfg c))) (\<lambda>rcv_q.
     let c1 = conn_apply_peer_options (seg_options seg)
                (c\<lparr>c_irs := seg_seq seg, c_recv := rcv_q\<rparr>);
         c2 = c1\<lparr>c_peer_window := seg_window seg\<rparr>;
         c3 = conn_transmit (c_iss c2) (FLAG_SYN OR FLAG_ACK) [] now (Some (rq_nxt (c_recv c2)))
                (Some (conn_syn_options c2)) True c2
     in Inr (c3\<lparr>c_state := SYN_RECEIVED\<rparr>))"

definition conn_handle_syn_ack :: "tcp_segment \<Rightarrow> time \<Rightarrow> conn \<Rightarrow> py_error + conn" where
  "conn_handle_syn_ack seg now c =
     (if \<not> seq_ge (seg_ack seg) (seq_add (c_iss c) 1) then Inr (conn_reject seg now c)
      else
        sum_bind (ReceiveQueue_init (seg_seq seg) (cfg_receive_capacity (c_cfg c))) (\<lambda>rcv_q.
        let c1 = conn_apply_peer_options (seg_options seg)
                   (c\<lparr>c_irs := seg_seq seg, c_recv := rcv_q\<rparr>);
            c2 = c1\<lparr>c_peer_window := push_bit (nat (c_snd_wscale c1)) (seg_window seg)\<rparr>;
            c3 = conn_send_ack now (conn_process_ack seg now c2)
        in Inr (conn_notify_established (c3\<lparr>c_state := ESTABLISHED\<rparr>))))"

definition conn_handle_final_ack_of_handshake :: "tcp_segment \<Rightarrow> time \<Rightarrow> conn \<Rightarrow> conn" where
  "conn_handle_final_ack_of_handshake seg now c =
     (if \<not> seq_ge (seg_ack seg) (seq_add (c_iss c) 1) then c
      else conn_notify_established ((conn_process_ack seg now c)\<lparr>c_state := ESTABLISHED\<rparr>))"

text \<open>The part of \<open>on_segment\<close> for synchronised states.\<close>

definition conn_on_synchronised_segment :: "tcp_segment \<Rightarrow> time \<Rightarrow> conn \<Rightarrow> conn" where
  "conn_on_synchronised_segment seg now c =
     (if \<not> conn_acceptable seg c then (if \<not> is_rst seg then conn_send_ack now c else c)
      else
        let c1 = (if is_ack seg then conn_process_ack seg now c else c);
            c2 = conn_maybe_advance_after_ack seg now c1;
            c3 = (if seg_payload seg \<noteq> [] then conn_handle_data seg now c2 else c2)
        in if is_fin seg then conn_handle_fin seg now c3 else c3)"

definition conn_on_segment ::
  "tcp_segment \<Rightarrow> bytes option \<Rightarrow> 32 word \<Rightarrow> time \<Rightarrow> conn \<Rightarrow> py_error + conn \<times> conn option" where
  "conn_on_segment seg src_ip rnd now c0 =
     (let c = c0\<lparr>c_segments_received := c_segments_received c0 + 1, c_last_activity := now\<rparr>
      in if c_state c = CLOSED then Inr (conn_reject seg now c, None)
         else if is_rst seg then Inr (conn_handle_rst seg now c, None)
         else if c_state c = LISTEN then conn_handle_segment_in_listen seg src_ip rnd now c
         else if is_syn seg then
           (if c_state c = SYN_SENT then
              sum_bind (if is_ack seg then conn_handle_syn_ack seg now c
                        else conn_handle_simultaneous_open seg now c) (\<lambda>c'. Inr (c', None))
            else if c_state c = SYN_RECEIVED then Inr (conn_retransmit_oldest now False c, None)
            else Inr (conn_reject seg now c, None))
         else if c_state c = SYN_SENT then Inr (c, None)
         else if c_state c = SYN_RECEIVED then
           Inr (if is_ack seg then conn_handle_final_ack_of_handshake seg now c else c, None)
         else Inr (conn_on_synchronised_segment seg now c, None))"

definition conn_on_tick :: "time \<Rightarrow> conn \<Rightarrow> conn" where
  "conn_on_tick now c =
     (let due = (\<lambda>timer. case timer of None \<Rightarrow> False | Some t \<Rightarrow> now \<ge> t);
          c1 = (if due (c_delayed_ack_at c) then conn_send_ack now c else c);
          c2 = (if due (c_retransmit_at c1) then conn_on_retransmit_timeout now c1 else c1);
          c3 = (if due (c_persist_at c2) then conn_on_persist_timeout now c2 else c2)
      in if c_state c3 = TIME_WAIT \<and> due (c_time_wait_until c3)
         then conn_notify_closed (conn_teardown c3) else c3)"

end
