(* ===== verification/Flight.thy ===== *)
theory Flight
  imports Buffer Retransmit
begin

text \<open>
  What the sender has in flight, seen as stream positions: the outstanding queue against the
  sequence numbers of the send queue. The point of the theory is \<open>covered\<close>: every position
  between the oldest unacknowledged one and the next one to send lies in an entry of the
  outstanding queue, so whatever is lost can be sent again. Sending, acknowledging and
  retransmitting preserve it.
\<close>

section \<open>A queue that runs from one position to another\<close>

text \<open>\<open>queued p es n\<close>: the entries \<open>es\<close>, in order, run from position \<open>p\<close> to position \<open>n\<close>. An
  entry that occupies a single position without data (a SYN) may be followed by another one
  at the same place: that is what a simultaneous open leaves behind.\<close>

fun queued :: "int \<Rightarrow> outstanding list \<Rightarrow> int \<Rightarrow> bool" where
  "queued p [] n \<longleftrightarrow> p = n"
| "queued p (e # es) n \<longleftrightarrow>
     os_seq e = wrap p \<and> 0 < os_seq_len e
     \<and> (queued (p + os_seq_len e) es n
        \<or> (os_payload e = [] \<and> os_seq_len e = 1 \<and> es \<noteq> [] \<and> queued p es n))"

definition payload_bytes :: "outstanding list \<Rightarrow> int" where
  "payload_bytes es = (\<Sum>e \<leftarrow> es. len (os_payload e))"

lemma payload_bytes_simps [simp]:
  "payload_bytes [] = 0"
  "payload_bytes (e # es) = len (os_payload e) + payload_bytes es"
  "payload_bytes (es @ fs) = payload_bytes es + payload_bytes fs"
  by (simp_all add: payload_bytes_def)

lemma payload_le_seq_len: "len (os_payload e) \<le> os_seq_len e"
  by (simp add: os_seq_len_def)

lemma queued_bytes: "queued p es n \<Longrightarrow> payload_bytes es \<le> n - p"
proof (induction es arbitrary: p)
  case (Cons e es)
  have "payload_bytes es \<le> n - (p + os_seq_len e) \<or> (os_payload e = [] \<and> payload_bytes es \<le> n - p)"
    using Cons by auto
  then show ?case
    using payload_le_seq_len [of e] by auto
qed simp

lemma payload_bytes_nonneg [simp]: "0 \<le> payload_bytes es"
  by (induction es) simp_all

lemma queued_le: "queued p es n \<Longrightarrow> p \<le> n"
  using queued_bytes [of p es n] payload_bytes_nonneg [of es] by linarith

lemma queued_hd: "queued p es n \<Longrightarrow> es \<noteq> [] \<Longrightarrow> os_seq (hd es) = wrap p \<and> p + os_seq_len (hd es) \<le> n
    \<and> 0 < os_seq_len (hd es)"
proof (induction es arbitrary: p)
  case (Cons e es)
  show ?case
  proof (cases "queued (p + os_seq_len e) es n")
    case True
    with Cons.prems show ?thesis using queued_le [OF True] by simp
  next
    case False
    with Cons.prems have "os_seq_len e = 1" "es \<noteq> []" "queued p es n" by auto
    with Cons.IH [of p] Cons.prems show ?thesis by fastforce
  qed
qed simp

lemma queued_empty: "queued p es p \<Longrightarrow> es = []"
  using queued_hd [of p es p] by fastforce

text \<open>Sending: a new entry at the end.\<close>

lemma queued_snoc:
  "queued p es n \<Longrightarrow> os_seq e = wrap n \<Longrightarrow> 0 < os_seq_len e \<Longrightarrow> queued p (es @ [e]) (n + os_seq_len e)"
  by (induction es arbitrary: p) auto

text \<open>A second SYN at the place of the first.\<close>

lemma queued_snoc_same:
  "queued p es (p + 1) \<Longrightarrow> list_all (\<lambda>e. os_payload e = []) es \<Longrightarrow> es \<noteq> [] \<Longrightarrow>
     os_seq e = wrap p \<Longrightarrow> os_seq_len e = 1 \<Longrightarrow> queued p (es @ [e]) (p + 1)"
proof (induction es)
  case (Cons x es)
  have x: "os_seq_len x = 1"
    using queued_hd [OF Cons.prems(1)] by simp
  show ?case
  proof (cases "es = []")
    case True
    with Cons.prems x show ?thesis by simp
  next
    case False
    have "\<not> queued (p + 1) es (p + 1)"
      using False queued_empty by blast
    with Cons.prems x False have "queued p es (p + 1)" by simp
    with Cons False x show ?thesis by simp
  qed
qed simp

text \<open>Retransmitting changes bookkeeping fields only.\<close>

definition same_extent :: "outstanding \<Rightarrow> outstanding \<Rightarrow> bool" where
  "same_extent e e' \<longleftrightarrow> os_seq e = os_seq e' \<and> os_flags e = os_flags e' \<and> os_payload e = os_payload e'"

lemma same_extent_len: "same_extent e e' \<Longrightarrow> os_seq_len e = os_seq_len e'"
  by (simp add: same_extent_def os_seq_len_def)

lemma queued_same_extent: "same_extent e e' \<Longrightarrow> queued p (e # es) n \<Longrightarrow> queued p (e' # es) n"
  using same_extent_len [of e e'] by (auto simp: same_extent_def)

lemma oldest_mark:
  "RetransmitQueue_oldest q = Some e \<Longrightarrow>
     \<exists>e' es. rx_segments q = e # es \<and> rx_segments (RetransmitQueue_mark_retransmitted q now) = e' # es
        \<and> same_extent e e'"
  by (auto simp: RetransmitQueue_oldest_def RetransmitQueue_mark_retransmitted_def same_extent_def
      split: list.splits)

text \<open>Acknowledging position \<open>a\<close>: the entries that end at or before \<open>a\<close> leave, the others stay
  and run on from a position at or before \<open>a\<close>.\<close>

lemma queued_ends:
  assumes "queued p es n" and "e \<in> set es"
  obtains q where "os_seq_end e = wrap q" and "p + os_seq_len (hd es) \<le> q" and "q \<le> n"
  using assms
proof (induction es arbitrary: p thesis)
  case (Cons x es)
  have x: "os_seq_end x = wrap (p + os_seq_len x)"
    using Cons.prems(2) by (simp add: os_seq_end_wrap wrap_add)
  show ?case
  proof (cases "e = x")
    case True
    then show ?thesis
      using Cons.prems(1) x queued_hd [OF Cons.prems(2)] by simp
  next
    case False
    then have e: "e \<in> set es" "es \<noteq> []" using Cons.prems(3) by auto
    consider "queued (p + os_seq_len x) es n" | "os_seq_len x = 1" "queued p es n"
      using Cons.prems(2) by auto
    then show ?thesis
    proof cases
      case 1
      then show ?thesis
        using Cons.IH [OF _ 1 e(1)] Cons.prems(1) queued_hd [OF 1 e(2)] by fastforce
    next
      case 2
      then show ?thesis
        using Cons.IH [OF _ 2(2) e(1)] Cons.prems(1) queued_hd [OF 2(2) e(2)] by fastforce
    qed
  qed
qed simp

lemma queued_acknowledge:
  assumes "queued p es n" and "es \<noteq> []" and "p \<le> a" and "a < n"
    and "a < p + os_seq_len (hd es) + SEQ_HALF" and "n < a + SEQ_HALF"
  shows "\<exists>p'. p' \<le> a \<and> filter (\<lambda>e. \<not> seq_le (os_seq_end e) (wrap a)) es \<noteq> []
      \<and> a < p' + os_seq_len (hd (filter (\<lambda>e. \<not> seq_le (os_seq_end e) (wrap a)) es))
      \<and> queued p' (filter (\<lambda>e. \<not> seq_le (os_seq_end e) (wrap a)) es) n"
  using assms
proof (induction es arbitrary: p)
  case (Cons x es)
  have cmp: "seq_le (os_seq_end e) (wrap a) \<longleftrightarrow> q \<le> a"
    if "os_seq_end e = wrap q" "p + os_seq_len x \<le> q" "q \<le> n" for e q
    using that Cons.prems(5,6) by (simp add: seq_le_wrap)
  have x: "os_seq_end x = wrap (p + os_seq_len x)"
    using Cons.prems(1) by (simp add: os_seq_end_wrap wrap_add)
  have xn: "p + os_seq_len x \<le> n" "0 < os_seq_len x"
    using queued_hd [OF Cons.prems(1)] by simp_all
  show ?case
  proof (cases "p + os_seq_len x \<le> a")
    case True
    then have gone: "seq_le (os_seq_end x) (wrap a)"
      using cmp [OF x] xn by simp
    have nonempty: "es \<noteq> []"
      using True Cons.prems(1,4) by auto
    consider "queued (p + os_seq_len x) es n" | "os_seq_len x = 1" "queued p es n"
      using Cons.prems(1) by auto
    then show ?thesis
    proof cases
      case 1
      then show ?thesis
        using Cons.IH [OF 1 nonempty True] Cons.prems(4-6) gone queued_hd [OF 1 nonempty] by simp
    next
      case 2
      then show ?thesis
        using Cons.IH [OF 2(2) nonempty] Cons.prems(3-6) gone queued_hd [OF 2(2) nonempty] by simp
    qed
  next
    case False
    have "\<not> seq_le (os_seq_end e) (wrap a)" if e: "e \<in> set (x # es)" for e
    proof -
      obtain q where "os_seq_end e = wrap q" "p + os_seq_len (hd (x # es)) \<le> q" "q \<le> n"
        by (rule queued_ends [OF Cons.prems(1) e])
      then show ?thesis using cmp [of e q] False by simp
    qed
    then have "filter (\<lambda>e. \<not> seq_le (os_seq_end e) (wrap a)) (x # es) = x # es"
      by simp
    then show ?thesis
      using False Cons.prems(1,3) by (metis list.distinct(1) list.sel(1) not_le)
  qed
qed simp

lemma queued_acknowledge_all:
  assumes "queued p es n" and "n \<le> a"
    and "es \<noteq> [] \<Longrightarrow> a < p + os_seq_len (hd es) + SEQ_HALF"
  shows "filter (\<lambda>e. \<not> seq_le (os_seq_end e) (wrap a)) es = []"
proof -
  have "seq_le (os_seq_end e) (wrap a)" if e: "e \<in> set es" for e
  proof -
    have "a < p + os_seq_len (hd es) + SEQ_HALF" using assms(3) e by force
    moreover obtain q where "os_seq_end e = wrap q" "p + os_seq_len (hd es) \<le> q" "q \<le> n"
      by (rule queued_ends [OF assms(1) e])
    ultimately show ?thesis using assms(2) by (simp add: seq_le_wrap)
  qed
  then show ?thesis by (simp add: filter_empty_conv)
qed


lemma queued_start:
  assumes "queued p es n" and "e \<in> set es"
  obtains s where "os_seq e = wrap s" and "p \<le> s" and "s + os_seq_len e \<le> n" and "0 < os_seq_len e"
    and "p + os_seq_len (hd es) \<le> s + os_seq_len e"
  using assms
proof (induction es arbitrary: p thesis)
  case (Cons x es)
  show ?case
  proof (cases "e = x")
    case True
    then show ?thesis
      using Cons.prems(1) queued_hd [OF Cons.prems(2)] by simp
  next
    case False
    then have e: "e \<in> set es" "es \<noteq> []" using Cons.prems(3) by auto
    have x: "0 < os_seq_len x" using Cons.prems(2) by simp
    consider "queued (p + os_seq_len x) es n" | "os_seq_len x = 1" "queued p es n"
      using Cons.prems(2) by auto
    then show ?thesis
    proof cases
      case 1
      then obtain s where "os_seq e = wrap s" "p + os_seq_len x \<le> s" "s + os_seq_len e \<le> n" "0 < os_seq_len e"
        using Cons.IH [OF _ 1 e(1)] by blast
      with x show ?thesis by (intro Cons.prems(1) [of s]) simp_all
    next
      case 2
      then obtain s where "os_seq e = wrap s" "p \<le> s" "s + os_seq_len e \<le> n" "0 < os_seq_len e"
        using Cons.IH [OF _ 2(2) e(1)] by blast
      with 2(1) show ?thesis by (intro Cons.prems(1) [of s]) simp_all
    qed
  qed
qed simp


section \<open>Every position in flight is covered\<close>

definition covered :: "int \<Rightarrow> int \<Rightarrow> outstanding list \<Rightarrow> bool" where
  "covered u n es \<longleftrightarrow>
     (if u = n then es = []
      else u < n \<and> es \<noteq> [] \<and> (\<exists>p \<le> u. u < p + os_seq_len (hd es) \<and> queued p es n))"

lemma covered_empty: "covered u n es \<Longrightarrow> es = [] \<longleftrightarrow> u = n"
  by (auto simp: covered_def split: if_splits)

lemma covered_snoc:
  assumes "covered u n es" and "os_seq e = wrap n" and "0 < os_seq_len e"
  shows "covered u (n + os_seq_len e) (es @ [e])"
proof (cases "u = n")
  case True
  with assms show ?thesis by (auto simp: covered_def intro!: exI [of _ n])
next
  case False
  with assms(1) obtain p where "p \<le> u" "u < p + os_seq_len (hd es)" "queued p es n" "es \<noteq> []" "u < n"
    by (auto simp: covered_def)
  with assms(2,3) show ?thesis
    using queued_snoc [of p es n e] by (auto simp: covered_def)
qed

lemma covered_acknowledge:
  assumes "covered u n es" and "u < a" and "a - u < SEQ_HALF" and "n - u < SEQ_HALF"
  shows "covered a (max a n) (filter (\<lambda>e. \<not> seq_le (os_seq_end e) (wrap a)) es)"
proof (cases "u = n")
  case True
  with assms show ?thesis by (simp add: covered_def)
next
  case False
  with assms(1) obtain p where p: "p \<le> u" "u < p + os_seq_len (hd es)" "queued p es n" "es \<noteq> []" "u < n"
    by (auto simp: covered_def)
  show ?thesis
  proof (cases "a < n")
    case True
    then show ?thesis
      using queued_acknowledge [OF p(3,4), of a] p assms by (auto simp: covered_def)
  next
    case False
    then show ?thesis
      using queued_acknowledge_all [OF p(3), of a] p assms by (simp add: covered_def)
  qed
qed

lemma covered_same_extent: "covered u n (e # es) \<Longrightarrow> same_extent e e' \<Longrightarrow> covered u n (e' # es)"
  using queued_same_extent [of e e'] same_extent_len [of e e']
  unfolding covered_def by (metis list.distinct(1) list.sel(1))

lemma covered_entry:
  assumes "covered u n es" and "e \<in> set es"
  obtains s where "os_seq e = wrap s" and "u < s + os_seq_len e" and "s + os_seq_len e \<le> n"
proof -
  obtain p where "p \<le> u" "u < p + os_seq_len (hd es)" "queued p es n"
    using assms by (auto simp: covered_def split: if_splits)
  then show thesis
    using queued_start [OF _ assms(2), of p n] that by fastforce
qed

lemma covered_bytes:
  assumes "covered u n es" and "list_all (\<lambda>e. os_seq_len e \<le> M) es" and "0 \<le> M"
  shows "payload_bytes es \<le> n - u + M"
proof (cases "u = n")
  case True
  with assms show ?thesis by (simp add: covered_def)
next
  case False
  with assms(1) obtain p where p: "p \<le> u" "u < p + os_seq_len (hd es)" "queued p es n" "es \<noteq> []"
    by (auto simp: covered_def)
  then have "os_seq_len (hd es) \<le> M" using assms(2) by (cases es) simp_all
  then show ?thesis using queued_bytes [OF p(3)] p(2) by linarith
qed

text \<open>The statement about positions: each one between \<open>u\<close> and \<open>n\<close> lies in some entry.\<close>

lemma queued_covers:
  "queued p es n \<Longrightarrow> p \<le> i \<Longrightarrow> i < n \<Longrightarrow>
     \<exists>e \<in> set es. \<exists>s. os_seq e = wrap s \<and> s \<le> i \<and> i < s + os_seq_len e"
proof (induction es arbitrary: p)
  case (Cons e es)
  show ?case
  proof (cases "i < p + os_seq_len e")
    case True
    with Cons.prems show ?thesis
      by (intro bexI [of _ e] exI [of _ p]) simp_all
  next
    case False
    with Cons.prems Cons.IH [of "p + os_seq_len e"] Cons.IH [of p] show ?thesis by auto
  qed
qed simp

lemma covered_covers:
  "covered u n es \<Longrightarrow> u \<le> i \<Longrightarrow> i < n \<Longrightarrow>
     \<exists>e \<in> set es. \<exists>s. os_seq e = wrap s \<and> s \<le> i \<and> i < s + os_seq_len e"
  using queued_covers by (fastforce simp: covered_def split: if_splits)


section \<open>The outstanding queue against the send queue\<close>

text \<open>An entry agrees with the send buffer: each of its payload bytes that is not acknowledged yet
  is the byte the buffer holds for that sequence number.\<close>

definition entry_matches :: "send_queue \<Rightarrow> outstanding \<Rightarrow> bool" where
  "entry_matches q e \<longleftrightarrow>
     (\<forall>j < length (os_payload e). 0 \<le> seq_diff (os_seq e) (sq_una q) + int j \<longrightarrow>
        nat (seq_diff (os_seq e) (sq_una q) + int j) < length (sq_buf q)
        \<and> sq_buf q ! nat (seq_diff (os_seq e) (sq_una q) + int j) = os_payload e ! j)"

abbreviation flight_size :: "send_queue \<Rightarrow> int" where
  "flight_size q \<equiv> seq_diff (sq_nxt q) (sq_una q)"

text \<open>\<open>M\<close> bounds the size of a segment.\<close>

definition protected :: "int \<Rightarrow> send_queue \<Rightarrow> outstanding list \<Rightarrow> bool" where
  "protected M q es \<longleftrightarrow>
     covered (sq_una q) (sq_una q + flight_size q) es
     \<and> list_all (\<lambda>e. os_seq_len e \<le> M \<and> valid_seq (os_seq e) \<and> entry_matches q e) es"

lemma queued_shift: "queued p es n \<Longrightarrow> wrap p' = wrap p \<Longrightarrow> queued p' es (n + (p' - p))"
proof (induction es arbitrary: p p')
  case (Cons e es)
  have "wrap (p' + os_seq_len e) = wrap (p + os_seq_len e)"
    using Cons.prems(2) by (metis wrap_add)
  then show ?case
    using Cons.prems Cons.IH [of "p + os_seq_len e" "p' + os_seq_len e"] Cons.IH [of p p']
    by (auto simp: algebra_simps)
qed simp

text \<open>Positions count modulo the size of the space, so the whole picture may be moved.\<close>

lemma covered_shift:
  assumes "covered u n es" and "wrap u' = wrap u"
  shows "covered u' (n + (u' - u)) es"
proof (cases "u = n")
  case False
  with assms(1) obtain p where p: "p \<le> u" "u < p + os_seq_len (hd es)" "queued p es n" "es \<noteq> []" "u < n"
    by (auto simp: covered_def)
  have "wrap (p + (u' - u)) = wrap p"
    using assms(2) by (simp add: wrap_mod_cong algebra_simps)
  from queued_shift [OF p(3) this] have "queued (p + (u' - u)) es (n + (u' - u))" by simp
  with p show ?thesis
    unfolding covered_def by (auto intro!: exI [of _ "p + (u' - u)"])
qed (use assms in \<open>simp add: covered_def\<close>)

lemma protected_empty: "protected M q es \<Longrightarrow> es = [] \<longleftrightarrow> flight_size q = 0"
  using covered_empty [of "sq_una q" "sq_una q + flight_size q" es] by (simp add: protected_def)

lemma protected_fresh: "flight_size q = 0 \<Longrightarrow> protected M q []"
  by (simp add: protected_def covered_def)

lemma protected_nxt: "valid_seq (sq_una q) \<Longrightarrow> valid_seq (sq_nxt q) \<Longrightarrow> wrap (sq_una q + flight_size q) = sq_nxt q"
  using seq_position [of "sq_nxt q" "sq_una q"] by simp

text \<open>Sending something new at \<open>nxt\<close>.\<close>

lemma protected_send:
  assumes "protected M q es" and "send_inv q"
    and "os_seq e = sq_nxt q" and "0 < os_seq_len e" and "os_seq_len e \<le> M"
    and "flight_size q + os_seq_len e < SEQ_HALF" and "entry_matches q e"
  shows "protected M (q\<lparr>sq_nxt := seq_add (sq_nxt q) (os_seq_len e)\<rparr>) (es @ [e])"
proof -
  have v: "valid_seq (sq_una q)" "valid_seq (sq_nxt q)" "0 \<le> flight_size q"
    using assms(2) by (simp_all add: send_inv_def)
  have d: "seq_diff (seq_add (sq_nxt q) (os_seq_len e)) (sq_una q) = flight_size q + os_seq_len e"
    using v assms(4,6) by (intro seq_diff_add) (auto simp: SEQ_HALF_def)
  have "covered (sq_una q) (sq_una q + flight_size q + os_seq_len e) (es @ [e])"
    using assms protected_nxt [OF v(1,2)] by (intro covered_snoc) (simp_all add: protected_def)
  then show ?thesis
    using assms v by (simp add: protected_def d entry_matches_def add.assoc)
qed

lemma entry_matches_nxt [simp]: "entry_matches (q\<lparr>sq_nxt := s\<rparr>) e = entry_matches q e"
  by (simp add: entry_matches_def)

lemma entry_matches_write:
  assumes "entry_matches q e" shows "entry_matches (fst (SendQueue_write q d)) e"
  using assms by (auto simp: entry_matches_def SendQueue_write_def Let_def nth_append)

lemma protected_write: "protected M q es \<Longrightarrow> protected M (fst (SendQueue_write q d)) es"
proof -
  assume p: "protected M q es"
  have "sq_una (fst (SendQueue_write q d)) = sq_una q" "sq_nxt (fst (SendQueue_write q d)) = sq_nxt q"
    by (simp_all add: SendQueue_write_def Let_def)
  with p entry_matches_write show ?thesis
    by (auto simp: protected_def list_all_iff)
qed

lemma protected_same_extent:
  "protected M q (e # es) \<Longrightarrow> same_extent e e' \<Longrightarrow> protected M q (e' # es)"
  using covered_same_extent [of _ _ e es e'] same_extent_len [of e e']
  by (auto simp: protected_def entry_matches_def same_extent_def)

text \<open>An acknowledgement of something new.\<close>

lemma protected_acknowledge:
  assumes "protected M q es" and "send_inv q" and "valid_seq ack" and "seq_gt ack (sq_una q)"
    and "M < SEQ_HALF"
  shows "protected M (fst (SendQueue_acknowledge q ack)) (filter (\<lambda>e. \<not> seq_le (os_seq_end e) ack) es)"
proof -
  let ?u = "sq_una q" and ?a = "seq_diff ack (sq_una q)" and ?d = "flight_size q"
  let ?q = "fst (SendQueue_acknowledge q ack)"
  let ?kept = "filter (\<lambda>e. \<not> seq_le (os_seq_end e) ack) es"
  have a: "0 < ?a" "?a < SEQ_HALF" and d: "0 \<le> ?d" "?d < SEQ_HALF"
    using assms(2,4) seq_diff_range by (auto simp: seq_gt_diff send_inv_def)
  have v: "valid_seq ?u" "valid_seq (sq_nxt q)" using assms(2) by (simp_all add: send_inv_def)
  have ack: "wrap (?u + ?a) = ack"
    using seq_position [of ack ?u] assms(3) v by simp
  have q: "sq_una ?q = ack" "sq_buf ?q = drop (nat ?a) (sq_buf q)" "flight_size ?q = max (?d - ?a) 0"
    using seq_diff_ack_nxt [OF assms(2,4,3)] by (auto simp: SendQueue_acknowledge_new [OF assms(4)])
  have "covered (?u + ?a) (max (?u + ?a) (?u + ?d)) ?kept"
    using covered_acknowledge [of ?u "?u + ?d" es "?u + ?a"] assms(1) a d
    unfolding ack by (simp add: protected_def)
  moreover have "max (?u + ?a) (?u + ?d) + (ack - (?u + ?a)) = ack + max (?d - ?a) 0"
    by (simp add: max_def)
  moreover have "wrap ack = wrap (?u + ?a)"
    using assms(3) ack by simp
  ultimately have cov: "covered ack (ack + max (?d - ?a) 0) ?kept"
    using covered_shift by metis
  have "entry_matches ?q e" if e: "e \<in> set es" "\<not> seq_le (os_seq_end e) ack" for e
  proof -
    obtain s where s: "os_seq e = wrap s" "?u < s + os_seq_len e" "s + os_seq_len e \<le> ?u + ?d"
      using assms(1) covered_entry [OF _ e(1), of ?u "?u + ?d"] by (auto simp: protected_def)
    have M: "os_seq_len e \<le> M" and m: "entry_matches q e" and ve: "valid_seq (os_seq e)"
      using assms(1) e(1) by (auto simp: protected_def list_all_iff)
    have o: "seq_diff (os_seq e) ?u = s - ?u"
      using seq_diff_wrap [of s ?u] s M assms(5) d v os_seq_len_nonneg [of e]
      by (simp add: SEQ_HALF_def del: os_seq_len_nonneg)
    have "\<not> s + os_seq_len e \<le> ?u + ?a"
    proof
      assume le: "s + os_seq_len e \<le> ?u + ?a"
      have "os_seq_end e = wrap (s + os_seq_len e)"
        by (simp add: os_seq_end_wrap s(1) wrap_add)
      then have "seq_le (os_seq_end e) (wrap (?u + ?a))"
        using le s a by (simp add: seq_le_wrap)
      with e(2) ack show False by simp
    qed
    then have "seq_diff (os_seq e) ack = seq_diff (os_seq e) ?u - ?a"
      using ve assms(3) v o M assms(5) s d a os_seq_len_nonneg [of e]
      by (intro seq_diff_sub) (simp_all add: SEQ_HALF_def del: os_seq_len_nonneg)
    then have o': "seq_diff (os_seq e) ack = seq_diff (os_seq e) ?u - ?a" .
    show ?thesis
      unfolding entry_matches_def q o'
    proof (intro allI impI)
      fix j
      assume j: "j < length (os_payload e)" "0 \<le> seq_diff (os_seq e) ?u - ?a + int j"
      let ?i = "seq_diff (os_seq e) ?u + int j"
      have i: "nat (seq_diff (os_seq e) ?u - ?a + int j) = nat ?i - nat ?a" "nat ?a \<le> nat ?i" "0 \<le> ?i"
        using j a by linarith+
      with m j show "nat (seq_diff (os_seq e) ?u - ?a + int j) < length (drop (nat ?a) (sq_buf q))
        \<and> drop (nat ?a) (sq_buf q) ! nat (seq_diff (os_seq e) ?u - ?a + int j) = os_payload e ! j"
        unfolding i(1) entry_matches_def by (auto simp: nth_drop)
    qed
  qed
  moreover have "covered (sq_una ?q) (sq_una ?q + flight_size ?q) ?kept"
    unfolding q(3) using cov q(1) by simp
  ultimately show ?thesis
    using assms(1) unfolding protected_def by (auto simp: list_all_iff)
qed

lemma protected_bytes:
  "protected M q es \<Longrightarrow> 0 \<le> M \<Longrightarrow> payload_bytes es \<le> flight_size q + M"
  using covered_bytes [of "sq_una q" "sq_una q + flight_size q" es M]
  by (auto simp: protected_def list_all_iff)


text \<open>What protection means for a single position: \<open>i\<close> past the oldest unacknowledged one lies in
  an entry, at index \<open>j\<close>, and where the entry has a byte there, it is the byte the send buffer
  holds.\<close>

lemma protected_position:
  assumes "protected M q es" and "M < SEQ_HALF" and "valid_seq (sq_una q)"
    and "0 \<le> i" and "i < flight_size q"
  shows "\<exists>e \<in> set es. \<exists>j. 0 \<le> j \<and> j < os_seq_len e \<and> seq_add (os_seq e) j = seq_add (sq_una q) i
     \<and> (j < len (os_payload e) \<longrightarrow> i < len (sq_buf q) \<and> os_payload e ! nat j = sq_buf q ! nat i)"
proof -
  let ?u = "sq_una q"
  obtain e s where e: "e \<in> set es" "os_seq e = wrap s" "s \<le> ?u + i" "?u + i < s + os_seq_len e"
    using covered_covers [of ?u "?u + flight_size q" es "?u + i"] assms by (auto simp: protected_def)
  have em: "entry_matches q e" and M: "os_seq_len e \<le> M"
    using assms(1) e(1) by (auto simp: protected_def list_all_iff)
  have d: "flight_size q < SEQ_HALF" by (simp add: seq_diff_range)
  have "seq_diff (wrap s) (wrap ?u) = s - ?u"
    using e M assms(2,4,5) d by (intro seq_diff_wrap) (simp_all add: SEQ_HALF_def)
  then have o: "seq_diff (os_seq e) ?u = s - ?u" using assms(3) e(2) by simp
  let ?j = "?u + i - s"
  have "seq_add (os_seq e) ?j = seq_add ?u i"
    unfolding e(2) seq_add_wrap by (simp add: seq_add_valid)
  moreover have "?j < len (os_payload e) \<longrightarrow> i < len (sq_buf q) \<and> os_payload e ! nat ?j = sq_buf q ! nat i"
  proof
    assume j: "?j < len (os_payload e)"
    have n: "nat ?j < length (os_payload e)" "seq_diff (os_seq e) ?u + int (nat ?j) = i"
      using j e(3) o by simp_all
    with em assms(4) show "i < len (sq_buf q) \<and> os_payload e ! nat ?j = sq_buf q ! nat i"
      unfolding entry_matches_def by (metis nat_less_iff)
  qed
  ultimately show ?thesis
    using e by (intro bexI [of _ e] exI [of _ ?j]) simp_all
qed

end
