(* ===== verification/Conn_Invariant.thy ===== *)
theory Conn_Invariant
  imports Connection Flight
begin

text \<open>
  The invariant of a connection and its preservation by every operation of \<open>Connection\<close>. It
  has four parts: the queues and parameters are well formed (\<open>static_inv\<close>), what is in flight
  is bounded and can be sent again (\<open>flight_inv\<close>), outstanding data has a timer
  (\<open>timer_inv\<close>), and unsent data is waiting for something that will happen
  (\<open>progress_inv\<close>). The first three hold at every intermediate point of an operation; the
  last one is re-established by \<open>_flush\<close>.
\<close>

section \<open>What the small steps leave alone\<close>

lemmas transmit_defs =
  conn_transmit_def conn_emit_def conn_arm_retransmit_timer_def Let_def

lemma conn_transmit_frame [simp]:
  "c_cfg (conn_transmit sq f p now a opts t c) = c_cfg c"
  "c_state (conn_transmit sq f p now a opts t c) = c_state c"
  "c_iss (conn_transmit sq f p now a opts t c) = c_iss c"
  "c_irs (conn_transmit sq f p now a opts t c) = c_irs c"
  "c_peer_mss (conn_transmit sq f p now a opts t c) = c_peer_mss c"
  "c_snd_wscale (conn_transmit sq f p now a opts t c) = c_snd_wscale c"
  "c_peer_window (conn_transmit sq f p now a opts t c) = c_peer_window c"
  "c_send (conn_transmit sq f p now a opts t c) = c_send c"
  "c_recv (conn_transmit sq f p now a opts t c) = c_recv c"
  "c_reno (conn_transmit sq f p now a opts t c) = c_reno c"
  "c_rto (conn_transmit sq f p now a opts t c) = c_rto c"
  "c_delayed_ack_at (conn_transmit sq f p now a opts t c) = c_delayed_ack_at c"
  "c_time_wait_until (conn_transmit sq f p now a opts t c) = c_time_wait_until c"
  "c_fin_seq (conn_transmit sq f p now a opts t c) = c_fin_seq c"
  "c_persist_at (conn_transmit sq f p now a opts t c) = c_persist_at c"
  "c_persist_delay (conn_transmit sq f p now a opts t c) = c_persist_delay c"
  "c_bytes_received (conn_transmit sq f p now a opts t c) = c_bytes_received c"
  by (simp_all add: transmit_defs)

lemma conn_transmit_out [simp]:
  "c_out (conn_transmit sq f p now a opts t c)
   = c_out c @ [Transmit (conn_segment sq f p a opts c) (cfg_remote_ip (c_cfg c))]"
  by (simp add: transmit_defs)

definition tracked :: "int \<Rightarrow> bytes \<Rightarrow> bool" where
  "tracked f p \<longleftrightarrow> f AND (FLAG_SYN OR FLAG_FIN) \<noteq> 0 \<or> p \<noteq> []"

lemma conn_transmit_untracked [simp]:
  "\<not> (t \<and> tracked f p) \<Longrightarrow> c_retx (conn_transmit sq f p now a opts t c) = c_retx c"
  "\<not> (t \<and> tracked f p) \<Longrightarrow> c_retransmit_at (conn_transmit sq f p now a opts t c) = c_retransmit_at c"
  by (auto simp: transmit_defs tracked_def)

lemma tracked_flags [simp]:
  "\<not> tracked FLAG_ACK []" "\<not> tracked FLAG_RST []" "\<not> tracked (FLAG_RST OR FLAG_ACK) []"
  "tracked FLAG_SYN p" "tracked (FLAG_SYN OR FLAG_ACK) p" "tracked (FLAG_ACK OR FLAG_FIN) p"
  "p \<noteq> [] \<Longrightarrow> tracked f p"
  by (simp_all add: tracked_def flag_defs)

definition new_entry :: "seqno \<Rightarrow> int \<Rightarrow> bytes \<Rightarrow> time \<Rightarrow> outstanding" where
  "new_entry sq f p now = \<lparr>os_seq = sq, os_flags = f, os_payload = p, os_sent_at = now,
     os_retransmits = 0, os_rtt_sampled = False\<rparr>"

lemma new_entry_fields [simp]:
  "os_seq (new_entry sq f p now) = sq" "os_flags (new_entry sq f p now) = f"
  "os_payload (new_entry sq f p now) = p" "os_retransmits (new_entry sq f p now) = 0"
  by (simp_all add: new_entry_def)

lemma new_entry_len [simp]:
  "os_seq_len (new_entry sq (FLAG_ACK OR FLAG_PSH) p now) = len p"
  "os_seq_len (new_entry sq (FLAG_ACK OR FLAG_FIN) p now) = len p + 1"
  "os_seq_len (new_entry sq FLAG_SYN p now) = len p + 1"
  "os_seq_len (new_entry sq (FLAG_SYN OR FLAG_ACK) p now) = len p + 1"
  by (simp_all add: os_seq_len_def new_entry_def flag_defs)

abbreviation segs :: "conn \<Rightarrow> outstanding list" where
  "segs c \<equiv> rx_segments (c_retx c)"

lemma conn_transmit_tracked:
  assumes "tracked f p" and "payload_bytes (segs c) + len p \<le> rx_capacity (c_retx c)"
  shows "c_retx (conn_transmit sq f p now a opts True c)
       = (c_retx c)\<lparr>rx_segments := segs c @ [new_entry sq f p now]\<rparr>"
    and "c_retransmit_at (conn_transmit sq f p now a opts True c) = Some (now + rto_rto (c_rto c))"
  using assms
  by (auto simp: transmit_defs tracked_def RetransmitQueue_add_def RetransmitQueue_len_def
      RetransmitQueue_bytes_outstanding_def payload_bytes_def new_entry_def)

lemma conn_transmit_capacity [simp]:
  "rx_capacity (c_retx (conn_transmit sq f p now a opts t c)) = rx_capacity (c_retx c)"
  by (simp add: transmit_defs RetransmitQueue_add_def)

text \<open>Whether or not the queue had room, entries and timer go together.\<close>

definition timer_inv :: "conn \<Rightarrow> bool" where
  "timer_inv c \<longleftrightarrow> (segs c \<noteq> [] \<longrightarrow> c_retransmit_at c \<noteq> None)"

lemma timer_inv_transmit: "timer_inv c \<Longrightarrow> timer_inv (conn_transmit sq f p now a opts t c)"
  by (auto simp: timer_inv_def transmit_defs RetransmitQueue_len_def)

lemma conn_set_snd_nxt_frame [simp]:
  "c_cfg (conn_set_snd_nxt s c) = c_cfg c" "c_state (conn_set_snd_nxt s c) = c_state c"
  "c_iss (conn_set_snd_nxt s c) = c_iss c" "c_recv (conn_set_snd_nxt s c) = c_recv c"
  "c_irs (conn_set_snd_nxt s c) = c_irs c" "c_snd_wscale (conn_set_snd_nxt s c) = c_snd_wscale c"
  "c_reno (conn_set_snd_nxt s c) = c_reno c" "c_rto (conn_set_snd_nxt s c) = c_rto c"
  "c_retx (conn_set_snd_nxt s c) = c_retx c" "c_peer_mss (conn_set_snd_nxt s c) = c_peer_mss c"
  "c_peer_window (conn_set_snd_nxt s c) = c_peer_window c"
  "c_retransmit_at (conn_set_snd_nxt s c) = c_retransmit_at c"
  "c_persist_at (conn_set_snd_nxt s c) = c_persist_at c"
  "c_time_wait_until (conn_set_snd_nxt s c) = c_time_wait_until c"
  "c_delayed_ack_at (conn_set_snd_nxt s c) = c_delayed_ack_at c"
  "c_fin_seq (conn_set_snd_nxt s c) = c_fin_seq c"
  "c_send (conn_set_snd_nxt s c) = (c_send c)\<lparr>sq_nxt := s\<rparr>"
  "c_out (conn_set_snd_nxt s c) = c_out c"
  by (simp_all add: conn_set_snd_nxt_def)


section \<open>The invariant\<close>

text \<open>The largest number of positions one segment occupies: the configured MSS, or the default
  of 536 bytes for a peer that announces none.\<close>

definition segment_bound :: "conn_config \<Rightarrow> int" where
  "segment_bound cfg = max (cfg_mss cfg) 536"

text \<open>The configurations the theorems are about: positive sizes, and a send buffer that leaves
  room for one partly acknowledged segment in the outstanding queue, whose capacity is 1 MiB.\<close>

definition cfg_ok :: "conn_config \<Rightarrow> bool" where
  "cfg_ok cfg \<longleftrightarrow> 0 < cfg_mss cfg \<and> 0 < cfg_receive_capacity cfg \<and> 0 < cfg_send_capacity cfg
     \<and> cfg_send_capacity cfg + segment_bound cfg + 2 \<le> 2 ^ 20"

definition static_inv :: "conn \<Rightarrow> bool" where
  "static_inv c \<longleftrightarrow>
     cfg_ok (c_cfg c) \<and> send_inv (c_send c) \<and> sq_capacity (c_send c) = cfg_send_capacity (c_cfg c)
     \<and> recv_inv (c_recv c) \<and> rq_capacity (c_recv c) = cfg_receive_capacity (c_cfg c)
     \<and> re_mss (c_reno c) = cfg_mss (c_cfg c) \<and> rto_inv (c_rto c)
     \<and> 0 < c_peer_mss c \<and> c_peer_mss c \<le> segment_bound (c_cfg c)
     \<and> rx_capacity (c_retx c) = 2 ^ 20"

text \<open>How far \<open>snd_nxt\<close> may be ahead of the buffered data: a SYN and a FIN occupy one position
  each.\<close>

fun slack :: "tcp_state \<Rightarrow> int" where
  "slack CLOSED = 2" | "slack LISTEN = 2" | "slack SYN_SENT = 1" | "slack SYN_RECEIVED = 1"
| "slack ESTABLISHED = 1" | "slack CLOSE_WAIT = 1" | "slack FIN_WAIT_1 = 2" | "slack FIN_WAIT_2 = 2"
| "slack CLOSING = 2" | "slack LAST_ACK = 2" | "slack TIME_WAIT = 2"

definition handshaking :: "tcp_state \<Rightarrow> bool" where
  "handshaking s \<longleftrightarrow> s = SYN_SENT \<or> s = SYN_RECEIVED"

definition live :: "tcp_state \<Rightarrow> bool" where
  "live s \<longleftrightarrow> s \<noteq> CLOSED \<and> s \<noteq> LISTEN \<and> s \<noteq> TIME_WAIT"

definition flight_inv :: "conn \<Rightarrow> bool" where
  "flight_inv c \<longleftrightarrow>
     (c_state c \<noteq> CLOSED \<and> c_state c \<noteq> LISTEN \<longrightarrow>
        flight_size (c_send c) \<le> len (sq_buf (c_send c)) + slack (c_state c))
     \<and> (live (c_state c) \<longrightarrow> protected (segment_bound (c_cfg c)) (c_send c) (segs c))
     \<and> (handshaking (c_state c) \<longrightarrow>
          sq_buf (c_send c) = [] \<and> c_iss c = sq_una (c_send c) \<and> flight_size (c_send c) = 1
          \<and> list_all (\<lambda>e. os_payload e = [] \<and> os_seq_len e = 1) (segs c))
     \<and> (c_state c = CLOSED \<or> c_state c = LISTEN \<longrightarrow> segs c = [])"

definition progress_inv :: "conn \<Rightarrow> bool" where
  "progress_inv c \<longleftrightarrow>
     (is_synchronised (c_state c) \<and> 0 < SendQueue_unsent (c_send c) \<longrightarrow>
        (if 0 < c_peer_window c then 0 < flight_size (c_send c) else c_persist_at c \<noteq> None))"

definition core_inv :: "conn \<Rightarrow> bool" where
  "core_inv c \<longleftrightarrow> static_inv c \<and> flight_inv c \<and> timer_inv c"

definition conn_inv :: "conn \<Rightarrow> bool" where
  "conn_inv c \<longleftrightarrow> core_inv c \<and> progress_inv c"

lemmas inv_defs = conn_inv_def core_inv_def static_inv_def flight_inv_def timer_inv_def progress_inv_def

text \<open>Steps that only touch fields the invariant does not read.\<close>

definition same_core :: "conn \<Rightarrow> conn \<Rightarrow> bool" where
  "same_core c c' \<longleftrightarrow>
     c_cfg c' = c_cfg c \<and> c_state c' = c_state c \<and> c_iss c' = c_iss c \<and> c_peer_mss c' = c_peer_mss c
     \<and> c_peer_window c' = c_peer_window c \<and> c_send c' = c_send c \<and> c_recv c' = c_recv c
     \<and> c_reno c' = c_reno c \<and> c_rto c' = c_rto c \<and> c_retx c' = c_retx c
     \<and> c_retransmit_at c' = c_retransmit_at c \<and> c_persist_at c' = c_persist_at c"

lemma same_core_inv: "same_core c c' \<Longrightarrow> conn_inv c \<Longrightarrow> conn_inv c'"
  and same_core_core: "same_core c c' \<Longrightarrow> core_inv c \<Longrightarrow> core_inv c'"
  unfolding same_core_def by (elim conjE, simp only: inv_defs)+

lemma same_core_notify [simp]:
  "same_core c (conn_notify_established c)" "same_core c (conn_notify_data c)"
  "same_core c (conn_notify_closed c)" "same_core c (conn_emit ev c)"
  by (simp_all add: same_core_def conn_notify_established_def conn_notify_data_def
      conn_notify_closed_def conn_emit_def)

lemma same_core_transmit [simp]:
  "\<not> (t \<and> tracked f p) \<Longrightarrow> same_core c (conn_transmit sq f p now a opts t c)"
  by (simp add: same_core_def)

lemma same_core_send_ack [simp]: "same_core c (conn_send_ack now c)"
  by (simp add: same_core_def conn_send_ack_def Let_def)

lemma same_core_reject [simp]: "same_core c (conn_reject seg now c)"
  by (simp add: same_core_def conn_reject_def)

lemma same_core_trans [trans]: "same_core a b \<Longrightarrow> same_core b c \<Longrightarrow> same_core a c"
  by (simp add: same_core_def)



section \<open>Sending something new\<close>

lemma cfg_ok_bounds:
  "cfg_ok cfg \<Longrightarrow> 0 < segment_bound cfg \<and> segment_bound cfg < 2 ^ 20 \<and> cfg_send_capacity cfg < 2 ^ 20"
  by (auto simp: cfg_ok_def segment_bound_def)

lemma static_flight:
  assumes "static_inv c"
  shows "0 \<le> flight_size (c_send c)" "valid_seq (sq_una (c_send c))" "valid_seq (sq_nxt (c_send c))"
    "len (sq_buf (c_send c)) \<le> cfg_send_capacity (c_cfg c)" "cfg_ok (c_cfg c)"
  using assms by (auto simp: static_inv_def send_inv_def)

lemma flight_advance:
  assumes "static_inv c" and "flight_size (c_send c) \<le> len (sq_buf (c_send c)) + 2" and "0 \<le> k" and "k \<le> 2 ^ 20"
  shows "seq_diff (seq_add (sq_nxt (c_send c)) k) (sq_una (c_send c)) = flight_size (c_send c) + k"
  using static_flight [OF assms(1)] assms(2-4) cfg_ok_bounds [of "c_cfg c"]
  by (intro seq_diff_add) (auto simp: SEQ_HALF_def)

lemma slack_le: "slack s \<le> 2"
  by (cases s) simp_all

text \<open>The common step: transmit a tracked segment at \<open>snd_nxt\<close> and move \<open>snd_nxt\<close> past it.\<close>

definition conn_send_new :: "int \<Rightarrow> bytes \<Rightarrow> time \<Rightarrow> conn \<Rightarrow> conn" where
  "conn_send_new f p now c =
     conn_set_snd_nxt (seq_add (sq_nxt (c_send c)) (os_seq_len (new_entry 0 f p now)))
       (conn_transmit (sq_nxt (c_send c)) f p now None None True c)"

lemma os_seq_len_new: "os_seq_len (new_entry sq f p now) = os_seq_len (new_entry 0 f p now)"
  by (simp add: os_seq_len_def)

lemma send_room:
  assumes "core_inv c" and "live (c_state c)"
    and "len p = 0 \<or> flight_size (c_send c) + len p \<le> len (sq_buf (c_send c))"
  shows "payload_bytes (segs c) + len p \<le> rx_capacity (c_retx c)"
proof -
  have st: "static_inv c" and pr: "protected (segment_bound (c_cfg c)) (c_send c) (segs c)"
    and fl: "flight_size (c_send c) \<le> len (sq_buf (c_send c)) + slack (c_state c)"
    using assms(1,2) by (auto simp: core_inv_def flight_inv_def live_def)
  have "payload_bytes (segs c) \<le> flight_size (c_send c) + segment_bound (c_cfg c)"
    using protected_bytes [OF pr] cfg_ok_bounds static_flight(5) [OF st] by fastforce
  then show ?thesis
    using assms(3) fl st static_flight(4,5) [OF st] slack_le [of "c_state c"]
    by (auto simp: static_inv_def cfg_ok_def)
qed

lemma send_new_core:
  assumes inv: "core_inv c" and st: "is_synchronised (c_state c)"
    and tr: "tracked f p" and k: "k = os_seq_len (new_entry 0 f p now)" "0 < k" "k \<le> segment_bound (c_cfg c)"
    and room: "len p = 0 \<or> flight_size (c_send c) + len p \<le> len (sq_buf (c_send c))"
    and data: "p = take (length p) (drop (nat (flight_size (c_send c))) (sq_buf (c_send c)))"
    and sl: "flight_size (c_send c) + k \<le> len (sq_buf (c_send c)) + slack (c_state c)"
  shows "core_inv (conn_send_new f p now c)"
    and "flight_size (c_send (conn_send_new f p now c)) = flight_size (c_send c) + k"
proof -
  let ?c = "conn_send_new f p now c" and ?e = "new_entry (sq_nxt (c_send c)) f p now"
  have static: "static_inv c" and timer: "timer_inv c"
    using inv by (auto simp: core_inv_def)
  note sf = static_flight [OF static]
  have kb: "k \<le> 2 ^ 20" using k(3) cfg_ok_bounds [OF sf(5)] by linarith
  have fl: "flight_size (c_send c) \<le> len (sq_buf (c_send c)) + 2"
    using sl k(2) slack_le [of "c_state c"] by linarith
  have e: "os_seq_len ?e = k" using os_seq_len_new k(1) by simp
  show d: "flight_size (c_send ?c) = flight_size (c_send c) + k"
    using flight_advance [OF static fl _ kb] k by (simp add: conn_send_new_def)
  have "send_inv (c_send ?c)"
    using static d sf k(2) by (simp add: static_inv_def send_inv_def conn_send_new_def)
  then have st': "static_inv ?c"
    using static by (simp add: static_inv_def conn_send_new_def)
  have ti: "timer_inv ?c"
    using timer_inv_transmit [OF timer] by (simp add: conn_send_new_def timer_inv_def)
  have match: "entry_matches (c_send c) ?e"
    unfolding entry_matches_def
  proof (intro allI impI)
    fix j assume "j < length (os_payload ?e)"
    then have j: "j < length p" by simp
    have off: "nat (flight_size (c_send c) + int j) = nat (flight_size (c_send c)) + j"
      using sf(1) by simp
    have "nat (flight_size (c_send c)) + j < length (sq_buf (c_send c))"
      using room j sf(1) by (auto simp: nat_less_iff)
    moreover have "p ! j = drop (nat (flight_size (c_send c))) (sq_buf (c_send c)) ! j"
      using data j by (metis nth_take)
    ultimately show "nat (seq_diff (os_seq ?e) (sq_una (c_send c)) + int j) < length (sq_buf (c_send c))
       \<and> sq_buf (c_send c) ! nat (seq_diff (os_seq ?e) (sq_una (c_send c)) + int j) = os_payload ?e ! j"
      by (simp add: off)
  qed
  have pr: "protected (segment_bound (c_cfg c)) (c_send ?c) (segs ?c)" if lv: "live (c_state c)"
  proof -
    have old: "protected (segment_bound (c_cfg c)) (c_send c) (segs c)"
      using inv lv by (simp add: core_inv_def flight_inv_def)
    have "segs ?c = segs c @ [?e]"
      using conn_transmit_tracked(1) [OF tr send_room [OF inv lv room]]
      by (simp add: conn_send_new_def)
    moreover have "protected (segment_bound (c_cfg c)) ((c_send c)\<lparr>sq_nxt := seq_add (sq_nxt (c_send c)) (os_seq_len ?e)\<rparr>) (segs c @ [?e])"
      using static k kb e fl sf(4) cfg_ok_bounds [OF sf(5)] match
      by (intro protected_send [OF old]) (auto simp: static_inv_def SEQ_HALF_def)
    ultimately show ?thesis
      by (simp add: conn_send_new_def e k(1))
  qed
  have "flight_inv ?c"
    unfolding flight_inv_def d using sl pr st
    by (auto simp: conn_send_new_def is_synchronised_def handshaking_def)
  with st' ti show "core_inv ?c" by (simp add: core_inv_def)
qed



section \<open>The flush loop\<close>

lemma peek_next:
  "0 \<le> flight_size q \<Longrightarrow>
     SendQueue_peek q (sq_nxt q) n = (if n \<le> 0 then [] else take (nat n) (drop (nat (flight_size q)) (sq_buf q)))"
  by (simp add: SendQueue_peek_def Let_def nat_add_distrib drop_take)

lemma send_data_new:
  "conn_set_snd_nxt (seq_add (sq_nxt (c_send c)) (len p))
     (conn_transmit (sq_nxt (c_send c)) (FLAG_ACK OR FLAG_PSH) p now None None True c)
   = conn_send_new (FLAG_ACK OR FLAG_PSH) p now c"
  by (simp add: conn_send_new_def)

lemma data_new_core:
  assumes "core_inv c" and "is_synchronised (c_state c)"
    and "p = take n (drop (nat (flight_size (c_send c))) (sq_buf (c_send c)))" and "p \<noteq> []"
    and "int n \<le> segment_bound (c_cfg c)"
  shows "core_inv (conn_send_new (FLAG_ACK OR FLAG_PSH) p now c)"
    and "flight_size (c_send (conn_send_new (FLAG_ACK OR FLAG_PSH) p now c))
           = flight_size (c_send c) + len p"
    and "flight_size (c_send c) + len p \<le> len (sq_buf (c_send c))"
proof -
  have d: "0 \<le> flight_size (c_send c)"
    using assms(1) static_flight(1) by (simp add: core_inv_def)
  have lp: "length p = min n (length (sq_buf (c_send c)) - nat (flight_size (c_send c)))"
    using assms(3) by simp
  have "nat (flight_size (c_send c)) + length p \<le> length (sq_buf (c_send c))"
    using lp assms(4) by (cases p) auto
  with d show le: "flight_size (c_send c) + len p \<le> len (sq_buf (c_send c))"
    by linarith
  have data: "p = take (length p) (drop (nat (flight_size (c_send c))) (sq_buf (c_send c)))"
    using assms(3) lp by (metis append_take_drop_id take_all_iff length_drop min_def nle_le take_take)
  have sl: "0 \<le> slack (c_state c)" by (cases "c_state c") simp_all
  have k: "0 < len p" "len p \<le> segment_bound (c_cfg c)"
  proof -
    show "0 < len p" using assms(4) by (cases p) simp_all
    have "len p \<le> int n" by (simp add: lp)
    then show "len p \<le> segment_bound (c_cfg c)" using assms(5) by linarith
  qed
  show "core_inv (conn_send_new (FLAG_ACK OR FLAG_PSH) p now c)"
    using le sl k assms(4) by (intro send_new_core(1) [OF assms(1,2), where k = "len p"] data) auto
  show "flight_size (c_send (conn_send_new (FLAG_ACK OR FLAG_PSH) p now c)) = flight_size (c_send c) + len p"
    using le sl k assms(4) by (intro send_new_core(2) [OF assms(1,2), where k = "len p"] data) auto
qed

lemma send_new_frame [simp]:
  "c_cfg (conn_send_new f p now c) = c_cfg c" "c_state (conn_send_new f p now c) = c_state c"
  "c_peer_mss (conn_send_new f p now c) = c_peer_mss c"
  "c_peer_window (conn_send_new f p now c) = c_peer_window c"
  "c_reno (conn_send_new f p now c) = c_reno c" "c_recv (conn_send_new f p now c) = c_recv c"
  "c_persist_at (conn_send_new f p now c) = c_persist_at c"
  "c_fin_seq (conn_send_new f p now c) = c_fin_seq c"
  "c_time_wait_until (conn_send_new f p now c) = c_time_wait_until c"
  "c_delayed_ack_at (conn_send_new f p now c) = c_delayed_ack_at c"
  "c_iss (conn_send_new f p now c) = c_iss c"
  "c_irs (conn_send_new f p now c) = c_irs c"
  "sq_buf (c_send (conn_send_new f p now c)) = sq_buf (c_send c)"
  "sq_una (c_send (conn_send_new f p now c)) = sq_una (c_send c)"
  "sq_nxt (c_send (conn_send_new f p now c))
     = seq_add (sq_nxt (c_send c)) (os_seq_len (new_entry 0 f p now))"
  "c_out (conn_send_new f p now c) = c_out c @
     [Transmit (conn_segment (sq_nxt (c_send c)) f p None None c) (cfg_remote_ip (c_cfg c))]"
  by (simp_all add: conn_send_new_def)

text \<open>One round of the loop, as a case distinction.\<close>

definition flush_window :: "conn \<Rightarrow> int" where
  "flush_window c = RenoCongestion_effective_window (c_reno c) (c_peer_window c)"

definition flush_allowed :: "conn \<Rightarrow> int" where
  "flush_allowed c = min (flush_window c - flight_size (c_send c)) (c_peer_mss c)"

definition flush_payload :: "conn \<Rightarrow> bytes" where
  "flush_payload c =
     take (nat (flush_allowed c)) (drop (nat (flight_size (c_send c))) (sq_buf (c_send c)))"

abbreviation send_data :: "bytes \<Rightarrow> time \<Rightarrow> conn \<Rightarrow> conn" where
  "send_data p now c \<equiv> conn_send_new (FLAG_ACK OR FLAG_PSH) p now c"

lemma flush_loop_step:
  assumes "static_inv c"
  shows "conn_flush_loop (Suc fuel) now c =
    (if flush_window c \<le> flight_size (c_send c) \<or> flush_payload c = [] then c
     else if len (flush_payload c) < flush_allowed c then send_data (flush_payload c) now c
     else conn_flush_loop fuel now (send_data (flush_payload c) now c))"
proof -
  have d: "0 \<le> flight_size (c_send c)" "SendQueue_in_flight (c_send c) = flight_size (c_send c)"
    using static_flight(1) [OF assms] by (simp_all add: SendQueue_in_flight_def)
  have "0 < c_peer_mss c" using assms by (simp add: static_inv_def)
  then have peek: "SendQueue_peek (c_send c) (sq_nxt (c_send c)) (flush_allowed c) = flush_payload c"
    if "\<not> flush_window c \<le> flight_size (c_send c)"
    using that d by (simp add: peek_next flush_payload_def flush_allowed_def)
  show ?thesis
    using peek by (simp add: Let_def d(2) flush_window_def [symmetric] flush_allowed_def [symmetric] send_data_new)
qed

lemma flush_payload_facts:
  assumes "core_inv c" and "is_synchronised (c_state c)" and "flush_payload c \<noteq> []"
  shows "core_inv (send_data (flush_payload c) now c)"
    and "flight_size (c_send (send_data (flush_payload c) now c))
           = flight_size (c_send c) + len (flush_payload c)"
    and "flight_size (c_send c) + len (flush_payload c) \<le> len (sq_buf (c_send c))"
    and "len (flush_payload c) \<le> flush_allowed c" and "len (flush_payload c) \<le> c_peer_mss c"
proof -
  have "c_peer_mss c \<le> segment_bound (c_cfg c)" "0 < c_peer_mss c"
    using assms(1) by (auto simp: core_inv_def static_inv_def)
  then have n: "int (nat (flush_allowed c)) \<le> segment_bound (c_cfg c)"
    by (auto simp: flush_allowed_def)
  note * = data_new_core [OF assms(1,2) flush_payload_def assms(3) n]
  show "core_inv (send_data (flush_payload c) now c)"
    and "flight_size (c_send (send_data (flush_payload c) now c)) = flight_size (c_send c) + len (flush_payload c)"
    and "flight_size (c_send c) + len (flush_payload c) \<le> len (sq_buf (c_send c))"
    by (fact *)+
  show "len (flush_payload c) \<le> flush_allowed c"
    using assms(3) by (cases "0 < flush_allowed c") (auto simp: flush_payload_def)
  then show "len (flush_payload c) \<le> c_peer_mss c"
    by (simp add: flush_allowed_def)
qed

text \<open>What the loop leaves alone, and that it keeps the invariant.\<close>

lemma flush_loop_frame [simp]:
  "c_cfg (conn_flush_loop fuel now c) = c_cfg c \<and> c_state (conn_flush_loop fuel now c) = c_state c
   \<and> c_peer_mss (conn_flush_loop fuel now c) = c_peer_mss c
   \<and> c_peer_window (conn_flush_loop fuel now c) = c_peer_window c
   \<and> c_reno (conn_flush_loop fuel now c) = c_reno c \<and> c_recv (conn_flush_loop fuel now c) = c_recv c
   \<and> c_persist_at (conn_flush_loop fuel now c) = c_persist_at c
   \<and> c_fin_seq (conn_flush_loop fuel now c) = c_fin_seq c
   \<and> c_time_wait_until (conn_flush_loop fuel now c) = c_time_wait_until c
   \<and> c_delayed_ack_at (conn_flush_loop fuel now c) = c_delayed_ack_at c
   \<and> c_rto (conn_flush_loop fuel now c) = c_rto c
   \<and> sq_buf (c_send (conn_flush_loop fuel now c)) = sq_buf (c_send c)
   \<and> sq_una (c_send (conn_flush_loop fuel now c)) = sq_una (c_send c)"
  by (induction fuel arbitrary: c) (simp_all add: Let_def)

lemma flush_loop_core:
  "core_inv c \<Longrightarrow> is_synchronised (c_state c) \<Longrightarrow> core_inv (conn_flush_loop fuel now c)"
proof (induction fuel arbitrary: c)
  case (Suc fuel)
  show ?case
    using Suc.prems Suc.IH flush_payload_facts(1) [OF Suc.prems]
    by (subst flush_loop_step) (auto simp: core_inv_def)
qed simp

declare conn_flush_loop.simps(2) [simp del]

text \<open>With enough fuel the loop leaves by one of its own exits: the window is full or nothing is
  left to send.\<close>

lemma flush_loop_done:
  assumes "core_inv c" and "is_synchronised (c_state c)"
    and "len (sq_buf (c_send c)) - flight_size (c_send c) < int fuel"
  shows "flush_window c \<le> flight_size (c_send (conn_flush_loop fuel now c))
       \<or> len (sq_buf (c_send c)) \<le> flight_size (c_send (conn_flush_loop fuel now c))"
  using assms
proof (induction fuel arbitrary: c)
  case (Suc fuel)
  have st: "static_inv c" "0 < c_peer_mss c"
    using Suc.prems(1) by (auto simp: core_inv_def static_inv_def)
  have d: "0 \<le> flight_size (c_send c)" using static_flight(1) [OF st(1)] .
  show ?case
  proof (cases "flush_window c \<le> flight_size (c_send c) \<or> flush_payload c = []")
    case True
    then show ?thesis
      using d st(2) unfolding flush_loop_step [OF st(1)]
      by (auto simp: flush_payload_def flush_allowed_def nat_le_iff)
  next
    case False
    then have ne: "flush_payload c \<noteq> []" by simp
    note facts = flush_payload_facts [OF Suc.prems(1,2) ne]
    show ?thesis
    proof (cases "len (flush_payload c) < flush_allowed c")
      case True
      then have "length (flush_payload c) = length (sq_buf (c_send c)) - nat (flight_size (c_send c))"
        unfolding flush_payload_def by auto
      with facts(2,3) d have "len (sq_buf (c_send c)) \<le> flight_size (c_send (send_data (flush_payload c) now c))"
        by simp
      with False True show ?thesis unfolding flush_loop_step [OF st(1)] by simp
    next
      case more: False
      have "1 \<le> len (flush_payload c)" using ne by (cases "flush_payload c") simp_all
      then have "len (sq_buf (c_send (send_data (flush_payload c) now c)))
          - flight_size (c_send (send_data (flush_payload c) now c)) < int fuel"
        using Suc.prems(3) facts(2) by simp
      then have "flush_window (send_data (flush_payload c) now c)
          \<le> flight_size (c_send (conn_flush_loop fuel now (send_data (flush_payload c) now c)))
        \<or> len (sq_buf (c_send c)) \<le> flight_size (c_send (conn_flush_loop fuel now (send_data (flush_payload c) now c)))"
        using Suc.IH [OF facts(1)] Suc.prems(2) by simp
      with False more show ?thesis
        unfolding flush_loop_step [OF st(1)] by (simp add: flush_window_def)
    qed
  qed
next
  case 0
  then show ?case by simp
qed


lemma unsent_pos: "0 \<le> flight_size q \<Longrightarrow> 0 < SendQueue_unsent q \<longleftrightarrow> flight_size q < len (sq_buf q)"
  by (auto simp: SendQueue_unsent_def SendQueue_in_flight_def)

lemma core_inv_persist [simp]:
  "core_inv (c\<lparr>c_persist_at := x\<rparr>) = core_inv c" "core_inv (c\<lparr>c_persist_delay := y\<rparr>) = core_inv c"
  by (simp_all add: inv_defs)

lemma effective_window_pos: "static_inv c \<Longrightarrow> 0 < flush_window c"
  by (auto simp: flush_window_def RenoCongestion_effective_window_def static_inv_def cfg_ok_def)

lemma flush_inv:
  assumes "core_inv c" shows "conn_inv (conn_flush now c)"
proof (cases "is_synchronised (c_state c)")
  case False
  with assms show ?thesis by (simp add: conn_flush_def conn_inv_def progress_inv_def)
next
  case True
  have d: "0 \<le> flight_size (c_send c)"
    using assms static_flight(1) by (simp add: core_inv_def)
  show ?thesis
  proof (cases "c_peer_window c \<le> 0")
    case shut: True
    have "core_inv (conn_arm_persist_timer now c)"
      using assms by (simp add: conn_arm_persist_timer_def)
    moreover have "progress_inv (conn_arm_persist_timer now c)"
      using shut by (auto simp: progress_inv_def conn_arm_persist_timer_def)
    ultimately show ?thesis
      using True shut by (simp add: conn_flush_def conn_inv_def)
  next
    case False
    let ?c1 = "c\<lparr>c_persist_at := None, c_persist_delay := DEFAULT_PERSIST_DELAY\<rparr>"
    let ?c2 = "conn_flush_loop (Suc (length (sq_buf (c_send ?c1)))) now ?c1"
    have c1: "core_inv ?c1" "is_synchronised (c_state ?c1)" using assms True by simp_all
    have "flush_window ?c1 \<le> flight_size (c_send ?c2) \<or> len (sq_buf (c_send ?c1)) \<le> flight_size (c_send ?c2)"
      using d by (intro flush_loop_done [OF c1]) simp
    moreover have "0 < flush_window ?c1"
      using c1(1) by (intro effective_window_pos) (simp add: core_inv_def)
    moreover have core: "core_inv ?c2" by (rule flush_loop_core [OF c1])
    moreover have "0 \<le> flight_size (c_send ?c2)"
      using core static_flight(1) unfolding core_inv_def by blast
    ultimately have "conn_inv ?c2"
      using False by (auto simp: conn_inv_def progress_inv_def unsent_pos)
    then show ?thesis using True False by (simp add: conn_flush_def)
  qed
qed

lemma flush_frame [simp]:
  "c_cfg (conn_flush now c) = c_cfg c" "c_state (conn_flush now c) = c_state c"
  "c_recv (conn_flush now c) = c_recv c" "c_fin_seq (conn_flush now c) = c_fin_seq c"
  "c_peer_window (conn_flush now c) = c_peer_window c" "c_reno (conn_flush now c) = c_reno c"
  "c_rto (conn_flush now c) = c_rto c"
  "c_time_wait_until (conn_flush now c) = c_time_wait_until c"
  "c_delayed_ack_at (conn_flush now c) = c_delayed_ack_at c"
  "sq_una (c_send (conn_flush now c)) = sq_una (c_send c)"
  "sq_buf (c_send (conn_flush now c)) = sq_buf (c_send c)"
  by (simp_all add: conn_flush_def conn_arm_persist_timer_def Let_def)


section \<open>Retransmission\<close>

lemma resend_frame [simp]:
  "c_cfg (conn_resend e now c) = c_cfg c" "c_state (conn_resend e now c) = c_state c"
  "c_iss (conn_resend e now c) = c_iss c" "c_peer_mss (conn_resend e now c) = c_peer_mss c"
  "c_peer_window (conn_resend e now c) = c_peer_window c" "c_send (conn_resend e now c) = c_send c"
  "c_recv (conn_resend e now c) = c_recv c" "c_reno (conn_resend e now c) = c_reno c"
  "c_rto (conn_resend e now c) = c_rto c" "c_persist_at (conn_resend e now c) = c_persist_at c"
  "c_fin_seq (conn_resend e now c) = c_fin_seq c"
  "c_delayed_ack_at (conn_resend e now c) = c_delayed_ack_at c"
  "c_time_wait_until (conn_resend e now c) = c_time_wait_until c"
  "c_retransmit_at (conn_resend e now c) = c_retransmit_at c"
  "c_retx (conn_resend e now c) = RetransmitQueue_mark_retransmitted (c_retx c) now"
  by (simp_all add: conn_resend_def)

lemma mark_capacity [simp]: "rx_capacity (RetransmitQueue_mark_retransmitted q now) = rx_capacity q"
  by (simp add: RetransmitQueue_mark_retransmitted_def split: list.splits)

lemma resend_inv:
  assumes "RetransmitQueue_oldest (c_retx c) = Some e"
  shows "core_inv c \<Longrightarrow> core_inv (conn_resend e now c)"
    and "progress_inv c \<Longrightarrow> progress_inv (conn_resend e now c)"
proof -
  obtain e' es where es: "segs c = e # es"
    "rx_segments (RetransmitQueue_mark_retransmitted (c_retx c) now) = e' # es" "same_extent e e'"
    using oldest_mark [OF assms, of now] by auto
  have len: "os_seq_len e' = os_seq_len e" "os_payload e' = os_payload e"
    using same_extent_len [OF es(3)] es(3) by (simp_all add: same_extent_def)
  assume inv: "core_inv c"
  then have "flight_inv c" by (simp add: core_inv_def)
  then have "flight_inv (conn_resend e now c)"
    using protected_same_extent [OF _ es(3)] unfolding flight_inv_def resend_frame es by (simp add: len)
  moreover have "static_inv (conn_resend e now c)"
    using inv by (simp add: core_inv_def static_inv_def)
  moreover have "timer_inv (conn_resend e now c)"
    using inv es by (simp add: core_inv_def timer_inv_def)
  ultimately show "core_inv (conn_resend e now c)" by (simp add: core_inv_def)
next
  show "progress_inv c \<Longrightarrow> progress_inv (conn_resend e now c)"
    by (simp add: progress_inv_def)
qed

lemma core_inv_timer_some [simp]:
  "core_inv c \<Longrightarrow> core_inv (c\<lparr>c_retransmit_at := Some t\<rparr>)"
  by (simp add: inv_defs)

lemma progress_inv_timer [simp]: "progress_inv (c\<lparr>c_retransmit_at := t\<rparr>) = progress_inv c"
  by (simp add: progress_inv_def)

lemma retransmit_oldest_inv:
  shows "core_inv c \<Longrightarrow> core_inv (conn_retransmit_oldest now fast c)"
    and "progress_inv c \<Longrightarrow> progress_inv (conn_retransmit_oldest now fast c)"
  by (auto simp: conn_retransmit_oldest_def Let_def resend_inv split: option.splits)

end
