(* ===== verification/Conn_Steps.thy ===== *)
theory Conn_Steps
  imports Conn_Invariant
begin

text \<open>
  Preservation of the connection's invariant by its handlers and by the operations of the
  application: acknowledgements, data, FIN, RST, the handshake, the timers, \<open>connect\<close>,
  \<open>listen\<close>, \<open>send\<close>, \<open>recv\<close>, \<open>close\<close> and \<open>abort\<close>. The last section collects them in a step
  relation and proves the invariant of every reachable connection.
\<close>

section \<open>Acknowledgements\<close>

text \<open>\<open>_process_ack\<close> without the final \<open>_flush\<close>.\<close>

definition dup_ack_part :: "tcp_segment \<Rightarrow> time \<Rightarrow> conn \<Rightarrow> conn" where
  "dup_ack_part seg now c =
     (let una = sq_una (c_send c);
          (c1, reopened) = conn_update_peer_window seg c;
          (reno, fast) =
            (if seg_ack seg = una \<and> SendQueue_in_flight (c_send c1) > 0
             then RenoCongestion_on_duplicate_ack (c_reno c1) (Some (seg_ack seg))
             else (c_reno c1, False));
          c2 = c1\<lparr>c_reno := reno\<rparr>
      in if fast then conn_retransmit_oldest now True c2
         else if reopened \<and> RetransmitQueue_oldest (c_retx c2) \<noteq> None
         then conn_retransmit_oldest now False c2
         else c2)"

definition new_ack_part :: "tcp_segment \<Rightarrow> time \<Rightarrow> conn \<Rightarrow> conn" where
  "new_ack_part seg now c =
     (let (snd_q, acknowledged) = SendQueue_acknowledge (c_send c) (seg_ack seg);
          (retx, acked) = RetransmitQueue_acknowledge (c_retx c) (seg_ack seg)
      in conn_arm_retransmit_timer now
           (fst (conn_update_peer_window seg
             (c\<lparr>c_send := snd_q, c_retx := retx, c_rto := conn_rtt_update now acked (c_rto c),
                c_reno := RenoCongestion_on_ack (c_reno c) acknowledged (Some (seg_ack seg))\<rparr>))))"

definition ack_part :: "tcp_segment \<Rightarrow> time \<Rightarrow> conn \<Rightarrow> conn" where
  "ack_part seg now c =
     (if seq_gt (seg_ack seg) (sq_una (c_send c)) then new_ack_part seg now c
      else dup_ack_part seg now c)"

lemma process_ack_eq: "conn_process_ack seg now c = conn_flush now (ack_part seg now c)"
proof (cases "seq_gt (seg_ack seg) (sq_una (c_send c))")
  case True
  then have "0 < snd (SendQueue_acknowledge (c_send c) (seg_ack seg))"
    by (simp add: SendQueue_acknowledge_new) (simp add: seq_gt_diff)
  with True show ?thesis
    by (auto simp: conn_process_ack_def ack_part_def new_ack_part_def Let_def split: prod.splits)
next
  case False
  then show ?thesis
    by (simp add: conn_process_ack_def ack_part_def conn_duplicate_ack_def dup_ack_part_def Let_def
        split: prod.splits)
qed

lemma conn_segment_state [simp]:
  "conn_segment sq f p a opts (c\<lparr>c_state := s\<rparr>) = conn_segment sq f p a opts c"
  by (simp add: conn_segment_def conn_advertised_window_def Let_def split: option.split)

lemma conn_emit_state: "conn_emit ev (c\<lparr>c_state := s\<rparr>) = (conn_emit ev c)\<lparr>c_state := s\<rparr>"
  by (simp add: conn_emit_def)

lemma conn_arm_state:
  "conn_arm_retransmit_timer now (c\<lparr>c_state := s\<rparr>) = (conn_arm_retransmit_timer now c)\<lparr>c_state := s\<rparr>"
  by (simp add: conn_arm_retransmit_timer_def)

lemma transmit_state:
  "conn_transmit sq f p now a opts t (c\<lparr>c_state := s\<rparr>) = (conn_transmit sq f p now a opts t c)\<lparr>c_state := s\<rparr>"
proof -
  have 1: "c\<lparr>c_state := s, c_segments_sent := n, c_bytes_sent := m\<rparr>
      = (c\<lparr>c_segments_sent := n, c_bytes_sent := m\<rparr>)\<lparr>c_state := s\<rparr>" for n m
    by simp
  have 2: "x\<lparr>c_state := s, c_retx := q\<rparr> = (x\<lparr>c_retx := q\<rparr>)\<lparr>c_state := s\<rparr>" for x :: conn and q
    by simp
  have 3: "c_segments_sent (c\<lparr>c_state := s\<rparr>) = c_segments_sent c" "c_bytes_sent (c\<lparr>c_state := s\<rparr>) = c_bytes_sent c"
    "c_cfg (c\<lparr>c_state := s\<rparr>) = c_cfg c" "c_retx (x\<lparr>c_state := s\<rparr>) = c_retx x" for x
    by simp_all
  show ?thesis
    unfolding conn_transmit_def Let_def conn_segment_state 3 1 conn_emit_state 2 conn_arm_state
    by (rule if_distrib [of "\<lambda>x. x\<lparr>c_state := s\<rparr>", symmetric])
qed

lemma resend_state: "conn_resend e now (c\<lparr>c_state := s\<rparr>) = (conn_resend e now c)\<lparr>c_state := s\<rparr>"
proof -
  have eq: "c\<lparr>c_state := s, c_retransmissions := n, c_retx := q\<rparr>
      = (c\<lparr>c_retransmissions := n, c_retx := q\<rparr>)\<lparr>c_state := s\<rparr>" for n q
    by simp
  show ?thesis unfolding conn_resend_def eq transmit_state by simp
qed

lemma retransmit_oldest_state:
  "conn_retransmit_oldest now fast (c\<lparr>c_state := s\<rparr>) = (conn_retransmit_oldest now fast c)\<lparr>c_state := s\<rparr>"
  by (cases "RetransmitQueue_oldest (c_retx c)"; cases fast) (simp_all add: conn_retransmit_oldest_def resend_state Let_def)

lemma ack_part_state: "ack_part seg now (c\<lparr>c_state := s\<rparr>) = (ack_part seg now c)\<lparr>c_state := s\<rparr>"
proof -
  have upd: "c\<lparr>c_state := s, c_peer_window := w, c_reno := r\<rparr> = c\<lparr>c_peer_window := w, c_reno := r, c_state := s\<rparr>" for w r
    by simp
  have "dup_ack_part seg now (c\<lparr>c_state := s\<rparr>) = (dup_ack_part seg now c)\<lparr>c_state := s\<rparr>"
    by (auto simp: dup_ack_part_def conn_update_peer_window_def Let_def upd retransmit_oldest_state
        split: prod.splits)
  moreover have "new_ack_part seg now (c\<lparr>c_state := s\<rparr>) = (new_ack_part seg now c)\<lparr>c_state := s\<rparr>"
    by (simp add: new_ack_part_def conn_update_peer_window_def conn_arm_retransmit_timer_def Let_def
        split: prod.splits)
  ultimately show ?thesis by (simp add: ack_part_def)
qed

lemma core_inv_window [simp]: "core_inv (c\<lparr>c_peer_window := w\<rparr>) = core_inv c"
  by (simp add: inv_defs)

lemma core_inv_reno: "core_inv c \<Longrightarrow> re_mss r = re_mss (c_reno c) \<Longrightarrow> core_inv (c\<lparr>c_reno := r\<rparr>)"
  by (simp add: inv_defs)

lemma dup_ack_core: "core_inv c \<Longrightarrow> core_inv (dup_ack_part seg now c)"
proof -
  assume inv: "core_inv c"
  let ?c1 = "c\<lparr>c_peer_window := push_bit (nat (c_snd_wscale c)) (seg_window seg)\<rparr>"
  have 1: "core_inv (?c1\<lparr>c_reno := c_reno c\<rparr>)"
    "core_inv (?c1\<lparr>c_reno := fst (RenoCongestion_on_duplicate_ack (c_reno c) a)\<rparr>)" for a
    using inv by (intro core_inv_reno; simp)+
  show ?thesis
    using 1(1) 1(2) [of "Some (seg_ack seg)"]
    by (auto simp: dup_ack_part_def conn_update_peer_window_def Let_def retransmit_oldest_inv
        split: prod.splits if_splits)
qed

lemma flight_bound_acknowledge:
  assumes "send_inv q" and "valid_seq ack" and "seq_gt ack (sq_una q)"
    and "flight_size q \<le> len (sq_buf q) + k" and "0 \<le> k"
  shows "flight_size (fst (SendQueue_acknowledge q ack))
       \<le> len (sq_buf (fst (SendQueue_acknowledge q ack))) + k"
proof -
  have "0 < seq_diff ack (sq_una q)" using assms(3) by (simp add: seq_gt_diff)
  then show ?thesis
    using seq_diff_ack_nxt [OF assms(1,3,2)] assms(4,5)
    by (auto simp: SendQueue_acknowledge_new [OF assms(3)])
qed

lemma acknowledge_capacity [simp]:
  "sq_capacity (fst (SendQueue_acknowledge q a)) = sq_capacity q"
  by (simp add: SendQueue_acknowledge_def Let_def)

lemma rtt_update_inv: "rto_inv r \<Longrightarrow> rto_inv (conn_rtt_update now acked r)"
  by (simp add: conn_rtt_update_def rto_inv_sample rto_inv_recompute split: option.splits)

lemma new_ack_frame [simp]:
  "c_cfg (new_ack_part seg now c) = c_cfg c" "c_state (new_ack_part seg now c) = c_state c"
  "c_iss (new_ack_part seg now c) = c_iss c" "c_recv (new_ack_part seg now c) = c_recv c"
  "c_peer_mss (new_ack_part seg now c) = c_peer_mss c" "c_fin_seq (new_ack_part seg now c) = c_fin_seq c"
  "c_send (new_ack_part seg now c) = fst (SendQueue_acknowledge (c_send c) (seg_ack seg))"
  "segs (new_ack_part seg now c) = filter (\<lambda>e. \<not> seq_le (os_seq_end e) (seg_ack seg)) (segs c)"
  "rx_capacity (c_retx (new_ack_part seg now c)) = rx_capacity (c_retx c)"
  "re_mss (c_reno (new_ack_part seg now c)) = re_mss (c_reno c)"
  "c_persist_at (new_ack_part seg now c) = c_persist_at c"
  "c_time_wait_until (new_ack_part seg now c) = c_time_wait_until c"
  "c_rto (new_ack_part seg now c)
   = conn_rtt_update now (snd (RetransmitQueue_acknowledge (c_retx c) (seg_ack seg))) (c_rto c)"
  "c_peer_window (new_ack_part seg now c) = push_bit (nat (c_snd_wscale c)) (seg_window seg)"
  by (simp_all add: new_ack_part_def conn_update_peer_window_def conn_arm_retransmit_timer_def
      RetransmitQueue_acknowledge_def Let_def split: prod.splits)

lemma new_ack_timer: "timer_inv (new_ack_part seg now c)"
  by (simp add: timer_inv_def new_ack_part_def conn_update_peer_window_def conn_arm_retransmit_timer_def
      RetransmitQueue_acknowledge_def RetransmitQueue_len_def Let_def split: prod.splits)

lemma new_ack_core:
  assumes inv: "core_inv c" and st: "is_synchronised (c_state c)"
    and gt: "seq_gt (seg_ack seg) (sq_una (c_send c))" and v: "valid_seq (seg_ack seg)"
  shows "core_inv (new_ack_part seg now c)"
proof -
  have s: "static_inv c" "flight_inv c" using inv by (simp_all add: core_inv_def)
  then have sinv: "send_inv (c_send c)" by (simp add: static_inv_def)
  have static: "static_inv (new_ack_part seg now c)"
    using s(1) send_inv_acknowledge [OF sinv v] by (simp add: static_inv_def rtt_update_inv)
  have bound: "0 \<le> slack (c_state c)" by (cases "c_state c") simp_all
  have "segment_bound (c_cfg c) < SEQ_HALF"
    using cfg_ok_bounds [OF static_flight(5) [OF s(1)]] by (simp add: SEQ_HALF_def)
  then have "live (c_state c) \<Longrightarrow> protected (segment_bound (c_cfg c))
      (c_send (new_ack_part seg now c)) (segs (new_ack_part seg now c))"
    using s(2) protected_acknowledge [OF _ sinv v gt] by (simp add: flight_inv_def)
  moreover have "flight_size (c_send (new_ack_part seg now c))
      \<le> len (sq_buf (c_send (new_ack_part seg now c))) + slack (c_state c)"
    using flight_bound_acknowledge [OF sinv v gt _ bound] s(2) st
    by (auto simp: flight_inv_def is_synchronised_def)
  ultimately have "flight_inv (new_ack_part seg now c)"
    using st by (auto simp: flight_inv_def is_synchronised_def handshaking_def)
  with static new_ack_timer show ?thesis by (simp add: core_inv_def)
qed

lemma ack_part_core:
  "core_inv c \<Longrightarrow> is_synchronised (c_state c) \<Longrightarrow> valid_seq (seg_ack seg) \<Longrightarrow> core_inv (ack_part seg now c)"
  by (simp add: ack_part_def new_ack_core dup_ack_core)

lemma process_ack_inv:
  "core_inv c \<Longrightarrow> is_synchronised (c_state c) \<Longrightarrow> valid_seq (seg_ack seg) \<Longrightarrow>
     conn_inv (conn_process_ack seg now c)"
  by (simp add: process_ack_eq ack_part_core flush_inv)

text \<open>The acknowledgement that completes a handshake: \<open>_flush\<close> does nothing before the state
  changes.\<close>

lemma handshake_core:
  assumes "core_inv c" and "handshaking (c_state c)"
  shows "core_inv (c\<lparr>c_state := ESTABLISHED\<rparr>)"
  using assms by (auto simp: inv_defs handshaking_def live_def)

lemma ack_part_frame [simp]:
  "c_state (ack_part seg now c) = c_state c"
  "c_cfg (ack_part seg now c) = c_cfg c" "c_recv (ack_part seg now c) = c_recv c"
  "c_fin_seq (ack_part seg now c) = c_fin_seq c"
  "c_time_wait_until (ack_part seg now c) = c_time_wait_until c"
  "c_peer_window (ack_part seg now c) = push_bit (nat (c_snd_wscale c)) (seg_window seg)"
  by (auto simp: ack_part_def dup_ack_part_def conn_update_peer_window_def conn_retransmit_oldest_def
      Let_def split: prod.splits option.splits)

lemma dup_ack_send [simp]: "c_send (dup_ack_part seg now c) = c_send c"
  by (auto simp: dup_ack_part_def conn_update_peer_window_def conn_retransmit_oldest_def
      Let_def split: prod.splits option.splits)

lemma ack_part_buf:
  "sq_buf (c_send c) = [] \<Longrightarrow> sq_buf (c_send (ack_part seg now c)) = []"
  by (simp add: ack_part_def SendQueue_acknowledge_new)

lemma establish_inv:
  assumes "core_inv c" and "handshaking (c_state c)" and "valid_seq (seg_ack seg)"
  shows "conn_inv ((conn_process_ack seg now c)\<lparr>c_state := ESTABLISHED\<rparr>)"
proof -
  have sync: "\<not> is_synchronised (c_state c)"
    using assms(2) by (auto simp: handshaking_def is_synchronised_def)
  then have eq: "(conn_process_ack seg now c)\<lparr>c_state := ESTABLISHED\<rparr> = ack_part seg now (c\<lparr>c_state := ESTABLISHED\<rparr>)"
    by (simp add: process_ack_eq conn_flush_def ack_part_state)
  have "core_inv (ack_part seg now (c\<lparr>c_state := ESTABLISHED\<rparr>))"
    using assms by (intro ack_part_core handshake_core) (simp_all add: is_synchronised_def)
  moreover have "sq_buf (c_send (ack_part seg now (c\<lparr>c_state := ESTABLISHED\<rparr>))) = []"
    using assms(1,2) by (intro ack_part_buf) (simp add: core_inv_def flight_inv_def)
  ultimately show ?thesis
    unfolding eq conn_inv_def progress_inv_def
    by (auto simp: SendQueue_unsent_def SendQueue_in_flight_def)
qed



section \<open>Closing and tearing down\<close>

lemma teardown_inv: "static_inv c \<Longrightarrow> conn_inv (conn_teardown c)"
  by (simp add: inv_defs conn_teardown_def RetransmitQueue_clear_def live_def handshaking_def
      is_synchronised_def send_inv_clear recv_inv_clear)
    (simp add: SendQueue_clear_def ReceiveQueue_clear_def)

lemma conn_inv_static: "conn_inv c \<Longrightarrow> static_inv c" and conn_inv_core: "conn_inv c \<Longrightarrow> core_inv c"
  and core_inv_static: "core_inv c \<Longrightarrow> static_inv c"
  by (simp_all add: conn_inv_def core_inv_def)

lemma notify_inv [simp]:
  "conn_inv c \<Longrightarrow> conn_inv (conn_notify_established c)"
  "conn_inv c \<Longrightarrow> conn_inv (conn_notify_data c)"
  "conn_inv c \<Longrightarrow> conn_inv (conn_notify_closed c)"
  "conn_inv c \<Longrightarrow> conn_inv (conn_emit ev c)"
  "conn_inv c \<Longrightarrow> conn_inv (conn_send_ack now c)"
  "conn_inv c \<Longrightarrow> conn_inv (conn_reject seg now c)"
  by (auto intro: same_core_inv [rotated])

lemma sync_states:
  "is_synchronised s \<Longrightarrow> s \<noteq> CLOSED \<and> s \<noteq> LISTEN \<and> \<not> handshaking s \<and> (live s \<longleftrightarrow> s \<noteq> TIME_WAIT)"
  by (cases s) (simp_all add: is_synchronised_def handshaking_def live_def)

lemma flight_inv_sync:
  "is_synchronised (c_state c) \<Longrightarrow>
     flight_inv c \<longleftrightarrow> flight_size (c_send c) \<le> len (sq_buf (c_send c)) + slack (c_state c)
       \<and> (c_state c \<noteq> TIME_WAIT \<longrightarrow> protected (segment_bound (c_cfg c)) (c_send c) (segs c))"
  using sync_states [of "c_state c"] by (simp add: flight_inv_def)

lemma is_synchronised_simps [simp]:
  "is_synchronised ESTABLISHED" "is_synchronised FIN_WAIT_1" "is_synchronised FIN_WAIT_2"
  "is_synchronised CLOSE_WAIT" "is_synchronised CLOSING" "is_synchronised LAST_ACK"
  "is_synchronised TIME_WAIT" "\<not> is_synchronised CLOSED" "\<not> is_synchronised LISTEN"
  "\<not> is_synchronised SYN_SENT" "\<not> is_synchronised SYN_RECEIVED"
  by (simp_all add: is_synchronised_def)

lemma enter_time_wait_inv:
  assumes "conn_inv c" and "is_synchronised (c_state c)"
  shows "conn_inv (conn_enter_time_wait now c)"
proof -
  let ?c = "conn_enter_time_wait now c"
  note defs = conn_enter_time_wait_def RetransmitQueue_clear_def
  have inv: "static_inv c" "flight_inv c" "progress_inv c"
    using assms(1) by (simp_all add: conn_inv_def core_inv_def)
  have "flight_size (c_send c) \<le> len (sq_buf (c_send c)) + slack (c_state c)"
    using inv(2) flight_inv_sync [OF assms(2)] by simp
  then have "flight_inv ?c"
    using slack_le [of "c_state c"] by (simp add: flight_inv_sync defs)
  moreover have "static_inv ?c" "timer_inv ?c"
    using inv(1) by (simp_all add: static_inv_def timer_inv_def defs)
  moreover have "progress_inv ?c"
    using inv(3) assms(2) by (simp add: progress_inv_def defs)
  ultimately show ?thesis by (simp add: conn_inv_def core_inv_def)
qed

text \<open>A change between synchronised states that does not shrink the slack.\<close>

lemma change_state_core:
  assumes "core_inv c" and "is_synchronised (c_state c)" and "is_synchronised s"
    and "slack (c_state c) \<le> slack s" and "c_state c \<noteq> TIME_WAIT"
  shows "core_inv (c\<lparr>c_state := s\<rparr>)"
proof -
  have inv: "static_inv c" "flight_inv c" "timer_inv c"
    using assms(1) by (simp_all add: core_inv_def)
  have "flight_inv (c\<lparr>c_state := s\<rparr>)"
    using inv(2) assms(3-5) flight_inv_sync [OF assms(2)] by (simp add: flight_inv_sync)
  moreover have "static_inv (c\<lparr>c_state := s\<rparr>)" "timer_inv (c\<lparr>c_state := s\<rparr>)"
    using inv by (simp_all add: static_inv_def timer_inv_def)
  ultimately show ?thesis by (simp add: core_inv_def)
qed

lemma change_state_inv:
  assumes "conn_inv c" and "is_synchronised (c_state c)" and "is_synchronised s"
    and "slack (c_state c) \<le> slack s" and "c_state c \<noteq> TIME_WAIT"
  shows "conn_inv (c\<lparr>c_state := s\<rparr>)"
  using assms change_state_core [of c s] by (simp add: conn_inv_def progress_inv_def)

lemma maybe_advance_inv:
  assumes "conn_inv c" and "is_synchronised (c_state c)"
  shows "conn_inv (conn_maybe_advance_after_ack seg now c)"
proof -
  have "c_state c = FIN_WAIT_1 \<Longrightarrow> conn_inv (c\<lparr>c_state := FIN_WAIT_2\<rparr>)"
    using assms by (intro change_state_inv) (simp_all add: is_synchronised_def)
  moreover have "conn_inv (conn_enter_time_wait now c)"
    by (rule enter_time_wait_inv [OF assms])
  moreover have "conn_inv (conn_notify_closed (conn_teardown c))"
    using assms(1) by (simp add: teardown_inv conn_inv_static)
  ultimately show ?thesis
    using assms(1) by (simp add: conn_maybe_advance_after_ack_def split: option.splits)
qed

lemma conn_inv_recv:
  assumes "conn_inv c" and "recv_inv q" and "rq_capacity q = rq_capacity (c_recv c)"
  shows "conn_inv (c\<lparr>c_recv := q\<rparr>)"
  using assms by (simp add: inv_defs)

lemma conn_inv_bookkeeping [simp]:
  "conn_inv (c\<lparr>c_bytes_received := n\<rparr>) = conn_inv c"
  "conn_inv (c\<lparr>c_delayed_ack_at := t\<rparr>) = conn_inv c"
  "conn_inv (c\<lparr>c_fin_seq := f\<rparr>) = conn_inv c"
  "conn_inv (c\<lparr>c_reset_received := r\<rparr>) = conn_inv c"
  "conn_inv (c\<lparr>c_segments_received := n, c_last_activity := now\<rparr>) = conn_inv c"
  "core_inv (c\<lparr>c_fin_seq := f\<rparr>) = core_inv c"
  "progress_inv (c\<lparr>c_fin_seq := f\<rparr>) = progress_inv c"
  by (simp_all add: inv_defs)

lemma recv_capacity_insert: "rq_capacity (fst (ReceiveQueue_insert q s d)) = rq_capacity q"
  using recv_insert_frame [of q s d] by simp

lemma handle_data_inv: "conn_inv c \<Longrightarrow> conn_inv (conn_handle_data seg now c)"
proof -
  assume inv: "conn_inv c"
  obtain q newly where q: "ReceiveQueue_insert (c_recv c) (seg_seq seg) (seg_payload seg) = (q, newly)"
    by (cases "ReceiveQueue_insert (c_recv c) (seg_seq seg) (seg_payload seg)")
  have "recv_inv (c_recv c)" using inv by (simp add: inv_defs)
  then have "recv_inv q" "rq_capacity q = rq_capacity (c_recv c)"
    using recv_inv_insert [of "c_recv c" "seg_seq seg" "seg_payload seg"]
      recv_capacity_insert [of "c_recv c" "seg_seq seg" "seg_payload seg"] q by simp_all
  then have "conn_inv (c\<lparr>c_recv := q\<rparr>)" by (rule conn_inv_recv [OF inv])
  then have c2: "conn_inv (if newly \<noteq> 0
      then conn_notify_data (c\<lparr>c_recv := q, c_bytes_received := n\<rparr>) else c\<lparr>c_recv := q\<rparr>)" for n
    by simp
  have "conn_inv x \<Longrightarrow> conn_inv (if P then if Q then if R then x\<lparr>c_delayed_ack_at := t\<rparr> else x
      else conn_send_ack now x else x)" for x P Q R t
    by simp
  from this [OF c2] show ?thesis
    unfolding conn_handle_data_def q Let_def prod.case .
qed

lemma send_ack_frame [simp]:
  "c_state (conn_send_ack now c) = c_state c" "c_fin_seq (conn_send_ack now c) = c_fin_seq c"
  "c_send (conn_send_ack now c) = c_send c" "c_recv (conn_send_ack now c) = c_recv c"
  "c_cfg (conn_send_ack now c) = c_cfg c"
  "c_time_wait_until (conn_send_ack now c) = c_time_wait_until c"
  by (simp_all add: conn_send_ack_def Let_def)

lemma handle_fin_inv:
  assumes "conn_inv c" and "is_synchronised (c_state c) \<or> c_state c = CLOSED"
  shows "conn_inv (conn_handle_fin seg now c)"
proof -
  let ?c1 = "c\<lparr>c_recv := (c_recv c)\<lparr>rq_nxt := seq_add (rq_nxt (c_recv c)) 1\<rparr>\<rparr>"
  let ?c2 = "conn_send_ack now ?c1"
  have "conn_inv ?c1"
    using assms(1) by (intro conn_inv_recv recv_inv_nxt) (simp_all add: inv_defs)
  then have c2: "conn_inv ?c2" by simp
  have "c_state c = ESTABLISHED \<Longrightarrow> conn_inv (?c2\<lparr>c_state := CLOSE_WAIT\<rparr>)"
    "c_state c = FIN_WAIT_1 \<Longrightarrow> conn_inv (?c2\<lparr>c_state := CLOSING\<rparr>)"
    using c2 by (intro change_state_inv; simp add: is_synchronised_def)+
  moreover have "is_synchronised (c_state c) \<Longrightarrow> conn_inv (conn_enter_time_wait now ?c2)"
    using c2 by (intro enter_time_wait_inv) simp_all
  ultimately show ?thesis
    using assms c2 by (auto simp: conn_handle_fin_def Let_def is_synchronised_def)
qed

lemma handle_rst_inv: "static_inv c \<Longrightarrow> conn_inv (conn_handle_rst seg now c)"
  using teardown_inv [of "c\<lparr>c_reset_received := True\<rparr>"]
  by (simp add: conn_handle_rst_def Let_def static_inv_def)

lemma abort_inv: "conn_inv c \<Longrightarrow> conn_inv (conn_abort now c)"
proof -
  assume "conn_inv c"
  then have "conn_inv (conn_transmit (sq_nxt (c_send c)) (FLAG_RST OR FLAG_ACK) [] now (Some (rq_nxt (c_recv c))) None True c)"
    by (rule same_core_inv [rotated]) simp
  with \<open>conn_inv c\<close> show ?thesis
    by (simp add: conn_abort_def Let_def teardown_inv conn_inv_static)
qed


text \<open>A FIN goes out at \<open>snd_nxt\<close>.\<close>

lemma send_fin_eq: "conn_send_fin now c =
    conn_send_new (FLAG_ACK OR FLAG_FIN) [] now (c\<lparr>c_fin_seq := Some (sq_nxt (c_send c))\<rparr>)"
  by (simp add: conn_send_fin_def conn_send_new_def Let_def)

lemma send_new_state:
  "(conn_send_new f p now c)\<lparr>c_state := s\<rparr> = conn_send_new f p now (c\<lparr>c_state := s\<rparr>)"
  by (simp add: conn_send_new_def transmit_state conn_set_snd_nxt_def)

lemma send_fin_inv:
  assumes "conn_inv c" and "c_state c = ESTABLISHED \<or> c_state c = CLOSE_WAIT"
    and "is_synchronised s" and "slack s = 2"
  shows "conn_inv ((conn_send_fin now c)\<lparr>c_state := s\<rparr>)"
proof -
  let ?c = "c\<lparr>c_fin_seq := Some (sq_nxt (c_send c)), c_state := s\<rparr>"
  let ?r = "conn_send_new (FLAG_ACK OR FLAG_FIN) [] now ?c"
  have sync: "is_synchronised (c_state c)" using assms(2) by auto
  have eq: "(conn_send_fin now c)\<lparr>c_state := s\<rparr> = ?r"
    unfolding send_fin_eq send_new_state ..
  have "core_inv (c\<lparr>c_fin_seq := Some (sq_nxt (c_send c))\<rparr>)"
    using assms(1) by (simp add: conn_inv_core)
  then have core: "core_inv ?c"
    by (rule change_state_core) (use assms sync in auto)
  have fl: "flight_size (c_send c) \<le> len (sq_buf (c_send c)) + 1" "0 \<le> flight_size (c_send c)"
    using assms(1,2) static_flight(1) [of c] by (auto simp: conn_inv_def core_inv_def flight_inv_def)
  have "1 \<le> segment_bound (c_cfg c)"
    using assms(1) cfg_ok_bounds [of "c_cfg c"] by (simp add: inv_defs)
  note new = send_new_core [OF core, of "FLAG_ACK OR FLAG_FIN" "[]" 1 now]
  have 1: "core_inv ?r" "flight_size (c_send ?r) = flight_size (c_send c) + 1"
    using new assms(3,4) fl \<open>1 \<le> segment_bound (c_cfg c)\<close> by simp_all
  have "progress_inv c" using assms(1) by (simp add: conn_inv_def)
  then have "progress_inv ?r"
    using sync fl unfolding progress_inv_def
    by (auto simp: unsent_pos 1(2) [simplified])
  with 1 show ?thesis unfolding eq by (simp add: conn_inv_def)
qed

lemma close_inv: "conn_inv c \<Longrightarrow> conn_inv (conn_close now c)"
proof -
  assume inv: "conn_inv c"
  have "c_state c = ESTABLISHED \<Longrightarrow> conn_inv ((conn_send_fin now c)\<lparr>c_state := FIN_WAIT_1\<rparr>)"
    "c_state c = CLOSE_WAIT \<Longrightarrow> conn_inv ((conn_send_fin now c)\<lparr>c_state := LAST_ACK\<rparr>)"
    using inv by (simp_all add: send_fin_inv)
  moreover have "c_state c = CLOSED \<or> c_state c = LISTEN \<Longrightarrow> conn_inv (c\<lparr>c_state := CLOSED\<rparr>)"
    using inv by (auto simp: inv_defs live_def handshaking_def)
  ultimately show ?thesis
    using inv by (cases "c_state c") (simp_all add: conn_close_def abort_inv)
qed

lemma listen_inv: "conn_inv c \<Longrightarrow> conn_listen c = Inr c' \<Longrightarrow> conn_inv c'"
  by (auto simp: conn_listen_def inv_defs live_def handshaking_def split: if_splits)


section \<open>Data from and to the application\<close>

lemma send_write_core:
  assumes "core_inv c" and "is_synchronised (c_state c)"
  shows "core_inv (c\<lparr>c_send := fst (SendQueue_write (c_send c) data)\<rparr>)"
proof -
  let ?q = "fst (SendQueue_write (c_send c) data)"
  have q: "sq_una ?q = sq_una (c_send c)" "sq_nxt ?q = sq_nxt (c_send c)"
    "sq_capacity ?q = sq_capacity (c_send c)" "length (sq_buf (c_send c)) \<le> length (sq_buf ?q)"
    by (simp_all add: SendQueue_write_def Let_def)
  have inv: "static_inv c" "flight_inv c" "timer_inv c" using assms(1) by (simp_all add: core_inv_def)
  then have "static_inv (c\<lparr>c_send := ?q\<rparr>)" "timer_inv (c\<lparr>c_send := ?q\<rparr>)"
    by (simp_all add: static_inv_def timer_inv_def send_inv_write q)
  moreover have "flight_inv (c\<lparr>c_send := ?q\<rparr>)"
    using inv(2) assms(2) q protected_write [of _ "c_send c" _ data] by (simp add: flight_inv_sync)
  ultimately show ?thesis by (simp add: core_inv_def)
qed

lemma send_inv_op:
  assumes "conn_inv c" and "conn_send data now c = Inr (c', n)"
  shows "conn_inv c'"
proof -
  have core: "is_synchronised (c_state c) \<Longrightarrow> core_inv (c\<lparr>c_send := fst (SendQueue_write (c_send c) data)\<rparr>)"
    using assms(1) by (simp add: send_write_core conn_inv_core)
  have none: "snd (SendQueue_write (c_send c) data) = 0 \<Longrightarrow> data \<noteq> [] \<Longrightarrow> fst (SendQueue_write (c_send c) data) = c_send c"
    by (auto simp: SendQueue_write_def Let_def min_def split: if_splits)
  have "conn_can_send c \<Longrightarrow> is_synchronised (c_state c)"
    by (auto simp: conn_can_send_def)
  then show ?thesis
    using assms core none flush_inv [of "c\<lparr>c_send := fst (SendQueue_write (c_send c) data)\<rparr>" now]
    by (auto simp: conn_send_def Let_def split: if_splits prod.splits)
qed

lemma read_capacity [simp]: "rq_capacity (fst (ReceiveQueue_read q n)) = rq_capacity q"
  by (simp add: ReceiveQueue_read_def Let_def)

lemma recv_inv_op: "conn_inv c \<Longrightarrow> conn_inv (fst (conn_recv n now c))"
proof -
  assume inv: "conn_inv c"
  have "conn_inv (c\<lparr>c_recv := fst (ReceiveQueue_read (c_recv c) n)\<rparr>)"
    using inv by (intro conn_inv_recv recv_inv_read) (simp_all add: inv_defs)
  with inv show ?thesis
    by (cases "ReceiveQueue_read (c_recv c) n") (simp add: conn_recv_def Let_def)
qed


section \<open>Timers\<close>

lemma retransmit_timeout_inv:
  assumes "conn_inv c" shows "conn_inv (conn_on_retransmit_timeout now c)"
proof (cases "RetransmitQueue_oldest (c_retx c)")
  case None
  then have "segs c = []" by (simp add: RetransmitQueue_oldest_def split: list.splits)
  with None assms show ?thesis
    by (simp add: conn_on_retransmit_timeout_def inv_defs)
next
  case (Some e)
  let ?c1 = "c\<lparr>c_reno := RenoCongestion_on_timeout (c_reno c), c_rto := RTOEstimator_backoff (c_rto c)\<rparr>"
  have "core_inv ?c1" "progress_inv ?c1"
    using assms by (simp_all add: inv_defs rto_inv_backoff)
  then have "core_inv (conn_resend e now ?c1)" "progress_inv (conn_resend e now ?c1)"
    using resend_inv [of ?c1 e now] Some by simp_all
  then have "conn_inv ((conn_resend e now ?c1)\<lparr>c_retransmit_at := Some t\<rparr>)" for t
    by (simp add: conn_inv_def)
  with Some assms show ?thesis
    by (simp add: conn_on_retransmit_timeout_def Let_def teardown_inv conn_inv_static)
qed


lemma persist_timeout_inv:
  assumes "conn_inv c" shows "conn_inv (conn_on_persist_timeout now c)"
proof -
  let ?r = "conn_on_persist_timeout now c"
  have core: "core_inv c" using assms by (rule conn_inv_core)
  show ?thesis
  proof (cases "0 < c_peer_window c")
    case True
    then show ?thesis using core by (simp add: conn_on_persist_timeout_def flush_inv)
  next
    case shut: False
    show ?thesis
    proof (cases "is_synchronised (c_state c)")
      case False
      then show ?thesis using shut core
        by (simp add: conn_on_persist_timeout_def conn_inv_def progress_inv_def)
    next
      case sync: True
      have rearm: "conn_inv (x\<lparr>c_persist_delay := t, c_persist_at := Some u\<rparr>)"
        if "core_inv x" "c_peer_window x = c_peer_window c" for x t u
        using that shut by (simp add: conn_inv_def progress_inv_def)
      show ?thesis
      proof (cases "RetransmitQueue_oldest (c_retx c)")
        case (Some e)
        then show ?thesis
          using shut sync resend_inv(1) [OF Some core] by (simp add: conn_on_persist_timeout_def Let_def rearm)
      next
        case None
        let ?p = "SendQueue_peek (c_send c) (sq_nxt (c_send c)) 1"
        have p: "?p = take 1 (drop (nat (flight_size (c_send c))) (sq_buf (c_send c)))"
          using static_flight(1) [OF core_inv_static [OF core]] by (simp add: peek_next)
        have "int 1 \<le> segment_bound (c_cfg c)"
          using core cfg_ok_bounds [of "c_cfg c"] by (simp add: inv_defs)
        then have "?p \<noteq> [] \<Longrightarrow> core_inv (conn_send_new (FLAG_ACK OR FLAG_PSH) ?p now c)"
          using data_new_core(1) [OF core sync p] by simp
        then show ?thesis
          using shut sync None core
          by (simp add: conn_on_persist_timeout_def Let_def rearm send_data_new)
      qed
    qed
  qed
qed

lemma tick_inv: "conn_inv c \<Longrightarrow> conn_inv (conn_on_tick now c)"
proof -
  assume inv: "conn_inv c"
  define due where "due = (\<lambda>timer. case timer of None \<Rightarrow> False | Some t \<Rightarrow> now \<ge> t)"
  define c1 where "c1 = (if due (c_delayed_ack_at c) then conn_send_ack now c else c)"
  define c2 where "c2 = (if due (c_retransmit_at c1) then conn_on_retransmit_timeout now c1 else c1)"
  define c3 where "c3 = (if due (c_persist_at c2) then conn_on_persist_timeout now c2 else c2)"
  have "conn_inv c1" using inv by (simp add: c1_def)
  then have "conn_inv c2" by (simp add: c2_def retransmit_timeout_inv)
  then have "conn_inv c3" by (simp add: c3_def persist_timeout_inv)
  moreover have "conn_on_tick now c =
      (if c_state c3 = TIME_WAIT \<and> due (c_time_wait_until c3) then conn_notify_closed (conn_teardown c3) else c3)"
    unfolding conn_on_tick_def Let_def c3_def c2_def c1_def due_def ..
  ultimately show ?thesis by (simp add: teardown_inv conn_inv_static)
qed


section \<open>Opening\<close>

lemma queue_inits:
  assumes "cfg_ok cfg"
  shows "\<exists>q. SendQueue_init iss (cfg_send_capacity cfg) = Inr q \<and> sq_una q = iss \<and> sq_nxt q = iss
           \<and> sq_buf q = [] \<and> sq_capacity q = cfg_send_capacity cfg"
    and "\<exists>q. ReceiveQueue_init irs (cfg_receive_capacity cfg) = Inr q \<and> recv_inv q
           \<and> rq_capacity q = cfg_receive_capacity cfg \<and> rq_nxt q = seq_add irs 1"
    and "\<exists>r. RenoCongestion_init (cfg_mss cfg) iw None = Inr r \<and> re_mss r = cfg_mss cfg"
    and "\<exists>e. RTOEstimator_init DEFAULT_INITIAL_RTO DEFAULT_MIN_RTO DEFAULT_MAX_RTO = Inr e \<and> rto_inv e"
proof -
  show "\<exists>q. SendQueue_init iss (cfg_send_capacity cfg) = Inr q \<and> sq_una q = iss \<and> sq_nxt q = iss
           \<and> sq_buf q = [] \<and> sq_capacity q = cfg_send_capacity cfg"
    using assms by (simp add: SendQueue_init_def cfg_ok_def)
  have "ReceiveQueue_init irs (cfg_receive_capacity cfg) =
      Inr \<lparr>rq_nxt = seq_add irs 1, rq_buf = [], rq_read_pos = 0,
           rq_ooo = \<lparr>ro_data = [], ro_capacity = cfg_receive_capacity cfg, ro_bytes_buffered = 0, ro_duplicates = 0, ro_overflows = 0\<rparr>,
           rq_capacity = cfg_receive_capacity cfg, rq_bytes_received = 0, rq_duplicates = 0\<rparr>"
    using assms by (simp add: ReceiveQueue_init_def ReorderQueue_init_def cfg_ok_def)
  then show "\<exists>q. ReceiveQueue_init irs (cfg_receive_capacity cfg) = Inr q \<and> recv_inv q
           \<and> rq_capacity q = cfg_receive_capacity cfg \<and> rq_nxt q = seq_add irs 1"
    using recv_inv_init by fastforce
  show "\<exists>r. RenoCongestion_init (cfg_mss cfg) iw None = Inr r \<and> re_mss r = cfg_mss cfg"
    using assms by (simp add: RenoCongestion_init_def cfg_ok_def)
  have "\<exists>e. RTOEstimator_init DEFAULT_INITIAL_RTO DEFAULT_MIN_RTO DEFAULT_MAX_RTO = Inr e"
    by (simp add: RTOEstimator_init_def DEFAULT_MIN_RTO_def DEFAULT_MAX_RTO_def)
  then show "\<exists>e. RTOEstimator_init DEFAULT_INITIAL_RTO DEFAULT_MIN_RTO DEFAULT_MAX_RTO = Inr e \<and> rto_inv e"
    using rto_inv_init by blast
qed

lemma init_inv:
  assumes "cfg_ok cfg"
  shows "\<exists>c. TCPConnection_init cfg = Inr c \<and> conn_inv c \<and> c_state c = CLOSED \<and> c_cfg c = cfg
           \<and> segs c = [] \<and> c_out c = []"
proof -
  obtain q where q: "SendQueue_init 0 (cfg_send_capacity cfg) = Inr q" "sq_una q = 0" "sq_nxt q = 0"
    "sq_buf q = []" "sq_capacity q = cfg_send_capacity cfg"
    using queue_inits(1) [OF assms] by blast
  obtain r where r: "ReceiveQueue_init 0 (cfg_receive_capacity cfg) = Inr r" "recv_inv r"
    "rq_capacity r = cfg_receive_capacity cfg"
    using queue_inits(2) [OF assms] by blast
  obtain re where re: "RenoCongestion_init (cfg_mss cfg) (cfg_initial_window cfg) None = Inr re" "re_mss re = cfg_mss cfg"
    using queue_inits(3) [OF assms] by blast
  obtain e where e: "RTOEstimator_init DEFAULT_INITIAL_RTO DEFAULT_MIN_RTO DEFAULT_MAX_RTO = Inr e" "rto_inv e"
    using queue_inits(4) [OF assms] by blast
  have "send_inv q" using q assms by (simp add: send_inv_def cfg_ok_def)
  then show ?thesis
    using assms q r re e
    by (simp add: TCPConnection_init_def inv_defs RetransmitQueue_init_def live_def handshaking_def
        segment_bound_def)
qed


text \<open>The SYN of either kind goes out on fresh queues.\<close>

lemma open_inv:
  assumes static: "static_inv c" and q: "sq_nxt (c_send c) = c_iss c" "sq_buf (c_send c) = []"
    and iss: "sq_una (c_send c) = c_iss c" and e: "segs c = []" and f: "f = FLAG_SYN \<or> f = FLAG_SYN OR FLAG_ACK"
    and s: "handshaking s"
  shows "conn_inv ((conn_set_snd_nxt (seq_add (c_iss c) 1)
           (conn_transmit (c_iss c) f [] now a opts True c))\<lparr>c_state := s\<rparr>)"
proof -
  let ?t = "conn_transmit (c_iss c) f [] now a opts True c"
  let ?r = "(conn_set_snd_nxt (seq_add (c_iss c) 1) ?t)\<lparr>c_state := s\<rparr>"
  let ?e = "new_entry (c_iss c) f [] now"
  note sf = static_flight [OF static]
  have elen: "os_seq_len ?e = 1" using f by auto
  have tr: "tracked f []" using f by auto
  have retx: "c_retx ?t = (c_retx c)\<lparr>rx_segments := [?e]\<rparr>" "c_retransmit_at ?t \<noteq> None"
    using conn_transmit_tracked [OF tr, of c] static by (simp_all add: e static_inv_def)
  have d: "seq_diff (seq_add (c_iss c) 1) (sq_una (c_send c)) = 1"
    using flight_advance [OF static, of 1] by (simp add: q iss)
  have "protected (segment_bound (c_cfg c)) (c_send c) []"
    by (rule protected_fresh) (simp add: q iss)
  moreover have "1 \<le> segment_bound (c_cfg c)" using cfg_ok_bounds [OF sf(5)] by simp
  moreover have "entry_matches (c_send c) ?e" by (simp add: entry_matches_def)
  ultimately have "protected (segment_bound (c_cfg c)) ((c_send c)\<lparr>sq_nxt := seq_add (sq_nxt (c_send c)) (os_seq_len ?e)\<rparr>) ([] @ [?e])"
    using static elen by (intro protected_send) (auto simp: static_inv_def q iss SEQ_HALF_def)
  then have prot: "protected (segment_bound (c_cfg c)) (c_send ?r) (segs ?r)"
    by (simp add: retx(1) elen q iss)
  have "static_inv ?r"
    using static sf d by (simp add: static_inv_def send_inv_def)
  moreover have "timer_inv ?r" using retx by (simp add: timer_inv_def)
  moreover have "flight_inv ?r"
    unfolding flight_inv_def using prot s elen d retx(1)
    by (auto simp: handshaking_def iss q)
  moreover have "progress_inv ?r"
    using s by (auto simp: progress_inv_def handshaking_def)
  ultimately show ?thesis by (simp add: conn_inv_def core_inv_def)
qed

lemma choose_iss_valid: "valid_seq (conn_choose_iss rnd c)"
proof (cases "cfg_iss (c_cfg c)")
  case None
  have "uint rnd < 2 ^ LENGTH(32)" by (rule uint_bounded)
  with None show ?thesis by (simp add: conn_choose_iss_def valid_seq_def)
next
  case (Some i)
  then show ?thesis by (simp add: conn_choose_iss_def valid_seq_def mask_32)
qed

lemma conn_inv_syn_sent [simp]:
  "conn_inv (c\<lparr>c_state := s, c_syn_sent_at := t\<rparr>) = conn_inv (c\<lparr>c_state := s\<rparr>)"
  by (simp add: inv_defs)

lemma connect_inv:
  assumes "conn_inv c" and "c_state c = CLOSED"
  shows "\<exists>c'. conn_connect rnd now c = Inr c' \<and> conn_inv c' \<and> c_state c' = SYN_SENT"
proof -
  let ?iss = "conn_choose_iss rnd c"
  have static: "static_inv c" and segs: "segs c = []"
    using assms by (simp_all add: conn_inv_def core_inv_def flight_inv_def)
  then have ok: "cfg_ok (c_cfg c)" by (simp add: static_inv_def)
  obtain q where q: "SendQueue_init ?iss (cfg_send_capacity (c_cfg c)) = Inr q" "sq_una q = ?iss" "sq_nxt q = ?iss"
    "sq_buf q = []" "sq_capacity q = cfg_send_capacity (c_cfg c)"
    using queue_inits(1) [OF ok] by blast
  obtain r where r: "ReceiveQueue_init 0 (cfg_receive_capacity (c_cfg c)) = Inr r" "recv_inv r"
    "rq_capacity r = cfg_receive_capacity (c_cfg c)"
    using queue_inits(2) [OF ok] by blast
  obtain re where re: "RenoCongestion_init (cfg_mss (c_cfg c)) None None = Inr re" "re_mss re = cfg_mss (c_cfg c)"
    using queue_inits(3) [OF ok] by blast
  let ?c1 = "c\<lparr>c_iss := ?iss, c_send := q, c_recv := r, c_reno := re\<rparr>"
  have "send_inv q" using q ok choose_iss_valid by (simp add: send_inv_def cfg_ok_def)
  then have "static_inv ?c1" using static r re q by (simp add: static_inv_def)
  from open_inv [OF this, of FLAG_SYN SYN_SENT now None "Some (conn_syn_options ?c1)"]
  show ?thesis
    using assms(2) q segs by (simp add: conn_connect_def Let_def r re q handshaking_def)
qed

lemma apply_options_frame [simp]:
  "c_cfg (conn_apply_peer_options opts c) = c_cfg c" "c_state (conn_apply_peer_options opts c) = c_state c"
  "c_iss (conn_apply_peer_options opts c) = c_iss c" "c_send (conn_apply_peer_options opts c) = c_send c"
  "c_recv (conn_apply_peer_options opts c) = c_recv c" "c_reno (conn_apply_peer_options opts c) = c_reno c"
  "c_rto (conn_apply_peer_options opts c) = c_rto c" "c_retx (conn_apply_peer_options opts c) = c_retx c"
  "c_peer_window (conn_apply_peer_options opts c) = c_peer_window c"
  "c_retransmit_at (conn_apply_peer_options opts c) = c_retransmit_at c"
  "c_persist_at (conn_apply_peer_options opts c) = c_persist_at c"
  "c_fin_seq (conn_apply_peer_options opts c) = c_fin_seq c"
  "c_irs (conn_apply_peer_options opts c) = c_irs c"
  "c_out (conn_apply_peer_options opts c) = c_out c"
  by (simp_all add: conn_apply_peer_options_def Let_def split: option.splits)

lemma apply_options_mss:
  "0 < c_peer_mss c \<Longrightarrow> c_peer_mss c \<le> segment_bound (c_cfg c) \<Longrightarrow>
     0 < c_peer_mss (conn_apply_peer_options opts c)
     \<and> c_peer_mss (conn_apply_peer_options opts c) \<le> segment_bound (c_cfg c)"
  by (auto simp: conn_apply_peer_options_def Let_def segment_bound_def split: option.splits)

lemma apply_options_static: "static_inv c \<Longrightarrow> static_inv (conn_apply_peer_options opts c)"
  using apply_options_mss [of c opts] by (simp add: static_inv_def)

lemma passive_open_inv:
  assumes "conn_inv c" and "c_state c = CLOSED"
  shows "\<exists>c'. conn_begin_passive_open seg rnd now c = Inr c' \<and> conn_inv c' \<and> c_state c' = SYN_RECEIVED"
proof -
  let ?iss = "conn_choose_iss rnd c"
  have static: "static_inv c" and segs: "segs c = []"
    using assms by (simp_all add: conn_inv_def core_inv_def flight_inv_def)
  then have ok: "cfg_ok (c_cfg c)" by (simp add: static_inv_def)
  obtain q where q: "SendQueue_init ?iss (cfg_send_capacity (c_cfg c)) = Inr q" "sq_una q = ?iss" "sq_nxt q = ?iss"
    "sq_buf q = []" "sq_capacity q = cfg_send_capacity (c_cfg c)"
    using queue_inits(1) [OF ok] by blast
  obtain r where r: "ReceiveQueue_init (seg_seq seg) (cfg_receive_capacity (c_cfg c)) = Inr r" "recv_inv r"
    "rq_capacity r = cfg_receive_capacity (c_cfg c)"
    using queue_inits(2) [OF ok] by blast
  obtain re where re: "RenoCongestion_init (cfg_mss (c_cfg c)) None None = Inr re" "re_mss re = cfg_mss (c_cfg c)"
    using queue_inits(3) [OF ok] by blast
  let ?c0 = "c\<lparr>c_irs := seg_seq seg, c_iss := ?iss, c_send := q, c_recv := r, c_reno := re, c_peer_window := seg_window seg\<rparr>"
  let ?c1 = "conn_apply_peer_options (seg_options seg) ?c0"
  have "send_inv q" using q ok choose_iss_valid by (simp add: send_inv_def cfg_ok_def)
  then have "static_inv ?c0" using static r re q by (simp add: static_inv_def)
  then have "static_inv ?c1" by (rule apply_options_static)
  from open_inv [OF this, of "FLAG_SYN OR FLAG_ACK" SYN_RECEIVED now "Some (rq_nxt r)" "Some (conn_syn_options ?c1)"]
  show ?thesis
    using q segs by (simp add: conn_begin_passive_open_def Let_def r re q handshaking_def)
qed



section \<open>Segments\<close>

lemma simultaneous_open_inv:
  assumes "conn_inv c" and "c_state c = SYN_SENT"
  shows "\<exists>c'. conn_handle_simultaneous_open seg now c = Inr c' \<and> conn_inv c' \<and> c_state c' = SYN_RECEIVED"
proof -
  have core: "static_inv c" "flight_inv c" "timer_inv c"
    using assms(1) by (simp_all add: conn_inv_def core_inv_def)
  have ok: "cfg_ok (c_cfg c)" using core(1) by (simp add: static_inv_def)
  obtain r where r: "ReceiveQueue_init (seg_seq seg) (cfg_receive_capacity (c_cfg c)) = Inr r" "recv_inv r"
    "rq_capacity r = cfg_receive_capacity (c_cfg c)"
    using queue_inits(2) [OF ok] by blast
  let ?c1 = "conn_apply_peer_options (seg_options seg) (c\<lparr>c_irs := seg_seq seg, c_recv := r\<rparr>)"
  let ?c2 = "?c1\<lparr>c_peer_window := seg_window seg\<rparr>"
  let ?f = "FLAG_SYN OR FLAG_ACK" and ?o = "Some (conn_syn_options ?c2)"
  let ?e = "new_entry (c_iss c) ?f [] now"
  let ?t = "conn_transmit (c_iss c) ?f [] now (Some (rq_nxt r)) ?o True ?c2"
  have "static_inv (c\<lparr>c_irs := seg_seq seg, c_recv := r\<rparr>)" using core(1) r by (simp add: static_inv_def)
  then have st: "static_inv ?c1" by (rule apply_options_static)
  have fl: "sq_buf (c_send c) = []" "c_iss c = sq_una (c_send c)" "flight_size (c_send c) = 1"
    "list_all (\<lambda>e. os_payload e = [] \<and> os_seq_len e = 1) (segs c)"
    "protected (segment_bound (c_cfg c)) (c_send c) (segs c)"
    using core(2) assms(2) by (auto simp: flight_inv_def handshaking_def live_def)
  have room: "payload_bytes (segs c) + len [] \<le> rx_capacity (c_retx c)"
    using send_room [of c "[]"] assms by (simp add: conn_inv_core live_def)
  have retx: "c_retx ?t = (c_retx c)\<lparr>rx_segments := segs c @ [?e]\<rparr>" "c_retransmit_at ?t \<noteq> None"
    using conn_transmit_tracked [of ?f "[]" ?c2] room by simp_all
  have "covered (sq_una (c_send c)) (sq_una (c_send c) + 1) (segs c)"
    using fl(3,5) by (simp add: protected_def)
  then obtain p where p: "p \<le> sq_una (c_send c)" "sq_una (c_send c) < p + os_seq_len (hd (segs c))"
    "queued p (segs c) (sq_una (c_send c) + 1)" "segs c \<noteq> []"
    by (auto simp: covered_def)
  have "os_seq_len (hd (segs c)) = 1" using fl(4) p(4) by (cases "segs c") simp_all
  with p have pu: "p = sq_una (c_send c)" by simp
  have "queued p (segs c @ [?e]) (p + 1)"
    using p fl(4) static_flight(2) [OF core(1)]
    by (intro queued_snoc_same) (auto simp: pu fl(2) list_all_iff)
  then have "covered (sq_una (c_send c)) (sq_una (c_send c) + 1) (segs c @ [?e])"
    using p(4) fl(4) by (cases "segs c") (auto simp: covered_def pu)
  then have prot: "protected (segment_bound (c_cfg c)) (c_send c) (segs c @ [?e])"
    using fl cfg_ok_bounds [OF ok] static_flight(2) [OF core(1)]
    by (simp add: protected_def entry_matches_def)
  have "static_inv (?t\<lparr>c_state := SYN_RECEIVED\<rparr>)"
    using st by (simp add: static_inv_def)
  moreover have "timer_inv (?t\<lparr>c_state := SYN_RECEIVED\<rparr>)" using retx(2) by (simp add: timer_inv_def)
  moreover have "flight_inv (?t\<lparr>c_state := SYN_RECEIVED\<rparr>)"
    using prot fl by (simp add: flight_inv_def handshaking_def retx(1) [unfolded fl(2)])
  moreover have "progress_inv (?t\<lparr>c_state := SYN_RECEIVED\<rparr>)"
    by (simp add: progress_inv_def)
  ultimately have "conn_inv (?t\<lparr>c_state := SYN_RECEIVED\<rparr>)"
    by (simp add: conn_inv_def core_inv_def)
  then show ?thesis
    by (simp add: conn_handle_simultaneous_open_def r Let_def)
qed

lemma same_core_state: "same_core c c' \<Longrightarrow> same_core (c\<lparr>c_state := s\<rparr>) (c'\<lparr>c_state := s\<rparr>)"
  by (simp add: same_core_def)

lemma handshaking_fresh_recv:
  assumes "core_inv c" and "recv_inv r" and "rq_capacity r = cfg_receive_capacity (c_cfg c)"
  shows "core_inv (conn_apply_peer_options opts (c\<lparr>c_irs := i, c_recv := r\<rparr>))"
proof -
  have "static_inv (c\<lparr>c_irs := i, c_recv := r\<rparr>)" "flight_inv c" "timer_inv c"
    using assms by (simp_all add: core_inv_def static_inv_def)
  then show ?thesis
    using apply_options_static [of "c\<lparr>c_irs := i, c_recv := r\<rparr>" opts]
    by (simp add: core_inv_def flight_inv_def timer_inv_def)
qed

lemma syn_ack_inv:
  assumes "conn_inv c" and "c_state c = SYN_SENT" and "valid_seq (seg_ack seg)"
  shows "\<exists>c'. conn_handle_syn_ack seg now c = Inr c' \<and> conn_inv c' \<and> (c_state c' = SYN_SENT \<or> c_state c' = ESTABLISHED)"
proof (cases "seq_ge (seg_ack seg) (seq_add (c_iss c) 1)")
  case False
  then show ?thesis
    using assms same_core_reject [of c seg now] by (auto simp: conn_handle_syn_ack_def same_core_def)
next
  case True
  have ok: "cfg_ok (c_cfg c)" using assms(1) by (simp add: inv_defs)
  obtain r where r: "ReceiveQueue_init (seg_seq seg) (cfg_receive_capacity (c_cfg c)) = Inr r" "recv_inv r"
    "rq_capacity r = cfg_receive_capacity (c_cfg c)"
    using queue_inits(2) [OF ok] by blast
  let ?c1 = "conn_apply_peer_options (seg_options seg) (c\<lparr>c_irs := seg_seq seg, c_recv := r\<rparr>)"
  let ?c2 = "?c1\<lparr>c_peer_window := push_bit (nat (c_snd_wscale ?c1)) (seg_window seg)\<rparr>"
  let ?p = "conn_process_ack seg now ?c2"
  have "core_inv ?c1" using assms(1) r by (intro handshaking_fresh_recv) (simp_all add: conn_inv_core)
  then have "conn_inv (?p\<lparr>c_state := ESTABLISHED\<rparr>)"
    using assms(2,3) by (intro establish_inv) (simp_all add: handshaking_def)
  then have "conn_inv ((conn_send_ack now ?p)\<lparr>c_state := ESTABLISHED\<rparr>)"
    using same_core_inv [OF same_core_state [OF same_core_send_ack [of ?p now]]] by blast
  then have "conn_inv (conn_notify_established ((conn_send_ack now ?p)\<lparr>c_state := ESTABLISHED\<rparr>))"
    by (rule notify_inv)
  moreover have "c_state (conn_notify_established (x\<lparr>c_state := ESTABLISHED\<rparr>)) = ESTABLISHED" for x
    by (simp add: conn_notify_established_def conn_emit_def)
  ultimately show ?thesis
    using True unfolding conn_handle_syn_ack_def Let_def r(1) by simp
qed


lemma notify_frame [simp]:
  "c_state (conn_notify_closed c) = c_state c" "c_state (conn_notify_data c) = c_state c"
  "c_state (conn_notify_established c) = c_state c" "c_state (conn_emit ev c) = c_state c"
  "c_cfg (conn_notify_closed c) = c_cfg c" "c_cfg (conn_notify_data c) = c_cfg c"
  "c_cfg (conn_notify_established c) = c_cfg c" "c_cfg (conn_emit ev c) = c_cfg c"
  by (simp_all add: conn_notify_closed_def conn_notify_data_def conn_notify_established_def conn_emit_def)

lemma teardown_state [simp]: "c_state (conn_teardown c) = CLOSED"
  and time_wait_state [simp]: "c_state (conn_enter_time_wait now c) = TIME_WAIT"
  by (simp_all add: conn_teardown_def conn_enter_time_wait_def)

lemma maybe_advance_sync:
  "is_synchronised (c_state c) \<Longrightarrow>
     is_synchronised (c_state (conn_maybe_advance_after_ack seg now c))
     \<or> c_state (conn_maybe_advance_after_ack seg now c) = CLOSED"
  by (cases "c_fin_seq c") (simp_all add: conn_maybe_advance_after_ack_def)

lemma handle_data_state [simp]: "c_state (conn_handle_data seg now c) = c_state c"
proof -
  obtain q newly where q: "ReceiveQueue_insert (c_recv c) (seg_seq seg) (seg_payload seg) = (q, newly)"
    by (cases "ReceiveQueue_insert (c_recv c) (seg_seq seg) (seg_payload seg)")
  have ack: "c_state (if P then if Q then if R then x\<lparr>c_delayed_ack_at := t\<rparr> else x
      else conn_send_ack now x else x) = c_state x" for x P Q R t
    by simp
  have data: "c_state (if P then conn_notify_data (c\<lparr>c_recv := q, c_bytes_received := n\<rparr>)
      else c\<lparr>c_recv := q\<rparr>) = c_state c" for P n
    by simp
  show ?thesis
    unfolding conn_handle_data_def q Let_def prod.case ack by (rule data)
qed

lemma sync_segment_inv:
  assumes inv: "conn_inv c" and sync: "is_synchronised (c_state c)" and v: "valid_seq (seg_ack seg)"
  shows "conn_inv (conn_on_synchronised_segment seg now c)"
proof -
  define c1 where "c1 = (if is_ack seg then conn_process_ack seg now c else c)"
  define c2 where "c2 = conn_maybe_advance_after_ack seg now c1"
  define c3 where "c3 = (if seg_payload seg \<noteq> [] then conn_handle_data seg now c2 else c2)"
  have 1: "conn_inv c1" "is_synchronised (c_state c1)"
    using inv sync v by (simp_all add: c1_def conn_inv_core process_ack_eq flush_inv ack_part_core)
  have 2: "conn_inv c2" "is_synchronised (c_state c2) \<or> c_state c2 = CLOSED"
    using maybe_advance_inv [OF 1] maybe_advance_sync [OF 1(2)] by (simp_all add: c2_def)
  then have 3: "conn_inv c3" "is_synchronised (c_state c3) \<or> c_state c3 = CLOSED"
    by (simp_all add: c3_def handle_data_inv)
  have "conn_on_synchronised_segment seg now c =
      (if \<not> conn_acceptable seg c then (if \<not> is_rst seg then conn_send_ack now c else c)
       else if is_fin seg then conn_handle_fin seg now c3 else c3)"
    unfolding conn_on_synchronised_segment_def Let_def c3_def c2_def c1_def ..
  then show ?thesis
    using inv 3 by (simp add: handle_fin_inv)
qed

text \<open>A segment never makes a well-formed connection raise, and leaves it and the child it may
  create well formed.\<close>

lemma on_segment_inv:
  assumes inv: "conn_inv c" and v: "valid_seq (seg_ack seg)"
  shows "\<exists>c' child. conn_on_segment seg src_ip rnd now c = Inr (c', child) \<and> conn_inv c'
       \<and> (\<forall>k. child = Some k \<longrightarrow> conn_inv k \<and> c_state k = SYN_RECEIVED)"
proof -
  let ?c = "c\<lparr>c_segments_received := c_segments_received c + 1, c_last_activity := now\<rparr>"
  have c: "conn_inv ?c" using inv by simp
  have listen: "\<exists>child. conn_handle_segment_in_listen seg src_ip rnd now ?c = Inr (?c, child)
       \<and> (\<forall>k. child = Some k \<longrightarrow> conn_inv k \<and> c_state k = SYN_RECEIVED)"
  proof -
    have "cfg_ok (conn_child_config seg src_ip ?c)"
      using inv by (simp add: inv_defs conn_child_config_def cfg_ok_def segment_bound_def)
    then obtain fresh where "TCPConnection_init (conn_child_config seg src_ip ?c) = Inr fresh"
      "conn_inv fresh" "c_state fresh = CLOSED"
      using init_inv by blast
    moreover from this obtain child where "conn_begin_passive_open seg rnd now fresh = Inr child"
      "conn_inv child" "c_state child = SYN_RECEIVED"
      using passive_open_inv by blast
    ultimately show ?thesis by (simp add: conn_handle_segment_in_listen_def)
  qed
  have ss: "c_state c = SYN_SENT \<Longrightarrow> \<exists>c'. conn_handle_syn_ack seg now ?c = Inr c' \<and> conn_inv c'"
    "c_state c = SYN_SENT \<Longrightarrow> \<exists>c'. conn_handle_simultaneous_open seg now ?c = Inr c' \<and> conn_inv c'"
    using syn_ack_inv [OF c _ v] simultaneous_open_inv [OF c] by (fastforce, fastforce)
  have re: "conn_inv (conn_retransmit_oldest now False ?c)"
    using c retransmit_oldest_inv by (simp add: conn_inv_def)
  have fa: "c_state c = SYN_RECEIVED \<Longrightarrow> conn_inv (conn_handle_final_ack_of_handshake seg now ?c)"
    using c establish_inv [OF conn_inv_core [OF c] _ v]
    by (simp add: conn_handle_final_ack_of_handshake_def handshaking_def)
  have sync: "is_synchronised (c_state c) \<Longrightarrow> conn_inv (conn_on_synchronised_segment seg now ?c)"
    using sync_segment_inv [OF c _ v] by simp
  have rst: "conn_inv (conn_handle_rst seg now ?c)" "conn_inv (conn_reject seg now ?c)"
    using handle_rst_inv [OF conn_inv_static [OF c]] notify_inv(6) [OF c] by simp_all
  show ?thesis
    unfolding conn_on_segment_def Let_def
    using c listen ss re fa sync rst by (cases "c_state c") auto
qed



section \<open>Reachable connections\<close>

text \<open>A connection that was constructed with a sound configuration, or created by a listener, and
  then driven by any sequence of calls, decoded segments and clock ticks, in any order.\<close>

inductive conn_step :: "conn \<Rightarrow> conn \<Rightarrow> bool" where
  step_listen: "conn_listen c = Inr c' \<Longrightarrow> conn_step c c'"
| step_connect: "conn_connect rnd now c = Inr c' \<Longrightarrow> conn_step c c'"
| step_send: "conn_send data now c = Inr (c', n) \<Longrightarrow> conn_step c c'"
| step_recv: "conn_recv n now c = (c', data) \<Longrightarrow> conn_step c c'"
| step_close: "conn_step c (conn_close now c)"
| step_abort: "conn_step c (conn_abort now c)"
| step_segment: "segment_ranged seg \<Longrightarrow> conn_on_segment seg src_ip rnd now c = Inr (c', child) \<Longrightarrow> conn_step c c'"
| step_tick: "conn_step c (conn_on_tick now c)"

inductive conn_reachable :: "conn \<Rightarrow> bool" where
  created: "cfg_ok cfg \<Longrightarrow> TCPConnection_init cfg = Inr c \<Longrightarrow> conn_reachable c"
| accepted: "conn_reachable c \<Longrightarrow> segment_ranged seg \<Longrightarrow>
    conn_on_segment seg src_ip rnd now c = Inr (c', Some child) \<Longrightarrow> conn_reachable child"
| step: "conn_reachable c \<Longrightarrow> conn_step c c' \<Longrightarrow> conn_reachable c'"

lemma segment_ranged_ack: "segment_ranged seg \<Longrightarrow> valid_seq (seg_ack seg)"
  by (simp add: segment_ranged_def in_u32_def valid_seq_def)

lemma conn_step_inv: "conn_step c c' \<Longrightarrow> conn_inv c \<Longrightarrow> conn_inv c'"
proof (induction rule: conn_step.induct)
  case (step_connect rnd now c c')
  then have "c_state c = CLOSED" by (simp add: conn_connect_def split: if_splits)
  with step_connect connect_inv [of c rnd now] show ?case by auto
next
  case (step_recv n now c c' data)
  then show ?case using recv_inv_op [of c n now] by simp
next
  case (step_segment seg src_ip rnd now c c' child)
  then show ?case using on_segment_inv [OF _ segment_ranged_ack, of c seg src_ip rnd now] by auto
qed (auto intro: listen_inv send_inv_op close_inv abort_inv tick_inv)

lemma conn_reachable_inv: "conn_reachable c \<Longrightarrow> conn_inv c"
proof (induction rule: conn_reachable.induct)
  case (created cfg c)
  then show ?case using init_inv [of cfg] by auto
next
  case (accepted c seg src_ip rnd now c' child)
  then show ?case using on_segment_inv [OF _ segment_ranged_ack, of c seg src_ip rnd now] by auto
next
  case (step c c')
  then show ?case by (simp add: conn_step_inv)
qed

end
