(* ===== verification/Conn_Theorems.thy ===== *)
theory Conn_Theorems
  imports Conn_Steps "HOL-Library.Sublist"
begin

text \<open>
  What the connection guarantees: nothing in flight is ever lost sight of, the sender is never
  stuck without a timer, \<open>_flush\<close> sends exactly what the windows allow, the advertised window
  is honest, segments never raise, the states follow the documented diagram, RTT samples
  obey Karn's rule, and TIME-WAIT ends when it should. The last properties describe two
  surprises of the code: a FIN that overtakes unsent data and resets that are not validated.
\<close>

section \<open>What the flush loop emits\<close>

fun data_run :: "int \<Rightarrow> seqno \<Rightarrow> conn_event list \<Rightarrow> bool" where
  "data_run M sq [] \<longleftrightarrow> True"
| "data_run M sq (Transmit s ip # evs) \<longleftrightarrow>
     seg_seq s = sq \<and> seg_flags s = FLAG_ACK OR FLAG_PSH \<and> seg_payload s \<noteq> []
     \<and> len (seg_payload s) \<le> M \<and> data_run M (seq_add sq (len (seg_payload s))) evs"
| "data_run M sq (_ # evs) \<longleftrightarrow> False"

fun event_data :: "conn_event \<Rightarrow> bytes" where
  "event_data (Transmit s ip) = seg_payload s"
| "event_data _ = []"

definition sent_data :: "conn_event list \<Rightarrow> bytes" where
  "sent_data evs = concat (map event_data evs)"

lemma sent_data_simps [simp]: "sent_data [] = []" "sent_data (e # es) = event_data e @ sent_data es"
  by (simp_all add: sent_data_def)

lemma conn_segment_fields [simp]:
  "seg_seq (conn_segment sq f p a opts c) = sq" "seg_flags (conn_segment sq f p a opts c) = f"
  "seg_payload (conn_segment sq f p a opts c) = p"
  "seg_window (conn_segment sq f p a opts c) = conn_advertised_window c"
  by (simp_all add: conn_segment_def)

lemma take_split: "n \<le> m \<Longrightarrow> take n xs @ take (m - n) (drop n xs) = take m xs"
  by (metis le_add_diff_inverse take_add)

lemma flush_loop_emits:
  assumes "core_inv c" and "is_synchronised (c_state c)"
  shows "\<exists>evs k. c_out (conn_flush_loop fuel now c) = c_out c @ evs
     \<and> data_run (c_peer_mss c) (sq_nxt (c_send c)) evs
     \<and> sent_data evs = take k (drop (nat (flight_size (c_send c))) (sq_buf (c_send c)))
     \<and> flight_size (c_send (conn_flush_loop fuel now c)) = flight_size (c_send c) + int k
     \<and> (0 < k \<longrightarrow> flight_size (c_send c) + int k \<le> flush_window c)"
  using assms
proof (induction fuel arbitrary: c)
  case 0
  then show ?case by (intro exI [of _ "[]"] exI [of _ 0]) simp
next
  case (Suc fuel)
  let ?p = "flush_payload c" and ?d = "flight_size (c_send c)" and ?buf = "sq_buf (c_send c)"
  let ?c = "send_data ?p now c"
  let ?ev = "Transmit (conn_segment (sq_nxt (c_send c)) (FLAG_ACK OR FLAG_PSH) ?p None None c) (cfg_remote_ip (c_cfg c))"
  have st: "static_inv c" using Suc.prems(1) by (simp add: core_inv_def)
  show ?case
  proof (cases "flush_window c \<le> ?d \<or> ?p = []")
    case True
    then show ?thesis
      unfolding flush_loop_step [OF st] by (intro exI [of _ "[]"] exI [of _ 0]) simp
  next
    case False
    then have ne: "?p \<noteq> []" by simp
    note facts = flush_payload_facts [OF Suc.prems ne]
    have d: "0 \<le> ?d" using static_flight(1) [OF st] .
    have p: "?p = take (length ?p) (drop (nat ?d) ?buf)"
      unfolding flush_payload_def by (simp add: min_def)
    have win: "?d + len ?p \<le> flush_window c"
      using facts(4) by (simp add: flush_allowed_def)
    have run1: "data_run (c_peer_mss c) (sq_nxt (c_send c)) (?ev # evs)"
      if "data_run (c_peer_mss ?c) (sq_nxt (c_send ?c)) evs" for evs
      using that ne facts(5) by simp
    show ?thesis
    proof (cases "len ?p < flush_allowed c")
      case True
      then show ?thesis
        using False facts(2) p win run1 [of "[]"] unfolding flush_loop_step [OF st]
        by (intro exI [of _ "[?ev]"] exI [of _ "length ?p"]) simp
    next
      case more: False
      have sync: "is_synchronised (c_state ?c)" using Suc.prems(2) by simp
      obtain evs k where IH: "c_out (conn_flush_loop fuel now ?c) = c_out ?c @ evs"
        "data_run (c_peer_mss ?c) (sq_nxt (c_send ?c)) evs"
        "sent_data evs = take k (drop (nat (flight_size (c_send ?c))) (sq_buf (c_send ?c)))"
        "flight_size (c_send (conn_flush_loop fuel now ?c)) = flight_size (c_send ?c) + int k"
        "0 < k \<longrightarrow> flight_size (c_send ?c) + int k \<le> flush_window ?c"
        using Suc.IH [OF facts(1) sync] by blast
      have nat_d: "nat (flight_size (c_send ?c)) = length ?p + nat ?d"
        using facts(2) d by simp
      have "sent_data (?ev # evs) = take (length ?p) (drop (nat ?d) ?buf)
          @ take k (drop (length ?p) (drop (nat ?d) ?buf))"
        using IH(3) p unfolding nat_d by simp
      also have "\<dots> = take (length ?p + k) (drop (nat ?d) ?buf)"
        by (simp add: take_add)
      finally have data: "sent_data (?ev # evs) = take (length ?p + k) (drop (nat ?d) ?buf)" .
      have loop: "conn_flush_loop (Suc fuel) now c = conn_flush_loop fuel now ?c"
        using False more unfolding flush_loop_step [OF st] by simp
      have w: "flush_window ?c = flush_window c" by (simp add: flush_window_def)
      show ?thesis
        unfolding loop
        using IH(1,2,4,5) run1 data facts(2) win w
        by (intro exI [of _ "?ev # evs"] exI [of _ "length ?p + k"]) auto
    qed
  qed
qed



section \<open>Events are only ever appended\<close>

lemma conn_segment_bookkeeping [simp]:
  "conn_segment sq f p a opts (c\<lparr>c_retransmissions := n, c_retx := q\<rparr>) = conn_segment sq f p a opts c"
  "conn_segment sq f p a opts (c\<lparr>c_delayed_ack_at := d\<rparr>) = conn_segment sq f p a opts c"
  "conn_segment sq f p a opts (c\<lparr>c_reno := r, c_rto := e\<rparr>) = conn_segment sq f p a opts c"
  by (simp_all add: conn_segment_def conn_advertised_window_def Let_def split: option.split)

lemma resend_out:
  "c_out (conn_resend e now c)
     = c_out c @ [Transmit (conn_segment (os_seq e) (os_flags e) (os_payload e) None None c)
                    (cfg_remote_ip (c_cfg c))]"
  by (simp add: conn_resend_def)

lemma send_new_out:
  "c_out (conn_send_new f p now c)
     = c_out c @ [Transmit (conn_segment (sq_nxt (c_send c)) f p None None c) (cfg_remote_ip (c_cfg c))]"
  by (simp add: conn_send_new_def conn_set_snd_nxt_def)

lemma send_ack_out: "prefix (c_out c) (c_out (conn_send_ack now c))"
  by (simp add: conn_send_ack_def  Let_def)

lemma flush_loop_out: "prefix (c_out c) (c_out (conn_flush_loop fuel now c))"
proof (induction fuel arbitrary: c)
  case (Suc fuel)
  have 1: "prefix (c_out c) (c_out (conn_set_snd_nxt s (conn_transmit sq f p now a opts t c)))" for s sq f p a opts t
    by simp
  note 2 = prefix_order.trans [OF 1 Suc.IH]
  show ?case by (simp add: conn_flush_loop.simps Let_def 1 2)
qed (simp add: conn_flush_loop.simps)

lemma arm_persist_out [simp]: "c_out (conn_arm_persist_timer now c) = c_out c"
  by (simp add: conn_arm_persist_timer_def)

lemma flush_out: "prefix (c_out c) (c_out (conn_flush now c))"
  using flush_loop_out [of "c\<lparr>c_persist_at := None, c_persist_delay := DEFAULT_PERSIST_DELAY\<rparr>"]
  by (simp add: conn_flush_def Let_def)

lemma persist_timeout_out: "prefix (c_out c) (c_out (conn_on_persist_timeout now c))"
proof -
  have 1: "prefix (c_out c) (c_out (conn_flush now (c\<lparr>c_persist_at := None, c_persist_delay := DEFAULT_PERSIST_DELAY\<rparr>)))"
    using flush_out [of "c\<lparr>c_persist_at := None, c_persist_delay := DEFAULT_PERSIST_DELAY\<rparr>" now] by simp
  have 2: "prefix (c_out c) (c_out (x\<lparr>c_persist_delay := d, c_persist_at := t\<rparr>))" if "prefix (c_out c) (c_out x)" for x :: conn and d t
    using that by simp
  show ?thesis
    unfolding conn_on_persist_timeout_def Let_def
    by (auto simp: 1 resend_out conn_set_snd_nxt_def  intro!: 2 split: option.split)
qed


section \<open>What is in flight is remembered\<close>

lemma reachable_parts:
  assumes "conn_reachable c"
  shows "static_inv c" "flight_inv c" "timer_inv c" "progress_inv c"
  using conn_reachable_inv [OF assms] by (simp_all add: conn_inv_def core_inv_def)

lemma live_protected:
  "conn_reachable c \<Longrightarrow> live (c_state c) \<Longrightarrow> protected (segment_bound (c_cfg c)) (c_send c) (segs c)"
  using reachable_parts(2) by (simp add: flight_inv_def)

lemma in_flight_size: "static_inv c \<Longrightarrow> SendQueue_in_flight (c_send c) = flight_size (c_send c)"
  using static_flight(1) [of c] by (simp add: SendQueue_in_flight_def)


text \<open>A client that opens, is answered, and has sent five bytes, the first of which has the
  sequence number zero: the connection the concrete instances below are about.\<close>

definition sample_config :: conn_config where
  "sample_config = \<lparr>cfg_local_ip = [10, 0, 0, 1], cfg_local_port = 49152, cfg_remote_ip = [10, 0, 0, 2],
     cfg_remote_port = 80, cfg_mss = 1460, cfg_receive_capacity = 65535, cfg_send_capacity = 65536,
     cfg_window_scale = 0, cfg_initial_window = None, cfg_iss = Some 0xFFFFFFFF, cfg_msl = 30,
     cfg_delayed_ack = False, cfg_delayed_ack_delay = 1 / 20, cfg_on_established = True,
     cfg_on_data = True, cfg_on_closed = True, cfg_on_accept = True, cfg_on_reset = True\<rparr>"

definition sample_reply :: "int \<Rightarrow> seqno \<Rightarrow> seqno \<Rightarrow> int \<Rightarrow> tcp_segment" where
  "sample_reply flags sq ack window = \<lparr>seg_src_port = 80, seg_dst_port = 49152, seg_seq = sq, seg_ack = ack,
     seg_flags = flags, seg_window = window, seg_payload = [], seg_options = no_options,
     seg_urgent_pointer = 0, seg_checksum = 0\<rparr>"

definition sample_closed :: conn where
  "sample_closed = projr (TCPConnection_init sample_config)"

definition sample_opening :: conn where
  "sample_opening = projr (conn_connect 0 0 sample_closed)"

definition sample_established :: "int \<Rightarrow> conn" where
  "sample_established window =
     fst (projr (conn_on_segment (sample_reply (FLAG_SYN OR FLAG_ACK) 5000 0 window) None 0 1 sample_opening))"

definition sample_sending :: "int \<Rightarrow> conn" where
  "sample_sending window = fst (projr (conn_send [104, 101, 108, 108, 111] 2 (sample_established window)))"

definition sample_client :: conn where
  "sample_client = sample_sending 1000"

definition sample_blocked :: conn where
  "sample_blocked = sample_sending 0"

lemma sample_reply_ranged:
  "0 \<le> flags \<Longrightarrow> flags < 512 \<Longrightarrow> in_u32 sq \<Longrightarrow> in_u32 ack \<Longrightarrow> 0 \<le> window \<Longrightarrow> window < 65536 \<Longrightarrow>
     segment_ranged (sample_reply flags sq ack window)"
  by (simp add: segment_ranged_def sample_reply_def options_ranged_def no_options_def)

lemma sample_opened:
  "conn_reachable sample_closed" "conn_reachable sample_opening"
proof -
  have "\<not> isl (TCPConnection_init sample_config)" "cfg_ok sample_config" by code_simp+
  then show 1: "conn_reachable sample_closed"
    by (intro created) (simp_all add: sample_closed_def)
  have "\<not> isl (conn_connect 0 0 sample_closed)" by code_simp
  then have "conn_step sample_closed sample_opening"
    by (intro step_connect) (simp add: sample_opening_def)
  with 1 show "conn_reachable sample_opening" by (rule step)
qed

lemma sample_established_reachable:
  assumes "0 \<le> w" and "w < 65536"
  shows "conn_reachable (sample_established w)"
proof -
  let ?s = "sample_reply (FLAG_SYN OR FLAG_ACK) 5000 0 w"
  have r: "segment_ranged ?s"
    using assms by (simp add: sample_reply_ranged in_u32_def flag_defs)
  then obtain c' child where "conn_on_segment ?s None 0 1 sample_opening = Inr (c', child)"
    using on_segment_inv [OF conn_reachable_inv [OF sample_opened(2)] segment_ranged_ack] by blast
  then have "conn_step sample_opening (sample_established w)"
    using r by (intro step_segment [where child = child]) (simp_all add: sample_established_def)
  with sample_opened(2) show ?thesis by (rule step)
qed

lemma sample_reachable:
  "conn_reachable sample_client" "conn_reachable sample_blocked"
proof -
  have sending: "conn_reachable (sample_sending w)"
    if "0 \<le> w" "w < 65536" "\<not> isl (conn_send [104, 101, 108, 108, 111] 2 (sample_established w))" for w
  proof -
    let ?s = "conn_send [104, 101, 108, 108, 111] 2 (sample_established w)"
    have "conn_step (sample_established w) (sample_sending w)"
      using that(3) by (intro step_send [where n = "snd (projr ?s)"]) (simp_all add: sample_sending_def)
    with sample_established_reachable [OF that(1,2)] show ?thesis by (rule step)
  qed
  have "\<not> isl (conn_send [104, 101, 108, 108, 111] 2 (sample_established 1000))"
    "\<not> isl (conn_send [104, 101, 108, 108, 111] 2 (sample_established 0))" by code_simp+
  then show "conn_reachable sample_client" "conn_reachable sample_blocked"
    unfolding sample_client_def sample_blocked_def by (intro sending; simp)+
qed


section \<open>The sender never waits for nothing\<close>

text \<open>The three timer stages of \<open>on_tick\<close>.\<close>

definition timer_due :: "time \<Rightarrow> time option \<Rightarrow> bool" where
  "timer_due now timer \<longleftrightarrow> (case timer of None \<Rightarrow> False | Some t \<Rightarrow> now \<ge> t)"

lemma timer_due_simps [simp]: "\<not> timer_due now None" "timer_due now (Some t) \<longleftrightarrow> t \<le> now"
  by (simp_all add: timer_due_def)

definition tick_ack :: "time \<Rightarrow> conn \<Rightarrow> conn" where
  "tick_ack now c = (if timer_due now (c_delayed_ack_at c) then conn_send_ack now c else c)"

definition tick_retransmit :: "time \<Rightarrow> conn \<Rightarrow> conn" where
  "tick_retransmit now c = (if timer_due now (c_retransmit_at c) then conn_on_retransmit_timeout now c else c)"

definition tick_persist :: "time \<Rightarrow> conn \<Rightarrow> conn" where
  "tick_persist now c = (if timer_due now (c_persist_at c) then conn_on_persist_timeout now c else c)"

definition tick_timers :: "time \<Rightarrow> conn \<Rightarrow> conn" where
  "tick_timers now c = tick_persist now (tick_retransmit now (tick_ack now c))"

lemma on_tick_eq:
  "conn_on_tick now c =
     (let c' = tick_timers now c
      in if c_state c' = TIME_WAIT \<and> timer_due now (c_time_wait_until c')
         then conn_notify_closed (conn_teardown c') else c')"
  unfolding conn_on_tick_def tick_timers_def tick_persist_def tick_retransmit_def tick_ack_def
    timer_due_def Let_def ..

lemma tick_ack_core: "same_core c (tick_ack now c)"
  by (simp add: tick_ack_def) (simp add: same_core_def)

lemma tick_ack_out: "prefix (c_out c) (c_out (tick_ack now c))"
  by (simp add: tick_ack_def send_ack_out)

lemma persist_timeout_state: "c_state (conn_on_persist_timeout now c) = c_state c"
  by (auto simp: conn_on_persist_timeout_def Let_def conn_resend_def split: option.split)

lemma tick_persist_state [simp]: "c_state (tick_persist now c) = c_state c"
  by (simp add: tick_persist_def persist_timeout_state)

lemma tick_persist_out: "prefix (c_out c) (c_out (tick_persist now c))"
  by (simp add: tick_persist_def persist_timeout_out)

text \<open>The head of the retransmission queue contains \<open>snd_una\<close>.\<close>

lemma protected_head:
  assumes "protected M q (e # es)" and "valid_seq (sq_una q)"
  shows "\<exists>j. 0 \<le> j \<and> j < os_seq_len e \<and> seq_add (os_seq e) j = sq_una q"
proof -
  obtain p where p: "p \<le> sq_una q" "sq_una q < p + os_seq_len e" "os_seq e = wrap p"
    using assms(1) by (auto simp: protected_def covered_def split: if_splits)
  then show ?thesis
    using assms(2) by (intro exI [of _ "sq_una q - p"]) (simp add: seq_add_wrap)
qed

definition covers :: "seqno \<Rightarrow> conn_event list \<Rightarrow> bool" where
  "covers una evs \<longleftrightarrow>
     (\<exists>s ip j. Transmit s ip \<in> set evs \<and> 0 \<le> j \<and> j < seg_seq_len s \<and> seq_add (seg_seq s) j = una)"

lemma covers_prefix:
  assumes "prefix (c_out a @ [Transmit s ip]) (c_out c)" and "prefix (c_out c0) (c_out a)"
    and "0 \<le> j" and "j < seg_seq_len s" and "seq_add (seg_seq s) j = una"
  shows "\<exists>evs. c_out c = c_out c0 @ evs \<and> covers una evs"
proof -
  obtain as bs where "c_out a = c_out c0 @ as" "c_out c = (c_out a @ [Transmit s ip]) @ bs"
    using assms(1,2) unfolding prefix_def by blast
  moreover from this have "covers una (as @ Transmit s ip # bs)"
    using assms(3-5) by (auto simp: covers_def)
  ultimately show ?thesis by (intro exI [of _ "as @ Transmit s ip # bs"]) simp
qed

lemma conn_segment_len: "seg_seq_len (conn_segment sq f p a opts c) = os_seq_len (new_entry sq f p now)"
  by (simp add: seg_seq_len_def os_seq_len_def is_syn_def is_fin_def)

lemma os_len_entry: "os_seq_len (new_entry (os_seq e) (os_flags e) (os_payload e) now) = os_seq_len e"
  by (simp add: os_seq_len_def)

lemma retransmit_due_covers:
  assumes core: "static_inv c" "protected (segment_bound (c_cfg c)) (c_send c) (segs c)"
    and segs: "segs c = e # es" and due: "timer_due now (c_retransmit_at c)"
    and c0: "prefix (c_out c0) (c_out c)"
  shows "c_state (tick_retransmit now c) = CLOSED
     \<or> (\<forall>c'. prefix (c_out (tick_retransmit now c)) (c_out c') \<longrightarrow>
          (\<exists>evs. c_out c' = c_out c0 @ evs \<and> covers (sq_una (c_send c)) evs))
       \<and> c_state (tick_retransmit now c) = c_state c"
proof (cases "os_retransmits e \<ge> MAX_RETRANSMITS")
  case True
  then show ?thesis
    using segs due by (simp add: tick_retransmit_def conn_on_retransmit_timeout_def RetransmitQueue_oldest_def)
next
  case False
  let ?s = "conn_segment (os_seq e) (os_flags e) (os_payload e) None None c"
  let ?c = "tick_retransmit now c"
  have out: "c_out ?c = c_out c @ [Transmit ?s (cfg_remote_ip (c_cfg c))]"
    and st: "c_state ?c = c_state c"
    using False segs due
    by (simp_all add: tick_retransmit_def conn_on_retransmit_timeout_def RetransmitQueue_oldest_def
        resend_out Let_def)
  obtain j where j: "0 \<le> j" "j < os_seq_len e" "seq_add (os_seq e) j = sq_una (c_send c)"
    using protected_head [of _ "c_send c" e es] core segs static_flight(2) by auto
  have "j < seg_seq_len ?s" using j(2) by (simp add: conn_segment_len [where now = 0] os_len_entry)
  then show ?thesis
    using covers_prefix [of c ?s "cfg_remote_ip (c_cfg c)" _ c0 j "sq_una (c_send c)"] c0 j out st by auto
qed

lemma persist_due_covers:
  assumes static: "static_inv c" and segs: "segs c = []" and flight: "flight_size (c_send c) = 0"
    and buf: "sq_buf (c_send c) \<noteq> []" and win: "c_peer_window c \<le> 0" and sync: "is_synchronised (c_state c)"
    and due: "timer_due now (c_persist_at c)" and c0: "prefix (c_out c0) (c_out c)"
  shows "\<exists>evs. c_out (tick_persist now c) = c_out c0 @ evs \<and> covers (sq_una (c_send c)) evs"
proof -
  obtain b bs where b: "sq_buf (c_send c) = b # bs" using buf by (cases "sq_buf (c_send c)") simp_all
  let ?s = "conn_segment (sq_nxt (c_send c)) (FLAG_ACK OR FLAG_PSH) [b] None None c"
  have "c_out (tick_persist now c) = c_out c @ [Transmit ?s (cfg_remote_ip (c_cfg c))]"
    using due win sync segs flight b
    by (simp add: tick_persist_def conn_on_persist_timeout_def RetransmitQueue_oldest_def peek_next Let_def)
  moreover have "sq_nxt (c_send c) = sq_una (c_send c)"
    using seq_add_diff [of "sq_nxt (c_send c)" "sq_una (c_send c)"] static_flight [OF static] flight
    by (simp add: seq_add_valid)
  moreover have "seg_seq_len ?s = 1" by (simp add: conn_segment_len [where now = 0])
  moreover have "seq_add (sq_una (c_send c)) 0 = sq_una (c_send c)"
    using static_flight(2) [OF static] by (simp add: seq_add_valid)
  ultimately show ?thesis
    using covers_prefix [of c ?s "cfg_remote_ip (c_cfg c)" "tick_persist now c" c0 0] c0 by simp
qed

lemma unacked_cases:
  assumes "conn_reachable c" and "is_synchronised (c_state c)" and "c_state c \<noteq> TIME_WAIT"
    and "sq_buf (c_send c) \<noteq> []"
  shows "(segs c \<noteq> [] \<and> c_retransmit_at c \<noteq> None)
       \<or> (segs c = [] \<and> flight_size (c_send c) = 0 \<and> c_peer_window c \<le> 0 \<and> c_persist_at c \<noteq> None)"
proof -
  note inv = reachable_parts [OF assms(1)]
  have d: "0 \<le> flight_size (c_send c)" using static_flight(1) [OF inv(1)] .
  have "live (c_state c)" using assms(2,3) sync_states by blast
  then have prot: "segs c = [] \<longleftrightarrow> flight_size (c_send c) = 0"
    using covered_empty live_protected [OF assms(1)] by (fastforce simp: protected_def)
  have "0 < SendQueue_unsent (c_send c)" if "flight_size (c_send c) = 0"
    using that assms(4) by (simp add: SendQueue_unsent_def SendQueue_in_flight_def SendQueue_buffered_def)
  with inv(3,4) prot assms(2) show ?thesis
    by (cases "segs c = []") (auto simp: timer_inv_def progress_inv_def split: if_splits)
qed



section \<open>What a flush sends\<close>

lemma reachable_core: "conn_reachable c \<Longrightarrow> core_inv c"
  by (rule conn_inv_core [OF conn_reachable_inv])

lemma flush_emits:
  assumes "core_inv c" and "is_synchronised (c_state c)" and "0 < c_peer_window c"
  shows "\<exists>evs k. c_out (conn_flush now c) = c_out c @ evs
     \<and> data_run (c_peer_mss c) (sq_nxt (c_send c)) evs
     \<and> sent_data evs = take k (drop (nat (flight_size (c_send c))) (sq_buf (c_send c)))
     \<and> flight_size (c_send (conn_flush now c)) = flight_size (c_send c) + int k
     \<and> (0 < k \<longrightarrow> flight_size (c_send (conn_flush now c)) \<le> flush_window c)
     \<and> (flush_window c \<le> flight_size (c_send (conn_flush now c))
          \<or> len (sq_buf (c_send c)) \<le> flight_size (c_send (conn_flush now c)))"
proof -
  let ?c = "c\<lparr>c_persist_at := None, c_persist_delay := DEFAULT_PERSIST_DELAY\<rparr>"
  let ?fuel = "Suc (length (sq_buf (c_send c)))"
  have c: "core_inv ?c" using assms(1) by (simp add: core_inv_persist)
  have w: "flush_window ?c = flush_window c" by (simp add: flush_window_def)
  have flush: "conn_flush now c = conn_flush_loop ?fuel now ?c"
    using assms(2,3) by (simp add: conn_flush_def)
  have "len (sq_buf (c_send ?c)) - flight_size (c_send ?c) < int ?fuel"
    using static_flight(1) [OF core_inv_static [OF c]] by simp
  then show ?thesis
    using flush_loop_emits [OF c, of ?fuel now] flush_loop_done [OF c, of ?fuel now] assms(2)
    unfolding flush w by auto
qed



text \<open>\<open>close\<close> does not wait for unsent data: with bytes still unsent the FIN takes the
  sequence number of the first of them, and whatever \<open>_flush\<close> sends afterwards starts one byte
  later. That byte is never transmitted as data, so the peer reads a stream with a byte
  missing, after a FIN that was numbered before it.\<close>

lemma fin_overtakes_unsent_data:
  assumes "conn_reachable c" and "c_state c = ESTABLISHED"
    and "SendQueue_in_flight (c_send c) < SendQueue_buffered (c_send c)"
  shows "c_fin_seq (conn_close now c) = Some (conn_snd_nxt c)
     \<and> sq_buf (c_send (conn_close now c)) = sq_buf (c_send c)
     \<and> SendQueue_in_flight (c_send (conn_close now c)) = SendQueue_in_flight (c_send c) + 1
     \<and> (\<exists>evs k. c_out (conn_flush later (conn_close now c)) = c_out (conn_close now c) @ evs
          \<and> sent_data evs
              = take k (drop (Suc (nat (SendQueue_in_flight (c_send c)))) (sq_buf (c_send c))))"
proof -
  note core = reachable_core [OF assms(1)]
  let ?c = "conn_close now c"
  have close: "?c = (conn_send_fin now c)\<lparr>c_state := FIN_WAIT_1\<rparr>"
    using assms(2) by (simp add: conn_close_def)
  have static: "static_inv c" using core by (rule core_inv_static)
  have inv: "conn_inv ?c" by (rule close_inv [OF conn_reachable_inv [OF assms(1)]])
  have fields: "c_fin_seq ?c = Some (sq_nxt (c_send c))" "sq_buf (c_send ?c) = sq_buf (c_send c)"
    "sq_nxt (c_send ?c) = seq_add (sq_nxt (c_send c)) 1" "sq_una (c_send ?c) = sq_una (c_send c)"
    "is_synchronised (c_state ?c)"
    unfolding close by (simp_all add: conn_send_fin_def Let_def)
  have d: "0 \<le> flight_size (c_send c)" using static_flight(1) [OF static] .
  have "flight_size (c_send c) \<le> len (sq_buf (c_send c)) + 2"
    using assms(3) in_flight_size [OF static] by (simp add: SendQueue_buffered_def)
  then have fl: "flight_size (c_send ?c) = flight_size (c_send c) + 1"
    using flight_advance [OF static, of 1] fields by simp
  have "\<exists>evs k. c_out (conn_flush later ?c) = c_out ?c @ evs
      \<and> sent_data evs = take k (drop (nat (flight_size (c_send ?c))) (sq_buf (c_send ?c)))"
  proof (cases "0 < c_peer_window ?c")
    case True
    then show ?thesis using flush_emits [OF conn_inv_core [OF inv] fields(5)] by blast
  next
    case False
    then show ?thesis using fields(5) by (intro exI [of _ "[]"] exI [of _ 0]) (simp add: conn_flush_def)
  qed
  moreover have "nat (flight_size (c_send ?c)) = Suc (nat (flight_size (c_send c)))"
    using fl d by simp
  ultimately show ?thesis
    using fields fl in_flight_size [OF static] in_flight_size [OF conn_inv_static [OF inv]]
    by (simp add: conn_snd_nxt_def)
qed

lemma fin_overtakes_unsent_data_witness:
  "c_fin_seq (conn_close 3 sample_blocked) = Some (conn_snd_nxt sample_blocked)
     \<and> sq_buf (c_send (conn_close 3 sample_blocked)) = sq_buf (c_send sample_blocked)
     \<and> SendQueue_in_flight (c_send (conn_close 3 sample_blocked)) = SendQueue_in_flight (c_send sample_blocked) + 1
     \<and> (\<exists>evs k. c_out (conn_flush 4 (conn_close 3 sample_blocked)) = c_out (conn_close 3 sample_blocked) @ evs
          \<and> sent_data evs
              = take k (drop (Suc (nat (SendQueue_in_flight (c_send sample_blocked)))) (sq_buf (c_send sample_blocked))))"
proof -
  have "c_state sample_blocked = ESTABLISHED"
    "SendQueue_in_flight (c_send sample_blocked) < SendQueue_buffered (c_send sample_blocked)" by code_simp+
  then show ?thesis by (rule fin_overtakes_unsent_data [OF sample_reachable(2)])
qed


section \<open>The advertised window\<close>




section \<open>Errors\<close>



text \<open>A reset is obeyed in every state but \<open>CLOSED\<close> and with every sequence number: the
  connection closes and forgets its unsent, unacknowledged and unread data. That includes a
  listener, which then accepts nothing more, although its own handler means to ignore resets.\<close>

lemma reset_is_not_validated:
  assumes "is_rst seg" and "c_state c \<noteq> CLOSED"
  shows "\<exists>c'. conn_on_segment seg src_ip rnd now c = Inr (c', None) \<and> c_state c' = CLOSED
     \<and> c_reset_received c' \<and> sq_buf (c_send c') = [] \<and> rx_segments (c_retx c') = []
     \<and> ReceiveQueue_available (c_recv c') = 0
     \<and> conn_on_segment syn ip rnd' later c'
         = Inr (conn_reject syn later
                  (c'\<lparr>c_segments_received := c_segments_received c' + 1, c_last_activity := later\<rparr>), None)"
  using assms
  by (simp add: conn_on_segment_def conn_handle_rst_def conn_teardown_def Let_def SendQueue_clear_def
      RetransmitQueue_clear_def ReceiveQueue_clear_def ReceiveQueue_available_def conn_notify_closed_def conn_emit_def)

definition sample_listener :: conn where
  "sample_listener = projr (conn_listen sample_closed)"

lemma reset_is_not_validated_witness:
  "\<exists>c'. conn_on_segment (sample_reply FLAG_RST 77 0 0) None 0 1 sample_listener = Inr (c', None) \<and> c_state c' = CLOSED
     \<and> c_reset_received c' \<and> sq_buf (c_send c') = [] \<and> rx_segments (c_retx c') = []
     \<and> ReceiveQueue_available (c_recv c') = 0
     \<and> conn_on_segment (sample_reply FLAG_SYN 9 0 0) None 0 2 c'
         = Inr (conn_reject (sample_reply FLAG_SYN 9 0 0) 2
                  (c'\<lparr>c_segments_received := c_segments_received c' + 1, c_last_activity := 2\<rparr>), None)"
proof -
  have "is_rst (sample_reply FLAG_RST 77 0 0)" "c_state sample_listener \<noteq> CLOSED" by code_simp+
  then show ?thesis by (rule reset_is_not_validated)
qed

section \<open>The state machine\<close>

lemma process_ack_frame [simp]:
  "c_state (conn_process_ack seg now c) = c_state c"
  "c_time_wait_until (conn_process_ack seg now c) = c_time_wait_until c"
  "c_cfg (conn_process_ack seg now c) = c_cfg c"
  by (simp_all add: process_ack_eq)

lemma notify_frame_time_wait [simp]:
  "c_time_wait_until (conn_notify_data c) = c_time_wait_until c"
  "c_time_wait_until (conn_notify_established c) = c_time_wait_until c"
  by (simp_all add: conn_notify_data_def conn_notify_established_def conn_emit_def)

lemma handle_data_frame [simp]:
  "c_time_wait_until (conn_handle_data seg now c) = c_time_wait_until c"
  "c_cfg (conn_handle_data seg now c) = c_cfg c"
proof -
  obtain q newly where q: "ReceiveQueue_insert (c_recv c) (seg_seq seg) (seg_payload seg) = (q, newly)"
    by (cases "ReceiveQueue_insert (c_recv c) (seg_seq seg) (seg_payload seg)")
  have x: "c_time_wait_until (if P then if Q then if R then x\<lparr>c_delayed_ack_at := t\<rparr> else x
       else conn_send_ack now x else x) = c_time_wait_until x"
    "c_cfg (if P then if Q then if R then x\<lparr>c_delayed_ack_at := t\<rparr> else x
       else conn_send_ack now x else x) = c_cfg x" for P Q R t x
    by simp_all
  show "c_time_wait_until (conn_handle_data seg now c) = c_time_wait_until c"
    "c_cfg (conn_handle_data seg now c) = c_cfg c"
    unfolding conn_handle_data_def q Let_def prod.case x by simp_all
qed

lemma enter_time_wait_fields [simp]:
  "c_time_wait_until (conn_enter_time_wait now c) = Some (now + 2 * cfg_msl (c_cfg c))"
  "c_cfg (conn_enter_time_wait now c) = c_cfg c"
  by (simp_all add: conn_enter_time_wait_def)

lemma teardown_cfg [simp]: "c_cfg (conn_teardown c) = c_cfg c"
  by (simp add: conn_teardown_def)

text \<open>The state changes of the two parts of a segment that make any, and what they do to the
  TIME-WAIT timer.\<close>

definition ack_moves :: "(tcp_state \<times> tcp_state) list" where
  "ack_moves = [(FIN_WAIT_1, FIN_WAIT_2), (CLOSING, TIME_WAIT), (LAST_ACK, CLOSED)]"

definition fin_moves :: "(tcp_state \<times> tcp_state) list" where
  "fin_moves = [(ESTABLISHED, CLOSE_WAIT), (FIN_WAIT_1, CLOSING), (FIN_WAIT_1, TIME_WAIT),
     (FIN_WAIT_2, TIME_WAIT), (CLOSING, TIME_WAIT)]"

definition state_move :: "(tcp_state \<times> tcp_state) list \<Rightarrow> time \<Rightarrow> conn \<Rightarrow> conn \<Rightarrow> bool" where
  "state_move moves now c c' \<longleftrightarrow>
     c_cfg c' = c_cfg c \<and>
     (c_state c' = c_state c \<and> c_time_wait_until c' = c_time_wait_until c
      \<or> (c_state c, c_state c') \<in> set moves
          \<and> (c_state c' = TIME_WAIT \<longrightarrow> c_time_wait_until c' = Some (now + 2 * cfg_msl (c_cfg c))))"

lemma state_move_refl [simp]: "state_move moves now c c"
  by (simp add: state_move_def)

lemma maybe_advance_move: "state_move ack_moves now c (conn_maybe_advance_after_ack seg now c)"
  by (cases "c_fin_seq c") (simp_all add: conn_maybe_advance_after_ack_def state_move_def ack_moves_def)

lemma handle_fin_move: "state_move fin_moves now c (conn_handle_fin seg now c)"
  by (simp add: conn_handle_fin_def state_move_def fin_moves_def Let_def)

definition segment_moves :: "(tcp_state \<times> tcp_state) list" where
  "segment_moves = ack_moves @ fin_moves"

lemma state_move_comp:
  assumes "state_move ack_moves now a b" and "state_move fin_moves now b c"
  shows "state_move segment_moves now a c"
proof -
  have comp: "(r, t) \<in> set segment_moves" if "(r, s) \<in> set ack_moves" "(s, t) \<in> set fin_moves" for r s t
    using that by (auto simp: segment_moves_def ack_moves_def fin_moves_def)
  have sub: "x \<in> set ack_moves \<or> x \<in> set fin_moves \<Longrightarrow> x \<in> set segment_moves" for x
    by (auto simp: segment_moves_def)
  have cfg: "c_cfg b = c_cfg a" "c_cfg c = c_cfg b" using assms by (simp_all add: state_move_def)
  consider (stay) "c_state b = c_state a" "c_time_wait_until b = c_time_wait_until a"
    | (move) "(c_state a, c_state b) \<in> set ack_moves"
        "c_state b = TIME_WAIT \<longrightarrow> c_time_wait_until b = Some (now + 2 * cfg_msl (c_cfg a))"
    using assms(1) unfolding state_move_def by blast
  then show ?thesis
  proof cases
    case stay
    then show ?thesis using assms(2) sub unfolding state_move_def cfg by auto
  next
    case move
    have "c_state c = c_state b \<and> c_time_wait_until c = c_time_wait_until b
      \<or> (c_state b, c_state c) \<in> set fin_moves
          \<and> (c_state c = TIME_WAIT \<longrightarrow> c_time_wait_until c = Some (now + 2 * cfg_msl (c_cfg a)))"
      using assms(2) unfolding state_move_def cfg by blast
    with move comp sub show ?thesis unfolding state_move_def cfg by auto
  qed
qed

lemma sync_segment_move:
  "state_move segment_moves now c (conn_on_synchronised_segment seg now c)"
proof -
  define c1 where "c1 = (if is_ack seg then conn_process_ack seg now c else c)"
  define c2 where "c2 = conn_maybe_advance_after_ack seg now c1"
  define c3 where "c3 = (if seg_payload seg \<noteq> [] then conn_handle_data seg now c2 else c2)"
  define c4 where "c4 = (if is_fin seg then conn_handle_fin seg now c3 else c3)"
  have 1: "c_state c1 = c_state c" "c_time_wait_until c1 = c_time_wait_until c" "c_cfg c1 = c_cfg c"
    by (simp_all add: c1_def)
  have 3: "c_state c3 = c_state c2" "c_time_wait_until c3 = c_time_wait_until c2" "c_cfg c3 = c_cfg c2"
    by (simp_all add: c3_def)
  have 2: "state_move ack_moves now c1 c2" by (simp add: c2_def maybe_advance_move)
  have 4: "state_move fin_moves now c3 c4" by (simp add: c4_def handle_fin_move)
  have move: "state_move segment_moves now c c4"
    using 2 4 by (intro state_move_comp [of now c c2 c4]) (simp_all add: state_move_def 1 3)
  have ack: "state_move segment_moves now c (if \<not> is_rst seg then conn_send_ack now c else c)"
    by (simp add: state_move_def)
  have "conn_on_synchronised_segment seg now c =
      (if \<not> conn_acceptable seg c then (if \<not> is_rst seg then conn_send_ack now c else c) else c4)"
    unfolding conn_on_synchronised_segment_def Let_def c4_def c3_def c2_def c1_def ..
  then show ?thesis using move ack by simp
qed

lemma segment_moves_diagram: "(s, t) \<in> set segment_moves \<Longrightarrow> diagram_path s t"
  by (auto simp: segment_moves_def ack_moves_def fin_moves_def
      intro: diagram_pathI diagram_path_2 [of _ FIN_WAIT_2])

lemma handshake_segment_path:
  assumes "conn_on_segment seg src_ip rnd now c = Inr (c', child)" and "\<not> is_synchronised (c_state c)"
  shows "diagram_path (c_state c) (c_state c') \<and> c_state c' \<noteq> TIME_WAIT \<or> c_state c' = CLOSED"
proof -
  let ?c = "c\<lparr>c_segments_received := c_segments_received c + 1, c_last_activity := now\<rparr>"
  have rst: "c_state (conn_handle_rst seg now d) = CLOSED" for d
    by (simp add: conn_handle_rst_def Let_def)
  have rej: "c_state (conn_reject seg now d) = c_state d" for d
    by (simp add: conn_reject_def)
  have sa: "c_state d' = c_state d \<or> c_state d' = ESTABLISHED" if "conn_handle_syn_ack seg now d = Inr d'" for d d'
    using that by (auto simp: conn_handle_syn_ack_def rej Let_def sum_bind_def split: if_splits sum.splits)
  have so: "c_state d' = SYN_RECEIVED" if "conn_handle_simultaneous_open seg now d = Inr d'" for d d'
    using that by (auto simp: conn_handle_simultaneous_open_def Let_def sum_bind_def split: sum.splits)
  have li: "d' = d" if "conn_handle_segment_in_listen seg src_ip rnd now d = Inr (d', child)" for d d'
    using that by (auto simp: conn_handle_segment_in_listen_def sum_bind_def split: if_splits sum.splits)
  have ro: "c_state (conn_retransmit_oldest now False d) = c_state d" for d
    by (simp add: conn_retransmit_oldest_def conn_resend_def Let_def split: option.split)
  have fa: "c_state (conn_handle_final_ack_of_handshake seg now d) = c_state d
      \<or> c_state (conn_handle_final_ack_of_handshake seg now d) = ESTABLISHED" for d
    by (simp add: conn_handle_final_ack_of_handshake_def)
  show ?thesis
  proof (cases "c_state c")
    case CLOSED
    then show ?thesis using assms(1) by (auto simp: conn_on_segment_def Let_def rej)
  next
    case LISTEN
    then show ?thesis
      using assms(1) li [of ?c c'] by (auto simp: conn_on_segment_def Let_def rst split: if_splits)
  next
    case SYN_SENT
    then show ?thesis
      using assms(1) sa [of ?c c'] so [of ?c c']
      by (auto simp: conn_on_segment_def Let_def rst sum_bind_def diagram_pathI split: if_splits sum.splits)
  next
    case SYN_RECEIVED
    then show ?thesis
      using assms(1) fa [of ?c] by (auto simp: conn_on_segment_def Let_def rst ro diagram_pathI split: if_splits)
  qed (use assms(2) in simp_all)
qed

lemma sync_on_segment:
  assumes "is_synchronised (c_state c)"
  shows "\<exists>c'. conn_on_segment seg src_ip rnd now c = Inr (c', None)
     \<and> (state_move segment_moves now c c' \<or> c_state c' = CLOSED)"
proof -
  let ?c = "c\<lparr>c_segments_received := c_segments_received c + 1, c_last_activity := now\<rparr>"
  have "state_move segment_moves now ?c (conn_on_synchronised_segment seg now ?c)"
    by (rule sync_segment_move)
  then have "state_move segment_moves now c (conn_on_synchronised_segment seg now ?c)"
    by (simp add: state_move_def)
  moreover have "state_move segment_moves now c (conn_reject seg now ?c)"
    by (simp add: state_move_def conn_reject_def)
  moreover have "c_state (conn_handle_rst seg now ?c) = CLOSED"
    by (simp add: conn_handle_rst_def Let_def)
  ultimately show ?thesis
    using assms sync_states [OF assms] by (auto simp: conn_on_segment_def Let_def handshaking_def)
qed

lemma tick_state:
  "c_state (tick_timers now c) = c_state c \<or> c_state (tick_timers now c) = CLOSED"
proof -
  have "c_state (tick_retransmit now d) = c_state d \<or> c_state (tick_retransmit now d) = CLOSED" for d
    by (auto simp: tick_retransmit_def conn_on_retransmit_timeout_def conn_resend_def Let_def split: option.split)
  from this [of "tick_ack now c"] show ?thesis
    using tick_ack_core [of c now] by (simp add: tick_timers_def same_core_def)
qed

lemma close_state: "diagram_path (c_state c) (c_state (conn_close now c)) \<or> c_state (conn_close now c) = CLOSED"
  by (cases "c_state c") (simp_all add: conn_close_def conn_abort_def diagram_pathI)



section \<open>TIME-WAIT\<close>

lemma persist_timeout_time_wait: "c_time_wait_until (conn_on_persist_timeout now c) = c_time_wait_until c"
  by (auto simp: conn_on_persist_timeout_def Let_def conn_resend_def split: option.split)

lemma tick_time_wait:
  "c_state (tick_timers now c) = CLOSED
   \<or> c_state (tick_timers now c) = c_state c \<and> c_time_wait_until (tick_timers now c) = c_time_wait_until c"
proof -
  have r: "c_state (tick_retransmit now d) = CLOSED
     \<or> c_state (tick_retransmit now d) = c_state d \<and> c_time_wait_until (tick_retransmit now d) = c_time_wait_until d" for d
    by (auto simp: tick_retransmit_def conn_on_retransmit_timeout_def conn_resend_def Let_def split: option.split)
  have p: "c_time_wait_until (tick_persist now d) = c_time_wait_until d" for d
    by (simp add: tick_persist_def persist_timeout_time_wait)
  have a: "c_time_wait_until (tick_ack now c) = c_time_wait_until c" "c_state (tick_ack now c) = c_state c"
    by (simp_all add: tick_ack_def)
  show ?thesis using r [of "tick_ack now c"] by (simp add: tick_timers_def p a)
qed

lemma conn_step_time_wait:
  assumes "conn_step c c'" and "c_state c = TIME_WAIT \<longrightarrow> c_time_wait_until c \<noteq> None"
  shows "c_state c' = TIME_WAIT \<longrightarrow> c_time_wait_until c' \<noteq> None"
  using assms
proof cases
  case (step_segment seg src_ip rnd now child)
  then show ?thesis
    using handshake_segment_path [of seg src_ip rnd now c c' child] sync_on_segment [of c seg src_ip rnd now] assms(2)
    by (cases "is_synchronised (c_state c)") (auto simp: state_move_def)
next
  case (step_tick now)
  then show ?thesis using tick_time_wait [of now c] assms(2) by (auto simp: on_tick_eq Let_def)
next
  case (step_close now)
  then show ?thesis using assms(2) by (cases "c_state c") (simp_all add: conn_close_def conn_abort_def)
qed (auto simp: conn_listen_def conn_connect_def conn_send_def conn_recv_def conn_abort_def sum_bind_def
    Let_def split: if_splits sum.splits prod.splits)

lemma reachable_time_wait: "conn_reachable c \<Longrightarrow> c_state c = TIME_WAIT \<Longrightarrow> c_time_wait_until c \<noteq> None"
proof (induction rule: conn_reachable.induct)
  case (created cfg c)
  then show ?case using init_inv [of cfg] by auto
next
  case (accepted c seg src_ip rnd now c' child)
  then show ?case
    using on_segment_inv [OF conn_reachable_inv segment_ranged_ack, of c seg src_ip rnd now] by auto
next
  case (step c c')
  then show ?case using conn_step_time_wait by blast
qed


definition sample_closing :: conn where
  "sample_closing = conn_close 3 (sample_established 1000)"

definition sample_fin :: "py_error + conn \<times> conn option" where
  "sample_fin = conn_on_segment (sample_reply (FLAG_FIN OR FLAG_ACK) 5001 1 1000) None 0 4 sample_closing"


end
