(* ===== verification/IPv4.thy ===== *)
theory IPv4
  imports Checksum
begin

text \<open>
  \<open>minitcp/net/ipv4.py\<close>: addresses and netmasks, the datagram and its wire format,
  fragmentation, and reassembly. The datagram is a strict wire format; fragmenting a datagram
  and delivering the fragments in any order gives it back.

  Text is a HOL \<open>string\<close>, so the digits \<open>str.isdigit\<close> accepts are the ASCII ones; the other
  characters of the first 256 for which it answers true are rejected by \<open>int\<close> with the same
  \<open>ValueError\<close>. The locks around the reassembler are not modelled: each call is one step. The
  time \<open>add\<close> reads from the clock is its argument.
\<close>

section \<open>Constants\<close>

definition PROTO_ICMP :: int where "PROTO_ICMP = 1"
definition PROTO_UDP :: int where "PROTO_UDP = 17"

definition FLAG_RESERVED :: int where "FLAG_RESERVED = 0x8000"
definition FLAG_DF :: int where "FLAG_DF = 0x4000"
definition FLAG_MF :: int where "FLAG_MF = 0x2000"
definition FLAG_MASK :: int where "FLAG_MASK = 0xE000"
definition FRAG_OFFSET_MASK :: int where "FRAG_OFFSET_MASK = 0x1FFF"

definition IP_HEADER_LEN :: int where "IP_HEADER_LEN = 20"
definition DEFAULT_MTU :: int where "DEFAULT_MTU = 1500"
definition MIN_MTU :: int where "MIN_MTU = 68"
definition MAX_PACKET :: int where "MAX_PACKET = 0xFFFF"

definition IP_ANY :: bytes where "IP_ANY = [0, 0, 0, 0]"
definition IP_BROADCAST :: bytes where "IP_BROADCAST = [0xFF, 0xFF, 0xFF, 0xFF]"

lemmas ip_const_defs =
  FLAG_DF_def FLAG_MF_def FLAG_MASK_def FRAG_OFFSET_MASK_def IP_HEADER_LEN_def MIN_MTU_def MAX_PACKET_def


section \<open>Addresses\<close>

text \<open>Python's \<open>str.split\<close> at one character.\<close>

fun split_at :: "char \<Rightarrow> string \<Rightarrow> string list" where
  "split_at sep [] = [[]]"
| "split_at sep (c # cs) =
     (if c = sep then [] # split_at sep cs
      else case split_at sep cs of [] \<Rightarrow> [[c]] | part # parts \<Rightarrow> (c # part) # parts)"

definition digit_value :: "char \<Rightarrow> nat" where
  "digit_value c = of_char c - 48"

definition is_digit :: "char \<Rightarrow> bool" where
  "is_digit c \<longleftrightarrow> 48 \<le> (of_char c :: nat) \<and> (of_char c :: nat) \<le> 57"

text \<open>\<open>int(text)\<close> for a string of digits, and \<open>"%d"\<close>.\<close>

definition decimal_value :: "string \<Rightarrow> nat" where
  "decimal_value cs = fold (\<lambda>c n. 10 * n + digit_value c) cs 0"

fun decimal :: "nat \<Rightarrow> string" where
  "decimal n = (if n < 10 then [char_of (48 + n)] else decimal (n div 10) @ [char_of (48 + n mod 10)])"

definition parse_octet :: "string \<Rightarrow> py_error + byte" where
  "parse_octet part =
     (if part = [] \<or> \<not> list_all is_digit part \<or> (1 < length part \<and> hd part = CHR ''0'') then Inl ValueError
      else if 255 < decimal_value part then Inl ValueError
      else Inr (of_nat (decimal_value part)))"

fun parse_octets :: "string list \<Rightarrow> py_error + bytes" where
  "parse_octets [] = Inr []"
| "parse_octets (part # parts) =
     sum_bind (parse_octet part) (\<lambda>b. sum_bind (parse_octets parts) (\<lambda>bs. Inr (b # bs)))"

definition ip_to_bytes :: "string \<Rightarrow> py_error + bytes" where
  "ip_to_bytes text =
     (let parts = split_at (CHR ''.'') text
      in if length parts \<noteq> 4 then Inl ValueError else parse_octets parts)"

definition ip_to_str :: "bytes \<Rightarrow> py_error + string" where
  "ip_to_str addr =
     (case addr of
        [a, b, c, d] \<Rightarrow> Inr (decimal (unat a) @ ''.'' @ decimal (unat b) @ ''.'' @ decimal (unat c)
                              @ ''.'' @ decimal (unat d))
      | _ \<Rightarrow> Inl ValueError)"

definition prefix_to_mask :: "int \<Rightarrow> py_error + bytes" where
  "prefix_to_mask prefix =
     (if \<not> (0 \<le> prefix \<and> prefix \<le> 32) then Inl ValueError
      else Inr (be32 (if prefix \<noteq> 0 then push_bit (nat (32 - prefix)) 0xFFFFFFFF AND 0xFFFFFFFF else 0)))"

text \<open>\<open>bin(value).count("1")\<close> for a 32-bit value.\<close>

definition popcount32 :: "int \<Rightarrow> int" where
  "popcount32 v = len (filter (\<lambda>i. v div 2 ^ i mod 2 = 1) [0..<32])"

definition mask_to_prefix :: "bytes \<Rightarrow> py_error + int" where
  "mask_to_prefix netmask =
     (if length netmask \<noteq> 4 then Inl ValueError
      else
        let value = get_u32 netmask 0;
            prefix = popcount32 value
        in sum_bind (prefix_to_mask prefix) (\<lambda>m.
             if value \<noteq> get_u32 m 0 then Inl ValueError else Inr prefix))"

text \<open>\<open>zip(..., strict=True)\<close> raises when it reaches the end of one argument and not of the
  others; \<open>all\<close> stops at the first difference, before that happens.\<close>

fun same_subnet :: "bytes \<Rightarrow> bytes \<Rightarrow> bytes \<Rightarrow> py_error + bool" where
  "same_subnet (x # xs) (y # ys) (m # ms) =
     (if (x AND m) = (y AND m) then same_subnet xs ys ms else Inr False)"
| "same_subnet [] [] [] = Inr True"
| "same_subnet _ _ _ = Inl ValueError"


section \<open>The datagram\<close>

record ipv4_packet =
  ip_src :: bytes
  ip_dst :: bytes
  ip_protocol :: int
  ip_payload :: bytes
  ip_ttl :: int
  ip_identification :: int
  ip_flags :: int
  ip_fragment_offset :: int
  ip_dscp :: int
  ip_options :: bytes

definition ip_ihl :: "ipv4_packet \<Rightarrow> int" where
  "ip_ihl p = (IP_HEADER_LEN + len (ip_options p)) div 4"

definition ip_header_length :: "ipv4_packet \<Rightarrow> int" where
  "ip_header_length p = ip_ihl p * 4"

definition ip_total_length :: "ipv4_packet \<Rightarrow> int" where
  "ip_total_length p = ip_header_length p + len (ip_payload p)"

definition ip_is_fragmented :: "ipv4_packet \<Rightarrow> bool" where
  "ip_is_fragmented p \<longleftrightarrow> ip_flags p AND FLAG_MF \<noteq> 0 \<or> 0 < ip_fragment_offset p"

definition ip_dont_fragment :: "ipv4_packet \<Rightarrow> bool" where
  "ip_dont_fragment p \<longleftrightarrow> ip_flags p AND FLAG_DF \<noteq> 0"

definition IPv4Packet_to_bytes :: "ipv4_packet \<Rightarrow> py_error + bytes" where
  "IPv4Packet_to_bytes p =
     (if length (ip_src p) \<noteq> 4 \<or> length (ip_dst p) \<noteq> 4 then Inl ValueError
      else if len (ip_options p) mod 4 \<noteq> 0 then Inl ValueError
      else if 40 < length (ip_options p) then Inl ValueError
      else if MAX_PACKET < ip_total_length p then Inl ValueError
      else if \<not> (0 \<le> ip_fragment_offset p \<and> ip_fragment_offset p \<le> FRAG_OFFSET_MASK) then Inl ValueError
      else if \<not> (0 \<le> ip_ttl p \<and> ip_ttl p \<le> 255) then Inl ValueError
      else
        let vihl = push_bit 4 4 OR ip_ihl p;
            flags_frag = (ip_flags p AND FLAG_MASK) OR ip_fragment_offset p
        in sum_bind (struct_pack [FB vihl, FB (ip_dscp p), FH (ip_total_length p),
             FH (ip_identification p AND 0xFFFF), FH flags_frag, FB (ip_ttl p), FB (ip_protocol p), FH 0,
             FS (ip_src p), FS (ip_dst p)]) (\<lambda>fixed.
           let header = fixed @ ip_options p
           in sum_bind (struct_pack [FH (checksum header)]) (\<lambda>csum.
             Inr (take 10 header @ csum @ drop 12 header @ ip_payload p))))"

definition decode_ipv4 :: "bytes \<Rightarrow> int \<Rightarrow> ipv4_packet" where
  "decode_ipv4 data header_len =
     \<lparr>ip_src = take 4 (drop 12 data), ip_dst = take 4 (drop 16 data), ip_protocol = get_u8 data 9,
      ip_payload = drop (nat header_len) (take (nat (get_u16 data 2)) data),
      ip_ttl = get_u8 data 8, ip_identification = get_u16 data 4,
      ip_flags = get_u16 data 6 AND FLAG_MASK,
      ip_fragment_offset = get_u16 data 6 AND FRAG_OFFSET_MASK, ip_dscp = get_u8 data 1,
      ip_options = drop 20 (take (nat header_len) data)\<rparr>"

text \<open>The \<open>Reader\<close> of the source skips the header and is not used again; \<open>Reader_raw\<close> cannot
  fail there, because the length of the header has been checked.\<close>

definition IPv4Packet_parse :: "bytes \<Rightarrow> py_error + ipv4_packet" where
  "IPv4Packet_parse data =
     (if len data < IP_HEADER_LEN then Inl ValueError
      else if drop_bit 4 (get_u8 data 0) \<noteq> 4 then Inl ValueError
      else
        let ihl = get_u8 data 0 AND 0x0F
        in if ihl < 5 then Inl ValueError
           else
             let header_len = ihl * 4
             in if len data < header_len then Inl ValueError
                else if checksum (take (nat header_len) data) \<noteq> 0 then Inl ValueError
                else if get_u16 data 2 < header_len then Inl ValueError
                else if len data < get_u16 data 2 then Inl ValueError
                else
                  sum_bind (Reader_raw (Reader_init data) header_len) (\<lambda>_.
                  Inr (decode_ipv4 data header_len)))"

section \<open>Fragmentation\<close>

text \<open>The loop that cuts the payload. Its step \<open>max_payload\<close> is positive: \<open>fragment\<close> has raised
  otherwise.\<close>

definition fragment_piece :: "ipv4_packet \<Rightarrow> int \<Rightarrow> bytes \<Rightarrow> bool \<Rightarrow> ipv4_packet" where
  "fragment_piece packet offset chunk mf =
     \<lparr>ip_src = ip_src packet, ip_dst = ip_dst packet, ip_protocol = ip_protocol packet, ip_payload = chunk,
      ip_ttl = ip_ttl packet, ip_identification = ip_identification packet,
      ip_flags = (ip_flags packet AND FLAG_DF) OR (if mf then FLAG_MF else 0),
      ip_fragment_offset = offset div 8, ip_dscp = ip_dscp packet, ip_options = []\<rparr>"

function fragment_loop :: "ipv4_packet \<Rightarrow> nat \<Rightarrow> nat \<Rightarrow> ipv4_packet list" where
  "fragment_loop packet max_payload offset =
     (if offset < length (ip_payload packet) \<and> 0 < max_payload then
        let chunk = take max_payload (drop offset (ip_payload packet));
            mf = offset + length chunk < length (ip_payload packet)
        in fragment_piece packet (int offset) chunk mf
             # fragment_loop packet max_payload (offset + length chunk)
      else [])"
  by pat_completeness auto
termination
  by (relation "measure (\<lambda>(packet, m, offset). length (ip_payload packet) - offset)") auto

declare fragment_loop.simps [simp del]

definition fragment :: "ipv4_packet \<Rightarrow> int \<Rightarrow> py_error + ipv4_packet list" where
  "fragment packet mtu =
     (if mtu < MIN_MTU then Inl ValueError
      else
        let header_len = ip_header_length packet
        in if header_len + len (ip_payload packet) \<le> mtu then Inr [packet]
           else if ip_dont_fragment packet then Inl ValueError
           else
             let max_payload = (mtu - header_len) AND NOT 7
             in if max_payload \<le> 0 then Inl ValueError
                else Inr (fragment_loop packet (nat max_payload) 0))"


section \<open>Reassembly\<close>

record fragment_set =
  fs_first_seen :: time
  fs_total_length :: "int option"
  fs_header :: "ipv4_packet option"
  fs_pieces :: "(int, bytes) dict"

type_synonym fragment_key = "bytes \<times> bytes \<times> int \<times> int"

record reassembler =
  ra_sets :: "(fragment_key, fragment_set) dict"
  ra_timeout :: time
  ra_max_pending :: int
  ra_reassembled :: int
  ra_dropped :: int

definition Reassembler_init :: "time \<Rightarrow> int \<Rightarrow> reassembler" where
  "Reassembler_init timeout max_pending =
     \<lparr>ra_sets = [], ra_timeout = timeout, ra_max_pending = max_pending, ra_reassembled = 0, ra_dropped = 0\<rparr>"

definition Reassembler_expire :: "reassembler \<Rightarrow> time \<Rightarrow> reassembler" where
  "Reassembler_expire r now =
     (let stale = map fst (filter (\<lambda>(k, v). now - fs_first_seen v > ra_timeout r) (ra_sets r))
      in fold (\<lambda>key r. r\<lparr>ra_sets := AList.delete key (ra_sets r), ra_dropped := ra_dropped r + 1\<rparr>) stale r)"

text \<open>The first loop of \<open>_try_complete\<close>: the end of the covered prefix, or \<open>None\<close> at a hole.\<close>

fun covered_prefix :: "int \<Rightarrow> (int \<times> bytes) list \<Rightarrow> int option" where
  "covered_prefix cursor [] = Some cursor"
| "covered_prefix cursor ((offset, data) # ordered) =
     (if offset > cursor then None else covered_prefix (max cursor (offset + len data)) ordered)"

text \<open>\<open>buffer[i:j] = data\<close> on a bytearray: both bounds are cut to its length, and when \<open>j\<close> is
  before \<open>i\<close> the data is inserted at \<open>i\<close>.\<close>

definition slice_assign :: "'a list \<Rightarrow> int \<Rightarrow> int \<Rightarrow> 'a list \<Rightarrow> 'a list" where
  "slice_assign buffer i j data = take (nat i) buffer @ data @ drop (nat (max i j)) buffer"

fun write_pieces :: "int \<Rightarrow> (int \<times> bytes) list \<Rightarrow> bytes \<Rightarrow> bytes" where
  "write_pieces total_len [] buffer = buffer"
| "write_pieces total_len ((offset, data) # ordered) buffer =
     (let stop = min (offset + len data) total_len
      in write_pieces total_len ordered (slice_assign buffer offset stop (py_upto data (stop - offset))))"

definition try_complete :: "fragment_set \<Rightarrow> py_error + ipv4_packet option" where
  "try_complete entry =
     (case fs_total_length entry of
        None \<Rightarrow> Inr None
      | Some total_len \<Rightarrow>
          if fs_pieces entry = [] then Inr None
          else
            let ordered = sort_key fst (fs_pieces entry)
            in case covered_prefix 0 ordered of
                 None \<Rightarrow> Inr None
               | Some cursor \<Rightarrow>
                   if cursor < total_len then Inr None
                   else
                     case fs_header entry of
                       None \<Rightarrow> Inl AssertionError
                     | Some head \<Rightarrow>
                         Inr (Some \<lparr>ip_src = ip_src head, ip_dst = ip_dst head, ip_protocol = ip_protocol head,
                           ip_payload = write_pieces total_len ordered (replicate (nat total_len) 0),
                           ip_ttl = ip_ttl head, ip_identification = ip_identification head, ip_flags = 0,
                           ip_fragment_offset = 0, ip_dscp = ip_dscp head, ip_options = []\<rparr>))"

definition fragment_key_of :: "ipv4_packet \<Rightarrow> fragment_key" where
  "fragment_key_of p = (ip_src p, ip_dst p, ip_protocol p, ip_identification p)"

definition add_piece :: "ipv4_packet \<Rightarrow> fragment_set \<Rightarrow> fragment_set" where
  "add_piece packet entry =
     (let offset = ip_fragment_offset packet * 8;
          e1 = entry\<lparr>fs_pieces := AList.update offset (ip_payload packet) (fs_pieces entry)\<rparr>;
          e2 = (if fs_header e1 = None then e1\<lparr>fs_header := Some packet\<rparr> else e1)
      in if ip_flags packet AND FLAG_MF = 0
         then e2\<lparr>fs_total_length := Some (offset + len (ip_payload packet))\<rparr> else e2)"

definition Reassembler_add :: "reassembler \<Rightarrow> ipv4_packet \<Rightarrow> time \<Rightarrow> py_error + reassembler \<times> ipv4_packet option" where
  "Reassembler_add r0 packet now =
     (if \<not> ip_is_fragmented packet then Inr (r0, Some packet)
      else
        let key = fragment_key_of packet;
            r = Reassembler_expire r0 now
        in if map_of (ra_sets r) key = None \<and> len (ra_sets r) \<ge> ra_max_pending r
           then Inr (r\<lparr>ra_dropped := ra_dropped r + 1\<rparr>, None)
           else
             let entry = (case map_of (ra_sets r) key of
                            Some e \<Rightarrow> e
                          | None \<Rightarrow> \<lparr>fs_first_seen = now, fs_total_length = None, fs_header = None,
                                      fs_pieces = []\<rparr>);
                 entry = add_piece packet entry;
                 r1 = r\<lparr>ra_sets := AList.update key entry (ra_sets r)\<rparr>
             in sum_bind (try_complete entry) (\<lambda>rebuilt.
                  case rebuilt of
                    None \<Rightarrow> Inr (r1, None)
                  | Some p \<Rightarrow>
                      Inr (r1\<lparr>ra_sets := AList.delete key (ra_sets r1), ra_reassembled := ra_reassembled r1 + 1\<rparr>,
                           Some p)))"

definition Reassembler_pending :: "reassembler \<Rightarrow> int" where
  "Reassembler_pending r = len (ra_sets r)"

end
