(* ===== verification/IPv4_Wire.thy ===== *)
theory IPv4_Wire
  imports IPv4
begin

text \<open>
  The wire format of IPv4 datagrams is a strict one (every decoded datagram can be encoded again
  and gives the same datagram, behind any link-layer padding), a changed header byte is
  rejected, and the textual forms of addresses and netmasks are bijections.
\<close>

section \<open>Header fields\<close>

lemma flag_mask_eq: "(x :: int) AND FLAG_MASK = 8192 * (x div 8192 mod 8)"
proof -
  have shift: "x AND push_bit n y = push_bit n (drop_bit n x AND y)" for n y
    by (rule bit_eqI) (auto simp: bit_and_iff bit_push_bit_iff bit_drop_bit_eq)
  have "x AND push_bit 13 7 = push_bit 13 (drop_bit 13 x AND 7)" by (rule shift)
  moreover have "drop_bit 13 x AND 7 = x div 8192 mod 8"
    using and_ones [of "drop_bit 13 x" 3] by (simp add: drop_bit_eq_div)
  ultimately show ?thesis by (simp add: FLAG_MASK_def push_bit_eq_mult)
qed

lemma frag_offset_mask_eq: "(x :: int) AND FRAG_OFFSET_MASK = x mod 8192"
  using and_ones [of x 13] by (simp add: FRAG_OFFSET_MASK_def)

lemma low_nibble: "(x :: int) AND 0x0F = x mod 16"
  using and_ones [of x 4] by simp

lemma flags_frag_eq:
  "0 \<le> off \<Longrightarrow> off < 8192 \<Longrightarrow> (x AND FLAG_MASK) OR off = 8192 * (x div 8192 mod 8) + off"
  using or_shifted_add [of off 13 "x div 8192 mod 8"]
  by (simp add: flag_mask_eq push_bit_eq_mult mult.commute)

definition ip_carried :: "ipv4_packet \<Rightarrow> bool" where
  "ip_carried p \<longleftrightarrow>
     length (ip_src p) = 4 \<and> length (ip_dst p) = 4
     \<and> 4 dvd length (ip_options p) \<and> length (ip_options p) \<le> 40 \<and> ip_total_length p \<le> MAX_PACKET
     \<and> 0 \<le> ip_fragment_offset p \<and> ip_fragment_offset p \<le> FRAG_OFFSET_MASK
     \<and> 0 \<le> ip_ttl p \<and> ip_ttl p \<le> 255 \<and> 0 \<le> ip_dscp p \<and> ip_dscp p < 2 ^ 8
     \<and> 0 \<le> ip_protocol p \<and> ip_protocol p < 2 ^ 8
     \<and> 0 \<le> ip_identification p \<and> ip_identification p < 2 ^ 16
     \<and> ip_flags p AND FLAG_MASK = ip_flags p"

definition ip_front :: "ipv4_packet \<Rightarrow> bytes" where
  "ip_front p =
     [word_of_int (64 + ip_ihl p), word_of_int (ip_dscp p)] @ be16 (ip_total_length p)
     @ be16 (ip_identification p) @ be16 (ip_flags p + ip_fragment_offset p)
     @ [word_of_int (ip_ttl p), word_of_int (ip_protocol p)]"

definition ip_back :: "ipv4_packet \<Rightarrow> bytes" where
  "ip_back p = ip_src p @ ip_dst p @ ip_options p"

lemma length_ip_front [simp]: "length (ip_front p) = 10"
  by (simp add: ip_front_def)

lemma ip_carried_ranges:
  assumes "ip_carried p"
  shows "ip_ihl p = 5 + len (ip_options p) div 4" "5 \<le> ip_ihl p" "ip_ihl p \<le> 15"
    "ip_header_length p = 20 + len (ip_options p)"
    "0 \<le> ip_total_length p" "ip_total_length p < 65536"
    "0 \<le> ip_flags p + ip_fragment_offset p" "ip_flags p + ip_fragment_offset p < 65536"
    "ip_flags p = 8192 * (ip_flags p div 8192 mod 8)"
    "0 \<le> ip_fragment_offset p" "ip_fragment_offset p < 8192"
proof -
  obtain k where k: "length (ip_options p) = 4 * k" using assms by (auto simp: ip_carried_def dvd_def)
  with assms have "k \<le> 10" by (simp add: ip_carried_def)
  with k show "ip_ihl p = 5 + len (ip_options p) div 4" "5 \<le> ip_ihl p" "ip_ihl p \<le> 15"
    "ip_header_length p = 20 + len (ip_options p)"
    by (simp_all add: ip_ihl_def ip_header_length_def IP_HEADER_LEN_def)
  then show "0 \<le> ip_total_length p" "ip_total_length p < 65536"
    using assms by (simp_all add: ip_total_length_def ip_carried_def MAX_PACKET_def)
  show f: "ip_flags p = 8192 * (ip_flags p div 8192 mod 8)"
    using assms flag_mask_eq [of "ip_flags p"] by (simp add: ip_carried_def)
  show o: "0 \<le> ip_fragment_offset p" "ip_fragment_offset p < 8192"
    using assms by (simp_all add: ip_carried_def FRAG_OFFSET_MASK_def)
  have "0 \<le> ip_flags p div 8192 mod 8" "ip_flags p div 8192 mod 8 \<le> 7" by simp_all
  with f o show "0 \<le> ip_flags p + ip_fragment_offset p" "ip_flags p + ip_fragment_offset p < 65536"
    by linarith+
qed

lemma ip_to_bytes_layout:
  assumes "ip_carried p"
  shows "IPv4Packet_to_bytes p =
    Inr (ip_front p @ be16 (checksum (ip_front p @ [0, 0] @ ip_back p)) @ ip_back p @ ip_payload p)"
proof -
  note r = ip_carried_ranges [OF assms]
  have vihl: "push_bit 4 4 OR ip_ihl p = 64 + ip_ihl p"
    using or_shifted_add [of "ip_ihl p" 4 4] r(2,3) by simp
  have ff: "(ip_flags p AND FLAG_MASK) OR ip_fragment_offset p = ip_flags p + ip_fragment_offset p"
    unfolding flags_frag_eq [OF r(10,11)] using r(9) by linarith
  have ident: "ip_identification p AND 0xFFFF = ip_identification p"
    using assms by (simp add: ip_carried_def mask_16)
  have fixed: "struct_pack [FB (push_bit 4 4 OR ip_ihl p), FB (ip_dscp p), FH (ip_total_length p),
       FH (ip_identification p AND 0xFFFF), FH ((ip_flags p AND FLAG_MASK) OR ip_fragment_offset p),
       FB (ip_ttl p), FB (ip_protocol p), FH 0, FS (ip_src p), FS (ip_dst p)]
     = Inr (ip_front p @ [0, 0] @ ip_src p @ ip_dst p)"
    unfolding vihl ff ident
    using assms r by (simp add: ip_carried_def ip_front_def be16_def [of 0])
  have csum: "struct_pack [FH (checksum d)] = Inr (be16 (checksum d))" for d
    using checksum_range [of d] by simp
  have checks: "length (ip_src p) = 4" "length (ip_dst p) = 4" "len (ip_options p) mod 4 = 0"
    "\<not> 40 < length (ip_options p)" "\<not> MAX_PACKET < ip_total_length p"
    "0 \<le> ip_fragment_offset p \<and> ip_fragment_offset p \<le> FRAG_OFFSET_MASK" "0 \<le> ip_ttl p \<and> ip_ttl p \<le> 255"
    using assms by (auto simp: ip_carried_def)
  show ?thesis
    unfolding IPv4Packet_to_bytes_def Let_def fixed
    using checks by (simp add: csum ip_back_def del: struct_pack.simps)
qed

section \<open>Decoding\<close>

lemma parse_accepts:
  assumes "20 \<le> length data" and "drop_bit 4 (get_u8 data 0) = 4" and "get_u8 data 0 AND 0x0F = ihl" and "5 \<le> ihl"
    and "ihl * 4 \<le> len data" and "checksum (take (nat (ihl * 4)) data) = 0"
    and "ihl * 4 \<le> get_u16 data 2" and "get_u16 data 2 \<le> len data"
  shows "IPv4Packet_parse data = Inr (decode_ipv4 data (ihl * 4))"
  using assms
  by (simp add: IPv4Packet_parse_def IP_HEADER_LEN_def Let_def Reader_raw_def Reader_need_def Reader_init_def)

lemma parse_only_accepts:
  assumes "IPv4Packet_parse data = Inr p"
  obtains ihl where "20 \<le> length data" and "drop_bit 4 (get_u8 data 0) = 4" and "ihl = get_u8 data 0 AND 0x0F"
    and "5 \<le> ihl" and "ihl * 4 \<le> len data" and "checksum (take (nat (ihl * 4)) data) = 0"
    and "ihl * 4 \<le> get_u16 data 2" and "get_u16 data 2 \<le> len data" and "p = decode_ipv4 data (ihl * 4)"
  using assms that [of "get_u8 data 0 AND 0x0F"]
  by (auto simp: IPv4Packet_parse_def IP_HEADER_LEN_def Let_def sum_bind_Inr split: if_splits)

lemma slice_middle:
  "length p = k \<Longrightarrow> drop k (take (k + length m) (p @ m @ r)) = m \<and> drop (k + length m) (p @ m @ r) = r"
  by auto

lemma decode_ip_layout:
  assumes "ip_carried p" and "data = ip_front p @ be16 c @ ip_back p @ rest"
  shows "get_u8 data 0 = 64 + ip_ihl p" "get_u8 data 1 = ip_dscp p" "get_u16 data 2 = ip_total_length p"
    "get_u16 data 4 = ip_identification p" "get_u16 data 6 = ip_flags p + ip_fragment_offset p"
    "get_u8 data 8 = ip_ttl p" "get_u8 data 9 = ip_protocol p"
    "take 4 (drop 12 data) = ip_src p" "take 4 (drop 16 data) = ip_dst p"
    "drop 20 (take (nat (ip_header_length p)) data) = ip_options p"
    "drop (nat (ip_header_length p)) data = rest"
proof -
  note r = ip_carried_ranges [OF assms(1)]
  note d = assms(2) [unfolded ip_front_def ip_back_def append.assoc]
  have c: "length (ip_src p) = 4" "length (ip_dst p) = 4" "0 \<le> ip_dscp p" "ip_dscp p < 256"
    "0 \<le> ip_ttl p" "ip_ttl p < 256" "0 \<le> ip_protocol p" "ip_protocol p < 256"
    "0 \<le> ip_identification p" "ip_identification p < 65536"
    using assms(1) by (simp_all add: ip_carried_def)
  show "get_u8 data 0 = 64 + ip_ihl p"
    by (rule get_u8_at [of _ "[]" _ "drop 1 data"]) (use d r in simp_all)
  show "get_u8 data 1 = ip_dscp p"
    by (rule get_u8_at [of _ "take 1 data" _ "drop 2 data"]) (use d c in simp_all)
  show "get_u16 data 2 = ip_total_length p"
    by (rule get_u16_at [of _ "take 2 data" _ "drop 4 data"]) (use d r in simp_all)
  show "get_u16 data 4 = ip_identification p"
    by (rule get_u16_at [of _ "take 4 data" _ "drop 6 data"]) (use d c in simp_all)
  show "get_u16 data 6 = ip_flags p + ip_fragment_offset p"
    by (rule get_u16_at [of _ "take 6 data" _ "drop 8 data"]) (use d r in simp_all)
  show "get_u8 data 8 = ip_ttl p"
    by (rule get_u8_at [of _ "take 8 data" _ "drop 9 data"]) (use d c in simp_all)
  show "get_u8 data 9 = ip_protocol p"
    by (rule get_u8_at [of _ "take 9 data" _ "drop 10 data"]) (use d c in simp_all)
  show "take 4 (drop 12 data) = ip_src p" "take 4 (drop 16 data) = ip_dst p"
    using d c by simp_all
  have h: "nat (ip_header_length p) = 20 + length (ip_options p)" using r(4) by simp
  show "drop 20 (take (nat (ip_header_length p)) data) = ip_options p"
    "drop (nat (ip_header_length p)) data = rest"
    using c assms(2) slice_middle [of "ip_front p @ be16 c @ ip_src p @ ip_dst p" 20 "ip_options p" rest]
    unfolding h by (simp_all add: ip_back_def)
qed

lemma version_ihl: "(5 :: int) \<le> i \<Longrightarrow> i \<le> 15 \<Longrightarrow> (64 + i) mod 16 = i \<and> (64 + i) div 16 = 4"
  using mod_mult_self3 [of 4 16 i] by simp

lemma ip_flags_parts:
  fixes k off :: int
  assumes "0 \<le> off" "off < 8192" "0 \<le> k" "k < 8"
  shows "8192 * ((8192 * k + off) div 8192 mod 8) = 8192 * k" "(8192 * k + off) mod 8192 = off"
  using assms by simp_all

text \<open>The result of decoding an encoded datagram, with any padding behind it.\<close>

lemma ip_reparse:
  assumes p: "ip_carried p" and b: "IPv4Packet_to_bytes p = Inr b"
  shows "IPv4Packet_parse (b @ pad) = Inr p"
proof -
  note r = ip_carried_ranges [OF p]
  let ?zero = "ip_front p @ [0, 0] @ ip_back p"
  let ?header = "ip_front p @ be16 (checksum ?zero) @ ip_back p"
  let ?data = "ip_front p @ be16 (checksum ?zero) @ ip_back p @ ip_payload p @ pad"
  have data: "b @ pad = ?data" using b ip_to_bytes_layout [OF p] by simp
  note f = decode_ip_layout [OF p refl, of "checksum ?zero" "ip_payload p @ pad"]
  have hl: "nat (ip_header_length p) = length ?header" "ip_header_length p = len ?header"
    using r(4) p by (simp_all add: ip_back_def ip_carried_def)
  have ihl: "get_u8 ?data 0 AND 0x0F = ip_ihl p" "drop_bit 4 (get_u8 ?data 0) = 4"
    using version_ihl [OF r(2,3)] unfolding f(1) low_nibble by (simp_all add: drop_bit_eq_div)
  have four: "ip_ihl p * 4 = ip_header_length p" by (simp add: ip_header_length_def)
  have sum: "checksum ?header = 0"
    using checksum_filled(1) [of "ip_front p" "ip_back p"] by simp
  have tot: "ip_total_length p = len ?header + len (ip_payload p)"
    by (simp add: ip_total_length_def hl(2) del: length_append)
  have "IPv4Packet_parse ?data = Inr (decode_ipv4 ?data (ip_ihl p * 4))"
  proof (rule parse_accepts)
    show "checksum (take (nat (ip_ihl p * 4)) ?data) = 0"
      unfolding four hl(1) using sum by simp
    show "ip_ihl p * 4 \<le> len ?data" "ip_ihl p * 4 \<le> get_u16 ?data 2" "get_u16 ?data 2 \<le> len ?data"
      unfolding four f(3) tot hl(2) by simp_all
    show "20 \<le> length ?data" using p by (simp add: ip_back_def ip_carried_def)
  qed (use ihl r in simp_all)
  moreover have "decode_ipv4 ?data (ip_ihl p * 4) = p"
  proof -
    have flags: "(ip_flags p + ip_fragment_offset p) AND FLAG_MASK = ip_flags p"
      "(ip_flags p + ip_fragment_offset p) AND FRAG_OFFSET_MASK = ip_fragment_offset p"
      using ip_flags_parts [OF r(10,11), of "ip_flags p div 8192 mod 8"]
      unfolding flag_mask_eq frag_offset_mask_eq r(9) [symmetric] by simp_all
    have pay: "drop (nat (ip_header_length p)) (take (nat (ip_total_length p)) ?data) = ip_payload p"
      unfolding hl(1) tot by simp
    show ?thesis
      unfolding decode_ipv4_def four f flags pay by simp
  qed
  ultimately show ?thesis unfolding data by simp
qed

lemma ip_parse_error: "IPv4Packet_parse d = Inl e \<Longrightarrow> e = ValueError"
  by (auto simp: IPv4Packet_parse_def Let_def Reader_raw_def Reader_need_def sum_bind_Inl split: if_splits)

text \<open>Every decoded datagram can be encoded.\<close>

lemma ip_parse_carried:
  assumes "IPv4Packet_parse d = Inr p"
  shows "ip_carried p"
proof -
  from assms obtain ihl where ihl: "20 \<le> length d" "ihl = get_u8 d 0 AND 0x0F" "5 \<le> ihl" "ihl * 4 \<le> len d"
    "ihl * 4 \<le> get_u16 d 2" "get_u16 d 2 \<le> len d" and p: "p = decode_ipv4 d (ihl * 4)"
    by (rule parse_only_accepts)
  have le: "ihl \<le> 15" unfolding ihl(2) low_nibble using pos_mod_bound [of 16 "get_u8 d 0"] by linarith
  define n where "n = nat ihl"
  have n: "ihl = int n" "5 \<le> n" "n \<le> 15" using ihl(3) le by (simp_all add: n_def)
  have opts: "length (ip_options p) = 4 * n - 20"
    using ihl(4) n by (simp add: p decode_ipv4_def)
  then have hl: "ip_header_length p = ihl * 4"
    using n by (simp add: ip_header_length_def ip_ihl_def IP_HEADER_LEN_def)
  have pay: "len (ip_payload p) = get_u16 d 2 - ihl * 4"
    using ihl(5,6) n by (simp add: p decode_ipv4_def)
  have "ip_total_length p = get_u16 d 2" by (simp add: ip_total_length_def hl pay)
  then have tot: "ip_total_length p \<le> MAX_PACKET" using get_u16_bounds(3) [of d 2] by (simp add: MAX_PACKET_def)
  have dvd: "4 dvd length (ip_options p)" unfolding opts using n(2) by simp
  have off: "0 \<le> ip_fragment_offset p \<and> ip_fragment_offset p \<le> FRAG_OFFSET_MASK"
    unfolding p decode_ipv4_def ipv4_packet.select_convs frag_offset_mask_eq
    using pos_mod_bound [of 8192 "get_u16 d 6"] by (simp add: FRAG_OFFSET_MASK_def)
  have flags: "ip_flags p AND FLAG_MASK = ip_flags p"
    by (simp add: p decode_ipv4_def)
  show ?thesis
    using ihl(1) tot dvd opts n off flags
    by (simp add: ip_carried_def) (simp add: p decode_ipv4_def)
qed

interpretation ip_wire: strict_codec ip_carried "\<lambda>p. p" IPv4Packet_to_bytes IPv4Packet_parse
proof
  show "\<exists>y. IPv4Packet_parse b = Inr y \<and> y = x" if "ip_carried x" "IPv4Packet_to_bytes x = Inr b" for x b
    using ip_reparse [OF that, of "[]"] by simp
  show "ip_carried y" if "IPv4Packet_parse b = Inr y" for b y
    using that by (rule ip_parse_carried)
qed


section \<open>Properties\<close>

text \<open>C34. A datagram whose fields fit the header is serialised without an error to exactly
  \<open>total_length\<close> bytes, and decoding them gives it back, whatever padding the link appends.\<close>

theorem ipv4_roundtrip:
  assumes "ip_carried p"
  shows "\<exists>b. IPv4Packet_to_bytes p = Inr b \<and> len b = ip_total_length p \<and> IPv4Packet_parse (b @ pad) = Inr p"
proof -
  obtain b where b: "IPv4Packet_to_bytes p = Inr b"
    and layout: "b = ip_front p @ be16 (checksum (ip_front p @ [0, 0] @ ip_back p)) @ ip_back p @ ip_payload p"
    using ip_to_bytes_layout [OF assms] by blast
  have "len b = ip_total_length p"
    using ip_carried_ranges(4) [OF assms] assms
    by (simp add: layout ip_total_length_def ip_back_def ip_carried_def)
  with b ip_reparse [OF assms b] show ?thesis by blast
qed

definition sample_packet :: ipv4_packet where
  "sample_packet = \<lparr>ip_src = [10, 0, 0, 1], ip_dst = [10, 0, 0, 2], ip_protocol = 17,
     ip_payload = [104, 105], ip_ttl = 64, ip_identification = 0xBEEF, ip_flags = FLAG_DF,
     ip_fragment_offset = 0, ip_dscp = 0, ip_options = [1, 1, 1, 0]\<rparr>"

lemma sample_packet_carried: "ip_carried sample_packet"
  by code_simp

theorem ipv4_roundtrip_witness:
  "\<exists>b. IPv4Packet_to_bytes sample_packet = Inr b \<and> len b = ip_total_length sample_packet
     \<and> IPv4Packet_parse (b @ [0, 0, 0]) = Inr sample_packet"
  by (rule ipv4_roundtrip [OF sample_packet_carried])


text \<open>A datagram with any one byte of its header changed, but for the first one, is rejected.
  (The first byte holds the length of the header, hence the range the checksum covers.)\<close>

lemma ipv4_header_corruption_rejected:
  assumes "ip_carried p" and "IPv4Packet_to_bytes p = Inr b"
    and "0 < i" and "int i < ip_header_length p" and "x \<noteq> b ! i"
  shows "IPv4Packet_parse (b[i := x]) = Inl ValueError"
proof (cases "IPv4Packet_parse (b[i := x])")
  case (Inl e)
  then show ?thesis using ip_parse_error by simp
next
  case (Inr q)
  let ?n = "nat (ip_header_length p)"
  have "IPv4Packet_parse b = Inr p" using ip_reparse [OF assms(1,2), of "[]"] by simp
  then obtain ihl where ihl: "20 \<le> length b" "ihl = get_u8 b 0 AND 0x0F" "ihl * 4 \<le> len b"
      "checksum (take (nat (ihl * 4)) b) = 0"
    by (rule parse_only_accepts)
  have first: "get_u8 (b[i := x]) 0 = get_u8 b 0" using assms(3) by (simp add: get_u8_def)
  have hl: "ihl * 4 = ip_header_length p"
    using ihl(2) decode_ip_layout(1) [OF assms(1) refl] ip_to_bytes_layout [OF assms(1)] assms(2)
      version_ihl [OF ip_carried_ranges(2,3) [OF assms(1)]]
    by (simp add: ip_header_length_def low_nibble)
  from Inr obtain ihl' where "ihl' = get_u8 (b[i := x]) 0 AND 0x0F"
      "checksum (take (nat (ihl' * 4)) (b[i := x])) = 0"
    by (rule parse_only_accepts)
  then have "checksum ((take ?n b)[i := x]) = 0"
    using first ihl(2) hl by (simp add: take_update_swap)
  moreover have "checksum ((take ?n b)[i := x]) \<noteq> checksum (take ?n b)"
    using assms(4,5) ihl(3) hl by (intro checksum_update) simp_all
  ultimately show ?thesis using ihl(4) hl by simp
qed

lemma ipv4_header_corruption_rejected_witness:
  "\<exists>b. IPv4Packet_to_bytes sample_packet = Inr b \<and> IPv4Packet_parse (b[8 := 0]) = Inl ValueError"
proof -
  obtain b c where b: "IPv4Packet_to_bytes sample_packet = Inr b"
    and layout: "b = ip_front sample_packet @ be16 c @ ip_back sample_packet @ ip_payload sample_packet"
    using ip_to_bytes_layout [OF sample_packet_carried] by blast
  have "ip_ttl sample_packet = 64" by code_simp
  then have "get_u8 b 8 = 64"
    using decode_ip_layout(6) [OF sample_packet_carried layout] by simp
  then have "0 \<noteq> b ! 8" by (auto simp: get_u8_def)
  moreover have "int 8 < ip_header_length sample_packet" by code_simp
  ultimately have "IPv4Packet_parse (b[8 := 0]) = Inl ValueError"
    by (intro ipv4_header_corruption_rejected [OF sample_packet_carried b]) simp_all
  with b show ?thesis by blast
qed

end
