(* ===== verification/IPv4_Fragment.thy ===== *)
theory IPv4_Fragment
  imports IPv4 "HOL-Library.Multiset"
begin

text \<open>
  Fragmentation and reassembly of \<open>minitcp/net/ipv4.py\<close>: the fragments of a datagram cover its
  payload without a gap and fit the link, in whatever order they arrive the reassembler delivers
  the datagram with the last of them and not before, and it never keeps more sets than it may.
  The last property shows what overlapping fragments can do to the length of the result.
\<close>

section \<open>Consecutive pieces\<close>

fun pieces_from :: "int \<Rightarrow> (int \<times> bytes) list \<Rightarrow> bool" where
  "pieces_from cur [] \<longleftrightarrow> True"
| "pieces_from cur ((offset, data) # ps) \<longleftrightarrow> offset = cur \<and> data \<noteq> [] \<and> pieces_from (cur + len data) ps"

definition piece_item :: "ipv4_packet \<Rightarrow> int \<times> bytes" where
  "piece_item q = (ip_fragment_offset q * 8, ip_payload q)"

abbreviation items_size :: "(int \<times> bytes) list \<Rightarrow> int" where
  "items_size ps \<equiv> dict_bytes ps"

lemma pieces_from_ge: "pieces_from cur ps \<Longrightarrow> (offset, data) \<in> set ps \<Longrightarrow> cur \<le> offset"
  by (induction cur ps rule: pieces_from.induct) fastforce+

lemma pieces_from_sorted: "pieces_from cur ps \<Longrightarrow> sorted (map fst ps) \<and> distinct (map fst ps)"
proof (induction cur ps rule: pieces_from.induct)
  case (2 cur offset data ps)
  have pos: "0 < len data" using 2(2) by simp
  have le: "cur + len data \<le> fst x" if "x \<in> set ps" for x
    using pieces_from_ge [of "cur + len data" ps "fst x" "snd x"] 2(2) that by simp
  have "cur < fst x" if "x \<in> set ps" for x using le [OF that] pos by linarith
  with 2 show ?case by fastforce
qed simp

lemma covered_prefix_complete:
  "pieces_from cur ps \<Longrightarrow> covered_prefix cur ps = Some (cur + items_size ps)"
  by (induction cur ps rule: pieces_from.induct) auto

text \<open>With the last piece and without another one there is a hole.\<close>

lemma covered_prefix_gap:
  "pieces_from cur ps \<Longrightarrow> c < cur \<Longrightarrow> filter P ps \<noteq> [] \<Longrightarrow> covered_prefix c (filter P ps) = None"
proof (induction cur ps rule: pieces_from.induct)
  case (2 cur offset data ps)
  then show ?case using 2(1) [of] by (cases "P (offset, data)") auto
qed simp

lemma covered_prefix_missing:
  "pieces_from cur (ps @ [z]) \<Longrightarrow> P z \<Longrightarrow> \<exists>x \<in> set ps. \<not> P x \<Longrightarrow>
     covered_prefix cur (filter P (ps @ [z])) = None"
proof (induction ps arbitrary: cur)
  case (Cons x ps)
  obtain offset data where x: "x = (offset, data)" by (cases x)
  show ?case
  proof (cases "P x")
    case True
    with Cons x show ?thesis by auto
  next
    case False
    then have "filter P ((x # ps) @ [z]) = filter P (ps @ [z])" by simp
    moreover have "covered_prefix cur (filter P (ps @ [z])) = None"
      using Cons.prems x by (intro covered_prefix_gap [of "cur + len data"]) (auto simp: neq_Nil_conv)
    ultimately show ?thesis by simp
  qed
qed simp

text \<open>Writing the pieces in order fills the buffer.\<close>

lemma write_pieces_complete:
  "pieces_from cur ps \<Longrightarrow> 0 \<le> cur \<Longrightarrow> len buffer = n \<Longrightarrow> cur + items_size ps = n \<Longrightarrow>
     write_pieces n ps buffer = take (nat cur) buffer @ concat (map snd ps)"
proof (induction cur ps arbitrary: buffer rule: pieces_from.induct)
  case (2 cur offset data ps)
  let ?buffer = "take (nat cur) buffer @ data @ drop (nat (cur + len data)) buffer"
  have le: "cur + len data \<le> n" using 2 dict_bytes_nonneg [of ps] by (simp del: dict_bytes_nonneg)
  have "write_pieces n ((offset, data) # ps) buffer = write_pieces n ps ?buffer"
    using 2 le by (simp add: slice_assign_def)
  also have "\<dots> = take (nat (cur + len data)) ?buffer @ concat (map snd ps)"
    using 2 le by (intro 2(1)) auto
  also have "take (nat (cur + len data)) ?buffer = take (nat cur) buffer @ data"
    using 2 le by (simp add: nat_add_distrib)
  finally show ?case by simp
qed auto


section \<open>What fragmentation produces\<close>

lemma fragment_piece_fields [simp]:
  "ip_payload (fragment_piece p off chunk mf) = chunk"
  "ip_fragment_offset (fragment_piece p off chunk mf) = off div 8"
  "ip_options (fragment_piece p off chunk mf) = []"
  "fragment_key_of (fragment_piece p off chunk mf) = fragment_key_of p"
  "ip_ttl (fragment_piece p off chunk mf) = ip_ttl p" "ip_dscp (fragment_piece p off chunk mf) = ip_dscp p"
  by (simp_all add: fragment_piece_def fragment_key_of_def)

lemma fragment_piece_flags:
  "\<not> ip_dont_fragment p \<Longrightarrow> ip_flags (fragment_piece p off chunk mf) = (if mf then FLAG_MF else 0)"
  by (simp add: fragment_piece_def ip_dont_fragment_def)

definition more_fragments :: "ipv4_packet \<Rightarrow> bool" where
  "more_fragments q \<longleftrightarrow> ip_flags q AND FLAG_MF \<noteq> 0"

lemma fragment_piece_more: "\<not> ip_dont_fragment p \<Longrightarrow> more_fragments (fragment_piece p off chunk mf) = mf"
  by (simp add: more_fragments_def fragment_piece_flags FLAG_MF_def)

text \<open>Fields every fragment shares with the datagram.\<close>

definition same_header :: "ipv4_packet \<Rightarrow> ipv4_packet \<Rightarrow> bool" where
  "same_header p q \<longleftrightarrow>
     fragment_key_of q = fragment_key_of p \<and> ip_ttl q = ip_ttl p \<and> ip_dscp q = ip_dscp p \<and> ip_options q = []"

lemma fragment_loop_pieces:
  assumes "0 < m" and "8 dvd m" and "off < length (ip_payload p) \<longrightarrow> 8 dvd off" and "off \<le> length (ip_payload p)"
    and "\<not> ip_dont_fragment p"
  shows "pieces_from (int off) (map piece_item (fragment_loop p m off))
    \<and> concat (map ip_payload (fragment_loop p m off)) = drop off (ip_payload p)
    \<and> (\<forall>q \<in> set (fragment_loop p m off). same_header p q \<and> length (ip_payload q) \<le> m)
    \<and> (off < length (ip_payload p) \<longrightarrow>
         (\<exists>qs z. fragment_loop p m off = qs @ [z] \<and> list_all more_fragments qs \<and> \<not> more_fragments z))"
  using assms
proof (induction p m off rule: fragment_loop.induct)
  case (1 p m off)
  show ?case
  proof (cases "off < length (ip_payload p)")
    case False
    then show ?thesis by (simp add: fragment_loop.simps [of p m off])
  next
    case True
    define chunk where "chunk = take m (drop off (ip_payload p))"
    define nxt where "nxt = off + length chunk"
    let ?q = "fragment_piece p (int off) chunk (nxt < length (ip_payload p))"
    have loop: "fragment_loop p m off = ?q # fragment_loop p m nxt"
      using True 1(2) by (subst fragment_loop.simps) (simp add: Let_def chunk_def nxt_def)
    have nxt: "nxt \<le> length (ip_payload p)" "nxt < length (ip_payload p) \<longrightarrow> 8 dvd nxt" "chunk \<noteq> []"
      using True 1(2-4) by (auto simp: nxt_def chunk_def min_def)
    have off: "int off div 8 * 8 = int off" using 1(4) True by auto
    note IH = 1(1) [of chunk "nxt < length (ip_payload p)"]
    have IH': "pieces_from (int nxt) (map piece_item (fragment_loop p m nxt))"
      "concat (map ip_payload (fragment_loop p m nxt)) = drop nxt (ip_payload p)"
      "\<forall>q \<in> set (fragment_loop p m nxt). same_header p q \<and> length (ip_payload q) \<le> m"
      "nxt < length (ip_payload p) \<Longrightarrow> \<exists>qs z. fragment_loop p m nxt = qs @ [z] \<and> list_all more_fragments qs \<and> \<not> more_fragments z"
      using 1(1) [OF _ chunk_def, folded nxt_def] True 1(2,3,6) nxt by simp_all
    have "chunk @ drop nxt (ip_payload p) = drop off (ip_payload p)"
      by (auto simp: nxt_def chunk_def min_def) (metis append_take_drop_id drop_drop add.commute)
    moreover have "pieces_from (int off) (map piece_item (?q # fragment_loop p m nxt))"
      using IH'(1) nxt(3) off by (simp add: piece_item_def nxt_def)
    moreover have "\<exists>qs z. ?q # fragment_loop p m nxt = qs @ [z] \<and> list_all more_fragments qs \<and> \<not> more_fragments z"
    proof (cases "nxt < length (ip_payload p)")
      case more: True
      then obtain qs z where "fragment_loop p m nxt = qs @ [z]" "list_all more_fragments qs" "\<not> more_fragments z"
        using IH'(4) by blast
      then show ?thesis
        using more fragment_piece_more [OF 1(6)] by (intro exI [of _ "?q # qs"] exI [of _ z]) simp
    next
      case False
      then show ?thesis
        using fragment_piece_more [OF 1(6)] fragment_loop.simps [of p m nxt]
        by (intro exI [of _ "[]"] exI [of _ ?q]) simp
    qed
    moreover have "same_header p ?q" "length (ip_payload ?q) \<le> m"
      by (simp_all add: same_header_def chunk_def)
    ultimately show ?thesis unfolding loop using IH'(2,3) by simp
  qed
qed

section \<open>Fragments of a datagram\<close>

text \<open>What \<open>fragment\<close> promises about the list it returns for a datagram that does not fit.\<close>

definition fragments_of :: "ipv4_packet \<Rightarrow> ipv4_packet list \<Rightarrow> bool" where
  "fragments_of p qs \<longleftrightarrow>
     pieces_from 0 (map piece_item qs) \<and> concat (map ip_payload qs) = ip_payload p
     \<and> list_all (same_header p) qs
     \<and> (\<exists>rs z. qs = rs @ [z] \<and> list_all more_fragments rs \<and> \<not> more_fragments z)"

lemma and_not_7: "(x :: int) AND NOT 7 = 8 * (x div 8)"
proof -
  have "x AND NOT 7 = x AND NOT (mask 3)" by (simp add: mask_eq_exp_minus_1)
  also have "\<dots> = push_bit 3 (drop_bit 3 x)"
    by (rule bit_eqI) (auto simp: bit_and_iff bit_not_iff bit_mask_iff bit_push_bit_iff bit_drop_bit_eq)
  finally show ?thesis by (simp add: push_bit_eq_mult drop_bit_eq_div)
qed

lemma fragment_splits:
  assumes "fragment p mtu = Inr qs" and "mtu < ip_total_length p"
  shows "fragments_of p qs \<and> (\<forall>q \<in> set qs. ip_total_length q \<le> mtu) \<and> 2 \<le> length qs"
proof -
  define m where "m = nat ((mtu - ip_header_length p) AND NOT 7)"
  from assms have df: "\<not> ip_dont_fragment p" and m: "0 < m" and qs: "qs = fragment_loop p m 0"
    by (auto simp: fragment_def ip_total_length_def m_def Let_def split: if_splits)
  have m_eq: "m = 8 * nat ((mtu - ip_header_length p) div 8)" "int m \<le> mtu - ip_header_length p"
  proof -
    let ?q = "(mtu - ip_header_length p) div 8"
    have "m = nat (8 * ?q)" unfolding m_def and_not_7 ..
    with m have "0 < ?q" "m = 8 * nat ?q" by (simp_all add: nat_mult_distrib)
    then show "m = 8 * nat ?q" "int m \<le> mtu - ip_header_length p" by simp_all
  qed
  have ne: "0 < length (ip_payload p)"
  proof (rule ccontr)
    assume "\<not> 0 < length (ip_payload p)"
    then have "ip_total_length p = ip_header_length p" by (simp add: ip_total_length_def)
    with assms(2) m_eq(2) show False by simp
  qed
  note loop = fragment_loop_pieces [of m 0 p, folded qs]
  have "20 \<le> ip_header_length p" by (simp add: ip_header_length_def ip_ihl_def IP_HEADER_LEN_def)
  then have "ip_total_length q \<le> mtu" if "same_header p q" "length (ip_payload q) \<le> m" for q
    using that m_eq(2)
    by (simp add: ip_total_length_def ip_header_length_def ip_ihl_def same_header_def IP_HEADER_LEN_def)
  moreover have "fragments_of p qs" using loop m m_eq(1) df ne by (simp add: fragments_of_def list_all_iff)
  moreover have "2 \<le> length qs"
  proof (rule ccontr)
    assume "\<not> 2 \<le> length qs"
    moreover obtain rs z where "qs = rs @ [z]" "concat (map ip_payload qs) = ip_payload p"
      using \<open>fragments_of p qs\<close> by (auto simp: fragments_of_def)
    ultimately have z: "qs = [z]" "ip_payload z = ip_payload p" by (auto simp: Suc_le_eq)
    have "8 dvd m" using m_eq(1) by simp
    then have "length (ip_payload z) \<le> m" using loop m df z(1) by auto
    with z(2) m_eq(2) assms(2) show False by (simp add: ip_total_length_def)
  qed
  moreover have "\<forall>q \<in> set qs. same_header p q \<and> length (ip_payload q) \<le> m"
    using loop m m_eq(1) df by simp
  ultimately show ?thesis by blast
qed

lemma fragments_fragmented:
  assumes "fragments_of p qs" and "2 \<le> length qs"
  shows "list_all ip_is_fragmented qs"
proof -
  obtain rs z where z: "qs = rs @ [z]" "list_all more_fragments rs"
    using assms(1) by (auto simp: fragments_of_def)
  then obtain r rs' where r: "rs = r # rs'" using assms(2) by (cases rs) auto
  obtain offset data where i: "piece_item z = (offset, data)" by (cases "piece_item z")
  have p: "pieces_from 0 (piece_item r # map piece_item rs' @ [piece_item z])"
    using assms(1) z r by (simp add: fragments_of_def)
  obtain o' d' where r': "piece_item r = (o', d')" by (cases "piece_item r")
  have "len d' \<le> offset"
    using p pieces_from_ge [of "len d'" "map piece_item rs' @ [piece_item z]" offset data] i r' by simp
  moreover have "d' \<noteq> []" using p r' by simp
  ultimately have "0 < offset" by (cases d') simp_all
  with i have "0 < ip_fragment_offset z" by (simp add: piece_item_def)
  with z show ?thesis by (auto simp: list_all_iff ip_is_fragmented_def more_fragments_def)
qed

text \<open>Fragmenting a datagram that does not fit the link (when it may be fragmented at all)
  gives pieces that each fit, follow each other without gap or overlap from offset zero, carry the
  payload between them, keep the header fields, and announce further fragments in all but the
  last.\<close>

lemma fragment_covers:
  assumes "MIN_MTU \<le> mtu" and "mtu < ip_total_length p" and "ip_header_length p \<le> 60" and "\<not> ip_dont_fragment p"
  shows "\<exists>qs. fragment p mtu = Inr qs \<and> fragments_of p qs \<and> (\<forall>q \<in> set qs. ip_total_length q \<le> mtu)"
proof -
  have "8 \<le> mtu - ip_header_length p" using assms(1,3) by (simp add: MIN_MTU_def)
  then have "1 \<le> (mtu - ip_header_length p) div 8" by (simp add: pos_imp_zdiv_pos_iff int_one_le_iff_zero_less)
  then have "0 < (mtu - ip_header_length p) AND NOT 7" unfolding and_not_7 by simp
  then obtain qs where "fragment p mtu = Inr qs"
    using assms by (auto simp: fragment_def ip_total_length_def Let_def)
  with fragment_splits [OF this assms(2)] show ?thesis by blast
qed

section \<open>Collecting fragments\<close>

lemma pieces_from_item:
  "pieces_from c (piece_item q # ps) \<longleftrightarrow>
     ip_fragment_offset q * 8 = c \<and> ip_payload q \<noteq> [] \<and> pieces_from (c + len (ip_payload q)) ps"
  by (simp add: piece_item_def)

lemma snd_piece_item: "snd \<circ> piece_item = ip_payload"
  by (auto simp: piece_item_def)

lemma fragments_of_distinct:
  assumes "fragments_of p qs"
  shows "distinct qs" and "inj_on (\<lambda>q. fst (piece_item q)) (set qs)"
proof -
  have "distinct (map (\<lambda>q. fst (piece_item q)) qs)"
    using assms pieces_from_sorted by (fastforce simp: fragments_of_def o_def)
  then show "distinct qs" "inj_on (\<lambda>q. fst (piece_item q)) (set qs)"
    by (simp_all add: distinct_map)
qed

lemma payload_size: "len (concat (map ip_payload qs)) = items_size (map piece_item qs)"
  by (induction qs) (simp_all add: piece_item_def)

lemma fragments_of_last:
  assumes "fragments_of p qs" and "q \<in> set qs" and "\<not> more_fragments q"
  shows "ip_fragment_offset q * 8 + len (ip_payload q) = len (ip_payload p)"
    and "\<exists>rs. qs = rs @ [q]"
proof -
  obtain rs z where z: "qs = rs @ [z]" "list_all more_fragments rs"
    using assms(1) by (auto simp: fragments_of_def)
  with assms(2,3) have q: "q = z" by (auto simp: list_all_iff)
  with z(1) show "\<exists>rs. qs = rs @ [q]" by blast
  have "ip_fragment_offset q * 8 = c + items_size (map piece_item rs)"
    if "pieces_from c (map piece_item (rs @ [q]))" for c rs
    using that
  proof (induction rs arbitrary: c)
    case (Cons r rs)
    from Cons.prems have "ip_fragment_offset r * 8 = c"
      "pieces_from (c + len (ip_payload r)) (map piece_item (rs @ [q]))"
      by (simp_all add: pieces_from_item)
    from Cons.IH [OF this(2)] show ?case by (simp add: piece_item_def [of r])
  qed (simp add: piece_item_def)
  from this [of 0 rs] have "ip_fragment_offset q * 8 = items_size (map piece_item rs)"
    using assms(1) z q by (simp add: fragments_of_def)
  moreover have "len (ip_payload p) = items_size (map piece_item qs)"
    using assms(1) payload_size [of qs] by (simp add: fragments_of_def)
  ultimately show "ip_fragment_offset q * 8 + len (ip_payload q) = len (ip_payload p)"
    using z q by (simp add: piece_item_def)
qed

text \<open>A fragment set that holds the fragments \<open>ds\<close>, in their order of arrival.\<close>

definition collected :: "ipv4_packet \<Rightarrow> time \<Rightarrow> ipv4_packet list \<Rightarrow> fragment_set \<Rightarrow> bool" where
  "collected p t0 ds e \<longleftrightarrow>
     fs_first_seen e = t0 \<and> fs_pieces e = map piece_item ds
     \<and> fs_header e = (if ds = [] then None else Some (hd ds))
     \<and> fs_total_length e = (if list_all more_fragments ds then None else Some (len (ip_payload p)))"

lemma collected_add:
  assumes "fragments_of p qs" and "collected p t0 ds e" and "set (ds @ [q]) \<subseteq> set qs" and "distinct (ds @ [q])"
  shows "collected p t0 (ds @ [q]) (add_piece q e)"
proof -
  have "fst (piece_item q) \<notin> set (dict_keys (map piece_item ds))"
    using fragments_of_distinct(2) [OF assms(1)] assms(3,4) by (auto simp: inj_on_def)
  then have upd: "AList.update (fst (piece_item q)) (snd (piece_item q)) (map piece_item ds)
      = map piece_item (ds @ [q])"
    by (simp add: dict_update_fresh_keys)
  show ?thesis
    using assms(2,3) upd fragments_of_last(1) [OF assms(1), of q]
    by (cases "more_fragments q") (auto simp: collected_def add_piece_def Let_def more_fragments_def piece_item_def)
qed

lemma sort_pieces:
  assumes "fragments_of p qs" and "set ds \<subseteq> set qs" and "distinct ds"
  shows "sort_key fst (map piece_item ds) = map piece_item (filter (\<lambda>q. q \<in> set ds) qs)"
proof (rule sort_key_inj_key_eq)
  note d = fragments_of_distinct [OF assms(1)]
  have inj: "inj_on piece_item (set qs)" using d(2) by (auto simp: inj_on_def)
  have "mset (filter (\<lambda>q. q \<in> set ds) qs) = mset ds"
    using d(1) assms(2,3) by (intro set_eq_iff_mset_eq_distinct [THEN iffD1]) auto
  then show "mset (map piece_item ds) = mset (map piece_item (filter (\<lambda>q. q \<in> set ds) qs))"
    by simp
  show "inj_on fst (set (map piece_item ds))"
    using d(2) assms(2) by (auto simp: inj_on_def)
  have "sorted (map fst (map piece_item qs))"
    using assms(1) pieces_from_sorted [of 0 "map piece_item qs"] unfolding fragments_of_def by blast
  then show "sorted (map fst (map piece_item (filter (\<lambda>q. q \<in> set ds) qs)))"
    using sorted_filter [of "\<lambda>q. fst (piece_item q)" qs] by (simp add: o_def)
qed

definition reassembled :: "ipv4_packet \<Rightarrow> ipv4_packet" where
  "reassembled p = p\<lparr>ip_flags := 0, ip_fragment_offset := 0, ip_options := []\<rparr>"

lemma try_complete_collected:
  assumes fr: "fragments_of p qs" and e: "collected p t0 ds e" and ds: "set ds \<subseteq> set qs" "distinct ds" "ds \<noteq> []"
  shows "try_complete e = Inr (if set ds = set qs then Some (reassembled p) else None)"
proof -
  obtain rs z where z: "qs = rs @ [z]" "list_all more_fragments rs" "\<not> more_fragments z"
    using fr by (auto simp: fragments_of_def)
  have run: "pieces_from 0 (map piece_item qs)" using fr by (simp add: fragments_of_def)
  have sorted: "sort_key fst (fs_pieces e) = map piece_item (filter (\<lambda>q. q \<in> set ds) qs)"
    using sort_pieces [OF fr ds(1,2)] e by (simp add: collected_def)
  have last: "list_all more_fragments ds \<longleftrightarrow> z \<notin> set ds"
    using ds(1) z by (auto simp: list_all_iff)
  show ?thesis
  proof (cases "set ds = set qs")
    case True
    then have all: "filter (\<lambda>q. q \<in> set ds) qs = qs" by simp
    have total: "fs_total_length e = Some (len (ip_payload p))" "fs_header e = Some (hd ds)" "fs_pieces e \<noteq> []"
      using True e last z ds(3) by (auto simp: collected_def)
    have size: "items_size (map piece_item qs) = len (ip_payload p)"
      using fr payload_size [of qs] by (simp add: fragments_of_def)
    have head: "same_header p (hd ds)" using fr True ds(3) hd_in_set by (fastforce simp: fragments_of_def list_all_iff)
    have "write_pieces (len (ip_payload p)) (map piece_item qs) (replicate (nat (len (ip_payload p))) 0) = ip_payload p"
      using write_pieces_complete [OF run, of "replicate (nat (len (ip_payload p))) 0"] size fr
      by (simp add: fragments_of_def snd_piece_item)
    then show ?thesis
      using total size covered_prefix_complete [OF run] head True
      by (simp add: try_complete_def sorted all Let_def reassembled_def same_header_def fragment_key_of_def)
  next
    case False
    show ?thesis
    proof (cases "z \<in> set ds")
      case True
      let ?P = "\<lambda>x. x \<in> piece_item ` set ds"
      have inj: "inj_on piece_item (set qs)"
        using fragments_of_distinct(2) [OF fr] by (auto simp: inj_on_def)
      then have mem: "piece_item q \<in> piece_item ` set ds \<longleftrightarrow> q \<in> set ds" if "q \<in> set qs" for q
        using that ds(1) by (auto simp: inj_on_def)
      obtain q where "q \<in> set qs" "q \<notin> set ds" using False ds(1) by blast
      with True z(1) mem have "\<exists>x \<in> set (map piece_item rs). \<not> ?P x" by fastforce
      then have "covered_prefix 0 (filter ?P (map piece_item qs)) = None"
        using covered_prefix_missing [of 0 "map piece_item rs" "piece_item z" ?P] run True z(1) by simp
      moreover have "filter ?P (map piece_item qs) = map piece_item (filter (\<lambda>q. q \<in> set ds) qs)"
        using mem by (simp add: filter_map o_def cong: filter_cong)
      ultimately show ?thesis
        using False by (simp add: try_complete_def sorted Let_def split: option.split)
    next
      case no_last: False
      with last e have "fs_total_length e = None" by (simp add: collected_def)
      with False show ?thesis by (simp add: try_complete_def)
    qed
  qed
qed

section \<open>Delivery in any order\<close>

fun deliver :: "reassembler \<Rightarrow> (ipv4_packet \<times> time) list \<Rightarrow> py_error + reassembler \<times> ipv4_packet option list" where
  "deliver r [] = Inr (r, [])"
| "deliver r ((packet, now) # arrivals) =
     sum_bind (Reassembler_add r packet now) (\<lambda>(r', result).
     sum_bind (deliver r' arrivals) (\<lambda>(r'', results). Inr (r'', result # results)))"

lemma expire_eq:
  "Reassembler_expire r now =
     (let stale = map fst (filter (\<lambda>(k, v). now - fs_first_seen v > ra_timeout r) (ra_sets r))
      in r\<lparr>ra_sets := fold AList.delete stale (ra_sets r), ra_dropped := ra_dropped r + len stale\<rparr>)"
proof -
  have "fold (\<lambda>key r. r\<lparr>ra_sets := AList.delete key (ra_sets r), ra_dropped := ra_dropped r + 1\<rparr>) ks r
      = r\<lparr>ra_sets := fold AList.delete ks (ra_sets r), ra_dropped := ra_dropped r + len ks\<rparr>" for ks
    by (induction ks arbitrary: r) simp_all
  then show ?thesis by (simp add: Reassembler_expire_def Let_def)
qed

lemma expire_frame [simp]:
  "ra_timeout (Reassembler_expire r now) = ra_timeout r"
  "ra_max_pending (Reassembler_expire r now) = ra_max_pending r"
  by (simp_all add: expire_eq Let_def)

lemma expire_sets:
  assumes "dict_wf (ra_sets r)"
  shows "dict_wf (ra_sets (Reassembler_expire r now))"
    and "length (ra_sets (Reassembler_expire r now)) \<le> length (ra_sets r)"
    and "map_of (ra_sets r) k = None \<Longrightarrow> map_of (ra_sets (Reassembler_expire r now)) k = None"
    and "map_of (ra_sets r) k = Some e \<Longrightarrow> now - fs_first_seen e \<le> ra_timeout r \<Longrightarrow>
           map_of (ra_sets (Reassembler_expire r now)) k = Some e"
  using assms by (auto simp: expire_eq Let_def dict_fold_delete dest: eq_key_imp_eq_value)

text \<open>The reassembler holds the fragments \<open>ds\<close> of one datagram; with none it has room for them.\<close>

definition holds :: "ipv4_packet \<Rightarrow> time \<Rightarrow> ipv4_packet list \<Rightarrow> reassembler \<Rightarrow> bool" where
  "holds p t0 ds r \<longleftrightarrow> dict_wf (ra_sets r) \<and>
     (if ds = [] then map_of (ra_sets r) (fragment_key_of p) = None \<and> len (ra_sets r) < ra_max_pending r
      else \<exists>e. map_of (ra_sets r) (fragment_key_of p) = Some e \<and> collected p t0 ds e)"

lemma add_fragment:
  assumes fr: "fragments_of p qs" "2 \<le> length qs" and h: "holds p t0 ds r"
    and ds: "set (ds @ [q]) \<subseteq> set qs" "distinct (ds @ [q])"
    and t: "ds = [] \<longrightarrow> now = t0" "now - t0 \<le> ra_timeout r"
  shows "\<exists>r'. Reassembler_add r q now
        = Inr (r', if set (ds @ [q]) = set qs then Some (reassembled p) else None)
     \<and> ra_timeout r' = ra_timeout r
     \<and> (if set (ds @ [q]) = set qs then map_of (ra_sets r') (fragment_key_of p) = None
        else holds p t0 (ds @ [q]) r')"
proof -
  let ?k = "fragment_key_of p" and ?r = "Reassembler_expire r now"
  have q: "ip_is_fragmented q" "fragment_key_of q = ?k"
    using fragments_fragmented [OF fr] ds(1) fr(1)
    by (auto simp: list_all_iff fragments_of_def same_header_def)
  have wf: "dict_wf (ra_sets r)" using h by (simp add: holds_def)
  obtain e where e: "collected p t0 ds e"
    "(case map_of (ra_sets ?r) ?k of Some e \<Rightarrow> e
      | None \<Rightarrow> \<lparr>fs_first_seen = now, fs_total_length = None, fs_header = None, fs_pieces = []\<rparr>) = e"
    "\<not> (map_of (ra_sets ?r) ?k = None \<and> len (ra_sets ?r) \<ge> ra_max_pending ?r)"
  proof (cases "ds = []")
    case True
    with h have none: "map_of (ra_sets ?r) ?k = None" and room: "len (ra_sets r) < ra_max_pending r"
      using expire_sets(3) [OF wf] by (simp_all add: holds_def)
    show thesis
      using True t(1) none room expire_sets(2) [OF wf, of now]
      by (intro that [of "\<lparr>fs_first_seen = now, fs_total_length = None, fs_header = None, fs_pieces = []\<rparr>"])
        (simp_all add: collected_def)
  next
    case False
    with h obtain e where e: "map_of (ra_sets r) ?k = Some e" "collected p t0 ds e"
      by (auto simp: holds_def)
    with t(2) have "map_of (ra_sets ?r) ?k = Some e"
      by (intro expire_sets(4) [OF wf]) (simp_all add: collected_def)
    with that e(2) show thesis by simp
  qed
  define e' where "e' = add_piece q e"
  have e': "collected p t0 (ds @ [q]) e'"
    unfolding e'_def by (rule collected_add [OF fr(1) e(1) ds])
  have complete: "try_complete e' = Inr (if set (ds @ [q]) = set qs then Some (reassembled p) else None)"
    by (rule try_complete_collected [OF fr(1) e' ds]) simp
  have wf': "dict_wf (ra_sets ?r)" by (rule expire_sets(1) [OF wf])
  show ?thesis
    using q e(2,3) complete e' wf'
    by (auto simp: Reassembler_add_def Let_def e'_def [symmetric] holds_def update_conv' AList.delete_conv'
        simp del: set_append)
qed

lemma deliver_fragments:
  assumes fr: "fragments_of p qs" "2 \<le> length qs"
  shows "holds p t0 ds r \<Longrightarrow> set (ds @ map fst as) = set qs \<Longrightarrow> distinct (ds @ map fst as) \<Longrightarrow> as \<noteq> [] \<Longrightarrow>
     (ds = [] \<longrightarrow> snd (hd as) = t0) \<Longrightarrow> \<forall>a \<in> set as. snd a - t0 \<le> ra_timeout r \<Longrightarrow>
     \<exists>r'. deliver r as = Inr (r', replicate (length as - 1) None @ [Some (reassembled p)])
        \<and> map_of (ra_sets r') (fragment_key_of p) = None"
proof (induction as arbitrary: ds r)
  case (Cons a as)
  obtain q now where a: "a = (q, now)" by (cases a)
  have sub: "set (ds @ [q]) \<subseteq> set qs" "distinct (ds @ [q])" "ds = [] \<longrightarrow> now = t0" "now - t0 \<le> ra_timeout r"
    using Cons.prems a by auto
  have full: "set (ds @ [q]) = set qs \<longleftrightarrow> as = []"
    using Cons.prems(2,3) a by (cases as) auto
  obtain r' where r': "Reassembler_add r q now = Inr (r', if as = [] then Some (reassembled p) else None)"
    "ra_timeout r' = ra_timeout r"
    "if as = [] then map_of (ra_sets r') (fragment_key_of p) = None else holds p t0 (ds @ [q]) r'"
    using add_fragment [OF fr Cons.prems(1) sub] unfolding full by blast
  show ?case
  proof (cases "as = []")
    case True
    with r' a show ?thesis by simp
  next
    case False
    then obtain r'' where "deliver r' as = Inr (r'', replicate (length as - 1) None @ [Some (reassembled p)])"
      "map_of (ra_sets r'') (fragment_key_of p) = None"
      using Cons.IH [of "ds @ [q]" r'] Cons.prems r' a by auto
    with False r' a show ?thesis by (cases as) simp_all
  qed
qed simp

text \<open>C36. Fragmentation and reassembly are inverse whatever the order of arrival: when the
  fragments of a datagram arrive in any order within the timeout, at a reassembler that has room for
  them, every call but the last returns nothing and the last one returns the datagram, with the
  fragmentation fields cleared and without its options, and nothing is kept of it.\<close>

theorem reassembly_any_order:
  assumes "fragment p mtu = Inr qs" and "mtu < ip_total_length p"
    and "mset (map fst arrivals) = mset qs"
    and "\<forall>a \<in> set arrivals. snd a - snd (hd arrivals) \<le> ra_timeout r"
    and "dict_wf (ra_sets r)" and "map_of (ra_sets r) (fragment_key_of p) = None"
    and "Reassembler_pending r < ra_max_pending r"
  shows "\<exists>r'. deliver r arrivals
       = Inr (r', replicate (length arrivals - 1) None
                    @ [Some (p\<lparr>ip_flags := 0, ip_fragment_offset := 0, ip_options := []\<rparr>)])
     \<and> map_of (ra_sets r') (fragment_key_of p) = None"
proof -
  have fr: "fragments_of p qs" "2 \<le> length qs" using fragment_splits [OF assms(1,2)] by blast+
  have "set (map fst arrivals) = set qs" "distinct (map fst arrivals)"
    using mset_eq_setD [OF assms(3)] mset_eq_imp_distinct_iff [OF assms(3)] fragments_of_distinct(1) [OF fr(1)]
    by auto
  moreover from this fr(2) have "arrivals \<noteq> []" by auto
  moreover have "holds p (snd (hd arrivals)) [] r"
    using assms(5-7) by (simp add: holds_def Reassembler_pending_def)
  ultimately show ?thesis
    using deliver_fragments [OF fr, of "snd (hd arrivals)" "[]" r arrivals] assms(4)
    by (simp add: reassembled_def)
qed

definition sample_datagram :: ipv4_packet where
  "sample_datagram = \<lparr>ip_src = [10, 0, 0, 1], ip_dst = [10, 0, 0, 2], ip_protocol = 17,
     ip_payload = replicate 100 65, ip_ttl = 64, ip_identification = 7, ip_flags = 0,
     ip_fragment_offset = 0, ip_dscp = 0, ip_options = []\<rparr>"

definition sample_fragments :: "ipv4_packet list" where
  "sample_fragments = projr (fragment sample_datagram 68)"

lemma fragment_covers_witness:
  "\<exists>qs. fragment sample_datagram 68 = Inr qs \<and> fragments_of sample_datagram qs
     \<and> (\<forall>q \<in> set qs. ip_total_length q \<le> 68)"
proof -
  have "MIN_MTU \<le> 68" "68 < ip_total_length sample_datagram" "ip_header_length sample_datagram \<le> 60"
    "\<not> ip_dont_fragment sample_datagram" by code_simp+
  then show ?thesis by (rule fragment_covers)
qed

theorem reassembly_any_order_witness:
  "\<exists>r'. deliver (Reassembler_init 30 64) (zip (rev sample_fragments) [1, 2, 3])
       = Inr (r', replicate (length (zip (rev sample_fragments) [1, 2, 3 :: time]) - 1) None
           @ [Some (sample_datagram\<lparr>ip_flags := 0, ip_fragment_offset := 0, ip_options := []\<rparr>)])
     \<and> map_of (ra_sets r') (fragment_key_of sample_datagram) = None"
proof -
  have ok: "\<not> isl (fragment sample_datagram 68)" "68 < ip_total_length sample_datagram"
    "length sample_fragments = 3" by code_simp+
  have "fragment sample_datagram 68 = Inr sample_fragments" using ok(1) by (simp add: sample_fragments_def)
  moreover have "map fst (zip (rev sample_fragments) [1, 2, 3 :: time]) = rev sample_fragments"
    using ok(3) by simp
  then have "mset (map fst (zip (rev sample_fragments) [1, 2, 3 :: time])) = mset sample_fragments" by simp
  moreover obtain x y z where xyz: "rev sample_fragments = [x, y, z]"
    using ok(3) by (metis (no_types, opaque_lifting) length_0_conv length_Suc_conv length_rev numeral_3_eq_3)
  have "\<forall>a \<in> set (zip (rev sample_fragments) [1, 2, 3]).
      snd a - snd (hd (zip (rev sample_fragments) [1, 2, 3])) \<le> ra_timeout (Reassembler_init 30 64)"
    unfolding xyz by (simp add: Reassembler_init_def)
  ultimately show ?thesis
    using ok(2) by (intro reassembly_any_order) (simp_all add: Reassembler_init_def Reassembler_pending_def)
qed


section \<open>Bounds\<close>

definition reassembler_inv :: "reassembler \<Rightarrow> bool" where
  "reassembler_inv r \<longleftrightarrow>
     dict_wf (ra_sets r) \<and> len (ra_sets r) \<le> ra_max_pending r
     \<and> (\<forall>k e. map_of (ra_sets r) k = Some e \<longrightarrow> fs_header e \<noteq> None)"

lemma add_piece_header: "fs_header (add_piece q e) \<noteq> None"
  by (simp add: add_piece_def Let_def)

lemma try_complete_header: "fs_header e \<noteq> None \<Longrightarrow> \<exists>result. try_complete e = Inr result"
  by (auto simp: try_complete_def Let_def split: option.split)

lemma reassembler_inv_expire: "reassembler_inv r \<Longrightarrow> reassembler_inv (Reassembler_expire r now)"
proof -
  assume inv: "reassembler_inv r"
  have "map_of (ra_sets r) k = Some e" if "map_of (ra_sets (Reassembler_expire r now)) k = Some e" for k e
    using that by (simp add: expire_eq Let_def dict_fold_delete(2) split: if_splits)
  with inv expire_sets(1,2) [of r now] show ?thesis
    unfolding reassembler_inv_def expire_frame by fastforce
qed

lemma reassembler_inv_add:
  assumes "reassembler_inv r"
  shows "\<exists>r' result. Reassembler_add r packet now = Inr (r', result) \<and> reassembler_inv r'
     \<and> ra_max_pending r' = ra_max_pending r"
proof (cases "ip_is_fragmented packet")
  case True
  let ?r = "Reassembler_expire r now" and ?k = "fragment_key_of packet"
  have inv: "reassembler_inv ?r" by (rule reassembler_inv_expire [OF assms])
  show ?thesis
  proof (cases "map_of (ra_sets ?r) ?k = None \<and> len (ra_sets ?r) \<ge> ra_max_pending ?r")
    case full: True
    with True inv show ?thesis by (simp add: Reassembler_add_def Let_def reassembler_inv_def)
  next
    case room: False
    define e where "e = add_piece packet (case map_of (ra_sets ?r) ?k of Some e \<Rightarrow> e
      | None \<Rightarrow> \<lparr>fs_first_seen = now, fs_total_length = None, fs_header = None, fs_pieces = []\<rparr>)"
    have h: "fs_header e \<noteq> None" unfolding e_def by (rule add_piece_header)
    obtain result where result: "try_complete e = Inr result" using try_complete_header [OF h] by blast
    let ?r1 = "?r\<lparr>ra_sets := AList.update ?k e (ra_sets ?r)\<rparr>"
    have r1: "reassembler_inv ?r1"
      using inv room h
      by (auto simp: reassembler_inv_def length_dict_update update_conv' map_of_eq_None_iff split: if_splits)
    then have "reassembler_inv (?r1\<lparr>ra_sets := AList.delete ?k (ra_sets ?r1), ra_reassembled := n\<rparr>)" for n
      using length_delete_le [of ?k "ra_sets ?r1"]
      by (auto simp: reassembler_inv_def AList.delete_conv' split: if_splits)
    with r1 True room result show ?thesis
      by (cases result) (auto simp: Reassembler_add_def Let_def e_def [symmetric])
  qed
qed (use assms in \<open>simp add: Reassembler_add_def\<close>)

text \<open>C37. Whatever arrives, the reassembler never raises and never keeps more than
  \<open>max_pending\<close> incomplete datagrams.\<close>

theorem reassembler_bounded:
  assumes "0 \<le> max_pending"
  shows "\<exists>r results. deliver (Reassembler_init timeout max_pending) arrivals = Inr (r, results)
     \<and> length results = length arrivals \<and> Reassembler_pending r \<le> max_pending"
proof -
  have "\<exists>r' results. deliver r arrivals = Inr (r', results) \<and> length results = length arrivals
      \<and> reassembler_inv r' \<and> ra_max_pending r' = ra_max_pending r" if "reassembler_inv r" for r
    using that
  proof (induction arrivals arbitrary: r)
    case (Cons a as)
    obtain r1 res where "Reassembler_add r (fst a) (snd a) = Inr (r1, res)" "reassembler_inv r1"
      "ra_max_pending r1 = ra_max_pending r"
      using reassembler_inv_add [OF Cons.prems] by blast
    with Cons.IH [of r1] show ?case by (cases a) fastforce
  qed simp
  from this [of "Reassembler_init timeout max_pending"] assms show ?thesis
    by (fastforce simp: reassembler_inv_def Reassembler_init_def Reassembler_pending_def)
qed

theorem reassembler_bounded_witness:
  "\<exists>r results. deliver (Reassembler_init 30 1) (zip sample_fragments [1, 2, 3]) = Inr (r, results)
     \<and> length results = length (zip sample_fragments [1, 2, 3 :: time]) \<and> Reassembler_pending r \<le> 1"
  by (rule reassembler_bounded) simp

text \<open>Overlapping fragments can make the result longer than its last fragment says. The piece at
  offset 16 lies behind the announced end 12: the slice assignment then inserts its first bytes
  instead of cutting it.\<close>

definition overlapping_fragments :: "ipv4_packet list" where
  "overlapping_fragments =
     [sample_datagram\<lparr>ip_payload := replicate 16 1, ip_flags := FLAG_MF\<rparr>,
      sample_datagram\<lparr>ip_payload := replicate 8 2, ip_flags := FLAG_MF, ip_fragment_offset := 2\<rparr>,
      sample_datagram\<lparr>ip_payload := replicate 4 3, ip_fragment_offset := 1\<rparr>]"

lemma reassembly_overlap_overruns:
  "map_option (\<lambda>p. length (ip_payload p))
     (last (snd (projr (deliver (Reassembler_init 30 64) (zip overlapping_fragments [1, 2, 3]))))) = Some 16"
  by code_simp

end
