(* ===== verification/IPv4_Text.thy ===== *)
theory IPv4_Text
  imports IPv4
begin

text \<open>
  The textual forms of \<open>minitcp/net/ipv4.py\<close>: dotted quads and netmasks each have exactly one
  spelling, and the two directions invert each other.
\<close>

section \<open>Splitting and joining\<close>

fun join_at :: "char \<Rightarrow> string list \<Rightarrow> string" where
  "join_at sep [] = []"
| "join_at sep [p] = p"
| "join_at sep (p # ps) = p @ sep # join_at sep ps"

lemma split_at_nonempty: "split_at sep s \<noteq> []"
  by (induction s) (auto split: list.splits)

lemma join_split: "join_at sep (split_at sep s) = s"
proof (induction s)
  case (Cons c cs)
  obtain p ps where "split_at sep cs = p # ps"
    using split_at_nonempty [of sep cs] by (cases "split_at sep cs") simp_all
  with Cons show ?case by (cases ps) auto
qed simp

lemma split_at_part: "sep \<notin> set p \<Longrightarrow> split_at sep (p @ sep # s) = p # split_at sep s"
  by (induction p) auto

lemma split_at_last: "sep \<notin> set p \<Longrightarrow> split_at sep p = [p]"
  by (induction p) auto


section \<open>Decimal numbers\<close>

declare decimal.simps [simp del]

lemma decimal_value_snoc [simp]: "decimal_value (s @ [c]) = 10 * decimal_value s + digit_value c"
  by (simp add: decimal_value_def)

lemma decimal_value_Nil [simp]: "decimal_value [] = 0"
  by (simp add: decimal_value_def)

lemma digit_char:
  assumes "d < 10"
  shows "is_digit (char_of (48 + d))" "digit_value (char_of (48 + d)) = d"
  using assms by (simp_all add: is_digit_def digit_value_def)

lemma char_digit: "is_digit c \<Longrightarrow> char_of (48 + digit_value c) = c \<and> digit_value c < 10"
  by (auto simp: is_digit_def digit_value_def)

lemma decimal_digits: "list_all is_digit (decimal n) \<and> decimal_value (decimal n) = n \<and> decimal n \<noteq> []"
proof (induction n rule: decimal.induct)
  case (1 n)
  have "decimal_value [c] = digit_value c" for c using decimal_value_snoc [of "[]" c] by simp
  with 1 show ?case
    using digit_char [of n] digit_char [of "n mod 10"] by (cases "n < 10") (simp_all add: decimal.simps [of n])
qed

lemma hd_decimal: "0 < n \<Longrightarrow> hd (decimal n) \<noteq> CHR ''0''"
proof (induction n rule: decimal.induct)
  case (1 n)
  show ?case
  proof (cases "n < 10")
    case True
    then have "digit_value (hd (decimal n)) = n" using digit_char(2) [of n] by (simp add: decimal.simps [of n])
    with 1 show ?thesis by (auto simp: digit_value_def)
  next
    case False
    then have "hd (decimal n) = hd (decimal (n div 10))"
      using decimal_digits [of "n div 10"] by (simp add: decimal.simps [of n])
    with 1 False show ?thesis by simp
  qed
qed

text \<open>A digit string with no leading zero is the decimal form of its value.\<close>

definition canonical :: "string \<Rightarrow> bool" where
  "canonical s \<longleftrightarrow> s \<noteq> [] \<and> list_all is_digit s \<and> \<not> (1 < length s \<and> hd s = CHR ''0'')"

lemma canonical_positive:
  "s \<noteq> [] \<Longrightarrow> list_all is_digit s \<Longrightarrow> hd s \<noteq> CHR ''0'' \<Longrightarrow> 0 < decimal_value s"
proof (induction s rule: rev_induct)
  case (snoc c s)
  show ?case
  proof (cases "s = []")
    case True
    with snoc.prems have "is_digit c" "(of_char c :: nat) \<noteq> of_char (CHR ''0'')"
      unfolding of_char_eq_iff by simp_all
    then have "0 < digit_value c" by (simp add: is_digit_def digit_value_def)
    with True show ?thesis using decimal_value_snoc [of "[]" c] by simp
  next
    case False
    with snoc show ?thesis by simp
  qed
qed simp

lemma decimal_canonical: "canonical s \<Longrightarrow> decimal (decimal_value s) = s"
proof (induction s rule: rev_induct)
  case (snoc c s)
  have c: "char_of (48 + digit_value c) = c" "digit_value c < 10"
    using snoc.prems char_digit by (simp_all add: canonical_def)
  show ?case
  proof (cases "s = []")
    case True
    with c show ?thesis by (simp add: decimal.simps [of "digit_value c"] decimal_value_def)
  next
    case False
    then have s: "canonical s" "0 < decimal_value s"
      using snoc.prems canonical_positive [of s] by (auto simp: canonical_def Suc_lessI)
    let ?n = "10 * decimal_value s + digit_value c"
    have "\<not> ?n < 10" "?n div 10 = decimal_value s" "?n mod 10 = digit_value c"
      using s c by auto
    with s(1) snoc.IH c show ?thesis by (simp add: decimal.simps [of ?n])
  qed
qed (simp add: canonical_def)

lemma canonical_decimal: "canonical (decimal n)"
proof (cases "n = 0")
  case True
  then show ?thesis
    using digit_char(1) [of 0] by (simp add: canonical_def decimal.simps [of 0])
next
  case False
  then show ?thesis using decimal_digits [of n] hd_decimal [of n] by (simp add: canonical_def)
qed


section \<open>Dotted quads\<close>

lemma length_4: "length d = 4 \<longleftrightarrow> (\<exists>w x y z. d = [w, x, y, z])"
  by (auto simp: length_Suc_conv eval_nat_numeral)

lemma parse_octet_iff: "parse_octet s = Inr b \<longleftrightarrow> s = decimal (unat b)"
proof
  assume "parse_octet s = Inr b"
  then have s: "canonical s" "decimal_value s \<le> 255" "b = of_nat (decimal_value s)"
    by (auto simp: parse_octet_def canonical_def split: if_splits)
  then have "unat b = decimal_value s" by (simp add: unat_of_nat)
  with s(1) show "s = decimal (unat b)" by (simp add: decimal_canonical)
next
  assume "s = decimal (unat b)"
  moreover have "unat b \<le> 255" unfolding unat_eq_nat_uint by (subst nat_le_iff) simp
  ultimately show "parse_octet s = Inr b"
    using canonical_decimal [of "unat b"] decimal_digits [of "unat b"]
    by (auto simp: parse_octet_def canonical_def)
qed

lemma parse_octets_iff: "parse_octets ps = Inr bs \<longleftrightarrow> ps = map (\<lambda>b. decimal (unat b)) bs"
proof (induction ps arbitrary: bs)
  case (Cons p ps)
  then show ?case by (cases bs) (auto simp: sum_bind_Inr parse_octet_iff)
qed auto

lemma no_dot_decimal: "CHR ''.'' \<notin> set (decimal n)"
  using decimal_digits [of n] by (auto simp: list_all_iff is_digit_def)

lemma text_of_ip: "ip_to_str addr = Inr text \<Longrightarrow> ip_to_bytes text = Inr addr"
proof -
  assume "ip_to_str addr = Inr text"
  then obtain a b c d where addr: "addr = [a, b, c, d]"
    and spelt: "text = decimal (unat a) @ CHR ''.'' # decimal (unat b) @ CHR ''.'' # decimal (unat c)
                 @ CHR ''.'' # decimal (unat d)"
    by (auto simp: ip_to_str_def split: list.splits)
  have parts: "split_at (CHR ''.'') text = map (\<lambda>b. decimal (unat b)) addr"
    unfolding spelt addr by (simp add: split_at_part split_at_last no_dot_decimal)
  have "parse_octets (split_at (CHR ''.'') text) = Inr addr"
    unfolding parse_octets_iff by (rule parts)
  moreover have "length (split_at (CHR ''.'') text) = 4" unfolding parts addr by simp
  ultimately show "ip_to_bytes text = Inr addr" by (simp add: ip_to_bytes_def Let_def)
qed



section \<open>Netmasks\<close>

lemma be32_get: "length d = 4 \<Longrightarrow> be32 (get_u32 d 0) = d"
proof -
  assume "length d = 4"
  then obtain w x y z where d: "d = [w, x, y, z]" by (auto simp: length_4)
  have step: "(256 * q + uint b) div 256 = q" "(256 * q + uint b) mod 256 = uint b" for q and b :: byte
    using uint_byte_bounds [of b] by simp_all
  let ?v = "256 * (256 * (256 * uint w + uint x) + uint y) + uint z"
  have shift: "?v div 65536 = ?v div 256 div 256" "?v div 16777216 = ?v div 256 div 256 div 256"
    by (simp_all add: zdiv_zmult2_eq [symmetric])
  have byte: "word_of_int v = b" if "v mod 256 = uint b" for v and b :: byte
    using that by (intro word_uint_eqI) (simp add: uint_byte del: of_int_add of_int_mult)
  have "word_of_int ?v = z" by (rule byte [OF step(2)])
  moreover have "word_of_int (?v div 256) = y" unfolding step(1) by (rule byte [OF step(2)])
  moreover have "word_of_int (?v div 65536) = x" unfolding shift step(1) by (rule byte [OF step(2)])
  moreover have "word_of_int (?v div 16777216) = w" unfolding shift step(1) by simp
  moreover have "get_u32 d 0 = ?v" by (simp add: d get_u32_def)
  ultimately show ?thesis unfolding d be32_def by simp
qed

lemma mask_bits:
  assumes "k \<le> 32"
  shows "popcount32 (push_bit k 0xFFFFFFFF AND 0xFFFFFFFF) = int (32 - k)"
    and "0 \<le> push_bit k (0xFFFFFFFF :: int) AND 0xFFFFFFFF"
    and "push_bit k (0xFFFFFFFF :: int) AND 0xFFFFFFFF < 2 ^ 32"
proof -
  define v where "v = push_bit k (mask 32) AND (mask 32 :: int)"
  have ones: "(0xFFFFFFFF :: int) = mask 32" by (simp add: mask_eq_exp_minus_1)
  have "v div 2 ^ i mod 2 = 1 \<longleftrightarrow> k \<le> i" if "i < 32" for i
  proof -
    have "v div 2 ^ i mod 2 = 1 \<longleftrightarrow> bit v i" by (simp add: bit_iff_odd odd_iff_mod_2_eq_one)
    also have "\<dots> \<longleftrightarrow> k \<le> i" using that by (auto simp: v_def bit_and_iff bit_push_bit_iff bit_mask_iff)
    finally show ?thesis .
  qed
  then have "filter (\<lambda>i. v div 2 ^ i mod 2 = 1) [0..<32] = filter (\<lambda>i. k \<le> i) [0..<32]"
    by (intro filter_cong) simp_all
  also have "\<dots> = [k..<32]"
    using assms upt_add_eq_append [of 0 k "32 - k"] by simp
  finally show "popcount32 (push_bit k 0xFFFFFFFF AND 0xFFFFFFFF) = int (32 - k)"
    unfolding ones v_def [symmetric] by (simp add: popcount32_def)
  have "v = take_bit 32 (push_bit k (mask 32))" by (simp add: v_def take_bit_eq_mask)
  then show "0 \<le> push_bit k (0xFFFFFFFF :: int) AND 0xFFFFFFFF"
    "push_bit k (0xFFFFFFFF :: int) AND 0xFFFFFFFF < 2 ^ 32"
    unfolding ones v_def [symmetric] using take_bit_int_less_exp [of 32 "push_bit k (mask 32)"] by simp_all
qed

lemma prefix_mask_value:
  assumes "0 \<le> p" and "p \<le> 32"
  shows "\<exists>m. prefix_to_mask p = Inr m \<and> length m = 4 \<and> popcount32 (get_u32 m 0) = p"
proof -
  define v where "v = (if p \<noteq> 0 then push_bit (nat (32 - p)) 0xFFFFFFFF AND 0xFFFFFFFF else (0 :: int))"
  have "0 \<le> v" "v < 2 ^ 32" "popcount32 v = p"
    using mask_bits [of "nat (32 - p)"] assms by (simp_all add: v_def popcount32_def)
  moreover from this have "get_u32 (be32 v) 0 = v" using get_u32_be32 [of v "[]"] by simp
  ultimately show ?thesis using assms by (simp add: prefix_to_mask_def v_def [symmetric])
qed

text \<open>Netmasks and prefix lengths are in bijection: a mask is accepted exactly when it is the
  mask of the prefix length it is given, so a non-contiguous mask has none.\<close>

lemma netmask_roundtrip: "mask_to_prefix netmask = Inr prefix \<longleftrightarrow> prefix_to_mask prefix = Inr netmask"
proof
  assume "mask_to_prefix netmask = Inr prefix"
  then obtain m where m: "length netmask = 4" "prefix = popcount32 (get_u32 netmask 0)"
    "prefix_to_mask prefix = Inr m" "get_u32 netmask 0 = get_u32 m 0"
    by (auto simp: mask_to_prefix_def Let_def sum_bind_Inr split: if_splits)
  then obtain v where "be32 v = m" by (auto simp: prefix_to_mask_def split: if_splits)
  then have "length m = 4" by auto
  with m(1,4) have "m = netmask" using be32_get [of m] be32_get [of netmask] by simp
  with m(3) show "prefix_to_mask prefix = Inr netmask" by simp
next
  assume *: "prefix_to_mask prefix = Inr netmask"
  then have "0 \<le> prefix" "prefix \<le> 32" by (auto simp: prefix_to_mask_def split: if_splits)
  with * show "mask_to_prefix netmask = Inr prefix"
    using prefix_mask_value [of prefix] by (auto simp: mask_to_prefix_def Let_def)
qed

end
