(* ===== verification/Ethernet.thy ===== *)
theory Ethernet
  imports Byteio
begin

text \<open>
  \<open>minitcp/net/ethernet.py\<close>: Ethernet II frames, built with the sequential writer and taken
  apart with the sequential reader, and the textual form of MAC addresses.

  \<open>mac.hex(":")\<close> and \<open>bytes.fromhex\<close> are modelled on the characters of a HOL \<open>string\<close>;
  \<open>fromhex\<close> skips white space between two digits of different bytes, as Python does.
\<close>

definition ETHERTYPE_IPV4 :: int where "ETHERTYPE_IPV4 = 0x0800"
definition ETHERTYPE_ARP :: int where "ETHERTYPE_ARP = 0x0806"
definition BROADCAST_MAC :: bytes where "BROADCAST_MAC = replicate 6 0xFF"
definition ETH_HEADER_LEN :: int where "ETH_HEADER_LEN = 14"
definition MIN_FRAME_LEN :: int where "MIN_FRAME_LEN = 60"

record ethernet_frame =
  eth_dst :: bytes
  eth_src :: bytes
  eth_ethertype :: int
  eth_payload :: bytes

definition EthernetFrame_to_bytes :: "ethernet_frame \<Rightarrow> bool \<Rightarrow> py_error + bytes" where
  "EthernetFrame_to_bytes f pad =
     sum_bind (Writer_u16 (Writer_raw (Writer_raw [] (eth_dst f)) (eth_src f)) (eth_ethertype f)) (\<lambda>w.
     let frame = Writer_bytes (Writer_raw w (eth_payload f))
     in if pad \<and> len frame < MIN_FRAME_LEN
        then Inr (frame @ replicate (nat (MIN_FRAME_LEN - len frame)) 0) else Inr frame)"

definition EthernetFrame_parse :: "bytes \<Rightarrow> py_error + ethernet_frame" where
  "EthernetFrame_parse data =
     (if len data < ETH_HEADER_LEN then Inl ValueError
      else
        sum_bind (Reader_raw (Reader_init data) 6) (\<lambda>(dst, r).
        sum_bind (Reader_raw r 6) (\<lambda>(src, r).
        sum_bind (Reader_u16 r) (\<lambda>(ethertype, r).
        Inr \<lparr>eth_dst = dst, eth_src = src, eth_ethertype = ethertype, eth_payload = fst (Reader_rest r)\<rparr>))))"

definition eth_is_broadcast :: "ethernet_frame \<Rightarrow> bool" where
  "eth_is_broadcast f \<longleftrightarrow> eth_dst f = BROADCAST_MAC"

text \<open>\<open>self.dst[0]\<close> of an empty destination would raise; a decoded frame has six bytes there.\<close>

definition eth_is_multicast :: "ethernet_frame \<Rightarrow> bool" where
  "eth_is_multicast f \<longleftrightarrow> (case eth_dst f of [] \<Rightarrow> False | b # _ \<Rightarrow> b AND 1 \<noteq> 0)"

definition eth_accepted_by :: "ethernet_frame \<Rightarrow> bytes \<Rightarrow> bool" where
  "eth_accepted_by f mac \<longleftrightarrow> eth_dst f = mac \<or> eth_is_broadcast f \<or> eth_is_multicast f"


section \<open>Addresses as text\<close>

definition hex_digit :: "nat \<Rightarrow> char" where
  "hex_digit n = (if n < 10 then char_of (48 + n) else char_of (87 + n))"

fun hex_value :: "char \<Rightarrow> nat option" where
  "hex_value c =
     (let n = of_char c :: nat
      in if 48 \<le> n \<and> n \<le> 57 then Some (n - 48)
         else if 97 \<le> n \<and> n \<le> 102 then Some (n - 87)
         else if 65 \<le> n \<and> n \<le> 70 then Some (n - 55) else None)"

definition hex_byte :: "byte \<Rightarrow> string" where
  "hex_byte b = [hex_digit (unat b div 16), hex_digit (unat b mod 16)]"

fun mac_to_str :: "bytes \<Rightarrow> string" where
  "mac_to_str [] = []"
| "mac_to_str [b] = hex_byte b"
| "mac_to_str (b # bs) = hex_byte b @ CHR '':'' # mac_to_str bs"

definition is_space :: "char \<Rightarrow> bool" where
  "is_space c \<longleftrightarrow> (of_char c :: nat) \<in> {9, 10, 11, 12, 13, 32}"

fun bytes_fromhex :: "string \<Rightarrow> py_error + bytes" where
  "bytes_fromhex [] = Inr []"
| "bytes_fromhex (c # cs) =
     (if is_space c then bytes_fromhex cs
      else
        case cs of
          [] \<Rightarrow> Inl ValueError
        | d # ds \<Rightarrow>
            (case (hex_value c, hex_value d) of
               (Some hi, Some lo) \<Rightarrow>
                 sum_bind (bytes_fromhex ds) (\<lambda>bs. Inr (of_nat (16 * hi + lo) # bs))
             | _ \<Rightarrow> Inl ValueError))"

definition mac_from_str :: "string \<Rightarrow> py_error + bytes" where
  "mac_from_str text =
     (let cleaned = filter (\<lambda>c. c \<noteq> CHR '':'' \<and> c \<noteq> CHR ''-'' \<and> c \<noteq> CHR ''.'') text
      in if length cleaned \<noteq> 12 then Inl ValueError else bytes_fromhex cleaned)"


section \<open>Round trips\<close>

definition frame_carried :: "ethernet_frame \<Rightarrow> bool" where
  "frame_carried f \<longleftrightarrow>
     length (eth_dst f) = 6 \<and> length (eth_src f) = 6 \<and> 0 \<le> eth_ethertype f \<and> eth_ethertype f < 2 ^ 16"

lemma frame_parse_eq:
  assumes "length dst = 6" and "length src = 6" and "0 \<le> t" and "t < 65536"
  shows "EthernetFrame_parse (dst @ src @ be16 t @ payload)
       = Inr \<lparr>eth_dst = dst, eth_src = src, eth_ethertype = t, eth_payload = payload\<rparr>"
proof -
  have "get_u16 (dst @ src @ be16 t @ payload) 12 = t"
    by (rule get_u16_at [of _ "dst @ src" _ payload]) (use assms in simp_all)
  then show ?thesis
    using assms
    by (simp add: EthernetFrame_parse_def ETH_HEADER_LEN_def Reader_raw_def Reader_need_def Reader_init_def
        Reader_u16_def Reader_rest_def)
qed

lemma frame_to_bytes_eq:
  assumes "frame_carried f"
  shows "EthernetFrame_to_bytes f pad =
    Inr (eth_dst f @ eth_src f @ be16 (eth_ethertype f) @ eth_payload f
         @ (if pad then replicate (46 - length (eth_payload f)) 0 else []))"
proof -
  have "nat (46 - len (eth_payload f)) = 46 - length (eth_payload f)" by simp
  then show ?thesis
    using assms
    by (simp add: EthernetFrame_to_bytes_def frame_carried_def Writer_u16_def Writer_check_def Writer_raw_def
        Writer_bytes_def MIN_FRAME_LEN_def Let_def)
qed

text \<open>Without padding the frame is a strict wire format.\<close>

lemma frame_parse_carried: "EthernetFrame_parse d = Inr f \<Longrightarrow> frame_carried f"
  by (auto simp: EthernetFrame_parse_def ETH_HEADER_LEN_def Reader_raw_def Reader_need_def Reader_init_def
      Reader_u16_def frame_carried_def sum_bind_Inr split: if_splits)

interpretation ethernet_wire: strict_codec frame_carried "\<lambda>f. f" "\<lambda>f. EthernetFrame_to_bytes f False" EthernetFrame_parse
proof
  show "\<exists>y. EthernetFrame_parse b = Inr y \<and> y = x"
    if "frame_carried x" "EthernetFrame_to_bytes x False = Inr b" for x b
    using that frame_to_bytes_eq [OF that(1), of False] frame_parse_eq by (auto simp: frame_carried_def)
  show "frame_carried y" if "EthernetFrame_parse b = Inr y" for b y
    using that by (rule frame_parse_carried)
qed

text \<open>With it, the receiver sees the payload followed by the padding, in a frame of at least the
  minimum size.\<close>

lemma frame_roundtrip:
  assumes "frame_carried f"
  shows "\<exists>b. EthernetFrame_to_bytes f True = Inr b \<and> MIN_FRAME_LEN \<le> len b
     \<and> EthernetFrame_parse b
         = Inr (f\<lparr>eth_payload := eth_payload f @ replicate (46 - length (eth_payload f)) 0\<rparr>)"
proof -
  have "length (eth_dst f) = 6" "length (eth_src f) = 6" "0 \<le> eth_ethertype f" "eth_ethertype f < 65536"
    using assms by (simp_all add: frame_carried_def)
  note parse = frame_parse_eq [OF this]
  show ?thesis
    using assms parse frame_to_bytes_eq [OF assms, of True]
    by (simp add: frame_carried_def MIN_FRAME_LEN_def)
qed

lemma frame_parse_error: "EthernetFrame_parse d = Inl e \<Longrightarrow> e = ValueError"
  by (auto simp: EthernetFrame_parse_def Reader_raw_def Reader_need_def Reader_u16_def sum_bind_Inl
      split: if_splits)

lemma hex_value_digit: "n < 16 \<Longrightarrow> hex_value (hex_digit n) = Some n"
  by (auto simp: hex_digit_def)

lemma hex_digit_plain:
  "n < 16 \<Longrightarrow> hex_digit n \<noteq> CHR '':'' \<and> hex_digit n \<noteq> CHR ''-'' \<and> hex_digit n \<noteq> CHR ''.'' \<and> \<not> is_space (hex_digit n)"
proof -
  assume n: "n < 16"
  then have "(of_char (hex_digit n) :: nat) \<noteq> of_char (CHR '':'')" "(of_char (hex_digit n) :: nat) \<noteq> of_char (CHR ''-'')"
    "(of_char (hex_digit n) :: nat) \<noteq> of_char (CHR ''.'')"
    by (auto simp: hex_digit_def)
  moreover have "\<not> is_space (hex_digit n)" using n by (auto simp: is_space_def hex_digit_def)
  ultimately show ?thesis unfolding of_char_eq_iff by simp
qed

lemma unat_byte_lt: "unat (b :: byte) < 256"
  unfolding unat_eq_nat_uint by (subst nat_less_iff) simp_all

lemma fromhex_byte: "bytes_fromhex (hex_byte b @ s) = sum_bind (bytes_fromhex s) (\<lambda>bs. Inr (b # bs))"
proof -
  have d: "unat b div 16 < 16" "unat b mod 16 < 16" using unat_byte_lt [of b] by simp_all
  have "16 * (unat b div 16) + unat b mod 16 = unat b" by simp
  with d hex_digit_plain [OF d(1)] show ?thesis
    by (simp add: hex_byte_def hex_value_digit del: hex_value.simps)
qed

lemma fromhex_bytes: "bytes_fromhex (concat (map hex_byte bs)) = Inr bs"
  by (induction bs) (simp_all add: fromhex_byte)

lemma clean_mac:
  "filter (\<lambda>c. c \<noteq> CHR '':'' \<and> c \<noteq> CHR ''-'' \<and> c \<noteq> CHR ''.'') (mac_to_str bs) = concat (map hex_byte bs)"
proof (induction bs rule: mac_to_str.induct)
  case (2 b)
  then show ?case
    using hex_digit_plain [of "unat b div 16"] hex_digit_plain [of "unat b mod 16"] unat_byte_lt [of b]
    by (simp add: hex_byte_def)
next
  case (3 b c bs)
  then show ?case
    using hex_digit_plain [of "unat b div 16"] hex_digit_plain [of "unat b mod 16"] unat_byte_lt [of b]
    by (simp add: hex_byte_def)
qed simp

lemma mac_text_roundtrip: "length mac = 6 \<Longrightarrow> mac_from_str (mac_to_str mac) = Inr mac"
proof -
  assume "length mac = 6"
  moreover have "length (concat (map hex_byte bs)) = 2 * length bs" for bs
    by (induction bs) (simp_all add: hex_byte_def)
  ultimately show ?thesis by (simp add: mac_from_str_def clean_mac fromhex_bytes Let_def)
qed

end
