(* ===== verification/Arp.thy ===== *)
theory Arp
  imports Ethernet
begin

text \<open>
  \<open>minitcp/net/arp.py\<close>: ARP packets and the expiring cache from IPv4 to MAC addresses. What a
  client of such a cache relies on is the locale \<open>address_resolver\<close>: an answer is never anything
  but the address that was stored last. The lock is not modelled; every \<open>now\<close> is the value the
  clock or the caller supplies.
\<close>

section \<open>Packets\<close>

definition HARDWARE_ETHERNET :: int where "HARDWARE_ETHERNET = 1"
definition ARP_REQUEST :: int where "ARP_REQUEST = 1"
definition ARP_REPLY :: int where "ARP_REPLY = 2"
definition PACKET_LEN :: int where "PACKET_LEN = 28"

record arp_packet =
  arp_operation :: int
  arp_sender_mac :: bytes
  arp_sender_ip :: bytes
  arp_target_mac :: bytes
  arp_target_ip :: bytes
  arp_hardware_type :: int
  arp_protocol_type :: int
  arp_hardware_len :: int
  arp_protocol_len :: int

definition ARPPacket :: "int \<Rightarrow> bytes \<Rightarrow> bytes \<Rightarrow> bytes \<Rightarrow> bytes \<Rightarrow> arp_packet" where
  "ARPPacket operation sender_mac sender_ip target_mac target_ip =
     \<lparr>arp_operation = operation, arp_sender_mac = sender_mac, arp_sender_ip = sender_ip,
      arp_target_mac = target_mac, arp_target_ip = target_ip, arp_hardware_type = HARDWARE_ETHERNET,
      arp_protocol_type = ETHERTYPE_IPV4, arp_hardware_len = 6, arp_protocol_len = 4\<rparr>"

definition ARPPacket_to_bytes :: "arp_packet \<Rightarrow> py_error + bytes" where
  "ARPPacket_to_bytes p =
     (if len (arp_sender_mac p) \<noteq> arp_hardware_len p then Inl ValueError
      else if len (arp_target_mac p) \<noteq> arp_hardware_len p then Inl ValueError
      else if len (arp_sender_ip p) \<noteq> arp_protocol_len p then Inl ValueError
      else if len (arp_target_ip p) \<noteq> arp_protocol_len p then Inl ValueError
      else
        sum_bind (struct_pack [FH (arp_hardware_type p), FH (arp_protocol_type p), FB (arp_hardware_len p),
          FB (arp_protocol_len p), FH (arp_operation p)]) (\<lambda>header.
        Inr (header @ arp_sender_mac p @ arp_sender_ip p @ arp_target_mac p @ arp_target_ip p)))"

definition ARPPacket_parse :: "bytes \<Rightarrow> py_error + arp_packet" where
  "ARPPacket_parse data =
     (if len data < PACKET_LEN then Inl ValueError
      else
        let hardware_len = get_u8 data 4;
            protocol_len = get_u8 data 5
        in if hardware_len \<noteq> 6 \<or> protocol_len \<noteq> 4 then Inl ValueError
           else if len data < 8 + 2 * (hardware_len + protocol_len) then Inl ValueError
           else
             Inr \<lparr>arp_operation = get_u16 data 6, arp_sender_mac = take 6 (drop 8 data),
                  arp_sender_ip = take 4 (drop 14 data), arp_target_mac = take 6 (drop 18 data),
                  arp_target_ip = take 4 (drop 24 data), arp_hardware_type = get_u16 data 0,
                  arp_protocol_type = get_u16 data 2, arp_hardware_len = hardware_len,
                  arp_protocol_len = protocol_len\<rparr>)"

definition arp_is_request :: "arp_packet \<Rightarrow> bool" where
  "arp_is_request p \<longleftrightarrow> arp_operation p = ARP_REQUEST"

definition arp_is_reply :: "arp_packet \<Rightarrow> bool" where
  "arp_is_reply p \<longleftrightarrow> arp_operation p = ARP_REPLY"


section \<open>The cache\<close>

record arp_cache =
  ac_entries :: "(bytes, bytes \<times> time) dict"
  ac_timeout :: time
  ac_max_entries :: int

definition ARPCache_init :: "time \<Rightarrow> int \<Rightarrow> arp_cache" where
  "ARPCache_init timeout max_entries = \<lparr>ac_entries = [], ac_timeout = timeout, ac_max_entries = max_entries\<rparr>"

definition ARPCache_lookup :: "arp_cache \<Rightarrow> bytes \<Rightarrow> time \<Rightarrow> arp_cache \<times> bytes option" where
  "ARPCache_lookup c ip now =
     (case map_of (ac_entries c) ip of
        None \<Rightarrow> (c, None)
      | Some (mac, expires_at) \<Rightarrow>
          if now \<ge> expires_at then (c\<lparr>ac_entries := AList.delete ip (ac_entries c)\<rparr>, None)
          else (c, Some mac))"

text \<open>\<open>min(entries, key=...)\<close>: the first key, in insertion order, with the least expiry.\<close>

fun closest_to_expiry :: "(bytes, bytes \<times> time) dict \<Rightarrow> bytes option" where
  "closest_to_expiry [] = None"
| "closest_to_expiry ((k, v) # d) =
     (case closest_to_expiry d of
        None \<Rightarrow> Some k
      | Some k' \<Rightarrow> if snd v \<le> snd (the (map_of d k')) then Some k else Some k')"

text \<open>\<open>min\<close> of an empty dictionary raises \<open>ValueError\<close>; that happens with \<open>max_entries\<close> zero.\<close>

definition ARPCache_store :: "arp_cache \<Rightarrow> bytes \<Rightarrow> bytes \<Rightarrow> time \<Rightarrow> py_error + arp_cache" where
  "ARPCache_store c ip mac now =
     sum_bind (if map_of (ac_entries c) ip = None \<and> len (ac_entries c) \<ge> ac_max_entries c
               then case closest_to_expiry (ac_entries c) of
                      None \<Rightarrow> Inl ValueError
                    | Some oldest \<Rightarrow> Inr (AList.delete oldest (ac_entries c))
               else Inr (ac_entries c)) (\<lambda>entries.
     Inr (c\<lparr>ac_entries := AList.update ip (mac, now + ac_timeout c) entries\<rparr>))"

definition ARPCache_expire :: "arp_cache \<Rightarrow> time \<Rightarrow> arp_cache \<times> int" where
  "ARPCache_expire c now =
     (let stale = map fst (filter (\<lambda>(k, (_, expires_at)). now \<ge> expires_at) (ac_entries c))
      in (c\<lparr>ac_entries := fold AList.delete stale (ac_entries c)\<rparr>, len stale))"

definition ARPCache_clear :: "arp_cache \<Rightarrow> arp_cache" where
  "ARPCache_clear c = c\<lparr>ac_entries := []\<rparr>"

definition ARPCache_snapshot :: "arp_cache \<Rightarrow> (bytes, bytes) dict" where
  "ARPCache_snapshot c = map (\<lambda>(ip, (mac, _)). (ip, mac)) (ac_entries c)"

definition ARPCache_len :: "arp_cache \<Rightarrow> int" where
  "ARPCache_len c = len (ac_entries c)"


section \<open>The wire format\<close>

definition arp_carried :: "arp_packet \<Rightarrow> bool" where
  "arp_carried p \<longleftrightarrow>
     length (arp_sender_mac p) = 6 \<and> length (arp_target_mac p) = 6 \<and> length (arp_sender_ip p) = 4
     \<and> length (arp_target_ip p) = 4 \<and> arp_hardware_len p = 6 \<and> arp_protocol_len p = 4
     \<and> 0 \<le> arp_hardware_type p \<and> arp_hardware_type p < 2 ^ 16 \<and> 0 \<le> arp_protocol_type p
     \<and> arp_protocol_type p < 2 ^ 16 \<and> 0 \<le> arp_operation p \<and> arp_operation p < 2 ^ 16"

lemma arp_to_bytes_eq:
  assumes "arp_carried p"
  shows "ARPPacket_to_bytes p = Inr (be16 (arp_hardware_type p) @ be16 (arp_protocol_type p) @ [6, 4]
     @ be16 (arp_operation p) @ arp_sender_mac p @ arp_sender_ip p @ arp_target_mac p @ arp_target_ip p)"
  using assms by (simp add: ARPPacket_to_bytes_def arp_carried_def)

lemma arp_reparse:
  assumes "arp_carried p" and "ARPPacket_to_bytes p = Inr b"
  shows "ARPPacket_parse (b @ pad) = Inr p"
proof -
  let ?d = "be16 (arp_hardware_type p) @ be16 (arp_protocol_type p) @ [word_of_int 6, word_of_int 4]
     @ be16 (arp_operation p) @ arp_sender_mac p @ arp_sender_ip p @ arp_target_mac p @ arp_target_ip p @ pad"
  have c: "length (arp_sender_mac p) = 6" "length (arp_target_mac p) = 6" "length (arp_sender_ip p) = 4"
    "length (arp_target_ip p) = 4" "0 \<le> arp_hardware_type p" "arp_hardware_type p < 65536"
    "0 \<le> arp_protocol_type p" "arp_protocol_type p < 65536" "0 \<le> arp_operation p" "arp_operation p < 65536"
    "arp_hardware_len p = 6" "arp_protocol_len p = 4"
    using assms(1) by (simp_all add: arp_carried_def)
  have d: "b @ pad = ?d" using arp_to_bytes_eq [OF assms(1)] assms(2) by simp
  have "get_u16 ?d 0 = arp_hardware_type p"
    by (rule get_u16_at [of _ "[]" _ "drop 2 ?d"]) (use c in simp_all)
  moreover have "get_u16 ?d 2 = arp_protocol_type p"
    by (rule get_u16_at [of _ "take 2 ?d" _ "drop 4 ?d"]) (use c in simp_all)
  moreover have "get_u8 ?d 4 = 6"
    by (rule get_u8_at [of _ "take 4 ?d" _ "drop 5 ?d"]) simp_all
  moreover have "get_u8 ?d 5 = 4"
    by (rule get_u8_at [of _ "take 5 ?d" _ "drop 6 ?d"]) simp_all
  moreover have "get_u16 ?d 6 = arp_operation p"
    by (rule get_u16_at [of _ "take 6 ?d" _ "drop 8 ?d"]) (use c in simp_all)
  ultimately show ?thesis
    unfolding d ARPPacket_parse_def Let_def using c by (simp add: PACKET_LEN_def)
qed

lemma arp_parse_carried: "ARPPacket_parse d = Inr p \<Longrightarrow> arp_carried p"
  by (auto simp: ARPPacket_parse_def PACKET_LEN_def arp_carried_def Let_def split: if_splits)

lemma arp_parse_error: "ARPPacket_parse d = Inl e \<Longrightarrow> e = ValueError"
  by (auto simp: ARPPacket_parse_def Let_def split: if_splits)

interpretation arp_wire: strict_codec arp_carried "\<lambda>p. p" ARPPacket_to_bytes ARPPacket_parse
proof
  show "\<exists>y. ARPPacket_parse b = Inr y \<and> y = x" if "arp_carried x" "ARPPacket_to_bytes x = Inr b" for x b
    using arp_reparse [OF that, of "[]"] by simp
  show "arp_carried y" if "ARPPacket_parse b = Inr y" for b y
    using that by (rule arp_parse_carried)
qed

section \<open>What a client of the cache relies on\<close>

text \<open>A resolver may forget, at any step and for any reason, but it never answers with anything
  but the last address stored, and only for as long as that store lives.\<close>

datatype 'f resolver_step = Store bytes bytes time | Forget 'f

fun stored :: "'f resolver_step list \<Rightarrow> (bytes \<times> bytes \<times> time) list" where
  "stored [] = []"
| "stored (Store ip mac now # steps) = (ip, mac, now) # stored steps"
| "stored (Forget f # steps) = stored steps"

locale address_resolver =
  fixes ok :: "'s \<Rightarrow> bool"
    and life :: time
    and fresh :: 's
    and store :: "bytes \<Rightarrow> bytes \<Rightarrow> time \<Rightarrow> 's \<Rightarrow> 's"
    and forget :: "'f \<Rightarrow> 's \<Rightarrow> 's"
    and find :: "bytes \<Rightarrow> time \<Rightarrow> 's \<Rightarrow> bytes option"
  assumes ok_fresh: "ok fresh"
    and ok_store: "ok s \<Longrightarrow> ok (store ip mac now s)"
    and ok_forget: "ok s \<Longrightarrow> ok (forget f s)"
    and find_fresh: "find ip t fresh = None"
    and find_stored: "ok s \<Longrightarrow> find ip t (store ip mac now s) = Some m \<Longrightarrow> m = mac \<and> t < now + life"
    and find_other: "ok s \<Longrightarrow> ip \<noteq> ip' \<Longrightarrow> find ip t (store ip' mac now s) = Some m \<Longrightarrow> find ip t s = Some m"
    and find_forget: "ok s \<Longrightarrow> find ip t (forget f s) = Some m \<Longrightarrow> find ip t s = Some m"
begin

text \<open>A run, newest step first.\<close>

primrec run :: "'f resolver_step list \<Rightarrow> 's" where
  "run [] = fresh"
| "run (step # steps) =
     (case step of Store ip mac now \<Rightarrow> store ip mac now (run steps) | Forget f \<Rightarrow> forget f (run steps))"

lemma ok_run: "ok (run steps)"
  by (induction steps) (auto simp: ok_fresh ok_store ok_forget split: resolver_step.split)

lemma find_run:
  "find ip t (run steps) = Some m \<Longrightarrow> \<exists>now. map_of (stored steps) ip = Some (m, now) \<and> t < now + life"
proof (induction steps)
  case (Cons step steps)
  show ?case
  proof (cases step)
    case (Store ip' mac now)
    with Cons.prems have found: "find ip t (store ip' mac now (run steps)) = Some m" by simp
    show ?thesis
    proof (cases "ip' = ip")
      case True
      with found find_stored [OF ok_run, of ip t] have "m = mac \<and> t < now + life" by blast
      with True Store show ?thesis by simp
    next
      case False
      with found find_other [OF ok_run, of ip ip'] have "find ip t (run steps) = Some m" by metis
      with Cons.IH False Store show ?thesis by simp
    qed
  next
    case (Forget f)
    with Cons find_forget [OF ok_run] show ?thesis by auto
  qed
qed (simp add: find_fresh)

end


section \<open>The cache is a resolver\<close>

definition cache_inv :: "arp_cache \<Rightarrow> bool" where
  "cache_inv c \<longleftrightarrow> dict_wf (ac_entries c) \<and> 0 < ac_max_entries c \<and> len (ac_entries c) \<le> ac_max_entries c"

lemma closest_in_dict: "closest_to_expiry d = Some k \<Longrightarrow> map_of d k \<noteq> None"
  by (induction d arbitrary: k) (auto split: option.splits if_splits)

lemma closest_None: "closest_to_expiry d = None \<longleftrightarrow> d = []"
  by (induction d) (auto split: option.splits if_splits)

lemma closest_is_least:
  "dict_wf d \<Longrightarrow> closest_to_expiry d = Some k \<Longrightarrow> (k', v) \<in> set d \<Longrightarrow> snd (the (map_of d k)) \<le> snd v"
proof (induction d arbitrary: k k' v)
  case (Cons x d)
  obtain a b where x: "x = (a, b)" by (cases x)
  show ?case
  proof (cases "closest_to_expiry d")
    case None
    with Cons.prems x show ?thesis by (simp add: closest_None)
  next
    case (Some m)
    then have m: "m \<noteq> a" "map_of d m \<noteq> None"
      using closest_in_dict [OF Some] Cons.prems(1) x by (auto simp: map_of_eq_None_iff)
    have least: "snd (the (map_of d m)) \<le> snd w" if "(j, w) \<in> set d" for j w
      using Cons.IH [OF _ Some that] Cons.prems(1) x by simp
    show ?thesis
      using Cons.prems(2,3) Some x m least [of k' v]
      by (auto split: if_splits)
  qed
qed simp

lemma store_total:
  assumes "cache_inv c"
  shows "\<exists>c'. ARPCache_store c ip mac now = Inr c' \<and> cache_inv c' \<and> ac_timeout c' = ac_timeout c
     \<and> ac_max_entries c' = ac_max_entries c
     \<and> map_of (ac_entries c') ip = Some (mac, now + ac_timeout c)
     \<and> (\<forall>k. k \<noteq> ip \<longrightarrow> map_of (ac_entries c') k = map_of (ac_entries c) k
            \<or> map_of (ac_entries c') k = None \<and> closest_to_expiry (ac_entries c) = Some k)"
proof (cases "map_of (ac_entries c) ip = None \<and> len (ac_entries c) \<ge> ac_max_entries c")
  case True
  then have "ac_entries c \<noteq> []" using assms by (auto simp: cache_inv_def)
  then obtain k where k: "closest_to_expiry (ac_entries c) = Some k" using closest_None by fastforce
  then obtain v where "map_of (ac_entries c) k = Some v" using closest_in_dict [OF k] by auto
  then have "length (AList.delete k (ac_entries c)) < length (ac_entries c)" by (rule length_dict_delete)
  moreover let ?d = "AList.update ip (mac, now + ac_timeout c) (AList.delete k (ac_entries c))"
  have store: "ARPCache_store c ip mac now = Inr (c\<lparr>ac_entries := ?d\<rparr>)"
    using True k by (simp add: ARPCache_store_def)
  have maps: "map_of ?d = ((map_of (ac_entries c))(k := None))(ip \<mapsto> (mac, now + ac_timeout c))"
    by (simp add: update_conv' AList.delete_conv')
  have "map_of (AList.delete k (ac_entries c)) ip = None" using True by (simp add: AList.delete_conv')
  ultimately have "len ?d \<le> ac_max_entries c" "dict_wf ?d"
    using assms by (auto simp: length_dict_update cache_inv_def)
  then show ?thesis
    using assms k by (intro exI [of _ "c\<lparr>ac_entries := ?d\<rparr>"]) (simp add: store maps cache_inv_def)
next
  case False
  then have *: "ARPCache_store c ip mac now = Inr (c\<lparr>ac_entries := AList.update ip (mac, now + ac_timeout c) (ac_entries c)\<rparr>)"
    by (auto simp: ARPCache_store_def)
  show ?thesis
    unfolding * using False assms by (auto simp: cache_inv_def length_dict_update update_conv')
qed

definition cache_store :: "bytes \<Rightarrow> bytes \<Rightarrow> time \<Rightarrow> arp_cache \<Rightarrow> arp_cache" where
  "cache_store ip mac now c = (case ARPCache_store c ip mac now of Inl _ \<Rightarrow> c | Inr c' \<Rightarrow> c')"

lemma find_cache: "snd (ARPCache_lookup c ip t) = Some m \<longleftrightarrow> (\<exists>x. map_of (ac_entries c) ip = Some (m, x) \<and> t < x)"
  by (auto simp: ARPCache_lookup_def split: option.splits)

text \<open>The operations that store nothing.\<close>

datatype cache_op = Look bytes time | Expire time | Clear

fun cache_forget :: "cache_op \<Rightarrow> arp_cache \<Rightarrow> arp_cache" where
  "cache_forget (Look ip now) c = fst (ARPCache_lookup c ip now)"
| "cache_forget (Expire now) c = fst (ARPCache_expire c now)"
| "cache_forget Clear c = ARPCache_clear c"

lemma cache_forget_shrinks:
  assumes "cache_inv c"
  shows "cache_inv (cache_forget f c)" "ac_timeout (cache_forget f c) = ac_timeout c"
    "ac_max_entries (cache_forget f c) = ac_max_entries c"
    "map_of (ac_entries (cache_forget f c)) k = Some v \<Longrightarrow> map_of (ac_entries c) k = Some v"
proof -
  have wf: "dict_wf (ac_entries c)" using assms by (simp add: cache_inv_def)
  have del: "\<exists>d. c\<lparr>ac_entries := fold AList.delete ks (ac_entries c)\<rparr> = c\<lparr>ac_entries := d\<rparr> \<and> dict_wf d
      \<and> length d \<le> length (ac_entries c) \<and> (\<forall>k v. map_of d k = Some v \<longrightarrow> map_of (ac_entries c) k = Some v)" for ks
    using dict_fold_delete(1) [OF wf, of ks] dict_fold_delete(3) [of ks "ac_entries c"]
    by (intro exI [of _ "fold AList.delete ks (ac_entries c)"]) (auto simp: dict_fold_delete(2) split: if_splits)
  have "\<exists>d. cache_forget f c = c\<lparr>ac_entries := d\<rparr> \<and> dict_wf d
      \<and> length d \<le> length (ac_entries c) \<and> (\<forall>k v. map_of d k = Some v \<longrightarrow> map_of (ac_entries c) k = Some v)"
  proof (cases f)
    case (Look ip now)
    have "cache_forget f c = c\<lparr>ac_entries := fold AList.delete [] (ac_entries c)\<rparr>
        \<or> cache_forget f c = c\<lparr>ac_entries := fold AList.delete [ip] (ac_entries c)\<rparr>"
      using Look by (auto simp: ARPCache_lookup_def split: option.split)
    then show ?thesis using del [of "[]"] del [of "[ip]"] by metis
  next
    case (Expire now)
    then have "\<exists>ks. cache_forget f c = c\<lparr>ac_entries := fold AList.delete ks (ac_entries c)\<rparr>"
      by (auto simp: ARPCache_expire_def Let_def)
    then show ?thesis using del by metis
  next
    case Clear
    then show ?thesis by (intro exI [of _ "[]"]) (simp add: ARPCache_clear_def)
  qed
  then obtain d where d: "cache_forget f c = c\<lparr>ac_entries := d\<rparr>" "dict_wf d" "length d \<le> length (ac_entries c)"
    "\<And>k v. map_of d k = Some v \<Longrightarrow> map_of (ac_entries c) k = Some v"
    by blast
  then show "cache_inv (cache_forget f c)" "ac_timeout (cache_forget f c) = ac_timeout c"
    "ac_max_entries (cache_forget f c) = ac_max_entries c"
    "map_of (ac_entries (cache_forget f c)) k = Some v \<Longrightarrow> map_of (ac_entries c) k = Some v"
    using assms by (simp_all add: cache_inv_def)
qed

definition cache_ok :: "time \<Rightarrow> int \<Rightarrow> arp_cache \<Rightarrow> bool" where
  "cache_ok timeout limit c \<longleftrightarrow> cache_inv c \<and> ac_timeout c = timeout \<and> ac_max_entries c = limit"

interpretation arp: address_resolver "cache_ok timeout (int (Suc n))" timeout
  "ARPCache_init timeout (int (Suc n))" cache_store cache_forget "\<lambda>ip t c. snd (ARPCache_lookup c ip t)" for timeout n
proof
  show "cache_ok timeout (int (Suc n)) (ARPCache_init timeout (int (Suc n)))"
    by (simp add: cache_ok_def cache_inv_def ARPCache_init_def)
  show "snd (ARPCache_lookup (ARPCache_init timeout (int (Suc n))) ip t) = None" for ip t
    by (simp add: ARPCache_lookup_def ARPCache_init_def)
next
  fix s f assume s: "cache_ok timeout (int (Suc n)) s"
  show "cache_ok timeout (int (Suc n)) (cache_forget f s)"
    using s cache_forget_shrinks by (simp add: cache_ok_def)
  show "snd (ARPCache_lookup s ip t) = Some m" if "snd (ARPCache_lookup (cache_forget f s) ip t) = Some m" for ip t m
    using that s cache_forget_shrinks(4) unfolding find_cache cache_ok_def by blast
next
  fix s ip mac now assume s: "cache_ok timeout (int (Suc n)) s"
  obtain c' where c': "ARPCache_store s ip mac now = Inr c'" "cache_ok timeout (int (Suc n)) c'"
    "map_of (ac_entries c') ip = Some (mac, now + timeout)"
    "\<forall>k. k \<noteq> ip \<longrightarrow> map_of (ac_entries c') k = map_of (ac_entries s) k
       \<or> map_of (ac_entries c') k = None \<and> closest_to_expiry (ac_entries s) = Some k"
    using store_total [of s ip mac now] s unfolding cache_ok_def by metis
  have st: "cache_store ip mac now s = c'" by (simp add: cache_store_def c'(1))
  show "cache_ok timeout (int (Suc n)) (cache_store ip mac now s)" using st c'(2) by simp
  show "m = mac \<and> t < now + timeout" if "snd (ARPCache_lookup (cache_store ip mac now s) ip t) = Some m" for t m
    using that st c'(3) by (auto simp: find_cache)
  show "snd (ARPCache_lookup s k t) = Some m"
    if "k \<noteq> ip" "snd (ARPCache_lookup (cache_store ip mac now s) k t) = Some m" for k t m
    using that c'(4) unfolding st find_cache by (metis option.distinct(1))
qed


section \<open>Properties\<close>

text \<open>A run of the cache, newest operation first.\<close>

primrec cache_run :: "time \<Rightarrow> int \<Rightarrow> cache_op resolver_step list \<Rightarrow> py_error + arp_cache" where
  "cache_run timeout limit [] = Inr (ARPCache_init timeout limit)"
| "cache_run timeout limit (step # steps) =
     sum_bind (cache_run timeout limit steps) (\<lambda>c.
     case step of
       Store ip mac now \<Rightarrow> ARPCache_store c ip mac now
     | Forget f \<Rightarrow> Inr (cache_forget f c))"

lemma cache_run_resolver: "cache_run timeout (int (Suc n)) steps = Inr (arp.run timeout n steps)"
proof (induction steps)
  case (Cons step steps)
  show ?case
  proof (cases step)
    case (Store ip mac now)
    obtain c' where "ARPCache_store (arp.run timeout n steps) ip mac now = Inr c'"
      using store_total [of "arp.run timeout n steps"] arp.ok_run [of timeout n steps]
      unfolding cache_ok_def by metis
    moreover from this have "cache_store ip mac now (arp.run timeout n steps) = c'"
      by (simp add: cache_store_def)
    ultimately show ?thesis using Cons Store by (simp del: of_nat_Suc)
  qed (simp add: Cons del: of_nat_Suc)
qed (simp del: of_nat_Suc)

text \<open>C39. Whatever is stored, looked up, expired or cleared in whatever order, the ARP cache
  never raises and never holds more than its limit; and when it answers, the answer is the MAC
  address most recently stored for that IP address, stored less than the timeout before.\<close>

theorem arp_cache_truthful:
  assumes "0 < limit"
  shows "\<exists>c. cache_run timeout limit steps = Inr c \<and> ARPCache_len c \<le> limit
     \<and> (\<forall>ip t mac. snd (ARPCache_lookup c ip t) = Some mac \<longrightarrow>
          (\<exists>now. map_of (stored steps) ip = Some (mac, now) \<and> t < now + timeout))"
proof -
  obtain n where n: "limit = int (Suc n)" using assms by (metis gr0_implies_Suc pos_int_cases)
  show ?thesis
    unfolding n using arp.ok_run [of timeout n steps] arp.find_run [of timeout n, where steps = steps]
    by (auto simp: cache_run_resolver cache_ok_def cache_inv_def ARPCache_len_def simp del: of_nat_Suc)
qed

theorem arp_cache_truthful_witness:
  "\<exists>c. cache_run 300 1 [Store [10, 0, 0, 3] [9] 2, Store [10, 0, 0, 2] [8] 1] = Inr c \<and> ARPCache_len c \<le> 1
     \<and> (\<forall>ip t mac. snd (ARPCache_lookup c ip t) = Some mac \<longrightarrow>
          (\<exists>now. map_of (stored [Store [10, 0, 0, 3] [9] 2, Store [10, 0, 0, 2] [8] 1 :: cache_op resolver_step]) ip = Some (mac, now)
               \<and> t < now + 300))"
  by (rule arp_cache_truthful) simp

end
