(* ===== verification/Udp.thy ===== *)
theory Udp
  imports IPv4
begin

text \<open>
  \<open>minitcp/net/udp.py\<close>: UDP datagrams. A computed checksum of zero is transmitted as all ones,
  and a received zero means that none was computed.
\<close>

definition UDP_HEADER_LEN :: int where "UDP_HEADER_LEN = 8"
definition MAX_PORT :: int where "MAX_PORT = 0xFFFF"

record udp_segment =
  udp_src_port :: int
  udp_dst_port :: int
  udp_payload :: bytes
  udp_checksum :: int

definition udp_length :: "udp_segment \<Rightarrow> int" where
  "udp_length s = UDP_HEADER_LEN + len (udp_payload s)"

definition UDPSegment_to_bytes :: "udp_segment \<Rightarrow> bytes option \<Rightarrow> bytes option \<Rightarrow> bool \<Rightarrow> py_error + bytes" where
  "UDPSegment_to_bytes s src_ip dst_ip compute_checksum =
     (if \<not> (0 \<le> udp_src_port s \<and> udp_src_port s \<le> MAX_PORT) then Inl ValueError
      else if \<not> (0 \<le> udp_dst_port s \<and> udp_dst_port s \<le> MAX_PORT) then Inl ValueError
      else if udp_length s > 0xFFFF then Inl ValueError
      else
        sum_bind (struct_pack [FH (udp_src_port s), FH (udp_dst_port s), FH (udp_length s), FH 0]) (\<lambda>header.
        sum_bind (if compute_checksum then
                    case (src_ip, dst_ip) of
                      (Some src, Some dst) \<Rightarrow>
                        sum_bind (transport_checksum src dst PROTO_UDP (header @ udp_payload s)) (\<lambda>csum.
                        Inr (if csum = 0 then 0xFFFF else csum))
                    | _ \<Rightarrow> Inl ValueError
                  else Inr (udp_checksum s)) (\<lambda>csum.
        sum_bind (struct_pack [FH csum]) (\<lambda>field.
        Inr (take 6 header @ field @ udp_payload s)))))"

definition UDPSegment_parse :: "bytes \<Rightarrow> bytes \<Rightarrow> bytes \<Rightarrow> py_error + udp_segment" where
  "UDPSegment_parse data src_ip dst_ip =
     (if len data < UDP_HEADER_LEN then Inl ValueError
      else
        let length_field = get_u16 data 4;
            csum = get_u16 data 6
        in if length_field < UDP_HEADER_LEN then Inl ValueError
           else if length_field > len data then Inl ValueError
           else
             let body = take (nat length_field) data
             in sum_bind (if csum \<noteq> 0 then
                            sum_bind (transport_checksum src_ip dst_ip PROTO_UDP body) (\<lambda>v. Inr (v \<noteq> 0))
                          else Inr False) (\<lambda>mismatch.
                if mismatch then Inl ValueError
                else Inr \<lparr>udp_src_port = get_u16 data 0, udp_dst_port = get_u16 data 2,
                          udp_payload = drop 8 body, udp_checksum = csum\<rparr>))"


section \<open>Round trip\<close>

definition udp_carried :: "udp_segment \<Rightarrow> bool" where
  "udp_carried s \<longleftrightarrow>
     0 \<le> udp_src_port s \<and> udp_src_port s \<le> MAX_PORT \<and> 0 \<le> udp_dst_port s \<and> udp_dst_port s \<le> MAX_PORT
     \<and> udp_length s \<le> 0xFFFF"

definition udp_front :: "udp_segment \<Rightarrow> bytes" where
  "udp_front s = be16 (udp_src_port s) @ be16 (udp_dst_port s) @ be16 (udp_length s)"

lemma length_udp_front [simp]: "length (udp_front s) = 6"
  by (simp add: udp_front_def)

text \<open>The checksum over all ones in the field is the one over zero: the substitution of
  \<open>0xFFFF\<close> for zero keeps the datagram valid.\<close>

lemma udp_checksum_fill:
  assumes "transport_checksum src dst PROTO_UDP (udp_front s @ [0, 0] @ p) = Inr c"
    and "length src = 4" and "length dst = 4"
  shows "transport_checksum src dst PROTO_UDP (udp_front s @ be16 (if c = 0 then 0xFFFF else c) @ p) = Inr 0"
    and "0 < (if c = 0 then 0xFFFF else c)" and "(if c = 0 then 0xFFFF else c) < 65536"
proof -
  note fill = transport_checksum_fill [OF assms(1)]
  have c: "0 \<le> c" "c < 65536" and ok: "transport_checksum src dst PROTO_UDP (udp_front s @ be16 c @ p) = Inr 0"
    using fill assms(2,3) by simp_all
  show "0 < (if c = 0 then 0xFFFF else c)" "(if c = 0 then 0xFFFF else c) < 65536" using c by auto
  show "transport_checksum src dst PROTO_UDP (udp_front s @ be16 (if c = 0 then 0xFFFF else c) @ p) = Inr 0"
  proof (cases "c = 0")
    case False
    with ok show ?thesis by simp
  next
    case True
    let ?h = "src @ dst @ [0, word_of_int PROTO_UDP] @ be16 (len (udp_front s @ [0, 0] @ p)) @ udp_front s"
    have ev: "even (length ?h)" using assms(2,3) by simp
    have zero: "checksum (?h @ [0, 0] @ p) = 0"
      using ok True by (simp add: transport_checksum_eq be16_def split: if_splits)
    have ones: "word_sum (?h @ be16 0xFFFF @ p) = word_sum (?h @ [0, 0] @ p) + 65535"
      using word_sum_append [OF ev] word_sum_be16 [of "0xFFFF" p] by (simp add: word_sum_word)
    from zero have "0 < word_sum (?h @ [0, 0] @ p) \<and> 65535 dvd word_sum (?h @ [0, 0] @ p)"
      unfolding checksum_0 .
    then have "checksum (?h @ be16 0xFFFF @ p) = 0"
      unfolding checksum_0 ones by simp
    then show ?thesis
      using ok True by (simp add: transport_checksum_eq split: if_splits)
  qed
qed

lemma udp_to_bytes_layout:
  assumes "udp_carried s" and "length src = 4" and "length dst = 4"
  shows "\<exists>c. UDPSegment_to_bytes s (Some src) (Some dst) True = Inr (udp_front s @ be16 c @ udp_payload s)
     \<and> 0 < c \<and> c < 65536
     \<and> transport_checksum src dst PROTO_UDP (udp_front s @ be16 c @ udp_payload s) = Inr 0"
proof -
  have r: "0 \<le> udp_src_port s" "udp_src_port s < 65536" "0 \<le> udp_dst_port s" "udp_dst_port s < 65536"
    "0 \<le> udp_length s" "udp_length s < 65536"
    using assms(1) by (simp_all add: udp_carried_def MAX_PORT_def udp_length_def UDP_HEADER_LEN_def)
  have header: "struct_pack [FH (udp_src_port s), FH (udp_dst_port s), FH (udp_length s), FH 0] = Inr (udp_front s @ [0, 0])"
    using r by (simp add: udp_front_def be16_def [of 0])
  have "len (udp_front s @ [0, 0] @ udp_payload s) < 2 ^ 16"
    using r by (simp add: udp_length_def UDP_HEADER_LEN_def)
  then obtain v where v: "transport_checksum src dst PROTO_UDP (udp_front s @ [0, 0] @ udp_payload s) = Inr v"
    by (simp add: transport_checksum_eq PROTO_UDP_def)
  define c where "c = (if v = 0 then 0xFFFF else v)"
  note fill = udp_checksum_fill [OF v assms(2,3), folded c_def]
  have "struct_pack [FH c] = Inr (be16 c)" using fill by simp
  then have "UDPSegment_to_bytes s (Some src) (Some dst) True = Inr (udp_front s @ be16 c @ udp_payload s)"
    using r assms(1) header v
    by (simp add: UDPSegment_to_bytes_def udp_carried_def c_def [symmetric] del: struct_pack.simps)
  with fill show ?thesis by blast
qed

lemma udp_layout_fields:
  assumes "udp_carried s" and "d = udp_front s @ be16 c @ rest" and "0 \<le> c" and "c < 65536"
  shows "get_u16 d 0 = udp_src_port s" "get_u16 d 2 = udp_dst_port s" "get_u16 d 4 = udp_length s" "get_u16 d 6 = c"
proof -
  note d = assms(2) [unfolded udp_front_def append.assoc]
  have r: "0 \<le> udp_src_port s" "udp_src_port s < 65536" "0 \<le> udp_dst_port s" "udp_dst_port s < 65536"
    "0 \<le> udp_length s" "udp_length s < 65536"
    using assms(1) by (simp_all add: udp_carried_def MAX_PORT_def udp_length_def UDP_HEADER_LEN_def)
  show "get_u16 d 0 = udp_src_port s"
    by (rule get_u16_at [of _ "[]" _ "drop 2 d"]) (use d r in simp_all)
  show "get_u16 d 2 = udp_dst_port s"
    by (rule get_u16_at [of _ "take 2 d" _ "drop 4 d"]) (use d r in simp_all)
  show "get_u16 d 4 = udp_length s"
    by (rule get_u16_at [of _ "take 4 d" _ "drop 6 d"]) (use d r in simp_all)
  show "get_u16 d 6 = c"
    by (rule get_u16_at [of _ "take 6 d" _ "drop 8 d"]) (use d assms(3,4) in simp_all)
qed

lemma udp_reparse:
  assumes "udp_carried s" and "length src = 4" and "length dst = 4"
    and "UDPSegment_to_bytes s (Some src) (Some dst) True = Inr b"
  shows "\<exists>c. UDPSegment_parse (b @ pad) src dst = Inr (s\<lparr>udp_checksum := c\<rparr>) \<and> 0 < c"
proof -
  obtain c where c: "0 < c" "c < 65536" and b: "b = udp_front s @ be16 c @ udp_payload s"
    and sum: "transport_checksum src dst PROTO_UDP b = Inr 0"
    using udp_to_bytes_layout [OF assms(1-3)] assms(4) by auto
  have d: "b @ pad = udp_front s @ be16 c @ udp_payload s @ pad" by (simp add: b)
  note f = udp_layout_fields [OF assms(1) d]
  have l: "nat (udp_length s) = length b" "udp_length s = len b" "8 \<le> length b"
    by (simp_all add: b udp_length_def UDP_HEADER_LEN_def nat_add_distrib)
  have body: "drop 8 b = udp_payload s" by (simp add: b)
  have "UDPSegment_parse (b @ pad) src dst = Inr (s\<lparr>udp_checksum := c\<rparr>)"
    unfolding UDPSegment_parse_def Let_def f(1-4) [OF less_imp_le [OF c(1)] c(2)] l(1)
    using l sum c body by (simp add: UDP_HEADER_LEN_def)
  with c(1) show ?thesis by blast
qed

lemma udp_parse_error: "UDPSegment_parse d src dst = Inl e \<Longrightarrow> e = ValueError"
proof -
  have *: "transport_checksum src dst PROTO_UDP (take (nat n) d) \<noteq> Inl e" if "0 \<le> n" "n < 65536" for n
    using that by (auto simp: transport_checksum_eq PROTO_UDP_def nat_less_iff min_def)
  show "UDPSegment_parse d src dst = Inl e \<Longrightarrow> e = ValueError"
    using * [of "get_u16 d 4"]
    by (auto simp: UDPSegment_parse_def Let_def sum_bind_Inl split: if_splits)
qed

definition udp_view :: "udp_segment \<Rightarrow> udp_segment" where
  "udp_view s = s\<lparr>udp_checksum := 0\<rparr>"

definition udp_addressed :: "bytes \<Rightarrow> bytes \<Rightarrow> udp_segment \<Rightarrow> bool" where
  "udp_addressed src dst s \<longleftrightarrow> length src = 4 \<and> length dst = 4 \<and> udp_carried s"

interpretation udp_wire: codec "udp_addressed src dst" udp_view
  "\<lambda>s. UDPSegment_to_bytes s (Some src) (Some dst) True" "\<lambda>d. UDPSegment_parse d src dst" for src dst
proof
  show "\<exists>y. UDPSegment_parse b src dst = Inr y \<and> udp_view y = udp_view x"
    if "udp_addressed src dst x" "UDPSegment_to_bytes x (Some src) (Some dst) True = Inr b" for x b
    using udp_reparse [of x src dst b "[]"] that by (auto simp: udp_addressed_def udp_view_def)
qed


definition sample_udp :: udp_segment where
  "sample_udp = \<lparr>udp_src_port = 5353, udp_dst_port = 53, udp_payload = [1, 2, 3], udp_checksum = 0\<rparr>"


end
