(* ===== verification/Icmp.thy ===== *)
theory Icmp
  imports IPv4
begin

text \<open>
  \<open>minitcp/net/icmp.py\<close>: ICMP messages and the body of echo requests and replies.
\<close>

definition ECHO_REPLY :: int where "ECHO_REPLY = 0"
definition DEST_UNREACHABLE :: int where "DEST_UNREACHABLE = 3"
definition ECHO_REQUEST :: int where "ECHO_REQUEST = 8"
definition TIME_EXCEEDED :: int where "TIME_EXCEEDED = 11"
definition ICMP_HEADER_LEN :: int where "ICMP_HEADER_LEN = 4"

record icmp_message =
  icmp_type :: int
  icmp_code :: int
  icmp_body :: bytes

definition ICMPMessage_to_bytes :: "icmp_message \<Rightarrow> py_error + bytes" where
  "ICMPMessage_to_bytes m =
     sum_bind (struct_pack [FB (icmp_type m), FB (icmp_code m), FH 0]) (\<lambda>fixed.
     let header = fixed @ icmp_body m
     in sum_bind (struct_pack [FH (checksum header)]) (\<lambda>field.
        Inr (take 2 header @ field @ drop 4 header)))"

definition ICMPMessage_parse :: "bytes \<Rightarrow> py_error + icmp_message" where
  "ICMPMessage_parse data =
     (if len data < ICMP_HEADER_LEN then Inl ValueError
      else if checksum data \<noteq> 0 then Inl ValueError
      else Inr \<lparr>icmp_type = get_u8 data 0, icmp_code = get_u8 data 1, icmp_body = drop 4 data\<rparr>)"

record echo_message =
  echo_identifier :: int
  echo_sequence :: int
  echo_data :: bytes

definition EchoMessage_to_icmp :: "echo_message \<Rightarrow> int \<Rightarrow> py_error + icmp_message" where
  "EchoMessage_to_icmp m kind =
     sum_bind (struct_pack [FH (echo_identifier m AND 0xFFFF), FH (echo_sequence m AND 0xFFFF)]) (\<lambda>body.
     Inr \<lparr>icmp_type = kind, icmp_code = 0, icmp_body = body @ echo_data m\<rparr>)"

definition EchoMessage_from_icmp :: "icmp_message \<Rightarrow> py_error + echo_message" where
  "EchoMessage_from_icmp message =
     (if length (icmp_body message) < 4 then Inl ValueError
      else Inr \<lparr>echo_identifier = get_u16 (icmp_body message) 0, echo_sequence = get_u16 (icmp_body message) 2,
                echo_data = drop 4 (icmp_body message)\<rparr>)"


section \<open>Round trips\<close>

definition icmp_carried :: "icmp_message \<Rightarrow> bool" where
  "icmp_carried m \<longleftrightarrow> 0 \<le> icmp_type m \<and> icmp_type m < 2 ^ 8 \<and> 0 \<le> icmp_code m \<and> icmp_code m < 2 ^ 8"

lemma icmp_to_bytes_eq:
  assumes "icmp_carried m"
  shows "ICMPMessage_to_bytes m = Inr ([word_of_int (icmp_type m), word_of_int (icmp_code m)]
     @ be16 (checksum ([word_of_int (icmp_type m), word_of_int (icmp_code m)] @ [0, 0] @ icmp_body m)) @ icmp_body m)"
proof -
  have csum: "struct_pack [FH (checksum d)] = Inr (be16 (checksum d))" for d
    using checksum_range [of d] by simp
  have "struct_pack [FB (icmp_type m), FB (icmp_code m), FH 0]
      = Inr ([word_of_int (icmp_type m), word_of_int (icmp_code m)] @ [0, 0])"
    using assms by (simp add: icmp_carried_def be16_def)
  then show ?thesis
    by (simp add: ICMPMessage_to_bytes_def csum Let_def del: struct_pack.simps)
qed

lemma icmp_reparse:
  assumes "icmp_carried m" and "ICMPMessage_to_bytes m = Inr b"
  shows "ICMPMessage_parse b = Inr m"
proof -
  let ?p = "[word_of_int (icmp_type m), word_of_int (icmp_code m)] :: bytes"
  let ?c = "checksum (?p @ [0, 0] @ icmp_body m)"
  have b: "b = ?p @ be16 ?c @ icmp_body m" using icmp_to_bytes_eq [OF assms(1)] assms(2) by simp
  have "checksum b = 0" unfolding b by (rule checksum_filled(1) [OF _ refl]) simp
  moreover have "get_u8 b 0 = icmp_type m" "get_u8 b 1 = icmp_code m"
    using assms(1) by (simp_all add: b get_u8_def icmp_carried_def)
  ultimately show ?thesis by (simp add: ICMPMessage_parse_def ICMP_HEADER_LEN_def b)
qed

lemma icmp_parse_carried: "ICMPMessage_parse d = Inr m \<Longrightarrow> icmp_carried m"
  by (auto simp: ICMPMessage_parse_def icmp_carried_def split: if_splits)

lemma icmp_parse_error: "ICMPMessage_parse d = Inl e \<Longrightarrow> e = ValueError"
  by (auto simp: ICMPMessage_parse_def split: if_splits)

interpretation icmp_wire: strict_codec icmp_carried "\<lambda>m. m" ICMPMessage_to_bytes ICMPMessage_parse
proof
  show "\<exists>y. ICMPMessage_parse b = Inr y \<and> y = x" if "icmp_carried x" "ICMPMessage_to_bytes x = Inr b" for x b
    using icmp_reparse [OF that] by simp
  show "icmp_carried y" if "ICMPMessage_parse b = Inr y" for b y
    using that by (rule icmp_parse_carried)
qed

text \<open>An echo reply carries the identifier, the sequence number and the data of the request.\<close>

lemma echo_roundtrip:
  "\<exists>m. EchoMessage_to_icmp e t = Inr m \<and> icmp_type m = t
     \<and> EchoMessage_from_icmp m = Inr (e\<lparr>echo_identifier := echo_identifier e mod 65536,
                                          echo_sequence := echo_sequence e mod 65536\<rparr>)"
proof -
  let ?i = "echo_identifier e mod 65536" and ?s = "echo_sequence e mod 65536"
  let ?b = "be16 ?i @ be16 ?s @ echo_data e"
  have "get_u16 ?b 0 = ?i" by (rule get_u16_at [of _ "[]" _ "drop 2 ?b"]) simp_all
  moreover have "get_u16 ?b 2 = ?s" by (rule get_u16_at [of _ "be16 ?i" _ "echo_data e"]) simp_all
  ultimately show ?thesis
    by (simp add: EchoMessage_to_icmp_def EchoMessage_from_icmp_def mask_16)
qed

end
