(* ===== verification/Stack.thy ===== *)
theory Stack
  imports Connection IPv4 Arp Udp Icmp
begin

text \<open>
  \<open>minitcp/stack.py\<close>: one interface with its ARP cache, reassembler, connections, listeners and
  handlers; what arrives is demultiplexed, what leaves is routed and resolved.

  \<^item> An operation takes the state and returns the new one together with its result or the exception
    it raised (type \<open>act\<close>): what it had changed before raising stays changed, as in Python.
  \<^item> Connection objects are shared between the connection table, the listeners and the accept queues,
    so they live in a store, the list \<open>st_objects\<close>, and the tables hold their index.
  \<^item> The callbacks a connection is created with are given by its role. A connection records its calls
    of \<open>transmit\<close> and of the callbacks, and the stack performs them, in order, when the connection's
    operation is done: none of them reads or changes the connection. Had one raised, the rest of the
    operation would have been skipped; the theorems that follow a frame through the stack cover runs in which none does.
  \<^item> Frames handed to \<open>link.send_frame\<close> are appended to \<open>st_frames\<close>, calls of UDP handlers to
    \<open>st_upcalls\<close>. The clock is read once per call (\<open>now\<close>), \<open>rnd\<close> supplies an initial sequence number.
  \<^item> The thread, the locks and the waiting loops are not modelled: \<open>tcp_accept\<close> is one poll, and
    \<open>tcp_connect\<close> is the part before the wait and the part after it.
\<close>

section \<open>State\<close>

definition FIRST_EPHEMERAL_PORT :: int where "FIRST_EPHEMERAL_PORT = 49152"
definition LAST_EPHEMERAL_PORT :: int where "LAST_EPHEMERAL_PORT = 65535"

record stats =
  sx_frames_in :: int
  sx_frames_out :: int
  sx_frames_dropped :: int
  sx_ipv4_in :: int
  sx_ipv4_out :: int
  sx_arp_requests_sent :: int
  sx_arp_replies_sent :: int
  sx_icmp_echo_replied :: int
  sx_tcp_in :: int
  sx_tcp_out :: int
  sx_udp_in :: int
  sx_udp_out :: int
  sx_reassembly_failures :: int
  sx_malformed :: int
  sx_errors :: int

datatype conn_role = ListenerOn int | Accepted | Client

record conn_object =
  ob_conn :: conn
  ob_role :: conn_role
  ob_established :: bool
  ob_failed :: bool

type_synonym cid = nat
type_synonym conn_key = "bytes \<times> int \<times> bytes \<times> int"

record stack =
  st_mac :: bytes
  st_ip :: bytes
  st_netmask :: bytes
  st_gateway :: "bytes option"
  st_promiscuous :: bool
  st_receive_capacity :: int
  st_arp_cache :: arp_cache
  st_reassembler :: reassembler
  st_objects :: "conn_object list"
  st_connections :: "(conn_key, cid) dict"
  st_listeners :: "(int, cid) dict"
  st_accept_queues :: "(int, cid list) dict"
  st_read_events :: "(cid, bool) dict"
  st_udp_handlers :: "(int, nat) dict"
  st_arp_pending :: "(bytes, ipv4_packet list) dict"
  st_max_arp_pending :: int
  st_next_port :: int
  st_next_id :: int
  st_stats :: stats
  st_frames :: "bytes list"
  st_upcalls :: "(nat \<times> bytes \<times> bytes \<times> int) list"

type_synonym 'a act = "stack \<Rightarrow> stack \<times> (py_error + 'a)"

definition act_return :: "'a \<Rightarrow> 'a act" where
  "act_return x s = (s, Inr x)"

definition act_lift :: "py_error + 'a \<Rightarrow> 'a act" where
  "act_lift r s = (s, r)"

definition act_bind :: "'a act \<Rightarrow> ('a \<Rightarrow> 'b act) \<Rightarrow> 'b act" where
  "act_bind m f s = (case m s of (s', Inl e) \<Rightarrow> (s', Inl e) | (s', Inr x) \<Rightarrow> f x s')"

definition act_modify :: "(stack \<Rightarrow> stack) \<Rightarrow> unit act" where
  "act_modify f s = (f s, Inr ())"

definition act_then :: "unit act \<Rightarrow> 'b act \<Rightarrow> 'b act" where
  "act_then m k = act_bind m (\<lambda>_. k)"

definition act_catch :: "(py_error \<Rightarrow> bool) \<Rightarrow> unit act \<Rightarrow> (stack \<Rightarrow> stack) \<Rightarrow> unit act" where
  "act_catch p m handler s =
     (case m s of (s', Inl e) \<Rightarrow> if p e then (handler s', Inr ()) else (s', Inl e) | r \<Rightarrow> r)"

primrec act_each :: "'a list \<Rightarrow> ('a \<Rightarrow> unit act) \<Rightarrow> unit act" where
  "act_each [] f = act_return ()"
| "act_each (x # xs) f = act_then (f x) (act_each xs f)"

definition tally :: "((int \<Rightarrow> int) \<Rightarrow> stats \<Rightarrow> stats) \<Rightarrow> stack \<Rightarrow> stack" where
  "tally field s = s\<lparr>st_stats := field (\<lambda>n. n + 1) (st_stats s)\<rparr>"

text \<open>An address argument is text or bytes, a netmask also a prefix length.\<close>

datatype ip_arg = IpText string | IpBytes bytes

fun coerce_ip :: "ip_arg \<Rightarrow> py_error + bytes" where
  "coerce_ip (IpText t) = ip_to_bytes t"
| "coerce_ip (IpBytes b) = Inr b"

datatype netmask_arg = MaskPrefix int | MaskText string | MaskBytes bytes

fun coerce_netmask :: "netmask_arg \<Rightarrow> py_error + bytes" where
  "coerce_netmask (MaskPrefix n) = prefix_to_mask n"
| "coerce_netmask (MaskText t) = ip_to_bytes t"
| "coerce_netmask (MaskBytes b) = (if length b \<noteq> 4 then Inl StackError else Inr b)"

definition Stack_init ::
  "bytes \<Rightarrow> ip_arg \<Rightarrow> netmask_arg \<Rightarrow> ip_arg option \<Rightarrow> bool \<Rightarrow> int \<Rightarrow> int \<Rightarrow> py_error + stack" where
  "Stack_init mac ip netmask gateway promiscuous max_arp_pending receive_capacity =
     sum_bind (coerce_ip ip) (\<lambda>ip_bytes.
     sum_bind (coerce_netmask netmask) (\<lambda>netmask_bytes.
     sum_bind (case gateway of None \<Rightarrow> Inr None
               | Some g \<Rightarrow> sum_bind (coerce_ip g) (\<lambda>b. Inr (Some b))) (\<lambda>gateway_bytes.
     Inr \<lparr>st_mac = mac, st_ip = ip_bytes, st_netmask = netmask_bytes, st_gateway = gateway_bytes,
          st_promiscuous = promiscuous, st_receive_capacity = receive_capacity,
          st_arp_cache = ARPCache_init 300 256, st_reassembler = Reassembler_init 30 64,
          st_objects = [], st_connections = [], st_listeners = [], st_accept_queues = [],
          st_read_events = [], st_udp_handlers = [], st_arp_pending = [],
          st_max_arp_pending = max_arp_pending, st_next_port = FIRST_EPHEMERAL_PORT, st_next_id = 1,
          st_stats = \<lparr>sx_frames_in = 0, sx_frames_out = 0, sx_frames_dropped = 0, sx_ipv4_in = 0, sx_ipv4_out = 0,
            sx_arp_requests_sent = 0, sx_arp_replies_sent = 0, sx_icmp_echo_replied = 0, sx_tcp_in = 0,
            sx_tcp_out = 0, sx_udp_in = 0, sx_udp_out = 0, sx_reassembly_failures = 0, sx_malformed = 0, sx_errors = 0\<rparr>,
          st_frames = [], st_upcalls = []\<rparr>)))"


section \<open>Helpers\<close>

definition stack_allocate_id :: "int act" where
  "stack_allocate_id s =
     (let value = st_next_id s;
          next_id = (st_next_id s + 1) AND 0xFFFF
      in (s\<lparr>st_next_id := (if next_id = 0 then 1 else next_id)\<rparr>, Inr value))"

definition stack_port_in_use :: "stack \<Rightarrow> int \<Rightarrow> bool" where
  "stack_port_in_use s port \<longleftrightarrow>
     map_of (st_listeners s) port \<noteq> None \<or> list_ex (\<lambda>(_, local_port, _, _). local_port = port) (map fst (st_connections s))"

text \<open>The loop of \<open>_allocate_port\<close>; the first argument counts its rounds.\<close>

fun allocate_port_loop :: "nat \<Rightarrow> int act" where
  "allocate_port_loop 0 s = (s, Inl StackError)"
| "allocate_port_loop (Suc n) s =
     (let port = st_next_port s;
          s1 = s\<lparr>st_next_port := (if st_next_port s + 1 > LAST_EPHEMERAL_PORT then FIRST_EPHEMERAL_PORT
                                   else st_next_port s + 1)\<rparr>
      in if \<not> stack_port_in_use s1 port then (s1, Inr port) else allocate_port_loop n s1)"

definition stack_allocate_port :: "int act" where
  "stack_allocate_port = allocate_port_loop (nat (LAST_EPHEMERAL_PORT - FIRST_EPHEMERAL_PORT))"

definition stack_forget :: "cid \<Rightarrow> stack \<Rightarrow> stack" where
  "stack_forget c s =
     s\<lparr>st_read_events := AList.delete c (st_read_events s),
       st_connections := filter (\<lambda>(_, c'). c' \<noteq> c) (st_connections s)\<rparr>"

definition stack_signal_readable :: "cid \<Rightarrow> stack \<Rightarrow> stack" where
  "stack_signal_readable c s =
     (case map_of (st_read_events s) c of
        None \<Rightarrow> s
      | Some _ \<Rightarrow> s\<lparr>st_read_events := AList.update c True (st_read_events s)\<rparr>)"


section \<open>Outbound path\<close>

definition stack_emit :: "bytes \<Rightarrow> int \<Rightarrow> bytes \<Rightarrow> unit act" where
  "stack_emit dst_mac ethertype payload =
     act_then (act_modify (tally sx_frames_out_update))
     (act_then (act_modify (if ethertype = ETHERTYPE_IPV4 then tally sx_ipv4_out_update else (\<lambda>s. s)))
     (\<lambda>s. act_bind (act_lift (EthernetFrame_to_bytes
             \<lparr>eth_dst = dst_mac, eth_src = st_mac s, eth_ethertype = ethertype, eth_payload = payload\<rparr> True))
            (\<lambda>raw. act_modify (\<lambda>s. s\<lparr>st_frames := st_frames s @ [raw]\<rparr>)) s))"

definition stack_send_arp_request :: "bytes \<Rightarrow> unit act" where
  "stack_send_arp_request target_ip s =
     (let request = ARPPacket ARP_REQUEST (st_mac s) (st_ip s) (replicate 6 0) target_ip
      in act_then (act_modify (tally sx_arp_requests_sent_update))
         (act_bind (act_lift (ARPPacket_to_bytes request)) (stack_emit BROADCAST_MAC ETHERTYPE_ARP)) s)"

definition stack_park_pending :: "bytes \<Rightarrow> ipv4_packet \<Rightarrow> unit act" where
  "stack_park_pending ip packet s =
     (let queue = (case map_of (st_arp_pending s) ip of None \<Rightarrow> [] | Some q \<Rightarrow> q);
          s1 = s\<lparr>st_arp_pending := AList.update ip queue (st_arp_pending s)\<rparr>
      in if len queue \<ge> st_max_arp_pending s then act_modify (tally sx_frames_dropped_update) s1
         else stack_send_arp_request ip
                (s1\<lparr>st_arp_pending := AList.update ip (queue @ [packet]) (st_arp_pending s1)\<rparr>))"

definition stack_flush_pending :: "bytes \<Rightarrow> bytes \<Rightarrow> unit act" where
  "stack_flush_pending ip mac s =
     (let queue = (case map_of (st_arp_pending s) ip of None \<Rightarrow> [] | Some q \<Rightarrow> q);
          s1 = s\<lparr>st_arp_pending := AList.delete ip (st_arp_pending s)\<rparr>
      in act_each queue (\<lambda>packet. act_bind (act_lift (IPv4Packet_to_bytes packet)) (stack_emit mac ETHERTYPE_IPV4)) s1)"

definition stack_next_hop :: "stack \<Rightarrow> bytes \<Rightarrow> py_error + bytes" where
  "stack_next_hop s dst =
     sum_bind (same_subnet dst (st_ip s) (st_netmask s)) (\<lambda>local.
     if local then Inr dst
     else case st_gateway s of Some gateway \<Rightarrow> Inr gateway | None \<Rightarrow> Inr dst)"

definition stack_arp_lookup :: "bytes \<Rightarrow> time \<Rightarrow> bytes option act" where
  "stack_arp_lookup ip now s =
     (let (cache, mac) = ARPCache_lookup (st_arp_cache s) ip now in (s\<lparr>st_arp_cache := cache\<rparr>, Inr mac))"

definition stack_send_ipv4 :: "ipv4_packet \<Rightarrow> time \<Rightarrow> bool act" where
  "stack_send_ipv4 packet now =
     (if ip_dst packet = IP_BROADCAST then
        act_bind (act_lift (IPv4Packet_to_bytes packet)) (\<lambda>raw.
        act_then (stack_emit BROADCAST_MAC ETHERTYPE_IPV4 raw) (act_return True))
      else
        (\<lambda>s. act_bind (act_lift (stack_next_hop s (ip_dst packet))) (\<lambda>next_hop.
         act_bind (stack_arp_lookup next_hop now) (\<lambda>mac.
         case mac of
           None \<Rightarrow> act_then (stack_park_pending next_hop packet) (act_return False)
         | Some m \<Rightarrow>
             act_bind (act_lift (IPv4Packet_to_bytes packet)) (\<lambda>raw.
             act_then (stack_emit m ETHERTYPE_IPV4 raw) (act_return True)))) s))"

text \<open>\<open>IPv4Packet(src=self.ip, dst=..., protocol=..., payload=..., ttl=64, identification=...)\<close>, with
  the payload computed before the identification is allocated.\<close>

definition stack_send_payload :: "bytes \<Rightarrow> int \<Rightarrow> py_error + bytes \<Rightarrow> time \<Rightarrow> bool act" where
  "stack_send_payload dst protocol payload now =
     act_bind (act_lift payload) (\<lambda>data.
     act_bind stack_allocate_id (\<lambda>ident s.
     stack_send_ipv4 \<lparr>ip_src = st_ip s, ip_dst = dst, ip_protocol = protocol, ip_payload = data, ip_ttl = 64,
       ip_identification = ident, ip_flags = 0, ip_fragment_offset = 0, ip_dscp = 0, ip_options = []\<rparr> now s))"

definition stack_transmit_segment :: "tcp_segment \<Rightarrow> bytes \<Rightarrow> time \<Rightarrow> unit act" where
  "stack_transmit_segment segment remote_ip now =
     act_then (act_modify (tally sx_tcp_out_update))
     (\<lambda>s. act_bind (stack_send_payload remote_ip PROTO_TCP
             (TCPSegment_to_bytes segment (Some (st_ip s)) (Some remote_ip) True) now) (\<lambda>_. act_return ()) s)"

section \<open>Driving connections\<close>

definition stack_object :: "stack \<Rightarrow> cid \<Rightarrow> conn_object" where
  "stack_object s c = st_objects s ! c"

definition stack_set_conn :: "cid \<Rightarrow> conn \<Rightarrow> stack \<Rightarrow> stack" where
  "stack_set_conn c conn s =
     s\<lparr>st_objects := (st_objects s)[c := (stack_object s c)\<lparr>ob_conn := conn\<lparr>c_out := []\<rparr>\<rparr>]\<rparr>"

definition stack_set_flags :: "cid \<Rightarrow> bool \<Rightarrow> bool \<Rightarrow> stack \<Rightarrow> stack" where
  "stack_set_flags c established failed s =
     s\<lparr>st_objects := (st_objects s)[c := (stack_object s c)\<lparr>
         ob_established := ob_established (stack_object s c) \<or> established,
         ob_failed := ob_failed (stack_object s c) \<or> failed\<rparr>]\<rparr>"

text \<open>The callbacks by role: a listener and the connections accepted from it are forgotten when they
  close, an accepted one signals readable data, and one opened by \<open>tcp_connect\<close> sets the two events
  that call waits for.\<close>

fun stack_perform :: "cid \<Rightarrow> time \<Rightarrow> conn_event \<Rightarrow> unit act" where
  "stack_perform c now (Transmit segment remote_ip) = stack_transmit_segment segment remote_ip now"
| "stack_perform c now NotifyEstablished = act_modify (\<lambda>s.
     case ob_role (stack_object s c) of Client \<Rightarrow> stack_set_flags c True False s | _ \<Rightarrow> s)"
| "stack_perform c now NotifyData = act_modify (\<lambda>s.
     case ob_role (stack_object s c) of Accepted \<Rightarrow> stack_signal_readable c s | _ \<Rightarrow> s)"
| "stack_perform c now NotifyClosed = act_modify (\<lambda>s.
     case ob_role (stack_object s c) of Client \<Rightarrow> stack_set_flags c True True s | _ \<Rightarrow> stack_forget c s)"
| "stack_perform c now NotifyReset = act_modify (\<lambda>s.
     case ob_role (stack_object s c) of Client \<Rightarrow> stack_set_flags c False True s | _ \<Rightarrow> s)"

definition stack_update_conn :: "cid \<Rightarrow> conn \<Rightarrow> time \<Rightarrow> unit act" where
  "stack_update_conn c conn now =
     act_then (act_modify (stack_set_conn c conn)) (act_each (c_out conn) (stack_perform c now))"

definition stack_new_object :: "conn \<Rightarrow> conn_role \<Rightarrow> cid act" where
  "stack_new_object conn role s =
     (s\<lparr>st_objects := st_objects s @ [\<lparr>ob_conn = conn\<lparr>c_out := []\<rparr>, ob_role = role, ob_established = False,
                                       ob_failed = False\<rparr>]\<rparr>, Inr (length (st_objects s)))"

definition stack_enqueue_accept :: "int \<Rightarrow> cid \<Rightarrow> stack \<Rightarrow> stack" where
  "stack_enqueue_accept port c s =
     (let child = ob_conn (stack_object s c);
          key = (st_ip s, cfg_local_port (c_cfg child), cfg_remote_ip (c_cfg child), cfg_remote_port (c_cfg child));
          s1 = s\<lparr>st_connections := AList.update key c (st_connections s),
                 st_read_events := AList.update c False (st_read_events s)\<rparr>;
          s2 = stack_set_conn c (child\<lparr>c_cfg := (c_cfg child)\<lparr>cfg_on_data := True, cfg_on_closed := True\<rparr>\<rparr>) s1
      in case map_of (st_accept_queues s2) port of
           None \<Rightarrow> s2
         | Some queue \<Rightarrow> s2\<lparr>st_accept_queues := AList.update port (queue @ [c]) (st_accept_queues s2)\<rparr>)"

text \<open>\<open>on_segment\<close> of the object \<open>c\<close>. A listener's new connection transmits before \<open>on_accept\<close> hands it
  to the stack.\<close>

definition stack_on_segment :: "cid \<Rightarrow> tcp_segment \<Rightarrow> bytes \<Rightarrow> 32 word \<Rightarrow> time \<Rightarrow> unit act" where
  "stack_on_segment c segment src_ip rnd now s =
     act_bind (act_lift (conn_on_segment segment (Some src_ip) rnd now (ob_conn (stack_object s c))))
       (\<lambda>(conn, child).
        act_then (stack_update_conn c conn now)
        (case child of
           None \<Rightarrow> act_return ()
         | Some k \<Rightarrow>
             act_bind (stack_new_object k Accepted) (\<lambda>kid.
             act_then (stack_update_conn kid k now)
             (act_modify (\<lambda>s. case ob_role (stack_object s c) of
                                 ListenerOn port \<Rightarrow> stack_enqueue_accept port kid s | _ \<Rightarrow> s))))) s"


section \<open>Inbound path\<close>

definition stack_handle_arp :: "ethernet_frame \<Rightarrow> time \<Rightarrow> unit act" where
  "stack_handle_arp frame now =
     act_bind (act_lift (ARPPacket_parse (eth_payload frame))) (\<lambda>packet.
     act_then (\<lambda>s. case ARPCache_store (st_arp_cache s) (arp_sender_ip packet) (arp_sender_mac packet) now of
                     Inl e \<Rightarrow> (s, Inl e)
                   | Inr cache \<Rightarrow> (s\<lparr>st_arp_cache := cache\<rparr>, Inr ()))
     (\<lambda>s. if arp_is_request packet \<and> arp_target_ip packet = st_ip s then
            act_then (act_modify (tally sx_arp_replies_sent_update))
            (act_bind (act_lift (ARPPacket_to_bytes
               (ARPPacket ARP_REPLY (st_mac s) (st_ip s) (arp_sender_mac packet) (arp_sender_ip packet))))
             (stack_emit (arp_sender_mac packet) ETHERTYPE_ARP)) s
          else if arp_is_reply packet then stack_flush_pending (arp_sender_ip packet) (arp_sender_mac packet) s
          else (s, Inr ())))"

definition stack_send_reset :: "ipv4_packet \<Rightarrow> tcp_segment \<Rightarrow> time \<Rightarrow> unit act" where
  "stack_send_reset packet segment now s =
     (if is_rst segment then (s, Inr ())
      else
        let reset = \<lparr>seg_src_port = seg_dst_port segment, seg_dst_port = seg_src_port segment,
              seg_seq = (if is_ack segment then seg_ack segment else 0),
              seg_ack = (if \<not> is_ack segment then seq_add (seg_seq segment) (seg_seq_len segment) else 0),
              seg_flags = FLAG_RST OR (if is_ack segment then 0 else FLAG_ACK), seg_window = 0,
              seg_payload = [], seg_options = no_options, seg_urgent_pointer = 0, seg_checksum = 0\<rparr>
        in act_bind (stack_send_payload (ip_src packet) PROTO_TCP
             (TCPSegment_to_bytes reset (Some (st_ip s)) (Some (ip_src packet)) True) now) (\<lambda>_. act_return ()) s)"

definition stack_handle_icmp :: "ipv4_packet \<Rightarrow> time \<Rightarrow> unit act" where
  "stack_handle_icmp packet now =
     act_bind (act_lift (ICMPMessage_parse (ip_payload packet))) (\<lambda>message.
     if icmp_type message \<noteq> ECHO_REQUEST then act_return ()
     else
       act_bind (act_lift (sum_bind (EchoMessage_from_icmp message) (\<lambda>echo. EchoMessage_to_icmp echo ECHO_REPLY))) (\<lambda>reply.
       act_then (act_modify (tally sx_icmp_echo_replied_update))
       (act_bind (stack_send_payload (ip_src packet) PROTO_ICMP (ICMPMessage_to_bytes reply) now) (\<lambda>_. act_return ()))))"

definition stack_handle_tcp :: "ipv4_packet \<Rightarrow> 32 word \<Rightarrow> time \<Rightarrow> unit act" where
  "stack_handle_tcp packet rnd now =
     act_bind (act_lift (TCPSegment_parse (ip_payload packet) (Some (ip_src packet)) (Some (ip_dst packet)) True)) (\<lambda>segment.
     act_then (act_modify (tally sx_tcp_in_update))
     (\<lambda>s. let key = (ip_dst packet, seg_dst_port segment, ip_src packet, seg_src_port segment)
          in case map_of (st_connections s) key of
               Some c \<Rightarrow> stack_on_segment c segment (ip_src packet) rnd now s
             | None \<Rightarrow>
                 (case map_of (st_listeners s) (seg_dst_port segment) of
                    Some c \<Rightarrow> stack_on_segment c segment (ip_src packet) rnd now s
                  | None \<Rightarrow> stack_send_reset packet segment now s)))"

definition stack_handle_udp :: "ipv4_packet \<Rightarrow> unit act" where
  "stack_handle_udp packet =
     act_bind (act_lift (UDPSegment_parse (ip_payload packet) (ip_src packet) (ip_dst packet))) (\<lambda>segment.
     act_then (act_modify (tally sx_udp_in_update))
     (act_modify (\<lambda>s. case map_of (st_udp_handlers s) (udp_dst_port segment) of
                         None \<Rightarrow> s
                       | Some h \<Rightarrow> s\<lparr>st_upcalls := st_upcalls s @
                           [(h, udp_payload segment, ip_src packet, udp_src_port segment)]\<rparr>)))"

definition stack_dispatch_ipv4 :: "ipv4_packet \<Rightarrow> 32 word \<Rightarrow> time \<Rightarrow> unit act" where
  "stack_dispatch_ipv4 packet rnd now =
     act_catch (\<lambda>e. e = ValueError)
       (if ip_protocol packet = PROTO_ICMP then stack_handle_icmp packet now
        else if ip_protocol packet = PROTO_TCP then stack_handle_tcp packet rnd now
        else if ip_protocol packet = PROTO_UDP then stack_handle_udp packet
        else act_return ())
       (tally sx_malformed_update)"

definition stack_reassemble :: "ipv4_packet \<Rightarrow> time \<Rightarrow> ipv4_packet option act" where
  "stack_reassemble packet now s =
     (if ip_is_fragmented packet then
        (case Reassembler_add (st_reassembler s) packet now of
           Inl e \<Rightarrow> (s, Inl e)
         | Inr (r, rebuilt) \<Rightarrow> (s\<lparr>st_reassembler := r\<rparr>, Inr rebuilt))
      else (s, Inr (Some packet)))"

definition stack_handle_ipv4_frame :: "ethernet_frame \<Rightarrow> 32 word \<Rightarrow> time \<Rightarrow> unit act" where
  "stack_handle_ipv4_frame frame rnd now =
     (case IPv4Packet_parse (eth_payload frame) of
        Inl e \<Rightarrow> if e = ValueError then act_modify (tally sx_malformed_update) else act_lift (Inl e)
      | Inr packet \<Rightarrow>
          act_then (act_modify (tally sx_ipv4_in_update))
          (act_bind (stack_reassemble packet now) (\<lambda>rebuilt s.
           case rebuilt of
             None \<Rightarrow> (s, Inr ())
           | Some p \<Rightarrow>
               if ip_dst p \<noteq> st_ip s \<and> ip_dst p \<noteq> IP_BROADCAST
               then act_modify (tally sx_frames_dropped_update) s
               else stack_dispatch_ipv4 p rnd now s)))"

definition stack_handle_frame :: "bytes \<Rightarrow> 32 word \<Rightarrow> time \<Rightarrow> unit act" where
  "stack_handle_frame raw rnd now =
     act_catch (\<lambda>e. e = ValueError)
       (act_bind (act_lift (EthernetFrame_parse raw)) (\<lambda>frame s.
        if \<not> st_promiscuous s \<and> \<not> eth_accepted_by frame (st_mac s)
        then act_modify (tally sx_frames_dropped_update) s
        else if eth_ethertype frame = ETHERTYPE_ARP then stack_handle_arp frame now s
        else if eth_ethertype frame = ETHERTYPE_IPV4 then stack_handle_ipv4_frame frame rnd now s
        else act_modify (tally sx_frames_dropped_update) s))
       (tally sx_malformed_update)"

definition stack_tick :: "time \<Rightarrow> stack \<Rightarrow> stack" where
  "stack_tick now s =
     (let s1 = fst (act_each (map snd (st_connections s)) (\<lambda>c.
                 act_catch (\<lambda>_. True)
                   (\<lambda>s. stack_update_conn c (conn_on_tick now (ob_conn (stack_object s c))) now s)
                   (tally sx_errors_update)) s)
      in s1\<lparr>st_arp_cache := fst (ARPCache_expire (st_arp_cache s1) now)\<rparr>)"

text \<open>One round of the loop of \<open>_run\<close>: \<open>frame\<close> is what \<open>recv_frame\<close> returned and \<open>None\<close> when it
  returned nothing or raised, \<open>arrival\<close> and \<open>now\<close> are the clock at the frame and at the tick. The text
  kept in \<open>last_error\<close> is left out.\<close>

definition stack_run_round ::
  "time \<Rightarrow> bytes option \<Rightarrow> 32 word \<Rightarrow> time \<Rightarrow> time \<Rightarrow> stack \<times> time \<Rightarrow> stack \<times> time" where
  "stack_run_round tick_interval frame rnd arrival now = (\<lambda>(s, next_tick).
     let s1 = (case frame of
                 None \<Rightarrow> s
               | Some raw \<Rightarrow> fst (act_catch (\<lambda>_. True) (stack_handle_frame raw rnd arrival)
                                 (tally sx_errors_update) (tally sx_frames_in_update s)))
     in if now \<ge> next_tick then (stack_tick now s1, now + tick_interval) else (s1, next_tick))"

definition stack_connections :: "stack \<Rightarrow> cid list" where
  "stack_connections s = map snd (st_connections s)"


section \<open>The API\<close>

text \<open>The keyword arguments the stack leaves at their defaults.\<close>

definition stack_conn_config :: "stack \<Rightarrow> int \<Rightarrow> bytes \<Rightarrow> int \<Rightarrow> conn_config" where
  "stack_conn_config s local_port remote_ip remote_port =
     \<lparr>cfg_local_ip = st_ip s, cfg_local_port = local_port, cfg_remote_ip = remote_ip,
      cfg_remote_port = remote_port, cfg_mss = DEFAULT_MSS, cfg_receive_capacity = st_receive_capacity s,
      cfg_send_capacity = 2 ^ 20, cfg_window_scale = 0, cfg_initial_window = None, cfg_iss = None,
      cfg_msl = DEFAULT_MSL, cfg_delayed_ack = False, cfg_delayed_ack_delay = DEFAULT_DELAYED_ACK,
      cfg_on_established = False, cfg_on_data = False, cfg_on_closed = True, cfg_on_accept = False,
      cfg_on_reset = False\<rparr>"

definition stack_tcp_listen :: "int \<Rightarrow> cid act" where
  "stack_tcp_listen port s =
     (if map_of (st_listeners s) port \<noteq> None then (s, Inl StackError)
      else
        act_bind (act_lift (sum_bind
          (TCPConnection_init ((stack_conn_config s port IP_ANY 0)\<lparr>cfg_on_accept := True\<rparr>)) conn_listen)) (\<lambda>listener.
        act_bind (stack_new_object listener (ListenerOn port)) (\<lambda>c.
        act_then (act_modify (\<lambda>s. s\<lparr>st_listeners := AList.update port c (st_listeners s),
                                    st_accept_queues := AList.update port [] (st_accept_queues s)\<rparr>))
        (act_return c))) s)"

text \<open>One round of the loop of \<open>tcp_accept\<close>.\<close>

definition stack_tcp_accept :: "int \<Rightarrow> cid option act" where
  "stack_tcp_accept port s =
     (case map_of (st_accept_queues s) port of
        None \<Rightarrow> (s, Inl StackError)
      | Some [] \<Rightarrow> (s, Inr None)
      | Some (c # queue) \<Rightarrow> (s\<lparr>st_accept_queues := AList.update port queue (st_accept_queues s)\<rparr>, Inr (Some c)))"

text \<open>\<open>tcp_connect\<close> up to the wait, and what follows it; \<open>waited\<close> is the result of
  \<open>established.wait(timeout)\<close>.\<close>

definition stack_tcp_connect :: "ip_arg \<Rightarrow> int \<Rightarrow> int \<Rightarrow> 32 word \<Rightarrow> time \<Rightarrow> cid act" where
  "stack_tcp_connect remote remote_port local_port0 rnd now =
     act_bind (act_lift (coerce_ip remote)) (\<lambda>remote_ip.
     act_bind (if local_port0 \<noteq> 0 then act_return local_port0 else stack_allocate_port) (\<lambda>local_port s.
     act_bind (act_lift (TCPConnection_init ((stack_conn_config s local_port remote_ip remote_port)
                 \<lparr>cfg_on_established := True, cfg_on_reset := True\<rparr>))) (\<lambda>conn.
     act_bind (stack_new_object conn Client) (\<lambda>c.
     act_then (act_modify (\<lambda>s.
       s\<lparr>st_connections := AList.update (st_ip s, local_port, remote_ip, remote_port) c (st_connections s),
         st_read_events := AList.update c False (st_read_events s)\<rparr>))
     (\<lambda>s. act_bind (act_lift (conn_connect rnd now (ob_conn (stack_object s c)))) (\<lambda>conn.
          act_then (stack_update_conn c conn now) (act_return c)) s))) s))"

definition stack_tcp_connect_finish :: "bool \<Rightarrow> cid \<Rightarrow> time \<Rightarrow> cid act" where
  "stack_tcp_connect_finish waited c now s =
     (if \<not> waited then
        act_then (stack_update_conn c (conn_abort now (ob_conn (stack_object s c))) now)
        (act_then (act_modify (stack_forget c)) (act_lift (Inl TimeoutError))) s
      else if ob_failed (stack_object s c) \<and> \<not> conn_is_established (ob_conn (stack_object s c)) then
        act_then (act_modify (stack_forget c)) (act_lift (Inl ConnectionRefusedError)) s
      else (s, Inr c))"

definition stack_tcp_close :: "cid \<Rightarrow> time \<Rightarrow> unit act" where
  "stack_tcp_close c now s = stack_update_conn c (conn_close now (ob_conn (stack_object s c))) now s"

definition stack_wait_readable :: "stack \<Rightarrow> cid \<Rightarrow> bool" where
  "stack_wait_readable s c =
     (case map_of (st_read_events s) c of
        None \<Rightarrow> False
      | Some event \<Rightarrow> ReceiveQueue_available (c_recv (ob_conn (stack_object s c))) \<noteq> 0 \<or> event)"

definition stack_udp_bind :: "int \<Rightarrow> nat \<Rightarrow> stack \<Rightarrow> stack" where
  "stack_udp_bind port handler s = s\<lparr>st_udp_handlers := AList.update port handler (st_udp_handlers s)\<rparr>"

definition stack_udp_unbind :: "int \<Rightarrow> stack \<Rightarrow> stack" where
  "stack_udp_unbind port s = s\<lparr>st_udp_handlers := AList.delete port (st_udp_handlers s)\<rparr>"

definition stack_udp_send :: "bytes \<Rightarrow> ip_arg \<Rightarrow> int \<Rightarrow> int \<Rightarrow> time \<Rightarrow> bool act" where
  "stack_udp_send payload remote remote_port local_port0 now =
     act_bind (act_lift (coerce_ip remote)) (\<lambda>remote_ip.
     act_bind (if local_port0 \<noteq> 0 then act_return local_port0 else stack_allocate_port) (\<lambda>local_port.
     act_then (act_modify (tally sx_udp_out_update))
     (\<lambda>s. stack_send_payload remote_ip PROTO_UDP
           (UDPSegment_to_bytes \<lparr>udp_src_port = local_port, udp_dst_port = remote_port, udp_payload = payload,
              udp_checksum = 0\<rparr> (Some (st_ip s)) (Some remote_ip) True) now s)))"

end
