(* ===== verification/Stack_Tables.thy ===== *)
theory Stack_Tables
  imports Stack Conn_Theorems IPv4_Fragment
begin

text \<open>
  The invariant of the stack's tables. A small program logic for the operations of the stack is
  the locale \<open>act_logic\<close>: an invariant every operation restores, also when it raises, and a preorder
  every operation follows. It is interpreted on the consistency of the tables, and one lemma per
  operation gives the invariant of every reachable stack.
\<close>

section \<open>A logic for operations\<close>

text \<open>\<open>act_safe\<close> is about one run of an operation, from \<open>s\<close> to the outcome \<open>out\<close>.\<close>

definition act_safe ::
  "(stack \<Rightarrow> bool) \<Rightarrow> (stack \<Rightarrow> stack \<Rightarrow> bool) \<Rightarrow> ('a \<Rightarrow> stack \<Rightarrow> bool) \<Rightarrow> stack \<Rightarrow> stack \<times> (py_error + 'a) \<Rightarrow> bool" where
  "act_safe invar grows post s out \<longleftrightarrow>
     (invar s \<longrightarrow> invar (fst out) \<and> grows s (fst out) \<and> (\<forall>x. snd out = Inr x \<longrightarrow> post x (fst out)))"

locale act_logic =
  fixes invar :: "stack \<Rightarrow> bool"
    and grows :: "stack \<Rightarrow> stack \<Rightarrow> bool"
  assumes grows_refl: "grows s s"
    and grows_trans: "grows s t \<Longrightarrow> grows t u \<Longrightarrow> grows s u"
begin

lemma safe_weaken: "act_safe invar grows P s out \<Longrightarrow> (\<And>x t. P x t \<Longrightarrow> Q x t) \<Longrightarrow> act_safe invar grows Q s out"
  by (simp add: act_safe_def)

lemma safe_result: "(\<And>x. r = Inr x \<Longrightarrow> invar s \<Longrightarrow> P x s) \<Longrightarrow> act_safe invar grows P s (s, r)"
  by (auto simp: act_safe_def grows_refl)

lemma safe_return: "P x s \<Longrightarrow> act_safe invar grows P s (act_return x s)"
  by (simp add: act_return_def act_safe_def grows_refl)

lemma safe_lift: "(\<And>x. r = Inr x \<Longrightarrow> invar s \<Longrightarrow> P x s) \<Longrightarrow> act_safe invar grows P s (act_lift r s)"
  by (simp add: act_lift_def safe_result)

lemma safe_modify: "(invar s \<Longrightarrow> invar (f s) \<and> grows s (f s) \<and> P () (f s)) \<Longrightarrow> act_safe invar grows P s (act_modify f s)"
  by (simp add: act_safe_def act_modify_def)

lemma safe_bind:
  assumes "act_safe invar grows P s (m s)"
    and "\<And>x t. invar t \<Longrightarrow> grows s t \<Longrightarrow> P x t \<Longrightarrow> act_safe invar grows Q t (f x t)"
  shows "act_safe invar grows Q s (act_bind m f s)"
proof (cases "invar s")
  case True
  obtain t r where m: "m s = (t, r)" by (cases "m s")
  with assms(1) True have t: "invar t" "grows s t" by (simp_all add: act_safe_def)
  show ?thesis
  proof (cases r)
    case (Inr x)
    with assms(1) True m have "P x t" by (simp add: act_safe_def)
    with assms(2) t have "act_safe invar grows Q t (f x t)" by blast
    with t m Inr grows_trans [OF t(2)] show ?thesis by (simp add: act_safe_def act_bind_def)
  qed (use m t in \<open>simp add: act_safe_def act_bind_def\<close>)
qed (simp add: act_safe_def)

lemma safe_then:
  assumes "act_safe invar grows P s (m s)" and "\<And>t. invar t \<Longrightarrow> grows s t \<Longrightarrow> P () t \<Longrightarrow> act_safe invar grows Q t (k t)"
  shows "act_safe invar grows Q s (act_then m k s)"
  unfolding act_then_def by (rule safe_bind, rule assms(1)) (simp add: assms(2))

text \<open>The common cases: nothing is needed of the result, or the first part is a computation.\<close>

lemma safe_seq:
  assumes "act_safe invar grows (\<lambda>_ _. True) s (m s)"
    and "\<And>x t. invar t \<Longrightarrow> grows s t \<Longrightarrow> act_safe invar grows Q t (f x t)"
  shows "act_safe invar grows Q s (act_bind m f s)"
  by (rule safe_bind, rule assms(1)) (simp add: assms(2))

lemma safe_after:
  assumes "act_safe invar grows (\<lambda>_ _. True) s (m s)"
    and "\<And>t. invar t \<Longrightarrow> grows s t \<Longrightarrow> act_safe invar grows Q t (k t)"
  shows "act_safe invar grows Q s (act_then m k s)"
  by (rule safe_then, rule assms(1)) (simp add: assms(2))

lemma safe_compute:
  assumes "\<And>x. r = Inr x \<Longrightarrow> act_safe invar grows Q s (f x s)"
  shows "act_safe invar grows Q s (act_bind (act_lift r) f s)"
  using assms by (cases r) (auto simp: act_bind_def act_lift_def act_safe_def grows_refl)

lemma safe_catch:
  assumes "act_safe invar grows P s (m s)" and "\<And>t. invar t \<Longrightarrow> invar (h t) \<and> grows t (h t) \<and> P () (h t)"
  shows "act_safe invar grows P s (act_catch p m h s)"
proof (cases "invar s")
  case True
  obtain t r where m: "m s = (t, r)" by (cases "m s")
  with assms(1) True have t: "invar t" "grows s t" by (simp_all add: act_safe_def)
  show ?thesis
  proof (cases r)
    case (Inl e)
    with m t assms(2) [OF t(1)] grows_trans [OF t(2)] show ?thesis by (simp add: act_safe_def act_catch_def)
  qed (use assms(1) m in \<open>simp add: act_safe_def act_catch_def\<close>)
qed (simp add: act_safe_def)

lemma safe_each:
  assumes "\<And>x t. x \<in> set xs \<Longrightarrow> invar t \<Longrightarrow> grows s t \<Longrightarrow> act_safe invar grows (\<lambda>_ _. True) t (f x t)"
  shows "act_safe invar grows (\<lambda>_ _. True) s (act_each xs f s)"
  using assms
proof (induction xs arbitrary: s)
  case (Cons x xs)
  show ?case
  proof (cases "invar s")
    case True
    show ?thesis
      unfolding act_each.simps
    proof (rule safe_then)
      show "act_safe invar grows (\<lambda>_ _. True) s (f x s)"
        using Cons.prems True by (simp add: grows_refl)
      show "act_safe invar grows (\<lambda>_ _. True) t (act_each xs f t)" if "invar t" "grows s t" for t
        by (rule Cons.IH, rule Cons.prems) (use that grows_trans [OF that(2)] in auto)
    qed
  qed (simp add: act_safe_def)
qed (simp add: safe_return)

end

section \<open>Connections keep their addresses\<close>

lemma retransmit_oldest_cfg [simp]: "c_cfg (conn_retransmit_oldest now fast c) = c_cfg c"
  by (simp add: conn_retransmit_oldest_def Let_def split: option.split)

lemma reject_cfg [simp]: "c_cfg (conn_reject seg now c) = c_cfg c"
  by (simp add: conn_reject_def)

lemma handle_rst_cfg [simp]: "c_cfg (conn_handle_rst seg now c) = c_cfg c"
  by (simp add: conn_handle_rst_def Let_def)

lemma send_fin_cfg [simp]: "c_cfg (conn_send_fin now c) = c_cfg c"
  by (simp add: conn_send_fin_def Let_def)

lemma abort_cfg [simp]: "c_cfg (conn_abort now c) = c_cfg c"
  by (simp add: conn_abort_def Let_def)

lemma close_cfg [simp]: "c_cfg (conn_close now c) = c_cfg c"
  by (cases "c_state c") (simp_all add: conn_close_def)

lemma listen_cfg: "conn_listen c = Inr c' \<Longrightarrow> c_cfg c' = c_cfg c"
  by (auto simp: conn_listen_def split: if_splits)

lemma connect_cfg: "conn_connect rnd now c = Inr c' \<Longrightarrow> c_cfg c' = c_cfg c"
  by (auto simp: conn_connect_def Let_def sum_bind_Inr split: if_splits)

lemma send_cfg: "conn_send data now c = Inr (c', n) \<Longrightarrow> c_cfg c' = c_cfg c"
  by (auto simp: conn_send_def Let_def split: if_splits prod.splits)

lemma recv_cfg: "c_cfg (fst (conn_recv n now c)) = c_cfg c"
  by (simp add: conn_recv_def Let_def split: prod.split)

lemma init_cfg: "TCPConnection_init cfg = Inr c \<Longrightarrow> c_cfg c = cfg"
  by (auto simp: TCPConnection_init_def sum_bind_Inr)

lemma passive_open_cfg: "conn_begin_passive_open seg rnd now c = Inr c' \<Longrightarrow> c_cfg c' = c_cfg c"
  by (auto simp: conn_begin_passive_open_def Let_def sum_bind_Inr)

lemma maybe_advance_cfg [simp]: "c_cfg (conn_maybe_advance_after_ack seg now c) = c_cfg c"
  using maybe_advance_move by (simp add: state_move_def)

lemma handle_fin_cfg [simp]: "c_cfg (conn_handle_fin seg now c) = c_cfg c"
  by (simp add: conn_handle_fin_def Let_def)

lemma sync_segment_cfg [simp]: "c_cfg (conn_on_synchronised_segment seg now c) = c_cfg c"
  by (simp add: conn_on_synchronised_segment_def Let_def)

lemma syn_ack_cfg: "conn_handle_syn_ack seg now c = Inr c' \<Longrightarrow> c_cfg c' = c_cfg c"
  by (auto simp: conn_handle_syn_ack_def Let_def sum_bind_Inr split: if_splits)

lemma simultaneous_open_cfg: "conn_handle_simultaneous_open seg now c = Inr c' \<Longrightarrow> c_cfg c' = c_cfg c"
  by (auto simp: conn_handle_simultaneous_open_def Let_def sum_bind_Inr)

lemma final_ack_cfg [simp]: "c_cfg (conn_handle_final_ack_of_handshake seg now c) = c_cfg c"
  by (simp add: conn_handle_final_ack_of_handshake_def)

lemma in_listen_cfg:
  assumes "conn_handle_segment_in_listen seg src_ip rnd now c = Inr (c', child)"
  shows "c' = c" and "child = Some k \<Longrightarrow> c_cfg k = conn_child_config seg src_ip c"
  using assms
  by (auto simp: conn_handle_segment_in_listen_def sum_bind_Inr split: if_splits dest!: init_cfg passive_open_cfg)

text \<open>What a segment does to the addresses: none of the connection's change, and a new connection
  has the listener's but for the peer's.\<close>

lemma on_segment_cfg:
  assumes "conn_on_segment seg src_ip rnd now c = Inr (c', child)"
  shows "c_cfg c' = c_cfg c \<and> (\<forall>k. child = Some k \<longrightarrow> c_cfg k = conn_child_config seg src_ip c)"
proof -
  let ?c = "c\<lparr>c_segments_received := c_segments_received c + 1, c_last_activity := now\<rparr>"
  have listen: "c_cfg c' = c_cfg c \<and> (\<forall>k. child = Some k \<longrightarrow> c_cfg k = conn_child_config seg src_ip c)"
    if "conn_handle_segment_in_listen seg src_ip rnd now ?c = Inr (c', child)"
  proof (intro conjI allI impI)
    show "c_cfg c' = c_cfg c" unfolding in_listen_cfg(1) [OF that] by simp
    show "c_cfg k = conn_child_config seg src_ip c" if "child = Some k" for k
      using in_listen_cfg(2) [OF \<open>conn_handle_segment_in_listen seg src_ip rnd now ?c = Inr (c', child)\<close> that]
      unfolding conn_child_config_def by (cases src_ip) simp_all
  qed
  have handshake: "c_cfg c' = c_cfg c \<and> child = None"
    if "sum_bind (if is_ack seg then conn_handle_syn_ack seg now ?c else conn_handle_simultaneous_open seg now ?c)
          (\<lambda>c'. Inr (c', None)) = Inr (c', child)"
  proof -
    have "child = None" using that by (auto simp: sum_bind_Inr)
    moreover have "(if is_ack seg then conn_handle_syn_ack seg now ?c else conn_handle_simultaneous_open seg now ?c) = Inr c'"
      using that by (auto simp: sum_bind_Inr)
    then have "c_cfg c' = c_cfg ?c"
      by (cases "is_ack seg") (simp_all only: if_True if_False, (erule syn_ack_cfg simultaneous_open_cfg)+)
    ultimately show ?thesis by simp
  qed
  have "conn_handle_segment_in_listen seg src_ip rnd now ?c = Inr (c', child)
      \<or> sum_bind (if is_ack seg then conn_handle_syn_ack seg now ?c else conn_handle_simultaneous_open seg now ?c)
          (\<lambda>c'. Inr (c', None)) = Inr (c', child)
      \<or> child = None \<and> c' \<in> {conn_reject seg now ?c, conn_handle_rst seg now ?c, conn_retransmit_oldest now False ?c,
           ?c, conn_handle_final_ack_of_handshake seg now ?c, conn_on_synchronised_segment seg now ?c}"
    using assms unfolding conn_on_segment_def Let_def by (simp split: if_split_asm)
  then show ?thesis
    using listen handshake by (elim disjE) (simp, simp, elim conjE insertE, simp_all)
qed

lemma retransmit_timeout_cfg [simp]: "c_cfg (conn_on_retransmit_timeout now c) = c_cfg c"
  by (simp add: conn_on_retransmit_timeout_def Let_def split: option.split)

lemma persist_timeout_cfg [simp]: "c_cfg (conn_on_persist_timeout now c) = c_cfg c"
  by (simp add: conn_on_persist_timeout_def Let_def split: option.split)

lemma tick_cfg [simp]: "c_cfg (conn_on_tick now c) = c_cfg c"
  by (simp add: conn_on_tick_def Let_def)

section \<open>The invariant\<close>

definition four_tuple :: "conn_object \<Rightarrow> conn_key" where
  "four_tuple ob = (let cfg = c_cfg (ob_conn ob)
     in (cfg_local_ip cfg, cfg_local_port cfg, cfg_remote_ip cfg, cfg_remote_port cfg))"

definition object_ok :: "bytes \<Rightarrow> conn_object \<Rightarrow> bool" where
  "object_ok ip ob \<longleftrightarrow>
     cfg_local_ip (c_cfg (ob_conn ob)) = ip
     \<and> (case ob_role ob of ListenerOn port \<Rightarrow> cfg_local_port (c_cfg (ob_conn ob)) = port | _ \<Rightarrow> True)"

text \<open>Every table points at existing objects; an entry of the connection table stands under the
  four-tuple of the connection it holds, and never holds a listener; a listener stands under its port;
  an accept queue belongs to a listener and holds connections accepted on its port.\<close>

definition conn_entry :: "conn_object list \<Rightarrow> conn_key \<Rightarrow> cid \<Rightarrow> bool" where
  "conn_entry objects key c \<longleftrightarrow>
     c < length objects \<and> four_tuple (objects ! c) = key \<and> (\<forall>p. ob_role (objects ! c) \<noteq> ListenerOn p)"

definition listener_entry :: "conn_object list \<Rightarrow> int \<Rightarrow> cid \<Rightarrow> bool" where
  "listener_entry objects port c \<longleftrightarrow> c < length objects \<and> ob_role (objects ! c) = ListenerOn port"

definition accept_entry :: "conn_object list \<Rightarrow> int \<Rightarrow> cid \<Rightarrow> bool" where
  "accept_entry objects port c \<longleftrightarrow>
     c < length objects \<and> ob_role (objects ! c) = Accepted \<and> fst (snd (four_tuple (objects ! c))) = port"

definition tables_ok ::
  "bytes \<Rightarrow> conn_object list \<Rightarrow> (conn_key, cid) dict \<Rightarrow> (int, cid) dict \<Rightarrow> (int, cid list) dict \<Rightarrow> (cid, bool) dict \<Rightarrow> bool"
where
  "tables_ok ip objects connections listeners queues events \<longleftrightarrow>
     dict_wf connections \<and> (\<forall>ob \<in> set objects. object_ok ip ob)
     \<and> (\<forall>k c. map_of connections k = Some c \<longrightarrow> conn_entry objects k c)
     \<and> (\<forall>p c. map_of listeners p = Some c \<longrightarrow> listener_entry objects p c)
     \<and> (\<forall>p q. map_of queues p = Some q \<longrightarrow> map_of listeners p \<noteq> None \<and> list_all (accept_entry objects p) q)
     \<and> (\<forall>c b. map_of events c = Some b \<longrightarrow> c < length objects)"

definition pending_ok :: "int \<Rightarrow> (bytes, ipv4_packet list) dict \<Rightarrow> bool" where
  "pending_ok limit pending \<longleftrightarrow> 0 \<le> limit \<and> (\<forall>ip q. map_of pending ip = Some q \<longrightarrow> len q \<le> limit)"

definition counters_ok :: "int \<Rightarrow> int \<Rightarrow> bool" where
  "counters_ok next_id next_port \<longleftrightarrow>
     1 \<le> next_id \<and> next_id \<le> 0xFFFF \<and> FIRST_EPHEMERAL_PORT \<le> next_port \<and> next_port \<le> LAST_EPHEMERAL_PORT"

definition cache_bounded :: "arp_cache \<Rightarrow> bool" where
  "cache_bounded c \<longleftrightarrow> cache_inv c \<and> ac_timeout c = 300 \<and> ac_max_entries c = 256"

definition reassembler_small :: "reassembler \<Rightarrow> bool" where
  "reassembler_small r \<longleftrightarrow> reassembler_inv r \<and> ra_max_pending r = 64"

definition stack_inv :: "stack \<Rightarrow> bool" where
  "stack_inv s \<longleftrightarrow>
     tables_ok (st_ip s) (st_objects s) (st_connections s) (st_listeners s) (st_accept_queues s) (st_read_events s)
     \<and> pending_ok (st_max_arp_pending s) (st_arp_pending s) \<and> counters_ok (st_next_id s) (st_next_port s)
     \<and> cache_bounded (st_arp_cache s) \<and> reassembler_small (st_reassembler s)"

definition objects_grow :: "conn_object list \<Rightarrow> conn_object list \<Rightarrow> bool" where
  "objects_grow xs ys \<longleftrightarrow>
     length xs \<le> length ys \<and> (\<forall>c < length xs. ob_role (ys ! c) = ob_role (xs ! c) \<and> four_tuple (ys ! c) = four_tuple (xs ! c))"

text \<open>What no operation changes: the interface's addresses, the limit, and the objects' roles and
  addresses.\<close>

definition stack_grows :: "stack \<Rightarrow> stack \<Rightarrow> bool" where
  "stack_grows s t \<longleftrightarrow>
     st_mac t = st_mac s \<and> st_ip t = st_ip s \<and> st_max_arp_pending t = st_max_arp_pending s
     \<and> objects_grow (st_objects s) (st_objects t)"

lemma objects_grow_refl [simp]: "objects_grow xs xs"
  by (simp add: objects_grow_def)

interpretation tables: act_logic stack_inv stack_grows
  by unfold_locales (auto simp: stack_grows_def objects_grow_def)

abbreviation kept :: "('a \<Rightarrow> stack \<Rightarrow> bool) \<Rightarrow> stack \<Rightarrow> stack \<times> (py_error + 'a) \<Rightarrow> bool" where
  "kept \<equiv> act_safe stack_inv stack_grows"

abbreviation keeps :: "stack \<Rightarrow> stack \<times> (py_error + 'a) \<Rightarrow> bool" where
  "keeps \<equiv> kept (\<lambda>_ _. True)"

lemma tally_fields [simp]:
  "st_ip (tally f s) = st_ip s" "st_mac (tally f s) = st_mac s" "st_objects (tally f s) = st_objects s"
  "st_connections (tally f s) = st_connections s" "st_listeners (tally f s) = st_listeners s"
  "st_accept_queues (tally f s) = st_accept_queues s" "st_read_events (tally f s) = st_read_events s"
  "st_arp_pending (tally f s) = st_arp_pending s" "st_max_arp_pending (tally f s) = st_max_arp_pending s"
  "st_next_id (tally f s) = st_next_id s" "st_next_port (tally f s) = st_next_port s"
  "st_arp_cache (tally f s) = st_arp_cache s" "st_reassembler (tally f s) = st_reassembler s"
  "st_frames (tally f s) = st_frames s" "st_upcalls (tally f s) = st_upcalls s"
  "st_netmask (tally f s) = st_netmask s" "st_gateway (tally f s) = st_gateway s"
  "st_promiscuous (tally f s) = st_promiscuous s" "st_udp_handlers (tally f s) = st_udp_handlers s"
  by (simp_all add: tally_def)

lemma tally_inv [simp]: "stack_inv (tally f s) = stack_inv s" "stack_grows s (tally f t) = stack_grows s t"
  by (simp_all add: stack_inv_def stack_grows_def)

named_theorems stack_rules \<open>operations of the stack that keep its invariant\<close>

lemma keeps_tally [stack_rules]: "keeps s (act_modify (tally f) s)"
  by (rule tables.safe_modify) (simp add: tables.grows_refl)

lemma keeps_frame: "keeps s (act_modify (\<lambda>s. s\<lparr>st_frames := st_frames s @ [raw]\<rparr>) s)"
  by (rule tables.safe_modify) (simp add: stack_inv_def stack_grows_def)

lemmas keeps_intros = tables.safe_compute tables.safe_after tables.safe_seq

lemma keeps_skip [simp]: "keeps s (act_modify (\<lambda>s. s) s)" "keeps s (s, r)" "keeps s (act_return x s)" "keeps s (act_lift r s)"
  by (simp_all add: act_safe_def act_modify_def act_return_def act_lift_def tables.grows_refl)

lemma keeps_emit [stack_rules]: "keeps s (stack_emit m t p s)"
proof -
  have "keeps s (act_modify (if t = ETHERTYPE_IPV4 then tally sx_ipv4_out_update else (\<lambda>s. s)) s)" for s
    by (simp add: keeps_tally)
  then show ?thesis
    unfolding stack_emit_def by (intro keeps_intros keeps_tally keeps_frame)
qed

lemma keeps_send_arp_request [stack_rules]: "keeps s (stack_send_arp_request ip s)"
  unfolding stack_send_arp_request_def Let_def by (intro keeps_intros stack_rules)

lemma pending_ok_update:
  "pending_ok limit pending \<Longrightarrow> len q \<le> limit \<Longrightarrow> pending_ok limit (AList.update ip q pending)"
  by (auto simp: pending_ok_def update_conv')

lemma pending_ok_queue:
  "pending_ok limit pending \<Longrightarrow> len (case map_of pending ip of None \<Rightarrow> [] | Some q \<Rightarrow> q) \<le> limit"
  by (auto simp: pending_ok_def split: option.split)

lemma stack_inv_pending:
  "stack_inv s \<Longrightarrow> pending_ok (st_max_arp_pending s) pending \<Longrightarrow> stack_inv (s\<lparr>st_arp_pending := pending\<rparr>)"
  "stack_grows s (s\<lparr>st_arp_pending := pending\<rparr>)"
  by (simp_all add: stack_inv_def stack_grows_def)

text \<open>An operation that goes on from a changed state.\<close>

lemma kept_from:
  "(stack_inv s \<Longrightarrow> stack_inv t \<and> stack_grows s t) \<Longrightarrow> kept P t out \<Longrightarrow> kept P s out"
  using tables.grows_trans by (auto simp: act_safe_def)

lemma keeps_park_pending [stack_rules]: "keeps s (stack_park_pending ip p s)"
proof -
  let ?q = "case map_of (st_arp_pending s) ip of None \<Rightarrow> [] | Some q \<Rightarrow> q"
  let ?s1 = "s\<lparr>st_arp_pending := AList.update ip ?q (st_arp_pending s)\<rparr>"
  let ?s2 = "?s1\<lparr>st_arp_pending := AList.update ip (?q @ [p]) (st_arp_pending ?s1)\<rparr>"
  have p: "stack_inv s \<Longrightarrow> pending_ok (st_max_arp_pending s) (st_arp_pending s)" by (simp add: stack_inv_def)
  have 1: "stack_inv s \<Longrightarrow> stack_inv ?s1 \<and> stack_grows s ?s1"
    using p by (blast intro: stack_inv_pending pending_ok_update pending_ok_queue)
  have 2: "len ?q < st_max_arp_pending s \<Longrightarrow> stack_inv s \<Longrightarrow> stack_inv ?s2 \<and> stack_grows s ?s2"
    using p by (auto simp: stack_inv_def stack_grows_def intro!: pending_ok_update pending_ok_queue)
  show ?thesis
    unfolding stack_park_pending_def Let_def
    using kept_from [OF 1 keeps_tally] kept_from [OF 2 keeps_send_arp_request] by simp
qed

lemma keeps_flush_pending [stack_rules]: "keeps s (stack_flush_pending ip mac s)"
proof -
  let ?s1 = "s\<lparr>st_arp_pending := AList.delete ip (st_arp_pending s)\<rparr>"
  have 1: "stack_inv s \<Longrightarrow> stack_inv ?s1 \<and> stack_grows s ?s1"
    by (auto simp: stack_inv_def stack_grows_def pending_ok_def AList.delete_conv')
  show ?thesis
    unfolding stack_flush_pending_def Let_def
    by (rule kept_from [OF 1], assumption) (intro tables.safe_each keeps_intros stack_rules)
qed

section \<open>Outbound path\<close>

lemma keeps_arp_lookup [stack_rules]: "keeps s (stack_arp_lookup ip now s)"
  using cache_forget_shrinks(1-3) [of "st_arp_cache s" "Look ip now"]
  by (auto simp: stack_arp_lookup_def act_safe_def stack_inv_def stack_grows_def cache_bounded_def split: prod.split)

lemma keeps_send_ipv4 [stack_rules]: "keeps s (stack_send_ipv4 p now s)"
proof (cases "ip_dst p = IP_BROADCAST")
  case True
  then show ?thesis
    unfolding stack_send_ipv4_def if_P [OF True] by (intro keeps_intros stack_rules) simp
next
  case False
  have "keeps t ((case mac of None \<Rightarrow> act_then (stack_park_pending hop p) (act_return False)
     | Some m \<Rightarrow> act_bind (act_lift (IPv4Packet_to_bytes p)) (\<lambda>raw.
         act_then (stack_emit m ETHERTYPE_IPV4 raw) (act_return True))) t)" for mac hop t
    by (cases mac) (simp_all, (intro keeps_intros stack_rules; simp)+)
  then show ?thesis
    unfolding stack_send_ipv4_def if_not_P [OF False] by (intro keeps_intros stack_rules)
qed

lemma keeps_allocate_id [stack_rules]: "keeps s (stack_allocate_id s)"
  by (auto simp: stack_allocate_id_def act_safe_def stack_inv_def stack_grows_def counters_ok_def mask_16 Let_def)

lemma keeps_send_payload [stack_rules]: "keeps s (stack_send_payload dst proto r now s)"
  unfolding stack_send_payload_def by (intro keeps_intros stack_rules)

lemma keeps_transmit_segment [stack_rules]: "keeps s (stack_transmit_segment seg ip now s)"
  unfolding stack_transmit_segment_def by (intro keeps_intros stack_rules) simp

text \<open>The allocated port is in the ephemeral range and free.\<close>

lemma kept_allocate_port_loop:
  "kept (\<lambda>port t. FIRST_EPHEMERAL_PORT \<le> port \<and> port \<le> LAST_EPHEMERAL_PORT \<and> \<not> stack_port_in_use t port)
     s (allocate_port_loop n s)"
proof (induction n arbitrary: s)
  case (Suc n)
  let ?s1 = "s\<lparr>st_next_port := (if st_next_port s + 1 > LAST_EPHEMERAL_PORT then FIRST_EPHEMERAL_PORT
                                  else st_next_port s + 1)\<rparr>"
  have 1: "stack_inv s \<Longrightarrow> stack_inv ?s1 \<and> stack_grows s ?s1"
    by (auto simp: stack_inv_def stack_grows_def counters_ok_def FIRST_EPHEMERAL_PORT_def LAST_EPHEMERAL_PORT_def)
  have port: "stack_inv s \<Longrightarrow> FIRST_EPHEMERAL_PORT \<le> st_next_port s \<and> st_next_port s \<le> LAST_EPHEMERAL_PORT"
    by (simp add: stack_inv_def counters_ok_def)
  show ?case
  proof (cases "stack_port_in_use ?s1 (st_next_port s)")
    case True
    then show ?thesis
      using kept_from [OF 1 Suc.IH] by (simp add: Let_def)
  next
    case False
    with 1 port show ?thesis by (simp add: act_safe_def Let_def)
  qed
qed (simp add: act_safe_def tables.grows_refl)


section \<open>Objects\<close>

lemma tables_ok_objects:
  assumes "tables_ok ip xs connections listeners queues events" and "objects_grow xs ys"
    and "\<forall>ob \<in> set ys. object_ok ip ob"
  shows "tables_ok ip ys connections listeners queues events"
proof -
  have mono: "conn_entry xs k c \<Longrightarrow> conn_entry ys k c" "listener_entry xs p c \<Longrightarrow> listener_entry ys p c"
    "accept_entry xs p c \<Longrightarrow> accept_entry ys p c" for k p c
    using assms(2) by (simp_all add: objects_grow_def conn_entry_def listener_entry_def accept_entry_def)
  then have "list_all (accept_entry xs p) q \<Longrightarrow> list_all (accept_entry ys p) q" for p q
    by (simp add: list_all_iff)
  with mono assms show ?thesis
    unfolding tables_ok_def objects_grow_def by (meson order.strict_trans2)
qed

lemma objects_grow_update:
  "ob_role ob = ob_role (xs ! c) \<Longrightarrow> four_tuple ob = four_tuple (xs ! c) \<Longrightarrow> objects_grow xs (xs[c := ob])"
  by (cases "c < length xs") (auto simp: objects_grow_def nth_list_update list_update_beyond)

lemma objects_grow_append: "objects_grow xs (xs @ ys)"
  by (simp add: objects_grow_def nth_append)

lemma object_ok_update:
  assumes "\<forall>ob \<in> set xs. object_ok ip ob" and "c < length xs"
    and "ob_role ob = ob_role (xs ! c)" and "four_tuple ob = four_tuple (xs ! c)"
  shows "\<forall>ob \<in> set (xs[c := ob]). object_ok ip ob"
proof -
  have "object_ok ip (xs ! c)" using assms(1,2) by simp
  then have "object_ok ip ob" using assms(3,4) by (simp add: object_ok_def four_tuple_def Let_def split: conn_role.splits)
  then show ?thesis using assms(1) set_update_subset_insert [of xs c ob] by blast
qed

lemma tables_ok_object_ok: "tables_ok ip xs connections listeners queues events \<Longrightarrow> \<forall>ob \<in> set xs. object_ok ip ob"
  by (simp add: tables_ok_def)

lemma stack_inv_set_object:
  assumes "stack_inv s" and "c < length (st_objects s)"
    and "ob_role ob = ob_role (stack_object s c)" and "four_tuple ob = four_tuple (stack_object s c)"
  shows "stack_inv (s\<lparr>st_objects := (st_objects s)[c := ob]\<rparr>) \<and> stack_grows s (s\<lparr>st_objects := (st_objects s)[c := ob]\<rparr>)"
proof -
  have t: "tables_ok (st_ip s) (st_objects s) (st_connections s) (st_listeners s) (st_accept_queues s) (st_read_events s)"
    using assms(1) by (simp add: stack_inv_def)
  have g: "objects_grow (st_objects s) ((st_objects s)[c := ob])"
    using assms(3,4) by (simp add: objects_grow_update stack_object_def)
  have "\<forall>ob \<in> set ((st_objects s)[c := ob]). object_ok (st_ip s) ob"
    using object_ok_update [OF tables_ok_object_ok [OF t] assms(2)] assms(3,4) by (simp add: stack_object_def)
  with g assms(1) tables_ok_objects [OF t g] show ?thesis
    by (simp add: stack_inv_def stack_grows_def)
qed

lemma set_conn_inv:
  assumes "stack_inv s" and "c < length (st_objects s)" and "c_cfg k = c_cfg (ob_conn (stack_object s c))"
  shows "stack_inv (stack_set_conn c k s) \<and> stack_grows s (stack_set_conn c k s)"
  unfolding stack_set_conn_def
  by (rule stack_inv_set_object) (use assms in \<open>simp_all add: four_tuple_def\<close>)

lemma set_flags_inv:
  assumes "stack_inv s" and "c < length (st_objects s)"
  shows "stack_inv (stack_set_flags c e f s) \<and> stack_grows s (stack_set_flags c e f s)"
  unfolding stack_set_flags_def
  by (rule stack_inv_set_object) (use assms in \<open>simp_all add: four_tuple_def\<close>)

lemma map_of_filter: "dict_wf d \<Longrightarrow> map_of (filter P d) k = Some v \<Longrightarrow> map_of d k = Some v"
  using map_of_SomeD [of "filter P d" k v] by simp

lemma tables_ok_shrink:
  assumes "tables_ok ip xs connections listeners queues events" and "dict_wf connections'"
    and "\<And>k c. map_of connections' k = Some c \<Longrightarrow> map_of connections k = Some c"
    and "\<And>c b. map_of events' c = Some b \<Longrightarrow> map_of events c = Some b"
  shows "tables_ok ip xs connections' listeners queues events'"
  using assms unfolding tables_ok_def by blast

lemma forget_inv: "stack_inv s \<Longrightarrow> stack_inv (stack_forget c s) \<and> stack_grows s (stack_forget c s)"
proof -
  assume inv: "stack_inv s"
  have t: "tables_ok (st_ip s) (st_objects s) (st_connections s) (st_listeners s) (st_accept_queues s) (st_read_events s)"
    using inv by (simp add: stack_inv_def)
  have "tables_ok (st_ip s) (st_objects s) (filter (\<lambda>(_, c'). c' \<noteq> c) (st_connections s)) (st_listeners s)
      (st_accept_queues s) (AList.delete c (st_read_events s))"
  proof (rule tables_ok_shrink [OF t])
    show "dict_wf (filter (\<lambda>(_, c'). c' \<noteq> c) (st_connections s))" using t by (simp add: tables_ok_def distinct_map_filter)
    show "map_of (st_connections s) k = Some v" if "map_of (filter (\<lambda>(_, c'). c' \<noteq> c) (st_connections s)) k = Some v" for k v
      by (rule map_of_filter [OF _ that]) (use t in \<open>simp add: tables_ok_def\<close>)
    show "map_of (AList.delete c (st_read_events s)) k = Some b \<Longrightarrow> map_of (st_read_events s) k = Some b" for k b
      by (simp add: AList.delete_conv' split: if_splits)
  qed
  with inv show ?thesis by (simp add: stack_forget_def stack_inv_def stack_grows_def)
qed

lemma signal_readable_inv:
  "stack_inv s \<Longrightarrow> stack_inv (stack_signal_readable c s) \<and> stack_grows s (stack_signal_readable c s)"
  by (auto simp: stack_signal_readable_def stack_inv_def stack_grows_def tables_ok_def update_conv' split: option.split)

lemma keeps_modify: "(stack_inv s \<Longrightarrow> stack_inv (f s) \<and> stack_grows s (f s)) \<Longrightarrow> keeps s (act_modify f s)"
  by (rule tables.safe_modify) simp

lemma keeps_perform:
  assumes "c < length (st_objects s)"
  shows "keeps s (stack_perform c now ev s)"
proof (cases ev)
  case (Transmit segment remote_ip)
  then show ?thesis by (simp add: keeps_transmit_segment)
qed (use assms in \<open>auto intro!: keeps_modify split: conn_role.split
        simp: set_flags_inv forget_inv signal_readable_inv tables.grows_refl\<close>)

lemma grows_length: "stack_grows s t \<Longrightarrow> c < length (st_objects s) \<Longrightarrow> c < length (st_objects t)"
  by (simp add: stack_grows_def objects_grow_def)

lemma keeps_update_conn:
  assumes "c < length (st_objects s)" and "c_cfg k = c_cfg (ob_conn (stack_object s c))"
  shows "keeps s (stack_update_conn c k now s)"
  unfolding stack_update_conn_def
proof (rule tables.safe_after)
  show "keeps s (act_modify (stack_set_conn c k) s)"
    using assms by (intro keeps_modify set_conn_inv)
  show "keeps t (act_each (c_out k) (stack_perform c now) t)" if "stack_grows s t" for t
    by (intro tables.safe_each keeps_perform) (use that assms(1) grows_length in blast)
qed

lemma kept_new_object:
  assumes "object_ok (st_ip s) \<lparr>ob_conn = k\<lparr>c_out := []\<rparr>, ob_role = role, ob_established = False, ob_failed = False\<rparr>"
  shows "kept (\<lambda>c t. c < length (st_objects t) \<and> ob_role (stack_object t c) = role
       \<and> c_cfg (ob_conn (stack_object t c)) = c_cfg k) s (stack_new_object k role s)"
proof -
  let ?ob = "\<lparr>ob_conn = k\<lparr>c_out := []\<rparr>, ob_role = role, ob_established = False, ob_failed = False\<rparr>"
  have "tables_ok ip (xs @ [?ob]) connections listeners queues events"
    if "tables_ok ip xs connections listeners queues events" "ip = st_ip s" for ip xs connections listeners queues events
    by (rule tables_ok_objects [OF that(1) objects_grow_append])
      (use assms that tables_ok_object_ok [OF that(1)] in auto)
  then show ?thesis
    by (simp add: stack_new_object_def act_safe_def stack_inv_def stack_grows_def objects_grow_append stack_object_def)
qed

lemma enqueue_accept_inv:
  assumes inv: "stack_inv s" and c: "c < length (st_objects s)"
    and role: "ob_role (stack_object s c) = Accepted"
    and port: "cfg_local_port (c_cfg (ob_conn (stack_object s c))) = port"
  shows "stack_inv (stack_enqueue_accept port c s) \<and> stack_grows s (stack_enqueue_accept port c s)"
proof -
  let ?ob = "stack_object s c"
  let ?k = "four_tuple ?ob"
  let ?cfg = "(c_cfg (ob_conn ?ob))\<lparr>cfg_on_data := True, cfg_on_closed := True\<rparr>"
  let ?objects = "(st_objects s)[c := ?ob\<lparr>ob_conn := ob_conn ?ob\<lparr>c_cfg := ?cfg, c_out := []\<rparr>\<rparr>]"
  let ?conns = "AList.update ?k c (st_connections s)" and ?events = "AList.update c False (st_read_events s)"
  have t: "tables_ok (st_ip s) (st_objects s) (st_connections s) (st_listeners s) (st_accept_queues s) (st_read_events s)"
    using inv by (simp add: stack_inv_def)
  have ok: "object_ok (st_ip s) ?ob" using tables_ok_object_ok [OF t] c by (simp add: stack_object_def)
  have tuple: "four_tuple (?ob\<lparr>ob_conn := ob_conn ?ob\<lparr>c_cfg := ?cfg, c_out := []\<rparr>\<rparr>) = ?k"
    using ok unfolding four_tuple_def object_ok_def Let_def by simp
  have grow: "objects_grow (st_objects s) ?objects"
    by (rule objects_grow_update) (simp_all add: tuple, simp_all add: stack_object_def)
  have all: "\<forall>ob \<in> set ?objects. object_ok (st_ip s) ob"
    by (rule object_ok_update [OF tables_ok_object_ok [OF t] c]) (simp_all add: tuple, simp_all add: stack_object_def)
  note t1 = tables_ok_objects [OF t grow all]
  have "conn_entry ?objects ?k c"
    using c role by (simp add: conn_entry_def tuple)
  then have t2: "tables_ok (st_ip s) ?objects ?conns (st_listeners s) (st_accept_queues s) ?events"
    using t1 c unfolding tables_ok_def by (simp add: update_conv')
  have acc: "accept_entry ?objects port c"
    using c role port by (simp add: accept_entry_def tuple four_tuple_def Let_def)
  have t3: "tables_ok (st_ip s) ?objects ?conns (st_listeners s) (AList.update port (q @ [c]) (st_accept_queues s)) ?events"
    if "map_of (st_accept_queues s) port = Some q" for q
    using t2 acc that unfolding tables_ok_def by (simp add: update_conv')
  have key: "(st_ip s, cfg_local_port (c_cfg (ob_conn ?ob)), cfg_remote_ip (c_cfg (ob_conn ?ob)),
      cfg_remote_port (c_cfg (ob_conn ?ob))) = ?k"
    using ok unfolding four_tuple_def object_ok_def Let_def by simp
  have obj: "stack_object (s\<lparr>st_connections := x, st_read_events := y\<rparr>) c = ?ob" for x y
    by (simp add: stack_object_def)
  show ?thesis
    using inv grow t2 t3
    unfolding stack_enqueue_accept_def Let_def key stack_set_conn_def obj
    by (auto simp: stack_inv_def stack_grows_def split: option.split)
qed

section \<open>Inbound path\<close>

lemma grows_object:
  assumes "stack_grows s t" and "c < length (st_objects s)"
  shows "ob_role (stack_object t c) = ob_role (stack_object s c)"
    and "cfg_local_port (c_cfg (ob_conn (stack_object t c))) = cfg_local_port (c_cfg (ob_conn (stack_object s c)))"
    and "c < length (st_objects t)" and "st_ip t = st_ip s"
  using assms by (auto simp: stack_grows_def objects_grow_def stack_object_def four_tuple_def Let_def)

lemma stack_inv_object:
  assumes "stack_inv s" and "c < length (st_objects s)"
  shows "cfg_local_ip (c_cfg (ob_conn (stack_object s c))) = st_ip s"
    and "ob_role (stack_object s c) = ListenerOn port \<Longrightarrow> cfg_local_port (c_cfg (ob_conn (stack_object s c))) = port"
proof -
  have "object_ok (st_ip s) (stack_object s c)"
    using assms by (simp add: stack_inv_def tables_ok_def stack_object_def)
  then show "cfg_local_ip (c_cfg (ob_conn (stack_object s c))) = st_ip s"
    "ob_role (stack_object s c) = ListenerOn port \<Longrightarrow> cfg_local_port (c_cfg (ob_conn (stack_object s c))) = port"
    by (simp_all add: object_ok_def split: conn_role.splits)
qed

text \<open>A listener's new connection is handed to the queue of its own port.\<close>

lemma keeps_accept_child:
  assumes inv: "stack_inv s" and c: "c < length (st_objects s)"
    and local: "cfg_local_ip (c_cfg k) = st_ip s"
      "cfg_local_port (c_cfg k) = cfg_local_port (c_cfg (ob_conn (stack_object s c)))"
  shows "keeps s (act_bind (stack_new_object k Accepted) (\<lambda>kid.
             act_then (stack_update_conn kid k now)
             (act_modify (\<lambda>s. case ob_role (stack_object s c) of
                                 ListenerOn port \<Rightarrow> stack_enqueue_accept port kid s | _ \<Rightarrow> s))) s)"
proof (rule tables.safe_bind)
  show "kept (\<lambda>kid t. kid < length (st_objects t) \<and> ob_role (stack_object t kid) = Accepted
      \<and> c_cfg (ob_conn (stack_object t kid)) = c_cfg k) s (stack_new_object k Accepted s)"
    by (rule kept_new_object) (simp add: object_ok_def local)
  fix kid t
  assume t: "stack_grows s t"
    and kid: "kid < length (st_objects t) \<and> ob_role (stack_object t kid) = Accepted
      \<and> c_cfg (ob_conn (stack_object t kid)) = c_cfg k"
  show "keeps t (act_then (stack_update_conn kid k now)
             (act_modify (\<lambda>s. case ob_role (stack_object s c) of
                                 ListenerOn port \<Rightarrow> stack_enqueue_accept port kid s | _ \<Rightarrow> s)) t)"
  proof (rule tables.safe_after)
    show "keeps t (stack_update_conn kid k now t)" using kid by (intro keeps_update_conn) simp_all
    fix u
    assume u: "stack_inv u" "stack_grows t u"
    note su = grows_object [OF tables.grows_trans [OF t u(2)] c]
    have kid_u: "kid < length (st_objects u)" "ob_role (stack_object u kid) = Accepted"
      "cfg_local_port (c_cfg (ob_conn (stack_object u kid))) = cfg_local_port (c_cfg (ob_conn (stack_object u c)))"
      using kid grows_object [OF u(2), of kid] su local by simp_all
    have "stack_inv (stack_enqueue_accept port kid u) \<and> stack_grows u (stack_enqueue_accept port kid u)"
      if "ob_role (stack_object u c) = ListenerOn port" for port
      using kid_u stack_inv_object(2) [OF u(1) su(3) that] by (intro enqueue_accept_inv [OF u(1)]) simp_all
    then show "keeps u (act_modify (\<lambda>s. case ob_role (stack_object s c) of
        ListenerOn port \<Rightarrow> stack_enqueue_accept port kid s | _ \<Rightarrow> s) u)"
      using u(1) by (intro keeps_modify) (simp add: tables.grows_refl split: conn_role.split)
  qed
qed

lemma keeps_on_segment:
  assumes inv: "stack_inv s" and c: "c < length (st_objects s)"
  shows "keeps s (stack_on_segment c seg src_ip rnd now s)"
  unfolding stack_on_segment_def
proof (rule tables.safe_compute)
  fix r
  assume r: "conn_on_segment seg (Some src_ip) rnd now (ob_conn (stack_object s c)) = Inr r"
  obtain k child where kc: "r = (k, child)" by (cases r)
  note cfg = on_segment_cfg [OF r [unfolded kc]]
  show "keeps s ((case r of (conn, child) \<Rightarrow> act_then (stack_update_conn c conn now)
      (case child of None \<Rightarrow> act_return ()
       | Some k \<Rightarrow> act_bind (stack_new_object k Accepted) (\<lambda>kid.
             act_then (stack_update_conn kid k now)
             (act_modify (\<lambda>s. case ob_role (stack_object s c) of
                                 ListenerOn port \<Rightarrow> stack_enqueue_accept port kid s | _ \<Rightarrow> s))))) s)"
    unfolding kc prod.case
  proof (rule tables.safe_after)
    show "keeps s (stack_update_conn c k now s)" using c cfg by (intro keeps_update_conn) simp_all
    fix t
    assume t: "stack_inv t" "stack_grows s t"
    have "keeps t (act_bind (stack_new_object j Accepted) (\<lambda>kid.
             act_then (stack_update_conn kid j now)
             (act_modify (\<lambda>s. case ob_role (stack_object s c) of
                                 ListenerOn port \<Rightarrow> stack_enqueue_accept port kid s | _ \<Rightarrow> s))) t)"
      if "child = Some j" for j
      using cfg that stack_inv_object(1) [OF inv c] grows_object [OF t(2) c]
      by (intro keeps_accept_child [OF t(1)]) (simp_all add: conn_child_config_def)
    then show "keeps t ((case child of None \<Rightarrow> act_return ()
       | Some k \<Rightarrow> act_bind (stack_new_object k Accepted) (\<lambda>kid.
             act_then (stack_update_conn kid k now)
             (act_modify (\<lambda>s. case ob_role (stack_object s c) of
                                 ListenerOn port \<Rightarrow> stack_enqueue_accept port kid s | _ \<Rightarrow> s)))) t)"
      by (cases child) simp_all
  qed
qed

lemma keeps_handle_arp [stack_rules]: "keeps s (stack_handle_arp frame now s)"
  unfolding stack_handle_arp_def
proof (rule tables.safe_compute, rule tables.safe_after)
  fix p :: arp_packet
  have "\<exists>c. ARPCache_store (st_arp_cache s) (arp_sender_ip p) (arp_sender_mac p) now = Inr c \<and> cache_bounded c"
    if "stack_inv s"
    using store_total [of "st_arp_cache s" "arp_sender_ip p" "arp_sender_mac p" now] that
    by (auto simp: stack_inv_def cache_bounded_def)
  then show "keeps s (case ARPCache_store (st_arp_cache s) (arp_sender_ip p) (arp_sender_mac p) now of
      Inl e \<Rightarrow> (s, Inl e) | Inr cache \<Rightarrow> (s\<lparr>st_arp_cache := cache\<rparr>, Inr ()))"
    by (fastforce simp: act_safe_def stack_inv_def stack_grows_def)
  fix t
  have "keeps t (act_then (act_modify (tally sx_arp_replies_sent_update))
      (act_bind (act_lift r) (stack_emit (arp_sender_mac p) ETHERTYPE_ARP)) t)" for r
    by (intro keeps_intros stack_rules)
  then show "keeps t (if arp_is_request p \<and> arp_target_ip p = st_ip t then
            act_then (act_modify (tally sx_arp_replies_sent_update))
            (act_bind (act_lift (ARPPacket_to_bytes
               (ARPPacket ARP_REPLY (st_mac t) (st_ip t) (arp_sender_mac p) (arp_sender_ip p))))
             (stack_emit (arp_sender_mac p) ETHERTYPE_ARP)) t
          else if arp_is_reply p then stack_flush_pending (arp_sender_ip p) (arp_sender_mac p) t
          else (t, Inr ()))"
    by (simp add: keeps_flush_pending)
qed

lemma keeps_send_reset [stack_rules]: "keeps s (stack_send_reset p seg now s)"
proof -
  have "keeps s (act_bind (stack_send_payload a b r now) (\<lambda>_. act_return ()) s)" for a b r
    by (intro keeps_intros stack_rules) simp
  then show ?thesis by (simp add: stack_send_reset_def Let_def)
qed

lemma keeps_handle_icmp [stack_rules]: "keeps s (stack_handle_icmp p now s)"
proof -
  have "keeps s (act_bind (act_lift r) (\<lambda>reply. act_then (act_modify (tally sx_icmp_echo_replied_update))
       (act_bind (stack_send_payload (ip_src p) PROTO_ICMP (ICMPMessage_to_bytes reply) now) (\<lambda>_. act_return ()))) s)" for r
    by (intro keeps_intros stack_rules) simp
  then show ?thesis unfolding stack_handle_icmp_def by (intro keeps_intros) simp
qed

lemma keeps_handle_udp [stack_rules]: "keeps s (stack_handle_udp p s)"
proof -
  have "keeps s (act_modify (\<lambda>s. case map_of (st_udp_handlers s) port of None \<Rightarrow> s
      | Some h \<Rightarrow> s\<lparr>st_upcalls := st_upcalls s @ [(h, d, ip, sp)]\<rparr>) s)" for s port d ip sp
    by (intro keeps_modify) (auto simp: stack_inv_def stack_grows_def split: option.split)
  then show ?thesis
    unfolding stack_handle_udp_def by (intro keeps_intros keeps_tally)
qed

lemma keeps_handle_tcp [stack_rules]: "keeps s (stack_handle_tcp p rnd now s)"
  unfolding stack_handle_tcp_def
proof (intro tables.safe_compute tables.safe_after keeps_tally)
  fix seg t
  assume inv: "stack_inv t"
  have found: "map_of (st_connections t) k = Some c \<Longrightarrow> c < length (st_objects t)"
    "map_of (st_listeners t) q = Some c \<Longrightarrow> c < length (st_objects t)" for k q c
    using inv unfolding stack_inv_def tables_ok_def conn_entry_def listener_entry_def by blast+
  show "keeps t (let key = (ip_dst p, seg_dst_port seg, ip_src p, seg_src_port seg)
          in case map_of (st_connections t) key of
               Some c \<Rightarrow> stack_on_segment c seg (ip_src p) rnd now t
             | None \<Rightarrow> (case map_of (st_listeners t) (seg_dst_port seg) of
                    Some c \<Rightarrow> stack_on_segment c seg (ip_src p) rnd now t
                  | None \<Rightarrow> stack_send_reset p seg now t))"
    unfolding Let_def using found
    by (auto intro!: keeps_on_segment [OF inv] keeps_send_reset split: option.split)
qed

lemma keeps_catch: "keeps s (m s) \<Longrightarrow> keeps s (act_catch p m (tally f) s)"
  by (erule tables.safe_catch) (simp add: tables.grows_refl)

lemma keeps_dispatch [stack_rules]: "keeps s (stack_dispatch_ipv4 p rnd now s)"
  unfolding stack_dispatch_ipv4_def
  by (rule keeps_catch) (simp add: keeps_handle_icmp keeps_handle_tcp keeps_handle_udp)

lemma keeps_reassemble [stack_rules]: "keeps s (stack_reassemble p now s)"
proof (cases "stack_inv s")
  case True
  then obtain r res where "Reassembler_add (st_reassembler s) p now = Inr (r, res)" "reassembler_small r"
    using reassembler_inv_add [of "st_reassembler s" p now] by (auto simp: stack_inv_def reassembler_small_def)
  with True show ?thesis
    by (simp add: stack_reassemble_def act_safe_def) (simp add: stack_inv_def stack_grows_def)
qed (simp add: act_safe_def)

lemma keeps_handle_ipv4_frame [stack_rules]: "keeps s (stack_handle_ipv4_frame frame rnd now s)"
proof (cases "IPv4Packet_parse (eth_payload frame)")
  case (Inl e)
  then show ?thesis by (simp add: stack_handle_ipv4_frame_def keeps_tally)
next
  case (Inr p)
  have "keeps t (case r of None \<Rightarrow> (t, Inr ()) | Some p \<Rightarrow>
      if ip_dst p \<noteq> st_ip t \<and> ip_dst p \<noteq> IP_BROADCAST then act_modify (tally sx_frames_dropped_update) t
      else stack_dispatch_ipv4 p rnd now t)" for r t
    by (simp add: keeps_tally keeps_dispatch split: option.split)
  then show ?thesis
    unfolding stack_handle_ipv4_frame_def Inr sum.case by (intro keeps_intros keeps_tally keeps_reassemble)
qed

lemma keeps_handle_frame: "keeps s (stack_handle_frame raw rnd now s)"
  unfolding stack_handle_frame_def
  by (rule keeps_catch, rule tables.safe_compute) (simp add: keeps_tally keeps_handle_arp keeps_handle_ipv4_frame)

lemma stack_inv_tick: "stack_inv s \<Longrightarrow> stack_inv (stack_tick now s)"
proof -
  assume inv: "stack_inv s"
  let ?step = "\<lambda>c. act_catch (\<lambda>_. True)
      (\<lambda>s. stack_update_conn c (conn_on_tick now (ob_conn (stack_object s c))) now s) (tally sx_errors_update)"
  let ?s1 = "fst (act_each (map snd (st_connections s)) ?step s)"
  have valid: "c < length (st_objects s)" if "c \<in> set (map snd (st_connections s))" for c
  proof -
    from that obtain k where "(k, c) \<in> set (st_connections s)" by auto
    moreover have "dict_wf (st_connections s)" using inv by (simp add: stack_inv_def tables_ok_def)
    ultimately have "map_of (st_connections s) k = Some c" by simp
    then show ?thesis using inv unfolding stack_inv_def tables_ok_def conn_entry_def by blast
  qed
  have "keeps s (act_each (map snd (st_connections s)) ?step s)"
    by (intro tables.safe_each keeps_catch keeps_update_conn) (use valid grows_length in \<open>blast, simp\<close>)
  then have "stack_inv ?s1" using inv by (simp add: act_safe_def)
  then show ?thesis
    using cache_forget_shrinks(1-3) [of "st_arp_cache ?s1" "Expire now"]
    by (simp add: stack_tick_def Let_def) (simp add: stack_inv_def cache_bounded_def)
qed

lemma stack_inv_round: "stack_inv s \<Longrightarrow> stack_inv (fst (stack_run_round i frame rnd t now (s, next)))"
proof -
  assume inv: "stack_inv s"
  have "keeps s' (act_catch (\<lambda>_. True) (stack_handle_frame raw rnd t) (tally sx_errors_update) s')" for raw s'
    by (rule keeps_catch) (rule keeps_handle_frame)
  then have "stack_inv (fst (act_catch (\<lambda>_. True) (stack_handle_frame raw rnd t) (tally sx_errors_update)
      (tally sx_frames_in_update s)))" for raw
    using inv by (simp add: act_safe_def)
  with inv show ?thesis
    by (simp add: stack_run_round_def Let_def stack_inv_tick split: option.split)
qed


section \<open>The application's calls\<close>

lemma keeps_allocate_port [stack_rules]: "keeps s (stack_allocate_port s)"
  unfolding stack_allocate_port_def by (rule tables.safe_weaken [OF kept_allocate_port_loop]) simp

lemma keeps_tcp_listen: "keeps s (stack_tcp_listen port s)"
proof (cases "map_of (st_listeners s) port")
  case None
  show ?thesis
    unfolding stack_tcp_listen_def None simp_thms if_False
  proof (rule tables.safe_compute, rule tables.safe_bind)
    fix l
    assume "sum_bind (TCPConnection_init ((stack_conn_config s port IP_ANY 0)\<lparr>cfg_on_accept := True\<rparr>)) conn_listen = Inr l"
    then have "c_cfg l = (stack_conn_config s port IP_ANY 0)\<lparr>cfg_on_accept := True\<rparr>"
      by (auto simp: sum_bind_Inr dest!: listen_cfg init_cfg)
    then show "kept (\<lambda>c t. c < length (st_objects t) \<and> ob_role (stack_object t c) = ListenerOn port
        \<and> c_cfg (ob_conn (stack_object t c)) = c_cfg l) s (stack_new_object l (ListenerOn port) s)"
      by (intro kept_new_object) (simp add: object_ok_def stack_conn_config_def)
    fix c t
    assume "c < length (st_objects t) \<and> ob_role (stack_object t c) = ListenerOn port \<and> c_cfg (ob_conn (stack_object t c)) = c_cfg l"
    then have "listener_entry (st_objects t) port c" by (simp add: listener_entry_def stack_object_def)
    then have tables: "tables_ok ip (st_objects t) conns (AList.update port c ls) (AList.update port [] qs) ev"
      if "tables_ok ip (st_objects t) conns ls qs ev" for ip conns ls qs ev
      using that unfolding tables_ok_def by (auto simp: update_conv')
    show "keeps t (act_then (act_modify (\<lambda>s. s\<lparr>st_listeners := AList.update port c (st_listeners s),
        st_accept_queues := AList.update port [] (st_accept_queues s)\<rparr>)) (act_return c) t)"
      by (intro tables.safe_after keeps_modify) (simp_all add: stack_inv_def stack_grows_def tables)
  qed
qed (simp add: stack_tcp_listen_def)

lemma keeps_tcp_accept: "keeps s (stack_tcp_accept port s)"
proof (cases "map_of (st_accept_queues s) port")
  case (Some q)
  show ?thesis
  proof (cases q)
    case (Cons c cs)
    have "tables_ok ip xs conns ls (AList.update port cs qs) ev"
      if t: "tables_ok ip xs conns ls qs ev" and q: "map_of qs port = Some (c # cs)" for ip xs conns ls qs ev
    proof -
      have "map_of ls port \<noteq> None" "list_all (accept_entry xs port) (c # cs)"
        using t q unfolding tables_ok_def by blast+
      with t show ?thesis unfolding tables_ok_def by (auto simp: update_conv')
    qed
    with Some Cons show ?thesis
      by (simp add: stack_tcp_accept_def act_safe_def) (simp add: stack_inv_def stack_grows_def)
  qed (simp add: stack_tcp_accept_def Some)
qed (simp add: stack_tcp_accept_def)

text \<open>The two parts of \<open>tcp_connect\<close>.\<close>

lemma keeps_open_client:
  assumes "c_cfg k = (stack_conn_config s port ip rport)\<lparr>cfg_on_established := True, cfg_on_reset := True\<rparr>"
  shows "keeps s (act_bind (stack_new_object k Client) (\<lambda>c.
     act_then (act_modify (\<lambda>s.
       s\<lparr>st_connections := AList.update (st_ip s, port, ip, rport) c (st_connections s),
         st_read_events := AList.update c False (st_read_events s)\<rparr>))
     (\<lambda>s. act_bind (act_lift (conn_connect rnd now (ob_conn (stack_object s c)))) (\<lambda>conn.
          act_then (stack_update_conn c conn now) (act_return c)) s)) s)"
proof (rule tables.safe_bind)
  show "kept (\<lambda>c t. c < length (st_objects t) \<and> ob_role (stack_object t c) = Client
      \<and> c_cfg (ob_conn (stack_object t c)) = c_cfg k) s (stack_new_object k Client s)"
    by (rule kept_new_object) (simp add: object_ok_def assms stack_conn_config_def)
  fix c t
  assume grow: "stack_grows s t"
    and c: "c < length (st_objects t) \<and> ob_role (stack_object t c) = Client \<and> c_cfg (ob_conn (stack_object t c)) = c_cfg k"
  let ?add = "\<lambda>s. s\<lparr>st_connections := AList.update (st_ip s, port, ip, rport) c (st_connections s),
         st_read_events := AList.update c False (st_read_events s)\<rparr>"
  have "conn_entry (st_objects t) (st_ip t, port, ip, rport) c"
    using c grow assms by (simp add: conn_entry_def four_tuple_def stack_object_def stack_conn_config_def stack_grows_def Let_def)
  then have tables: "tables_ok i (st_objects t) (AList.update (st_ip t, port, ip, rport) c conns) ls qs (AList.update c False ev)"
    if "tables_ok i (st_objects t) conns ls qs ev" for i conns ls qs ev
    using that c unfolding tables_ok_def by (simp add: update_conv')
  show "keeps t (act_then (act_modify ?add) (\<lambda>s. act_bind (act_lift (conn_connect rnd now (ob_conn (stack_object s c)))) (\<lambda>conn.
          act_then (stack_update_conn c conn now) (act_return c)) s) t)"
  proof (intro tables.safe_after tables.safe_compute keeps_modify keeps_update_conn)
    show "stack_inv t \<Longrightarrow> stack_inv (?add t) \<and> stack_grows t (?add t)"
      by (simp add: stack_inv_def stack_grows_def tables)
    fix u k'
    assume "stack_grows t u" and "conn_connect rnd now (ob_conn (stack_object u c)) = Inr k'"
    then show "c < length (st_objects u)" "c_cfg k' = c_cfg (ob_conn (stack_object u c))"
      using c grows_length connect_cfg by blast+
  qed simp
qed

lemma keeps_tcp_connect: "keeps s (stack_tcp_connect remote rport port0 rnd now s)"
proof -
  have port: "keeps s ((if port0 \<noteq> 0 then act_return port0 else stack_allocate_port) s)" for s
    by (simp add: keeps_allocate_port)
  show ?thesis
    unfolding stack_tcp_connect_def
    by (intro tables.safe_compute tables.safe_seq port keeps_open_client) (rule init_cfg)
qed

lemma keeps_tcp_connect_finish:
  assumes "c < length (st_objects s)"
  shows "keeps s (stack_tcp_connect_finish waited c now s)"
proof -
  have forget: "keeps t (act_then (act_modify (stack_forget c)) (act_lift r) t)" for t and r :: "py_error + cid"
    by (intro tables.safe_after keeps_modify forget_inv) simp_all
  have "keeps s (act_then (stack_update_conn c (conn_abort now (ob_conn (stack_object s c))) now)
        (act_then (act_modify (stack_forget c)) (act_lift r)) s)" for r :: "py_error + cid"
    using assms by (intro tables.safe_after keeps_update_conn forget) simp_all
  then show ?thesis using forget by (simp add: stack_tcp_connect_finish_def)
qed

lemma keeps_udp_send: "keeps s (stack_udp_send payload remote rport port0 now s)"
proof -
  have port: "keeps s ((if port0 \<noteq> 0 then act_return port0 else stack_allocate_port) s)" for s
    by (simp add: keeps_allocate_port)
  show ?thesis unfolding stack_udp_send_def by (intro keeps_intros port stack_rules)
qed

section \<open>Reachable stacks\<close>

text \<open>A stack that was constructed and then driven by any interleaving of frames, rounds of the
  thread, ticks and calls of the application, on the connections it was given (\<open>c\<close> is an object
  of the store), whether they return or raise.\<close>

inductive stack_step :: "stack \<Rightarrow> stack \<Rightarrow> bool" where
  on_frame: "stack_step s (fst (stack_handle_frame raw rnd now s))"
| on_round: "stack_step s (fst (stack_run_round i frame rnd t now (s, next)))"
| on_tick: "stack_step s (stack_tick now s)"
| listen: "stack_step s (fst (stack_tcp_listen port s))"
| accept: "stack_step s (fst (stack_tcp_accept port s))"
| connect: "stack_step s (fst (stack_tcp_connect remote rport port rnd now s))"
| connected: "c < length (st_objects s) \<Longrightarrow> stack_step s (fst (stack_tcp_connect_finish waited c now s))"
| close: "c < length (st_objects s) \<Longrightarrow> stack_step s (fst (stack_tcp_close c now s))"
| send: "c < length (st_objects s) \<Longrightarrow> conn_send data now (ob_conn (stack_object s c)) = Inr (k, n) \<Longrightarrow>
    stack_step s (fst (stack_update_conn c k now s))"
| recv: "c < length (st_objects s) \<Longrightarrow> conn_recv n now (ob_conn (stack_object s c)) = (k, data) \<Longrightarrow>
    stack_step s (fst (stack_update_conn c k now s))"
| abort: "c < length (st_objects s) \<Longrightarrow>
    stack_step s (fst (stack_update_conn c (conn_abort now (ob_conn (stack_object s c))) now s))"
| udp_bind: "stack_step s (stack_udp_bind port handler s)"
| udp_unbind: "stack_step s (stack_udp_unbind port s)"
| udp_send: "stack_step s (fst (stack_udp_send payload remote rport port now s))"

inductive stack_reachable :: "stack \<Rightarrow> bool" where
  init: "0 \<le> max_arp_pending \<Longrightarrow>
    Stack_init mac ip netmask gateway promiscuous max_arp_pending receive_capacity = Inr s \<Longrightarrow> stack_reachable s"
| step: "stack_reachable s \<Longrightarrow> stack_step s t \<Longrightarrow> stack_reachable t"

lemma keeps_D: "keeps s out \<Longrightarrow> stack_inv s \<Longrightarrow> stack_inv (fst out)"
  by (simp add: act_safe_def)

lemma stack_inv_step: "stack_step s t \<Longrightarrow> stack_inv s \<Longrightarrow> stack_inv t"
proof (induction rule: stack_step.induct)
  case (close c s now)
  then show ?case
    unfolding stack_tcp_close_def by (intro keeps_D [OF keeps_update_conn]) simp_all
next
  case (send c s data now k n)
  then show ?case by (intro keeps_D [OF keeps_update_conn]) (auto dest: send_cfg)
next
  case (recv c s n now k data)
  then show ?case using recv_cfg [of n now "ob_conn (stack_object s c)"] by (intro keeps_D [OF keeps_update_conn]) simp_all
next
  case (abort c s now)
  then show ?case by (intro keeps_D [OF keeps_update_conn]) simp_all
next
  case (udp_bind s port handler)
  then show ?case by (simp add: stack_udp_bind_def stack_inv_def)
next
  case (udp_unbind s port)
  then show ?case by (simp add: stack_udp_unbind_def stack_inv_def)
qed (auto intro: stack_inv_tick stack_inv_round keeps_D [OF keeps_handle_frame] keeps_D [OF keeps_tcp_listen]
    keeps_D [OF keeps_tcp_accept] keeps_D [OF keeps_tcp_connect] keeps_D [OF keeps_tcp_connect_finish]
    keeps_D [OF keeps_udp_send])

lemma stack_inv_init:
  assumes "0 \<le> max_arp_pending"
    and "Stack_init mac ip netmask gateway promiscuous max_arp_pending receive_capacity = Inr s"
  shows "stack_inv s"
  using assms
  by (auto simp: Stack_init_def sum_bind_Inr stack_inv_def tables_ok_def pending_ok_def counters_ok_def cache_bounded_def
      cache_inv_def ARPCache_init_def reassembler_small_def reassembler_inv_def Reassembler_init_def
      FIRST_EPHEMERAL_PORT_def LAST_EPHEMERAL_PORT_def)

lemma stack_reachable_inv: "stack_reachable s \<Longrightarrow> stack_inv s"
  by (induction rule: stack_reachable.induct) (auto intro: stack_inv_init stack_inv_step)


definition sample_stack :: stack where
  "sample_stack = projr (Stack_init [2, 0, 0, 0, 0, 1] (IpBytes [10, 0, 0, 1]) (MaskBytes [255, 255, 255, 0])
     None False 32 65535)"

lemma sample_stack_reachable: "stack_reachable sample_stack"
proof -
  have "Stack_init [2, 0, 0, 0, 0, 1] (IpBytes [10, 0, 0, 1]) (MaskBytes [255, 255, 255, 0]) None False 32 65535
      = Inr sample_stack"
    by (simp add: sample_stack_def Stack_init_def)
  then show ?thesis by (rule stack_reachable.init [rotated]) simp
qed

definition sample_server :: stack where
  "sample_server = fst (stack_tcp_listen 80 sample_stack)"

lemma sample_server_reachable: "stack_reachable sample_server"
  unfolding sample_server_def by (rule stack_reachable.step [OF sample_stack_reachable stack_step.listen])


end
