(* ===== verification/Stack_Delivery.thy ===== *)
theory Stack_Delivery
  imports Stack_Tables IPv4_Wire
begin

text \<open>
  What the layers do together: a datagram handed to one stack arrives at the handler of another, an
  unresolved packet is sent when the ARP exchange completes, pings are answered and closed ports are
  reset. Each proof goes through the encoders of one stack and the decoders of the other, by the wire
  formats' round trips.
\<close>

lemmas run_simps = act_then_def act_bind_def act_modify_def act_lift_def act_return_def

section \<open>Frames out\<close>

definition link_frame :: "bytes \<Rightarrow> bytes \<Rightarrow> int \<Rightarrow> bytes \<Rightarrow> bytes" where
  "link_frame dst src ethertype payload =
     dst @ src @ be16 ethertype @ payload @ replicate (46 - length payload) 0"

lemma emit_frame:
  assumes "length mac = 6" and "length (st_mac s) = 6" and "0 \<le> t" and "t < 2 ^ 16"
  shows "\<exists>st. stack_emit mac t p s
    = (s\<lparr>st_stats := st, st_frames := st_frames s @ [link_frame mac (st_mac s) t p]\<rparr>, Inr ())"
proof -
  let ?f = "\<lparr>eth_dst = mac, eth_src = st_mac s, eth_ethertype = t, eth_payload = p\<rparr>"
  have "EthernetFrame_to_bytes ?f True = Inr (link_frame mac (st_mac s) t p)"
    using frame_to_bytes_eq [of ?f True] assms by (simp add: frame_carried_def link_frame_def)
  then show ?thesis
    by (cases "t = ETHERTYPE_IPV4") (auto simp: stack_emit_def run_simps tally_def)
qed

lemma link_frame_parse:
  assumes "length dst = 6" and "length src = 6" and "0 \<le> t" and "t < 2 ^ 16"
  shows "EthernetFrame_parse (link_frame dst src t p) = Inr \<lparr>eth_dst = dst, eth_src = src, eth_ethertype = t,
    eth_payload = p @ replicate (46 - length p) 0\<rparr>"
  using frame_parse_eq [OF assms(1,2), of t] assms by (simp add: link_frame_def)

lemma ethertype_ranges [simp]: "0 \<le> ETHERTYPE_IPV4" "ETHERTYPE_IPV4 < 65536" "0 \<le> ETHERTYPE_ARP" "ETHERTYPE_ARP < 65536"
  by (simp_all add: ETHERTYPE_IPV4_def ETHERTYPE_ARP_def)

lemma ethertypes_differ: "ETHERTYPE_IPV4 \<noteq> ETHERTYPE_ARP"
  by (simp add: ETHERTYPE_IPV4_def ETHERTYPE_ARP_def)

lemma protocols_differ: "PROTO_UDP \<noteq> PROTO_ICMP" "PROTO_UDP \<noteq> PROTO_TCP" "PROTO_TCP \<noteq> PROTO_ICMP"
  by (simp_all add: PROTO_UDP_def PROTO_ICMP_def PROTO_TCP_def)

text \<open>The next hop towards \<open>dst\<close> is known to have the address \<open>mac\<close>.\<close>

definition resolves :: "stack \<Rightarrow> bytes \<Rightarrow> time \<Rightarrow> bytes \<Rightarrow> bool" where
  "resolves s dst now mac \<longleftrightarrow>
     (case stack_next_hop s dst of Inl _ \<Rightarrow> False
      | Inr hop \<Rightarrow> snd (ARPCache_lookup (st_arp_cache s) hop now) = Some mac)"

lemma resolves_fields:
  assumes "st_ip t = st_ip s" and "st_netmask t = st_netmask s" and "st_gateway t = st_gateway s"
    and "st_arp_cache t = st_arp_cache s"
  shows "resolves t = resolves s"
  unfolding fun_eq_iff resolves_def stack_next_hop_def assms by simp

lemma resolves_tally [simp]: "resolves (tally f s) = resolves s"
  by (rule resolves_fields) simp_all

lemma lookup_hit: "snd (ARPCache_lookup c ip now) = Some mac \<Longrightarrow> ARPCache_lookup c ip now = (c, Some mac)"
  by (auto simp: ARPCache_lookup_def split: option.splits if_splits)

lemma send_resolved:
  assumes "resolves s (ip_dst p) now mac" and "ip_dst p \<noteq> IP_BROADCAST" and "IPv4Packet_to_bytes p = Inr b"
    and "length mac = 6" and "length (st_mac s) = 6"
  shows "\<exists>st. stack_send_ipv4 p now s
    = (s\<lparr>st_stats := st, st_frames := st_frames s @ [link_frame mac (st_mac s) ETHERTYPE_IPV4 b]\<rparr>, Inr True)"
proof -
  obtain hop where hop: "stack_next_hop s (ip_dst p) = Inr hop" and hit: "snd (ARPCache_lookup (st_arp_cache s) hop now) = Some mac"
    using assms(1) by (auto simp: resolves_def split: sum.splits)
  have "stack_arp_lookup hop now s = (s, Inr (Some mac))"
    using lookup_hit [OF hit] by (simp add: stack_arp_lookup_def)
  moreover obtain st where "stack_emit mac ETHERTYPE_IPV4 b s
    = (s\<lparr>st_stats := st, st_frames := st_frames s @ [link_frame mac (st_mac s) ETHERTYPE_IPV4 b]\<rparr>, Inr ())"
    using emit_frame [of mac s ETHERTYPE_IPV4 b] assms by auto
  ultimately show ?thesis
    using hop assms(2,3)
    by (auto simp: stack_send_ipv4_def run_simps)
qed

definition host_packet :: "stack \<Rightarrow> bytes \<Rightarrow> int \<Rightarrow> bytes \<Rightarrow> ipv4_packet" where
  "host_packet s dst protocol data = \<lparr>ip_src = st_ip s, ip_dst = dst, ip_protocol = protocol, ip_payload = data,
     ip_ttl = 64, ip_identification = st_next_id s, ip_flags = 0, ip_fragment_offset = 0, ip_dscp = 0, ip_options = []\<rparr>"

text \<open>A stack with addresses of the right sizes.\<close>

definition host :: "stack \<Rightarrow> bool" where
  "host s \<longleftrightarrow> stack_reachable s \<and> length (st_mac s) = 6 \<and> length (st_ip s) = 4"

definition addressed :: "stack \<Rightarrow> bool" where
  "addressed s \<longleftrightarrow> length (st_mac s) = 6 \<and> length (st_ip s) = 4 \<and> 1 \<le> st_next_id s \<and> st_next_id s \<le> 0xFFFF"

lemma host_addressed: "host s \<Longrightarrow> addressed s"
  using stack_reachable_inv by (auto simp: host_def addressed_def stack_inv_def counters_ok_def)

lemma addressed_tally [simp]: "addressed (tally f s) = addressed s"
  by (simp add: addressed_def)

lemma host_packet_tally [simp]: "host_packet (tally f s) = host_packet s"
  by (simp add: fun_eq_iff host_packet_def)

lemma host_packet_carried:
  assumes "addressed s" and "length dst = 4" and "0 \<le> protocol" and "protocol < 2 ^ 8" and "length data \<le> 65515"
  shows "ip_carried (host_packet s dst protocol data)"
  using assms
  by (simp add: ip_carried_def host_packet_def addressed_def ip_total_length_def ip_header_length_def ip_ihl_def
      IP_HEADER_LEN_def MAX_PACKET_def FRAG_OFFSET_MASK_def)

lemma send_payload_resolved:
  assumes "addressed s" and "resolves s dst now mac" and "dst \<noteq> IP_BROADCAST" and "length mac = 6"
    and "length dst = 4" and "0 \<le> protocol" and "protocol < 2 ^ 8" and "length data \<le> 65515"
  obtains st n b where "stack_send_payload dst protocol (Inr data) now s
      = (s\<lparr>st_next_id := n, st_stats := st, st_frames := st_frames s @ [link_frame mac (st_mac s) ETHERTYPE_IPV4 b]\<rparr>, Inr True)"
    and "IPv4Packet_to_bytes (host_packet s dst protocol data) = Inr b"
proof -
  let ?p = "host_packet s dst protocol data"
  obtain b where b: "IPv4Packet_to_bytes ?p = Inr b"
    using ip_to_bytes_layout [OF host_packet_carried [OF assms(1,5-8)]] by blast
  define n where "n = (if (st_next_id s + 1) AND 0xFFFF = 0 then 1 else (st_next_id s + 1) AND 0xFFFF)"
  have "resolves (s\<lparr>st_next_id := n\<rparr>) (ip_dst ?p) now mac"
    using assms(2) resolves_fields [of "s\<lparr>st_next_id := n\<rparr>" s] by (simp add: host_packet_def)
  then obtain st where "stack_send_ipv4 ?p now (s\<lparr>st_next_id := n\<rparr>)
      = (s\<lparr>st_next_id := n, st_stats := st, st_frames := st_frames s @ [link_frame mac (st_mac s) ETHERTYPE_IPV4 b]\<rparr>, Inr True)"
    using send_resolved [of "s\<lparr>st_next_id := n\<rparr>" ?p now mac b] assms b by (auto simp: host_packet_def addressed_def)
  then have "stack_send_payload dst protocol (Inr data) now s
      = (s\<lparr>st_next_id := n, st_stats := st, st_frames := st_frames s @ [link_frame mac (st_mac s) ETHERTYPE_IPV4 b]\<rparr>, Inr True)"
    by (simp add: stack_send_payload_def act_bind_def act_lift_def stack_allocate_id_def Let_def n_def [symmetric]
        host_packet_def del: One_nat_def)
  then show thesis using that b by blast
qed


section \<open>Frames in\<close>

lemma then_ok: "m s = (t, Inr ()) \<Longrightarrow> act_then m k s = k t"
  and bind_ok: "m s = (t, Inr x) \<Longrightarrow> act_bind m f s = f x t"
  by (simp_all add: act_then_def act_bind_def)

lemma catch_ok: "m s = (t, Inr ()) \<Longrightarrow> act_catch p m h s = (t, Inr ())"
  by (simp add: act_catch_def)

text \<open>An unfragmented datagram for this host reaches \<open>_dispatch_ipv4\<close>, whatever the padding.\<close>

lemma receive_datagram:
  assumes "addressed s" and "length src_mac = 6" and "ip_carried p" and "IPv4Packet_to_bytes p = Inr b"
    and "\<not> ip_is_fragmented p" and "ip_dst p = st_ip s"
    and "stack_dispatch_ipv4 p rnd now (tally sx_ipv4_in_update s) = (t, Inr ())"
  shows "stack_handle_frame (link_frame (st_mac s) src_mac ETHERTYPE_IPV4 b) rnd now s = (t, Inr ())"
proof -
  let ?f = "\<lparr>eth_dst = st_mac s, eth_src = src_mac, eth_ethertype = ETHERTYPE_IPV4, eth_payload = b @ replicate (46 - length b) 0\<rparr>"
  have f: "EthernetFrame_parse (link_frame (st_mac s) src_mac ETHERTYPE_IPV4 b) = Inr ?f"
    using assms(1,2) by (intro link_frame_parse) (simp_all add: addressed_def)
  have "IPv4Packet_parse (eth_payload ?f) = Inr p" using ip_reparse [OF assms(3,4)] by simp
  then have "stack_handle_ipv4_frame ?f rnd now s = (t, Inr ())"
    using assms(5-7)
    by (simp add: stack_handle_ipv4_frame_def run_simps stack_reassemble_def)
  then show ?thesis
    unfolding stack_handle_frame_def
    by (intro catch_ok) (simp add: run_simps f eth_accepted_by_def ethertypes_differ)
qed

lemma host_packet_plain [simp]: "\<not> ip_is_fragmented (host_packet s dst protocol data)"
  by (simp add: ip_is_fragmented_def host_packet_def)


section \<open>UDP from end to end\<close>

text \<open>A datagram sent with \<open>udp_send\<close> to a host whose address is resolved leaves in one frame,
  and the receiving stack hands exactly its payload, the sender's address and the sender's port to the
  handler bound to the port, once, and sends nothing.\<close>

lemma udp_delivery:
  assumes "host a" and "host b" and "resolves a (st_ip b) now (st_mac b)" and "st_ip b \<noteq> IP_BROADCAST"
    and "map_of (st_udp_handlers b) rport = Some h"
    and "0 < port" and "port \<le> MAX_PORT" and "0 \<le> rport" and "rport \<le> MAX_PORT" and "length payload \<le> 65507"
  shows "\<exists>frame a' b'. stack_udp_send payload (IpBytes (st_ip b)) rport port now a = (a', Inr True)
     \<and> st_frames a' = st_frames a @ [frame]
     \<and> stack_handle_frame frame rnd later b = (b', Inr ())
     \<and> st_upcalls b' = st_upcalls b @ [(h, payload, st_ip a, port)] \<and> st_frames b' = st_frames b"
proof -
  let ?u = "\<lparr>udp_src_port = port, udp_dst_port = rport, udp_payload = payload, udp_checksum = 0\<rparr>"
  have lens: "length (st_ip a) = 4" "length (st_ip b) = 4" "length (st_mac b) = 6" "length (st_mac a) = 6"
    using assms(1,2) by (simp_all add: host_def)
  have u: "udp_carried ?u"
    using assms by (simp add: udp_carried_def udp_length_def UDP_HEADER_LEN_def)
  obtain c where d: "UDPSegment_to_bytes ?u (Some (st_ip a)) (Some (st_ip b)) True
      = Inr (udp_front ?u @ be16 c @ payload)"
    using udp_to_bytes_layout [OF u lens(1,2)] by auto
  define data where "data = udp_front ?u @ be16 c @ payload"
  note d = d [folded data_def]
  have size: "length data \<le> 65515" using assms(10) by (simp add: data_def)
  let ?a = "tally sx_udp_out_update a"
  obtain st n raw where send: "stack_send_payload (st_ip b) PROTO_UDP (Inr data) now ?a
      = (?a\<lparr>st_next_id := n, st_stats := st,
           st_frames := st_frames ?a @ [link_frame (st_mac b) (st_mac ?a) ETHERTYPE_IPV4 raw]\<rparr>, Inr True)"
    and raw: "IPv4Packet_to_bytes (host_packet ?a (st_ip b) PROTO_UDP data) = Inr raw"
    by (rule send_payload_resolved [of ?a "st_ip b" now "st_mac b" PROTO_UDP data])
      (use assms lens size host_addressed in \<open>simp_all add: PROTO_UDP_def\<close>)
  let ?frame = "link_frame (st_mac b) (st_mac a) ETHERTYPE_IPV4 raw"
  let ?p = "host_packet a (st_ip b) PROTO_UDP data"
  have out: "stack_udp_send payload (IpBytes (st_ip b)) rport port now a
      = (?a\<lparr>st_next_id := n, st_stats := st, st_frames := st_frames a @ [?frame]\<rparr>, Inr True)"
    using send assms(6) by (simp add: stack_udp_send_def run_simps d)
  have p: "ip_carried ?p" "ip_src ?p = st_ip a" "ip_dst ?p = st_ip b" "ip_payload ?p = data" "ip_protocol ?p = PROTO_UDP"
    using host_packet_carried [OF host_addressed [OF assms(1)] lens(2) _ _ size, of PROTO_UDP]
    by (simp_all add: host_packet_def PROTO_UDP_def)
  obtain c' where parse: "UDPSegment_parse data (st_ip a) (st_ip b) = Inr (?u\<lparr>udp_checksum := c'\<rparr>)"
    using udp_reparse [OF u lens(1,2) d, of "[]"] by auto
  define b' where "b' = (tally sx_udp_in_update (tally sx_ipv4_in_update b))
      \<lparr>st_upcalls := st_upcalls b @ [(h, payload, st_ip a, port)]\<rparr>"
  have "stack_handle_udp ?p (tally sx_ipv4_in_update b) = (b', Inr ())"
    using assms(5) by (simp add: stack_handle_udp_def run_simps p parse b'_def)
  then have "stack_dispatch_ipv4 ?p rnd later (tally sx_ipv4_in_update b) = (b', Inr ())"
    unfolding stack_dispatch_ipv4_def
    by (intro catch_ok) (simp add: p(5) protocols_differ)
  then have "stack_handle_frame ?frame rnd later b = (b', Inr ())"
    by (intro receive_datagram [OF host_addressed [OF assms(2)] lens(4) p(1)]) (use raw p in simp_all)
  with out show ?thesis by (auto simp: b'_def)
qed

text \<open>Two stacks on one wire; the first has seen an ARP packet of the second.\<close>

definition sample_peer :: stack where
  "sample_peer = stack_udp_bind 53 7 (projr (Stack_init [2, 0, 0, 0, 0, 2] (IpBytes [10, 0, 0, 2])
     (MaskBytes [255, 255, 255, 0]) None False 32 65535))"

definition sample_arp_frame :: bytes where
  "sample_arp_frame = link_frame BROADCAST_MAC [2, 0, 0, 0, 0, 2] ETHERTYPE_ARP
     ([0, 1, 8, 0, 6, 4, 0, 1] @ [2, 0, 0, 0, 0, 2] @ [10, 0, 0, 2] @ [0, 0, 0, 0, 0, 0] @ [10, 0, 0, 9])"

definition sample_sender :: stack where
  "sample_sender = fst (stack_handle_frame sample_arp_frame 0 5 sample_stack)"

lemma sample_hosts: "host sample_sender" "host sample_peer"
proof -
  have "stack_reachable sample_sender"
    unfolding sample_sender_def by (rule stack_reachable.step [OF sample_stack_reachable stack_step.on_frame])
  moreover have "length (st_mac sample_sender) = 6" "length (st_ip sample_sender) = 4" by code_simp+
  ultimately show "host sample_sender" by (simp add: host_def)
  have "Stack_init [2, 0, 0, 0, 0, 2] (IpBytes [10, 0, 0, 2]) (MaskBytes [255, 255, 255, 0]) None False 32 65535
      = Inr (projr (Stack_init [2, 0, 0, 0, 0, 2] (IpBytes [10, 0, 0, 2]) (MaskBytes [255, 255, 255, 0]) None False 32 65535))"
    by (simp add: Stack_init_def)
  then have "stack_reachable sample_peer"
    unfolding sample_peer_def by (intro stack_reachable.step [OF stack_reachable.init stack_step.udp_bind]) simp_all
  moreover have "length (st_mac sample_peer) = 6" "length (st_ip sample_peer) = 4" by code_simp+
  ultimately show "host sample_peer" by (simp add: host_def)
qed

lemma sample_resolves: "resolves sample_sender (st_ip sample_peer) 6 (st_mac sample_peer)"
  by code_simp

section \<open>Pings and closed ports\<close>

text \<open>What a receiver makes of a frame.\<close>

definition frame_datagram :: "bytes \<Rightarrow> py_error + ipv4_packet" where
  "frame_datagram raw = sum_bind (EthernetFrame_parse raw) (\<lambda>f. IPv4Packet_parse (eth_payload f))"

lemma link_datagram:
  assumes "length mac = 6" and "length src = 6" and "ip_carried q" and "IPv4Packet_to_bytes q = Inr b"
  shows "frame_datagram (link_frame mac src ETHERTYPE_IPV4 b) = Inr q"
  using ip_reparse [OF assms(3,4)] link_frame_parse [OF assms(1,2), of ETHERTYPE_IPV4 b] by (simp add: frame_datagram_def)

text \<open>Answering from a handler: one frame leaves, with the data in a datagram of this host.\<close>

lemma answer:
  assumes "addressed s" and "resolves s dst now mac" and "dst \<noteq> IP_BROADCAST" and "length mac = 6"
    and "length dst = 4" and "0 \<le> protocol" and "protocol < 2 ^ 8" and "length data \<le> 65515"
  obtains t frame q where "stack_send_payload dst protocol (Inr data) now s = (t, Inr True)"
    and "st_frames t = st_frames s @ [frame]" and "frame_datagram frame = Inr q" and "take 6 frame = mac"
    and "ip_src q = st_ip s" and "ip_dst q = dst" and "ip_protocol q = protocol" and "ip_payload q = data"
proof -
  let ?q = "host_packet s dst protocol data"
  obtain st n b where send: "stack_send_payload dst protocol (Inr data) now s
      = (s\<lparr>st_next_id := n, st_stats := st, st_frames := st_frames s @ [link_frame mac (st_mac s) ETHERTYPE_IPV4 b]\<rparr>, Inr True)"
    and b: "IPv4Packet_to_bytes ?q = Inr b"
    by (rule send_payload_resolved [OF assms])
  have "frame_datagram (link_frame mac (st_mac s) ETHERTYPE_IPV4 b) = Inr ?q"
    using assms b by (intro link_datagram host_packet_carried) (simp_all add: addressed_def)
  moreover have "take 6 (link_frame mac (st_mac s) ETHERTYPE_IPV4 b) = mac"
    using assms(4) by (simp add: link_frame_def)
  ultimately show thesis
    using that [OF send] by (simp add: host_packet_def)
qed

text \<open>C19. A ping is answered: an echo request for this host makes it send exactly one frame, to the
  resolved address of the sender, which decodes to an echo reply with the identifier, the sequence number
  and the data of the request.\<close>

theorem ping_answered:
  assumes "host s" and "length src_mac = 6" and "ip_carried p" and "IPv4Packet_to_bytes p = Inr b"
    and "\<not> ip_is_fragmented p" and "ip_dst p = st_ip s" and "ip_protocol p = PROTO_ICMP"
    and "ICMPMessage_parse (ip_payload p) = Inr m" and "icmp_type m = ECHO_REQUEST" and "EchoMessage_from_icmp m = Inr e"
    and "resolves s (ip_src p) now mac" and "length mac = 6" and "ip_src p \<noteq> IP_BROADCAST"
  shows "\<exists>t frame q r. stack_handle_frame (link_frame (st_mac s) src_mac ETHERTYPE_IPV4 b) rnd now s = (t, Inr ())
     \<and> st_frames t = st_frames s @ [frame] \<and> take 6 frame = mac \<and> frame_datagram frame = Inr q
     \<and> ip_src q = st_ip s \<and> ip_dst q = ip_src p \<and> ip_protocol q = PROTO_ICMP
     \<and> ICMPMessage_parse (ip_payload q) = Inr r \<and> icmp_type r = ECHO_REPLY \<and> EchoMessage_from_icmp r = Inr e"
proof -
  have e: "e\<lparr>echo_identifier := echo_identifier e mod 65536, echo_sequence := echo_sequence e mod 65536\<rparr> = e"
    using assms(10) by (auto simp: EchoMessage_from_icmp_def split: if_splits)
  then obtain r where r: "EchoMessage_to_icmp e ECHO_REPLY = Inr r" "icmp_type r = ECHO_REPLY" "EchoMessage_from_icmp r = Inr e"
    using echo_roundtrip [of e ECHO_REPLY] by auto
  have r_carried: "icmp_carried r" and r_size: "length (icmp_body r) = length (icmp_body m)"
    using r(1) assms(10) by (auto simp: EchoMessage_to_icmp_def EchoMessage_from_icmp_def icmp_carried_def mask_16 ECHO_REPLY_def
        split: if_splits)
  define data where "data = [word_of_int (icmp_type r), word_of_int (icmp_code r)]
     @ be16 (checksum ([word_of_int (icmp_type r), word_of_int (icmp_code r)] @ [0, 0] @ icmp_body r)) @ icmp_body r"
  have data: "ICMPMessage_to_bytes r = Inr data" using icmp_to_bytes_eq [OF r_carried] by (simp add: data_def)
  have "length (ip_payload p) \<le> 65515"
    using assms(3) ip_carried_ranges(4) [OF assms(3)] by (simp add: ip_carried_def ip_total_length_def MAX_PACKET_def)
  then have size: "length data \<le> 65515"
    using r_size assms(8) by (auto simp: data_def ICMPMessage_parse_def ICMP_HEADER_LEN_def split: if_splits)
  have src: "length (ip_src p) = 4" using assms(3) by (simp add: ip_carried_def)
  let ?s = "tally sx_icmp_echo_replied_update (tally sx_ipv4_in_update s)"
  obtain t frame q where t: "stack_send_payload (ip_src p) PROTO_ICMP (Inr data) now ?s = (t, Inr True)"
    and out: "st_frames t = st_frames ?s @ [frame]" "frame_datagram frame = Inr q" "take 6 frame = mac"
    "ip_src q = st_ip ?s" "ip_dst q = ip_src p" "ip_protocol q = PROTO_ICMP" "ip_payload q = data"
    by (rule answer [of ?s "ip_src p" now mac PROTO_ICMP data])
      (use assms host_addressed src size in \<open>simp_all add: PROTO_ICMP_def\<close>)
  have "stack_handle_icmp p now (tally sx_ipv4_in_update s) = (t, Inr ())"
    using t assms(8-10) r(1) data by (simp add: stack_handle_icmp_def run_simps)
  then have "stack_dispatch_ipv4 p rnd now (tally sx_ipv4_in_update s) = (t, Inr ())"
    unfolding stack_dispatch_ipv4_def by (intro catch_ok) (simp add: assms(7))
  then have "stack_handle_frame (link_frame (st_mac s) src_mac ETHERTYPE_IPV4 b) rnd now s = (t, Inr ())"
    by (intro receive_datagram [OF host_addressed [OF assms(1)] assms(2-6)])
  moreover have "ICMPMessage_parse data = Inr r" by (rule icmp_reparse [OF r_carried data])
  ultimately show ?thesis using out r by auto
qed

text \<open>C20. A segment for a port nobody listens on is answered with one reset, which the sender can
  match to what it sent: it carries the ports exchanged, the acknowledged number as its sequence number
  if the segment acknowledged one, and otherwise acknowledges all the segment occupied. A reset is never
  answered.\<close>

theorem closed_port_reset:
  assumes "host s" and "length src_mac = 6" and "ip_carried p" and "IPv4Packet_to_bytes p = Inr b"
    and "\<not> ip_is_fragmented p" and "ip_dst p = st_ip s" and "ip_protocol p = PROTO_TCP"
    and "TCPSegment_parse (ip_payload p) (Some (ip_src p)) (Some (ip_dst p)) True = Inr seg"
    and "map_of (st_connections s) (ip_dst p, seg_dst_port seg, ip_src p, seg_src_port seg) = None"
    and "map_of (st_listeners s) (seg_dst_port seg) = None"
    and "resolves s (ip_src p) now mac" and "length mac = 6" and "ip_src p \<noteq> IP_BROADCAST"
  shows "\<exists>t. stack_handle_frame (link_frame (st_mac s) src_mac ETHERTYPE_IPV4 b) rnd now s = (t, Inr ())
     \<and> (is_rst seg \<longrightarrow> st_frames t = st_frames s)
     \<and> (\<not> is_rst seg \<longrightarrow> (\<exists>frame q r. st_frames t = st_frames s @ [frame] \<and> take 6 frame = mac
          \<and> frame_datagram frame = Inr q \<and> ip_src q = st_ip s \<and> ip_dst q = ip_src p
          \<and> TCPSegment_parse (ip_payload q) (Some (st_ip s)) (Some (ip_src p)) True = Inr r
          \<and> seg_src_port r = seg_dst_port seg \<and> seg_dst_port r = seg_src_port seg \<and> is_rst r \<and> seg_payload r = []
          \<and> (if is_ack seg then seg_seq r = seg_ack seg
             else is_ack r \<and> seg_seq r = 0 \<and> seg_ack r = seq_add (seg_seq seg) (seg_seq_len seg))))"
proof -
  let ?s = "tally sx_tcp_in_update (tally sx_ipv4_in_update s)"
  have src: "length (ip_src p) = 4" and ip: "length (st_ip s) = 4" using assms(1,3) by (simp_all add: ip_carried_def host_def)
  have tcp: "stack_handle_tcp p rnd now (tally sx_ipv4_in_update s) = stack_send_reset p seg now ?s"
    using assms(8-10) by (simp add: stack_handle_tcp_def run_simps)
  have received: "stack_handle_frame (link_frame (st_mac s) src_mac ETHERTYPE_IPV4 b) rnd now s = (t, Inr ())"
    if "stack_send_reset p seg now ?s = (t, Inr ())" for t
  proof (rule receive_datagram [OF host_addressed [OF assms(1)] assms(2-6)])
    show "stack_dispatch_ipv4 p rnd now (tally sx_ipv4_in_update s) = (t, Inr ())"
      unfolding stack_dispatch_ipv4_def by (intro catch_ok) (simp add: assms(7) protocols_differ tcp that)
  qed
  show ?thesis
  proof (cases "is_rst seg")
    case True
    then have "stack_send_reset p seg now ?s = (?s, Inr ())" by (simp add: stack_send_reset_def)
    from received [OF this] True show ?thesis by simp
  next
    case False
    obtain n where n: "seg = decode_segment (ip_payload p) n" using parse_result [OF assms(8)] by blast
    have ranged: "segment_ranged seg" unfolding n by (rule decode_segment_ranged)
    have ports: "0 \<le> seg_src_port seg" "seg_src_port seg \<le> 0xFFFF" "0 \<le> seg_dst_port seg" "seg_dst_port seg \<le> 0xFFFF"
      by (simp_all add: n decode_segment_def)
    define reset where "reset = \<lparr>seg_src_port = seg_dst_port seg, seg_dst_port = seg_src_port seg,
              seg_seq = (if is_ack seg then seg_ack seg else 0),
              seg_ack = (if \<not> is_ack seg then seq_add (seg_seq seg) (seg_seq_len seg) else 0),
              seg_flags = FLAG_RST OR (if is_ack seg then 0 else FLAG_ACK), seg_window = 0,
              seg_payload = [], seg_options = no_options, seg_urgent_pointer = 0, seg_checksum = 0\<rparr>"
    have flags: "FLAG_RST OR (if is_ack seg then 0 else FLAG_ACK) = (if is_ack seg then 4 else 20)"
      by (simp add: FLAG_RST_def FLAG_ACK_def)
    have "segment_ranged reset"
      using ranged valid_seq_add [of "seg_seq seg" "seg_seq_len seg", unfolded valid_seq_def]
      by (simp add: segment_ranged_def reset_def flags in_u32_def valid_seq_def no_options_ranged)
    moreover obtain raw where raw: "TCPSegment_to_bytes reset (Some (st_ip s)) (Some (ip_src p)) True = Inr raw" "length raw = 20"
      using to_bytes_total [of reset "[]" "st_ip s" "ip_src p"] ports by (auto simp: reset_def no_options_bytes)
    ultimately obtain c where parse: "TCPSegment_parse raw (Some (st_ip s)) (Some (ip_src p)) True
        = Inr (reset\<lparr>seg_options := with_last_sack_block (seg_options reset), seg_checksum := c\<rparr>)"
      using segment_reparse [OF raw(1)] src ip by auto
    obtain t frame q where t: "stack_send_payload (ip_src p) PROTO_TCP (Inr raw) now ?s = (t, Inr True)"
      and out: "st_frames t = st_frames ?s @ [frame]" "frame_datagram frame = Inr q" "take 6 frame = mac"
      "ip_src q = st_ip ?s" "ip_dst q = ip_src p" "ip_protocol q = PROTO_TCP" "ip_payload q = raw"
      by (rule answer [of ?s "ip_src p" now mac PROTO_TCP raw])
        (use assms host_addressed src raw in \<open>simp_all add: PROTO_TCP_def\<close>)
    have "stack_send_reset p seg now ?s = (t, Inr ())"
      using t raw False by (simp add: stack_send_reset_def reset_def [symmetric] run_simps)
    note in_frame = received [OF this]
    let ?r = "reset\<lparr>seg_options := with_last_sack_block (seg_options reset), seg_checksum := c\<rparr>"
    have "is_rst ?r" "\<not> is_ack seg \<Longrightarrow> is_ack ?r"
      by (simp_all add: is_rst_def is_ack_def reset_def flags FLAG_RST_def FLAG_ACK_def)
    with in_frame out parse False show ?thesis by (auto simp: reset_def)
  qed
qed

section \<open>Address resolution\<close>

lemma arp_to_bytes_built:
  assumes "length m1 = 6" and "length m2 = 6" and "length i1 = 4" and "length i2 = 4" and "0 \<le> op" and "op < 2 ^ 16"
  shows "\<exists>b. ARPPacket_to_bytes (ARPPacket op m1 i1 m2 i2) = Inr b \<and> (\<forall>pad. ARPPacket_parse (b @ pad) = Inr (ARPPacket op m1 i1 m2 i2))"
proof -
  have c: "arp_carried (ARPPacket op m1 i1 m2 i2)"
    using assms by (simp add: arp_carried_def ARPPacket_def HARDWARE_ETHERNET_def ETHERTYPE_IPV4_def)
  then obtain b where "ARPPacket_to_bytes (ARPPacket op m1 i1 m2 i2) = Inr b" using arp_to_bytes_eq by blast
  with arp_reparse [OF c] show ?thesis by blast
qed

text \<open>An ARP packet addressed to this interface, or to all, reaches the ARP handler's decisions.\<close>

lemma receive_arp:
  assumes "addressed s" and "length src_mac = 6" and "dst = st_mac s \<or> dst = BROADCAST_MAC" and "length dst = 6"
    and "\<And>pad. ARPPacket_parse (b @ pad) = Inr p"
    and "stack_handle_arp \<lparr>eth_dst = dst, eth_src = src_mac, eth_ethertype = ETHERTYPE_ARP,
           eth_payload = b @ replicate (46 - length b) 0\<rparr> now s = (t, Inr ())"
  shows "stack_handle_frame (link_frame dst src_mac ETHERTYPE_ARP b) rnd now s = (t, Inr ())"
proof -
  have f: "EthernetFrame_parse (link_frame dst src_mac ETHERTYPE_ARP b) = Inr \<lparr>eth_dst = dst, eth_src = src_mac,
      eth_ethertype = ETHERTYPE_ARP, eth_payload = b @ replicate (46 - length b) 0\<rparr>"
    using assms(2,4) by (intro link_frame_parse) simp_all
  show ?thesis
    unfolding stack_handle_frame_def
    using assms(3,6) by (intro catch_ok) (auto simp: run_simps f eth_accepted_by_def eth_is_broadcast_def)
qed

lemma store_learns:
  assumes "stack_inv s"
  obtains c where "ARPCache_store (st_arp_cache s) ip mac now = Inr c" and "map_of (ac_entries c) ip = Some (mac, now + 300)"
  using store_total [of "st_arp_cache s" ip mac now] assms by (auto simp: stack_inv_def cache_bounded_def)

lemma learned_lookup:
  "map_of (ac_entries c) ip = Some (mac, expires) \<Longrightarrow> now < expires \<Longrightarrow> snd (ARPCache_lookup c ip now) = Some mac"
  by (auto simp: ARPCache_lookup_def)

lemma queue_emitted:
  assumes "length mac = 6" and "length (st_mac s) = 6" and "\<forall>x \<in> set queue. \<exists>b. IPv4Packet_to_bytes x = Inr b"
  shows "\<exists>st. act_each queue (\<lambda>p. act_bind (act_lift (IPv4Packet_to_bytes p)) (stack_emit mac ETHERTYPE_IPV4)) s
    = (s\<lparr>st_stats := st, st_frames := st_frames s
         @ map (\<lambda>x. link_frame mac (st_mac s) ETHERTYPE_IPV4 (projr (IPv4Packet_to_bytes x))) queue\<rparr>, Inr ())"
  using assms
proof (induction queue arbitrary: s)
  case Nil
  show ?case by (auto simp: run_simps intro: exI [of _ "st_stats s"])
next
  case (Cons x queue)
  obtain b where b: "IPv4Packet_to_bytes x = Inr b" using Cons.prems(3) by auto
  obtain st where e: "stack_emit mac ETHERTYPE_IPV4 b s
      = (s\<lparr>st_stats := st, st_frames := st_frames s @ [link_frame mac (st_mac s) ETHERTYPE_IPV4 b]\<rparr>, Inr ())"
    using emit_frame [OF Cons.prems(1,2), of ETHERTYPE_IPV4 b] by auto
  obtain st' where "act_each queue (\<lambda>p. act_bind (act_lift (IPv4Packet_to_bytes p)) (stack_emit mac ETHERTYPE_IPV4))
        (s\<lparr>st_stats := st, st_frames := st_frames s @ [link_frame mac (st_mac s) ETHERTYPE_IPV4 b]\<rparr>)
      = (s\<lparr>st_stats := st', st_frames := (st_frames s @ [link_frame mac (st_mac s) ETHERTYPE_IPV4 b])
         @ map (\<lambda>x. link_frame mac (st_mac s) ETHERTYPE_IPV4 (projr (IPv4Packet_to_bytes x))) queue\<rparr>, Inr ())"
    using Cons.IH [of "s\<lparr>st_stats := st, st_frames := st_frames s @ [link_frame mac (st_mac s) ETHERTYPE_IPV4 b]\<rparr>"] Cons.prems
    by auto
  moreover have "act_bind (act_lift (IPv4Packet_to_bytes x)) (stack_emit mac ETHERTYPE_IPV4) s
      = (s\<lparr>st_stats := st, st_frames := st_frames s @ [link_frame mac (st_mac s) ETHERTYPE_IPV4 b]\<rparr>, Inr ())"
    by (simp add: run_simps b e)
  ultimately show ?case
    by (auto simp: then_ok b)
qed

text \<open>C17. Address resolution works between two stacks: a packet for a neighbour whose address is
  unknown is kept and one request is broadcast; the neighbour answers it with one reply and has learned the
  sender's address; and the reply makes the first stack send every packet that waited, the earlier ones first
  and this one last, to the address in it, keep none, and know the address for the next 300 seconds.\<close>

theorem arp_exchange:
  assumes "host a" and "host b" and "ip_dst p = st_ip b" and "st_ip b \<noteq> IP_BROADCAST"
    and "same_subnet (st_ip b) (st_ip a) (st_netmask a) = Inr True"
    and "snd (ARPCache_lookup (st_arp_cache a) (st_ip b) now) = None"
    and "waiting = (case map_of (st_arp_pending a) (st_ip b) of None \<Rightarrow> [] | Some q \<Rightarrow> q)"
    and "len waiting < st_max_arp_pending a" and "\<forall>x \<in> set (waiting @ [p]). ip_carried x"
  shows "\<exists>a1 request b1 reply a2.
     stack_send_ipv4 p now a = (a1, Inr False) \<and> st_frames a1 = st_frames a @ [request]
   \<and> stack_handle_frame request rnd t1 b = (b1, Inr ()) \<and> st_frames b1 = st_frames b @ [reply]
   \<and> snd (ARPCache_lookup (st_arp_cache b1) (st_ip a) t1) = Some (st_mac a)
   \<and> stack_handle_frame reply rnd t2 a1 = (a2, Inr ())
   \<and> st_frames a2 = st_frames a1
        @ map (\<lambda>x. link_frame (st_mac b) (st_mac a) ETHERTYPE_IPV4 (projr (IPv4Packet_to_bytes x))) (waiting @ [p])
   \<and> map_of (st_arp_pending a2) (st_ip b) = None
   \<and> (\<forall>t. t < t2 + 300 \<longrightarrow> snd (ARPCache_lookup (st_arp_cache a2) (st_ip b) t) = Some (st_mac b))"
proof -
  note lens = host_addressed [OF assms(1), unfolded addressed_def] host_addressed [OF assms(2), unfolded addressed_def]
  define c0 where "c0 = fst (ARPCache_lookup (st_arp_cache a) (st_ip b) now)"
  obtain req where req: "ARPPacket_to_bytes (ARPPacket ARP_REQUEST (st_mac a) (st_ip a) (replicate 6 0) (st_ip b)) = Inr req"
    and req_parse: "\<And>pad. ARPPacket_parse (req @ pad) = Inr (ARPPacket ARP_REQUEST (st_mac a) (st_ip a) (replicate 6 0) (st_ip b))"
    using arp_to_bytes_built [of "st_mac a" "replicate 6 0" "st_ip a" "st_ip b" ARP_REQUEST] lens by (auto simp: ARP_REQUEST_def)
  obtain rep where rep: "ARPPacket_to_bytes (ARPPacket ARP_REPLY (st_mac b) (st_ip b) (st_mac a) (st_ip a)) = Inr rep"
    and rep_parse: "\<And>pad. ARPPacket_parse (rep @ pad) = Inr (ARPPacket ARP_REPLY (st_mac b) (st_ip b) (st_mac a) (st_ip a))"
    using arp_to_bytes_built [of "st_mac b" "st_mac a" "st_ip b" "st_ip a" ARP_REPLY] lens by (auto simp: ARP_REPLY_def)
  let ?request = "link_frame BROADCAST_MAC (st_mac a) ETHERTYPE_ARP req"
  let ?reply = "link_frame (st_mac a) (st_mac b) ETHERTYPE_ARP rep"
  let ?queued = "AList.update (st_ip b) (waiting @ [p]) (AList.update (st_ip b) waiting (st_arp_pending a))"
  have bmac: "length BROADCAST_MAC = 6" by (simp add: BROADCAST_MAC_def)
  have queued: "map_of ?queued (st_ip b) = Some (waiting @ [p])" by (simp add: update_conv')
  let ?a0 = "a\<lparr>st_arp_cache := c0, st_arp_pending := ?queued\<rparr>"
  obtain st where emit: "stack_emit BROADCAST_MAC ETHERTYPE_ARP req (tally sx_arp_requests_sent_update ?a0)
      = ((tally sx_arp_requests_sent_update ?a0)\<lparr>st_stats := st, st_frames := st_frames a @ [?request]\<rparr>, Inr ())"
    using emit_frame [of BROADCAST_MAC "tally sx_arp_requests_sent_update ?a0" ETHERTYPE_ARP req] lens bmac by auto
  define a1 where "a1 = ?a0\<lparr>st_stats := st, st_frames := st_frames a @ [?request]\<rparr>"
  have a1: "stack_send_arp_request (st_ip b) ?a0 = (a1, Inr ())"
    using emit by (simp add: stack_send_arp_request_def run_simps req a1_def tally_def)
  have "stack_arp_lookup (st_ip b) now a = (a\<lparr>st_arp_cache := c0\<rparr>, Inr None)"
    using assms(6) by (cases "ARPCache_lookup (st_arp_cache a) (st_ip b) now") (simp add: stack_arp_lookup_def c0_def)
  moreover have "stack_park_pending (st_ip b) p (a\<lparr>st_arp_cache := c0\<rparr>) = (a1, Inr ())"
    using a1 assms(7,8) by (simp add: stack_park_pending_def Let_def)
  ultimately have send: "stack_send_ipv4 p now a = (a1, Inr False)"
    using assms(3-5) by (simp add: stack_send_ipv4_def run_simps stack_next_hop_def)
  have inv_b: "stack_inv b" using assms(2) stack_reachable_inv by (simp add: host_def)
  obtain cb where cb: "ARPCache_store (st_arp_cache b) (st_ip a) (st_mac a) t1 = Inr cb"
    and known_b: "map_of (ac_entries cb) (st_ip a) = Some (st_mac a, t1 + 300)"
    by (rule store_learns [OF inv_b])
  let ?b0 = "b\<lparr>st_arp_cache := cb\<rparr>"
  obtain st' where emit': "stack_emit (st_mac a) ETHERTYPE_ARP rep (tally sx_arp_replies_sent_update ?b0)
      = ((tally sx_arp_replies_sent_update ?b0)\<lparr>st_stats := st', st_frames := st_frames b @ [?reply]\<rparr>, Inr ())"
    using emit_frame [of "st_mac a" "tally sx_arp_replies_sent_update ?b0" ETHERTYPE_ARP rep] lens by auto
  define b1 where "b1 = (tally sx_arp_replies_sent_update ?b0)\<lparr>st_stats := st', st_frames := st_frames b @ [?reply]\<rparr>"
  have b1: "stack_handle_frame ?request rnd t1 b = (b1, Inr ())"
    by (rule receive_arp [OF host_addressed [OF assms(2)] _ _ bmac req_parse])
      (use lens cb rep emit' in \<open>simp_all add: stack_handle_arp_def run_simps req_parse ARPPacket_def arp_is_request_def b1_def\<close>)
  have inv: "stack_inv a1"
    using keeps_D [OF keeps_send_ipv4 [of a p now]] send assms(1) stack_reachable_inv by (auto simp: host_def)
  obtain ca where ca: "ARPCache_store (st_arp_cache a1) (st_ip b) (st_mac b) t2 = Inr ca"
    and known_a: "map_of (ac_entries ca) (st_ip b) = Some (st_mac b, t2 + 300)"
    by (rule store_learns [OF inv])
  let ?a2 = "a1\<lparr>st_arp_cache := ca, st_arp_pending := AList.delete (st_ip b) ?queued\<rparr>"
  have "\<forall>x \<in> set (waiting @ [p]). \<exists>b. IPv4Packet_to_bytes x = Inr b"
    using assms(9) ip_to_bytes_layout by blast
  then obtain st2 where flush: "act_each (waiting @ [p]) (\<lambda>p. act_bind (act_lift (IPv4Packet_to_bytes p)) (stack_emit (st_mac b) ETHERTYPE_IPV4)) ?a2
      = (?a2\<lparr>st_stats := st2, st_frames := st_frames a1
         @ map (\<lambda>x. link_frame (st_mac b) (st_mac a) ETHERTYPE_IPV4 (projr (IPv4Packet_to_bytes x))) (waiting @ [p])\<rparr>, Inr ())"
    using queue_emitted [of "st_mac b" ?a2 "waiting @ [p]"] lens by (auto simp: a1_def)
  define a2 where "a2 = ?a2\<lparr>st_stats := st2, st_frames := st_frames a1
         @ map (\<lambda>x. link_frame (st_mac b) (st_mac a) ETHERTYPE_IPV4 (projr (IPv4Packet_to_bytes x))) (waiting @ [p])\<rparr>"
  have "stack_flush_pending (st_ip b) (st_mac b) (a1\<lparr>st_arp_cache := ca\<rparr>) = (a2, Inr ())"
    using flush queued by (simp add: stack_flush_pending_def a2_def a1_def Let_def)
  moreover have "addressed a1" using lens by (simp add: addressed_def a1_def)
  ultimately have a2: "stack_handle_frame ?reply rnd t2 a1 = (a2, Inr ())"
    by (intro receive_arp [OF _ _ _ _ rep_parse])
      (use lens ca in \<open>simp_all add: stack_handle_arp_def run_simps rep_parse ARPPacket_def arp_is_request_def arp_is_reply_def
         ARP_REQUEST_def ARP_REPLY_def, simp_all add: a1_def\<close>)
  have "snd (ARPCache_lookup (st_arp_cache b1) (st_ip a) t1) = Some (st_mac a)"
    using learned_lookup [OF known_b, of t1] by (simp add: b1_def)
  moreover have "t < t2 + 300 \<Longrightarrow> snd (ARPCache_lookup (st_arp_cache a2) (st_ip b) t) = Some (st_mac b)" for t
    using learned_lookup [OF known_a] by (simp add: a2_def)
  moreover have "map_of (st_arp_pending a2) (st_ip b) = None" by (simp add: a2_def AList.delete_conv')
  moreover have "st_frames a1 = st_frames a @ [?request]" "st_frames b1 = st_frames b @ [?reply]"
    by (simp_all add: a1_def b1_def)
  ultimately show ?thesis
    using send b1 a2 by (intro exI [of _ a1] exI [of _ ?request] exI [of _ b1] exI [of _ ?reply] exI [of _ a2]) (simp add: a2_def)
qed

text \<open>The packet of the witnesses, from the second stack to the first.\<close>

definition sample_ping :: ipv4_packet where
  "sample_ping = \<lparr>ip_src = [10, 0, 0, 2], ip_dst = [10, 0, 0, 1], ip_protocol = PROTO_ICMP,
     ip_payload = projr (ICMPMessage_to_bytes (projr (EchoMessage_to_icmp
       \<lparr>echo_identifier = 77, echo_sequence = 3, echo_data = [1, 2, 3]\<rparr> ECHO_REQUEST))),
     ip_ttl = 64, ip_identification = 9, ip_flags = 0, ip_fragment_offset = 0, ip_dscp = 0, ip_options = []\<rparr>"

theorem ping_answered_witness:
  "\<exists>m e t frame q r. ICMPMessage_parse (ip_payload sample_ping) = Inr m \<and> EchoMessage_from_icmp m = Inr e
     \<and> stack_handle_frame (link_frame [2, 0, 0, 0, 0, 1] [2, 0, 0, 0, 0, 2] ETHERTYPE_IPV4 (projr (IPv4Packet_to_bytes sample_ping)))
         0 6 sample_sender = (t, Inr ())
     \<and> st_frames t = st_frames sample_sender @ [frame] \<and> frame_datagram frame = Inr q
     \<and> ICMPMessage_parse (ip_payload q) = Inr r \<and> icmp_type r = ECHO_REPLY \<and> EchoMessage_from_icmp r = Inr e"
proof -
  let ?m = "projr (ICMPMessage_parse (ip_payload sample_ping))"
  have c: "ip_carried sample_ping" by code_simp
  then obtain b where b: "IPv4Packet_to_bytes sample_ping = Inr b" using ip_to_bytes_layout by blast
  have "\<not> ip_is_fragmented sample_ping \<and> ip_dst sample_ping = st_ip sample_sender \<and> ip_protocol sample_ping = PROTO_ICMP
      \<and> isl (ICMPMessage_parse (ip_payload sample_ping)) = False \<and> icmp_type ?m = ECHO_REQUEST
      \<and> isl (EchoMessage_from_icmp ?m) = False \<and> ip_src sample_ping \<noteq> IP_BROADCAST
      \<and> ip_src sample_ping = st_ip sample_peer \<and> st_mac sample_sender = [2, 0, 0, 0, 0, 1] \<and> length (st_mac sample_peer) = 6"
    by code_simp
  then have h: "\<not> ip_is_fragmented sample_ping" "ip_dst sample_ping = st_ip sample_sender" "ip_protocol sample_ping = PROTO_ICMP"
    "ICMPMessage_parse (ip_payload sample_ping) = Inr ?m" "icmp_type ?m = ECHO_REQUEST"
    "EchoMessage_from_icmp ?m = Inr (projr (EchoMessage_from_icmp ?m))" "ip_src sample_ping \<noteq> IP_BROADCAST"
    "ip_src sample_ping = st_ip sample_peer" "st_mac sample_sender = [2, 0, 0, 0, 0, 1]" "length (st_mac sample_peer) = 6"
    by auto
  have "resolves sample_sender (ip_src sample_ping) 6 (st_mac sample_peer)" using sample_resolves h(8) by simp
  from ping_answered [OF sample_hosts(1) _ c b h(1-6) this h(10,7), of "[2, 0, 0, 0, 0, 2]" 0]
  show ?thesis using h(4,6) unfolding h(9) b by fastforce
qed

definition sample_syn_segment :: tcp_segment where
  "sample_syn_segment =
     \<lparr>seg_src_port = 5000, seg_dst_port = 9, seg_seq = 100, seg_ack = 0, seg_flags = FLAG_SYN, seg_window = 1000,
      seg_payload = [], seg_options = no_options, seg_urgent_pointer = 0, seg_checksum = 0\<rparr>"

definition sample_syn :: ipv4_packet where
  "sample_syn = sample_ping\<lparr>ip_protocol := PROTO_TCP,
     ip_payload := projr (TCPSegment_to_bytes sample_syn_segment (Some [10, 0, 0, 2]) (Some [10, 0, 0, 1]) True)\<rparr>"

lemma sample_syn_parse:
  "length (ip_payload sample_syn) = 20
   \<and> (\<exists>c. TCPSegment_parse (ip_payload sample_syn) (Some [10, 0, 0, 2]) (Some [10, 0, 0, 1]) True
          = Inr (sample_syn_segment\<lparr>seg_checksum := c\<rparr>))"
proof -
  have "segment_ranged sample_syn_segment"
    by (simp add: segment_ranged_def sample_syn_segment_def no_options_ranged in_u32_def FLAG_SYN_def)
  moreover obtain raw where raw: "TCPSegment_to_bytes sample_syn_segment (Some [10, 0, 0, 2]) (Some [10, 0, 0, 1]) True = Inr raw"
    "length raw = 20"
    using to_bytes_total [of sample_syn_segment "[]" "[10, 0, 0, 2]" "[10, 0, 0, 1]"]
    by (auto simp: sample_syn_segment_def no_options_bytes)
  ultimately obtain c where "TCPSegment_parse raw (Some [10, 0, 0, 2]) (Some [10, 0, 0, 1]) True
      = Inr (sample_syn_segment\<lparr>seg_options := with_last_sack_block (seg_options sample_syn_segment), seg_checksum := c\<rparr>)"
    using segment_reparse [OF raw(1)] by auto
  moreover have "with_last_sack_block (seg_options sample_syn_segment) = seg_options sample_syn_segment"
    by (simp add: sample_syn_segment_def with_last_sack_block_def no_options_def)
  ultimately show ?thesis using raw by (auto simp: sample_syn_def)
qed

theorem closed_port_reset_witness:
  "\<exists>t frame q r. stack_handle_frame (link_frame [2, 0, 0, 0, 0, 1] [2, 0, 0, 0, 0, 2] ETHERTYPE_IPV4
         (projr (IPv4Packet_to_bytes sample_syn))) 0 6 sample_sender = (t, Inr ())
     \<and> st_frames t = st_frames sample_sender @ [frame] \<and> frame_datagram frame = Inr q
     \<and> TCPSegment_parse (ip_payload q) (Some (st_ip sample_sender)) (Some [10, 0, 0, 2]) True = Inr r
     \<and> is_rst r \<and> seg_ack r = 101"
proof -
  have "ip_carried (sample_syn\<lparr>ip_payload := []\<rparr>) \<and> \<not> ip_is_fragmented sample_syn \<and> ip_dst sample_syn = [10, 0, 0, 1]
      \<and> ip_protocol sample_syn = PROTO_TCP \<and> ip_src sample_syn = [10, 0, 0, 2] \<and> [10, 0, 0, 2] \<noteq> IP_BROADCAST
      \<and> st_ip sample_sender = [10, 0, 0, 1] \<and> st_ip sample_peer = [10, 0, 0, 2]
      \<and> st_mac sample_sender = [2, 0, 0, 0, 0, 1] \<and> length (st_mac sample_peer) = 6
      \<and> st_connections sample_sender = [] \<and> st_listeners sample_sender = []"
    by (simp add: sample_syn_def) code_simp
  then have h: "ip_carried (sample_syn\<lparr>ip_payload := []\<rparr>)" "\<not> ip_is_fragmented sample_syn" "ip_dst sample_syn = [10, 0, 0, 1]"
    "ip_protocol sample_syn = PROTO_TCP" "ip_src sample_syn = [10, 0, 0, 2]" "[10, 0, 0, 2] \<noteq> IP_BROADCAST"
    "st_ip sample_sender = [10, 0, 0, 1]" "st_ip sample_peer = [10, 0, 0, 2]"
    "st_mac sample_sender = [2, 0, 0, 0, 0, 1]" "length (st_mac sample_peer) = 6"
    "st_connections sample_sender = []" "st_listeners sample_sender = []"
    by blast+
  have c: "ip_carried sample_syn"
    using h(1) sample_syn_parse by (simp add: ip_carried_def ip_total_length_def ip_header_length_def ip_ihl_def
        IP_HEADER_LEN_def MAX_PACKET_def sample_syn_def sample_ping_def)
  then obtain b where b: "IPv4Packet_to_bytes sample_syn = Inr b" using ip_to_bytes_layout by blast
  obtain k where parse: "TCPSegment_parse (ip_payload sample_syn) (Some [10, 0, 0, 2]) (Some [10, 0, 0, 1]) True
      = Inr (sample_syn_segment\<lparr>seg_checksum := k\<rparr>)"
    using sample_syn_parse by blast
  have dst: "ip_dst sample_syn = st_ip sample_sender" using h(3,7) by simp
  have res: "resolves sample_sender (ip_src sample_syn) 6 (st_mac sample_peer)" using sample_resolves h(5,8) by simp
  have bc: "ip_src sample_syn \<noteq> IP_BROADCAST" using h(5,6) by simp
  have seg: "\<not> is_rst (sample_syn_segment\<lparr>seg_checksum := k\<rparr>)" "\<not> is_ack (sample_syn_segment\<lparr>seg_checksum := k\<rparr>)"
    "seq_add (seg_seq (sample_syn_segment\<lparr>seg_checksum := k\<rparr>)) (seg_seq_len (sample_syn_segment\<lparr>seg_checksum := k\<rparr>)) = 101"
    by (simp_all add: sample_syn_segment_def is_rst_def is_ack_def FLAG_SYN_def FLAG_RST_def FLAG_ACK_def seg_seq_len_def
        is_syn_def is_fin_def FLAG_FIN_def seq_add_def SEQ_MASK_def)
  have "length [2, 0, 0, 0, 0, 2 :: byte] = 6" by simp
  from closed_port_reset [OF sample_hosts(1) this c b h(2) dst h(4) _ _ _ res h(10) bc, of "sample_syn_segment\<lparr>seg_checksum := k\<rparr>" 0]
  show ?thesis
    using parse seg unfolding h(3,5,7,9,11,12) b by fastforce
qed

theorem arp_exchange_witness:
  "let p = host_packet sample_stack (st_ip sample_peer) PROTO_UDP [1, 2, 3] in \<exists>a1 request b1 reply a2.
     stack_send_ipv4 p 1 sample_stack = (a1, Inr False) \<and> st_frames a1 = [request]
   \<and> stack_handle_frame request 0 2 sample_peer = (b1, Inr ()) \<and> st_frames b1 = [reply]
   \<and> stack_handle_frame reply 0 3 a1 = (a2, Inr ())
   \<and> st_frames a2 = [request, link_frame (st_mac sample_peer) (st_mac sample_stack) ETHERTYPE_IPV4 (projr (IPv4Packet_to_bytes p))]"
proof -
  let ?p = "host_packet sample_stack (st_ip sample_peer) PROTO_UDP [1, 2, 3]"
  have "st_ip sample_peer \<noteq> IP_BROADCAST \<and> ip_dst ?p = st_ip sample_peer
      \<and> same_subnet (st_ip sample_peer) (st_ip sample_stack) (st_netmask sample_stack) = Inr True
      \<and> snd (ARPCache_lookup (st_arp_cache sample_stack) (st_ip sample_peer) 1) = None
      \<and> st_arp_pending sample_stack = [] \<and> st_max_arp_pending sample_stack = 32 \<and> ip_carried ?p
      \<and> st_frames sample_stack = [] \<and> st_frames sample_peer = [] \<and> length (st_mac sample_stack) = 6
      \<and> length (st_ip sample_stack) = 4"
    by code_simp
  then have h: "st_ip sample_peer \<noteq> IP_BROADCAST" "ip_dst ?p = st_ip sample_peer"
    "same_subnet (st_ip sample_peer) (st_ip sample_stack) (st_netmask sample_stack) = Inr True"
    "snd (ARPCache_lookup (st_arp_cache sample_stack) (st_ip sample_peer) 1) = None"
    "st_arp_pending sample_stack = []" "st_max_arp_pending sample_stack = 32" "ip_carried ?p"
    "st_frames sample_stack = []" "st_frames sample_peer = []" "length (st_mac sample_stack) = 6" "length (st_ip sample_stack) = 4"
    by blast+
  have "host sample_stack" using sample_stack_reachable h(10,11) by (simp add: host_def)
  moreover have "[] = (case map_of (st_arp_pending sample_stack) (st_ip sample_peer) of None \<Rightarrow> [] | Some q \<Rightarrow> q)"
    "len ([] :: ipv4_packet list) < st_max_arp_pending sample_stack" "\<forall>x \<in> set ([] @ [?p]). ip_carried x"
    using h(5-7) by simp_all
  ultimately obtain a1 request b1 reply a2 where
    "stack_send_ipv4 ?p 1 sample_stack = (a1, Inr False)" "st_frames a1 = st_frames sample_stack @ [request]"
    "stack_handle_frame request 0 2 sample_peer = (b1, Inr ())" "st_frames b1 = st_frames sample_peer @ [reply]"
    "stack_handle_frame reply 0 3 a1 = (a2, Inr ())"
    "st_frames a2 = st_frames a1
        @ map (\<lambda>x. link_frame (st_mac sample_peer) (st_mac sample_stack) ETHERTYPE_IPV4 (projr (IPv4Packet_to_bytes x))) ([] @ [?p])"
    using arp_exchange [OF _ sample_hosts(2) h(2,1,3,4), of "[]" 0 2 3] by blast
  then show ?thesis
    unfolding Let_def h(8,9) by (intro exI conjI) simp_all
qed

end
