(* ===== verification/Wire.thy ===== *)
theory Wire
  imports Prelude
begin

text \<open>
  \<open>minitcp/link/simulated.py\<close>: the programmable wire and its endpoints.

  \<^item> Endpoints are shared between the wire, the pending frames and the stacks, so they live in a store,
    the list \<open>vw_store\<close>, and are named by their index. \<open>vw_links\<close> is the wire's list of attached ones.
    \<open>sl_attached\<close> says whether an endpoint's \<open>_wire\<close> is this wire; it stays set when it is detached.
  \<^item> The random generator is an argument: \<open>vw_rng n\<close> is the value in \<open>[0, 1)\<close> of its \<open>n\<close>-th draw,
    \<open>random()\<close> is that value, \<open>uniform\<close> and \<open>randrange\<close> scale it to their range.
  \<^item> The calls of \<open>on_frame\<close> are recorded in \<open>vw_seen\<close>. The clock is read once per call. The waiting
    of \<open>recv_frame\<close> is a loop over the readings of the clock, one per round. Locks are left out.
\<close>

section \<open>State\<close>

record fault_profile =
  fp_loss :: rat
  fp_duplicate :: rat
  fp_reorder :: rat
  fp_corrupt :: rat
  fp_delay_ms :: "rat \<times> rat"

definition FaultProfile :: "rat \<Rightarrow> rat \<Rightarrow> rat \<Rightarrow> rat \<Rightarrow> rat \<times> rat \<Rightarrow> py_error + fault_profile" where
  "FaultProfile loss duplicate reorder corrupt delay_ms =
     (if \<not> list_all (\<lambda>value. 0 \<le> value \<and> value \<le> 1) [loss, duplicate, reorder, corrupt] then Inl ValueError
      else
        let (low, high) = delay_ms
        in if low < 0 \<or> high < low then Inl ValueError
           else Inr \<lparr>fp_loss = loss, fp_duplicate = duplicate, fp_reorder = reorder, fp_corrupt = corrupt,
                     fp_delay_ms = delay_ms\<rparr>)"

record simulated_link =
  sl_mac :: bytes
  sl_mtu :: int
  sl_attached :: bool
  sl_up :: bool
  sl_queue :: "bytes list"

type_synonym link_id = nat

record virtual_wire =
  vw_fault :: fault_profile
  vw_on_frame :: bool
  vw_rng :: "nat \<Rightarrow> rat"
  vw_drawn :: nat
  vw_store :: "simulated_link list"
  vw_links :: "link_id list"
  vw_pending :: "(time \<times> link_id \<times> bytes) list"
  vw_transmitted :: int
  vw_dropped :: int
  vw_duplicated :: int
  vw_corrupted :: int
  vw_seen :: "(link_id \<times> bytes) list"

definition VirtualWire :: "fault_profile option \<Rightarrow> bool \<Rightarrow> (nat \<Rightarrow> rat) \<Rightarrow> virtual_wire" where
  "VirtualWire fault on_frame rng =
     \<lparr>vw_fault = (case fault of Some f \<Rightarrow> f
         | None \<Rightarrow> \<lparr>fp_loss = 0, fp_duplicate = 0, fp_reorder = 0, fp_corrupt = 0, fp_delay_ms = (0, 0)\<rparr>),
      vw_on_frame = on_frame, vw_rng = rng, vw_drawn = 0, vw_store = [], vw_links = [], vw_pending = [],
      vw_transmitted = 0, vw_dropped = 0, vw_duplicated = 0, vw_corrupted = 0, vw_seen = []\<rparr>"


section \<open>Membership\<close>

definition wire_link :: "virtual_wire \<Rightarrow> link_id \<Rightarrow> simulated_link" where
  "wire_link w i = vw_store w ! i"

definition wire_update_link :: "link_id \<Rightarrow> (simulated_link \<Rightarrow> simulated_link) \<Rightarrow> virtual_wire \<Rightarrow> virtual_wire" where
  "wire_update_link i f w = w\<lparr>vw_store := (vw_store w)[i := f (wire_link w i)]\<rparr>"

definition wire_attach :: "link_id \<Rightarrow> virtual_wire \<Rightarrow> virtual_wire" where
  "wire_attach i w =
     (let w1 = wire_update_link i (sl_attached_update (\<lambda>_. True)) w in w1\<lparr>vw_links := vw_links w1 @ [i]\<rparr>)"

definition wire_detach :: "link_id \<Rightarrow> virtual_wire \<Rightarrow> virtual_wire" where
  "wire_detach i w = (if i \<in> set (vw_links w) then w\<lparr>vw_links := remove1 i (vw_links w)\<rparr> else w)"

definition wire_endpoints :: "virtual_wire \<Rightarrow> link_id list" where
  "wire_endpoints w = vw_links w"


section \<open>The data path\<close>

definition link_enqueue :: "link_id \<Rightarrow> bytes \<Rightarrow> virtual_wire \<Rightarrow> virtual_wire" where
  "link_enqueue i frame = wire_update_link i (\<lambda>l. l\<lparr>sl_queue := sl_queue l @ [frame]\<rparr>)"

definition wire_draw :: "virtual_wire \<Rightarrow> rat \<times> virtual_wire" where
  "wire_draw w = (vw_rng w (vw_drawn w), w\<lparr>vw_drawn := vw_drawn w + 1\<rparr>)"

text \<open>\<open>fault.p and self._rng.random() < fault.p\<close>: nothing is drawn for a probability of zero.\<close>

definition wire_chance :: "rat \<Rightarrow> virtual_wire \<Rightarrow> bool \<times> virtual_wire" where
  "wire_chance p w = (if p = 0 then (False, w) else let (r, w1) = wire_draw w in (r < p, w1))"

definition wire_uniform :: "rat \<Rightarrow> rat \<Rightarrow> virtual_wire \<Rightarrow> rat \<times> virtual_wire" where
  "wire_uniform low high w = (let (r, w1) = wire_draw w in (low + (high - low) * r, w1))"

definition wire_randrange :: "nat \<Rightarrow> virtual_wire \<Rightarrow> nat \<times> virtual_wire" where
  "wire_randrange n w = (let (r, w1) = wire_draw w in (nat \<lfloor>of_nat n * r\<rfloor>, w1))"

definition wire_flip_one_bit :: "bytes \<Rightarrow> virtual_wire \<Rightarrow> bytes \<times> virtual_wire" where
  "wire_flip_one_bit frame w =
     (if frame = [] then (frame, w)
      else
        let (index, w1) = wire_randrange (length frame) w;
            (k, w2) = wire_randrange 8 w1
        in (frame[index := frame ! index XOR push_bit k 1], w2))"

definition wire_deliver :: "time \<Rightarrow> time \<Rightarrow> bytes \<Rightarrow> link_id \<Rightarrow> virtual_wire \<Rightarrow> virtual_wire" where
  "wire_deliver now delay frame peer w =
     (if delay \<le> 0 then link_enqueue peer frame w
      else w\<lparr>vw_pending := vw_pending w @ [(now + delay, peer, frame)]\<rparr>)"

definition wire_peers :: "link_id \<Rightarrow> virtual_wire \<Rightarrow> link_id list" where
  "wire_peers sender w = filter (\<lambda>i. i \<noteq> sender \<and> sl_up (wire_link w i)) (vw_links w)"

definition wire_corrupt :: "bytes \<Rightarrow> virtual_wire \<Rightarrow> bytes \<times> virtual_wire" where
  "wire_corrupt frame w =
     (let (corrupt, w1) = wire_chance (fp_corrupt (vw_fault w)) w
      in if corrupt then
           let (frame', w2) = wire_flip_one_bit frame w1 in (frame', w2\<lparr>vw_corrupted := vw_corrupted w2 + 1\<rparr>)
         else (frame, w1))"

definition wire_delay :: "virtual_wire \<Rightarrow> time \<times> virtual_wire" where
  "wire_delay w =
     (let (low, high) = fp_delay_ms (vw_fault w);
          (delay, w1) = (if high > 0 then let (d, w') = wire_uniform low high w in (d / 1000, w') else (0, w));
          (reorder, w2) = wire_chance (fp_reorder (vw_fault w1)) w1
      in (if reorder then delay + 2 / 1000 else delay, w2))"

definition wire_copies :: "virtual_wire \<Rightarrow> nat \<times> virtual_wire" where
  "wire_copies w =
     (let (duplicate, w1) = wire_chance (fp_duplicate (vw_fault w)) w
      in if duplicate then (2, w1\<lparr>vw_duplicated := vw_duplicated w1 + 1\<rparr>) else (1, w1))"

definition wire_transmit :: "link_id \<Rightarrow> bytes \<Rightarrow> time \<Rightarrow> virtual_wire \<Rightarrow> virtual_wire" where
  "wire_transmit sender frame now w =
     (let w0 = (if vw_on_frame w then w\<lparr>vw_seen := vw_seen w @ [(sender, frame)]\<rparr> else w);
          w1 = w0\<lparr>vw_transmitted := vw_transmitted w0 + 1\<rparr>;
          peers = wire_peers sender w1
      in if peers = [] then w1
         else
           let (lost, w2) = wire_chance (fp_loss (vw_fault w1)) w1
           in if lost then w2\<lparr>vw_dropped := vw_dropped w2 + 1\<rparr>
              else
                let (frame', w3) = wire_corrupt frame w2;
                    (delay, w4) = wire_delay w3;
                    (copies, w5) = wire_copies w4
                in fold (wire_deliver now delay frame') (concat (replicate copies peers)) w5)"

definition wire_pump :: "time \<Rightarrow> virtual_wire \<Rightarrow> virtual_wire" where
  "wire_pump now w =
     (if vw_pending w = [] then w
      else
        let due = filter (\<lambda>(t, _, _). t \<le> now) (vw_pending w);
            w1 = (if due \<noteq> [] then w\<lparr>vw_pending := filter (\<lambda>(t, _, _). t > now) (vw_pending w)\<rparr> else w)
        in fold (\<lambda>(_, peer, frame). link_enqueue peer frame) due w1)"

record wire_stats =
  ws_transmitted :: int
  ws_dropped :: int
  ws_duplicated :: int
  ws_corrupted :: int
  ws_in_flight :: int

definition wire_stats :: "virtual_wire \<Rightarrow> wire_stats" where
  "wire_stats w =
     \<lparr>ws_transmitted = vw_transmitted w, ws_dropped = vw_dropped w, ws_duplicated = vw_duplicated w,
      ws_corrupted = vw_corrupted w, ws_in_flight = len (vw_pending w)\<rparr>"

definition wire_reset_stats :: "virtual_wire \<Rightarrow> virtual_wire" where
  "wire_reset_stats w = w\<lparr>vw_transmitted := 0, vw_dropped := 0, vw_duplicated := 0, vw_corrupted := 0\<rparr>"


section \<open>Endpoints\<close>

text \<open>\<open>SimulatedLink(mac, wire, mtu)\<close>; \<open>attached\<close> says whether a wire was given. The name is left out.\<close>

definition SimulatedLink :: "bytes \<Rightarrow> bool \<Rightarrow> int \<Rightarrow> virtual_wire \<Rightarrow> py_error + virtual_wire \<times> link_id" where
  "SimulatedLink mac attached mtu w =
     (if length mac \<noteq> 6 then Inl ValueError
      else
        let i = length (vw_store w);
            w1 = w\<lparr>vw_store := vw_store w @
                   [\<lparr>sl_mac = mac, sl_mtu = mtu, sl_attached = False, sl_up = True, sl_queue = []\<rparr>]\<rparr>
        in Inr (if attached then wire_attach i w1 else w1, i))"

definition link_send_frame :: "link_id \<Rightarrow> bytes \<Rightarrow> time \<Rightarrow> virtual_wire \<Rightarrow> py_error + virtual_wire" where
  "link_send_frame i frame now w =
     (if \<not> sl_attached (wire_link w i) then Inl LinkError
      else if \<not> sl_up (wire_link w i) then Inl LinkError
      else Inr (wire_transmit i frame now w))"

definition link_get :: "link_id \<Rightarrow> virtual_wire \<Rightarrow> virtual_wire \<times> bytes option" where
  "link_get i w =
     (case sl_queue (wire_link w i) of
        [] \<Rightarrow> (w, None)
      | frame # rest \<Rightarrow> (wire_update_link i (\<lambda>l. l\<lparr>sl_queue := rest\<rparr>) w, Some frame))"

text \<open>The loop of \<open>recv_frame\<close>. A round pumps the wire and takes a frame if there is one, whether the
  deadline has passed (\<open>get_nowait\<close>) or not (\<open>get\<close>); without one it returns at the deadline and goes
  around again before it. The result \<open>None\<close> means that the loop is still waiting when the readings of the
  clock end.\<close>

fun link_recv_frame :: "link_id \<Rightarrow> time option \<Rightarrow> time list \<Rightarrow> virtual_wire \<Rightarrow> virtual_wire \<times> bytes option option" where
  "link_recv_frame i deadline [] w = (w, None)"
| "link_recv_frame i deadline (now # clock) w =
     (let w1 = (if sl_attached (wire_link w i) then wire_pump now w else w);
          (w2, got) = link_get i w1
      in case got of
           Some frame \<Rightarrow> (w2, Some (Some frame))
         | None \<Rightarrow>
             (case deadline of
                Some d \<Rightarrow> if d - now \<le> 0 then (w2, Some None) else link_recv_frame i deadline clock w2
              | None \<Rightarrow> link_recv_frame i deadline clock w2))"

definition link_pending :: "link_id \<Rightarrow> virtual_wire \<Rightarrow> int" where
  "link_pending i w = len (sl_queue (wire_link w i))"

text \<open>The loop of \<open>drain\<close> ends when \<open>get_nowait\<close> finds the queue empty: it runs once per queued frame,
  and once more.\<close>

fun link_drain_loop :: "nat \<Rightarrow> link_id \<Rightarrow> bytes list \<Rightarrow> virtual_wire \<Rightarrow> (virtual_wire \<times> bytes list) option" where
  "link_drain_loop 0 i out w = None"
| "link_drain_loop (Suc fuel) i out w =
     (case link_get i w of
        (w1, None) \<Rightarrow> Some (w1, out)
      | (w1, Some frame) \<Rightarrow> link_drain_loop fuel i (out @ [frame]) w1)"

definition link_drain :: "link_id \<Rightarrow> virtual_wire \<Rightarrow> (virtual_wire \<times> bytes list) option" where
  "link_drain i w = link_drain_loop (Suc (length (sl_queue (wire_link w i)))) i [] w"

definition link_close :: "link_id \<Rightarrow> virtual_wire \<Rightarrow> virtual_wire" where
  "link_close i w =
     (let w1 = wire_update_link i (sl_up_update (\<lambda>_. False)) w
      in if sl_attached (wire_link w1 i) then wire_detach i w1 else w1)"

section \<open>Frame lemmas\<close>

text \<open>Drawing and counting leave the endpoints, the membership and the pending frames alone.\<close>

definition same_traffic :: "virtual_wire \<Rightarrow> virtual_wire \<Rightarrow> bool" where
  "same_traffic v w \<longleftrightarrow>
     vw_store v = vw_store w \<and> vw_links v = vw_links w \<and> vw_pending v = vw_pending w
     \<and> vw_rng v = vw_rng w \<and> vw_fault v = vw_fault w"

lemma same_traffic_refl [simp]: "same_traffic w w"
  by (simp add: same_traffic_def)

lemma chance_traffic: "same_traffic (snd (wire_chance p w)) w"
  by (simp add: wire_chance_def wire_draw_def same_traffic_def)

lemma delay_traffic: "same_traffic (snd (wire_delay w)) w"
  using chance_traffic
  by (auto simp: wire_delay_def wire_uniform_def wire_draw_def same_traffic_def wire_chance_def Let_def split: prod.split)

lemma copies_traffic: "same_traffic (snd (wire_copies w)) w"
  by (auto simp: wire_copies_def same_traffic_def wire_chance_def wire_draw_def Let_def)

text \<open>One bit of a frame inverted.\<close>

definition bit_flipped :: "bytes \<Rightarrow> bytes \<Rightarrow> bool" where
  "bit_flipped f g \<longleftrightarrow> (\<exists>i < length f. \<exists>k < 8. g = f[i := f ! i XOR push_bit k 1])"

definition rng_ok :: "(nat \<Rightarrow> rat) \<Rightarrow> bool" where
  "rng_ok rng \<longleftrightarrow> (\<forall>n. 0 \<le> rng n \<and> rng n < 1)"

lemma randrange_below:
  assumes "rng_ok (vw_rng w)" and "0 < n"
  shows "fst (wire_randrange n w) < n"
proof -
  let ?r = "vw_rng w (vw_drawn w)"
  have r: "0 \<le> ?r" "?r < 1" using assms(1) by (simp_all add: rng_ok_def)
  then have "0 \<le> of_nat n * ?r" "of_nat n * ?r < of_nat n" using assms(2) by simp_all
  then have "0 \<le> \<lfloor>of_nat n * ?r\<rfloor>" "\<lfloor>of_nat n * ?r\<rfloor> < int n" by (simp_all add: floor_less_iff)
  then show ?thesis by (simp add: wire_randrange_def wire_draw_def nat_less_iff)
qed

lemma randrange_traffic: "same_traffic (snd (wire_randrange n w)) w"
  by (simp add: wire_randrange_def wire_draw_def same_traffic_def)

lemma flip_one_bit:
  assumes "rng_ok (vw_rng w)"
  shows "same_traffic (snd (wire_flip_one_bit f w)) w"
    and "fst (wire_flip_one_bit f w) = f \<or> bit_flipped f (fst (wire_flip_one_bit f w))"
proof -
  obtain i w1 where i: "wire_randrange (length f) w = (i, w1)" by (cases "wire_randrange (length f) w")
  obtain k w2 where k: "wire_randrange 8 w1 = (k, w2)" by (cases "wire_randrange 8 w1")
  have t: "same_traffic w1 w" "same_traffic w2 w1"
    using randrange_traffic [of "length f" w] randrange_traffic [of 8 w1] i k by simp_all
  then have "rng_ok (vw_rng w1)" using assms by (simp add: same_traffic_def)
  then have "k < 8" using randrange_below [of w1 8] k by simp
  moreover have "f \<noteq> [] \<Longrightarrow> i < length f" using randrange_below [OF assms, of "length f"] i by simp
  ultimately show "fst (wire_flip_one_bit f w) = f \<or> bit_flipped f (fst (wire_flip_one_bit f w))"
    by (auto simp: wire_flip_one_bit_def i k bit_flipped_def Let_def)
  show "same_traffic (snd (wire_flip_one_bit f w)) w"
    using t by (simp add: wire_flip_one_bit_def i k Let_def same_traffic_def)
qed

lemma wire_corrupt_frame:
  assumes "rng_ok (vw_rng w)"
  shows "same_traffic (snd (wire_corrupt f w)) w"
    and "fst (wire_corrupt f w) = f \<or> fp_corrupt (vw_fault w) \<noteq> 0 \<and> bit_flipped f (fst (wire_corrupt f w))"
proof -
  obtain c w1 where c: "wire_chance (fp_corrupt (vw_fault w)) w = (c, w1)"
    by (cases "wire_chance (fp_corrupt (vw_fault w)) w")
  then have t: "same_traffic w1 w" using chance_traffic [of "fp_corrupt (vw_fault w)" w] by simp
  then have rng: "rng_ok (vw_rng w1)" using assms by (simp add: same_traffic_def)
  have "c \<Longrightarrow> fp_corrupt (vw_fault w) \<noteq> 0" using c by (auto simp: wire_chance_def)
  then show "fst (wire_corrupt f w) = f \<or> fp_corrupt (vw_fault w) \<noteq> 0 \<and> bit_flipped f (fst (wire_corrupt f w))"
    using flip_one_bit(2) [OF rng, of f] by (auto simp: wire_corrupt_def c split: prod.split)
  show "same_traffic (snd (wire_corrupt f w)) w"
    using flip_one_bit(1) [OF rng, of f] t by (auto simp: wire_corrupt_def c same_traffic_def split: prod.split)
qed

text \<open>What a transmission does to the traffic: nothing, or some copies of the frame, sound or with one
  bit inverted, go to every peer.\<close>

lemma transmit_cases:
  assumes "rng_ok (vw_rng w)"
  obtains (nothing) "same_traffic (wire_transmit i f now w) w"
  | (carried) v g delay copies where "same_traffic v w" and "wire_transmit i f now w
      = fold (wire_deliver now delay g) (concat (replicate copies (wire_peers i w))) v"
    and "g = f \<or> fp_corrupt (vw_fault w) \<noteq> 0 \<and> bit_flipped f g"
proof -
  let ?w0 = "if vw_on_frame w then w\<lparr>vw_seen := vw_seen w @ [(i, f)]\<rparr> else w"
  let ?w1 = "?w0\<lparr>vw_transmitted := vw_transmitted ?w0 + 1\<rparr>"
  have t1: "same_traffic ?w1 w" by (simp add: same_traffic_def)
  have peers: "wire_peers i ?w1 = wire_peers i w" by (simp add: wire_peers_def wire_link_def)
  obtain lost w2 where 2: "wire_chance (fp_loss (vw_fault ?w1)) ?w1 = (lost, w2)"
    by (cases "wire_chance (fp_loss (vw_fault ?w1)) ?w1")
  have t2: "same_traffic w2 w" using chance_traffic [of "fp_loss (vw_fault ?w1)" ?w1] 2 t1 by (simp add: same_traffic_def)
  obtain g w3 where 3: "wire_corrupt f w2 = (g, w3)" by (cases "wire_corrupt f w2")
  have rng: "rng_ok (vw_rng w2)" using t2 assms by (simp add: same_traffic_def)
  have g: "g = f \<or> fp_corrupt (vw_fault w) \<noteq> 0 \<and> bit_flipped f g" and t3: "same_traffic w3 w"
    using wire_corrupt_frame [OF rng, of f] 3 t2 by (simp_all add: same_traffic_def)
  obtain delay w4 where 4: "wire_delay w3 = (delay, w4)" by (cases "wire_delay w3")
  obtain copies w5 where 5: "wire_copies w4 = (copies, w5)" by (cases "wire_copies w4")
  have t5: "same_traffic w5 w" using delay_traffic [of w3] copies_traffic [of w4] 4 5 t3 by (simp add: same_traffic_def)
  have run: "wire_transmit i f now w = (if wire_peers i w = [] then ?w1
     else if lost then w2\<lparr>vw_dropped := vw_dropped w2 + 1\<rparr>
     else fold (wire_deliver now delay g) (concat (replicate copies (wire_peers i w))) w5)"
    unfolding wire_transmit_def Let_def peers 2 3 4 5 prod.case ..
  show thesis
  proof (cases "wire_peers i w = [] \<or> lost")
    case True
    then have "same_traffic (wire_transmit i f now w) w" using run t1 t2 by (auto simp: same_traffic_def)
    then show thesis by (rule nothing)
  next
    case False
    then show thesis using carried [OF t5 _ g] run by simp
  qed
qed

section \<open>The wire invents nothing\<close>

datatype wire_step =
    Attach link_id
  | Detach link_id
  | Close link_id
  | Send link_id bytes time
  | Pump time
  | Receive link_id

text \<open>\<open>Send\<close> of an endpoint that is down or was never attached raises and changes nothing; an event on an
  endpoint that does not exist is no event.\<close>

fun wire_event :: "wire_step \<Rightarrow> virtual_wire \<Rightarrow> virtual_wire" where
  "wire_event (Attach i) w = (if i < length (vw_store w) then wire_attach i w else w)"
| "wire_event (Detach i) w = wire_detach i w"
| "wire_event (Close i) w = (if i < length (vw_store w) then link_close i w else w)"
| "wire_event (Send i frame now) w =
     (if i < length (vw_store w) then case link_send_frame i frame now w of Inl _ \<Rightarrow> w | Inr w' \<Rightarrow> w' else w)"
| "wire_event (Pump now) w = wire_pump now w"
| "wire_event (Receive i) w = (if i < length (vw_store w) then fst (link_get i w) else w)"

text \<open>\<open>carried H q i g\<close>: a frame \<open>g\<close> at the endpoint \<open>i\<close> comes from a frame in \<open>H\<close> that another endpoint sent,
  unchanged or, if \<open>q\<close>, with one bit inverted.\<close>

definition carried :: "(link_id \<times> bytes) set \<Rightarrow> bool \<Rightarrow> link_id \<Rightarrow> bytes \<Rightarrow> bool" where
  "carried H q i g \<longleftrightarrow> (\<exists>j f. (j, f) \<in> H \<and> j \<noteq> i \<and> (g = f \<or> q \<and> bit_flipped f g))"

definition wire_inv :: "(link_id \<times> bytes) set \<Rightarrow> bool \<Rightarrow> virtual_wire \<Rightarrow> bool" where
  "wire_inv H q w \<longleftrightarrow>
     (\<forall>i < length (vw_store w). \<forall>g \<in> set (sl_queue (vw_store w ! i)). carried H q i g)
     \<and> (\<forall>(t, i, g) \<in> set (vw_pending w). carried H q i g)"

lemma wire_inv_traffic: "same_traffic v w \<Longrightarrow> wire_inv H q v \<longleftrightarrow> wire_inv H q w"
  by (simp add: same_traffic_def wire_inv_def)

lemma wire_inv_mono: "wire_inv H q w \<Longrightarrow> H \<subseteq> H' \<Longrightarrow> wire_inv H' q w"
  unfolding wire_inv_def carried_def by blast

lemma wire_inv_update_queue:
  assumes "wire_inv H q w" and "set (sl_queue (f (wire_link w i))) \<subseteq> set (sl_queue (wire_link w i)) \<union> G" and "\<And>g. g \<in> G \<Longrightarrow> carried H q i g"
  shows "wire_inv H q (wire_update_link i f w)"
proof (cases "i < length (vw_store w)")
  case True
  have "carried H q i g" if "g \<in> set (sl_queue (f (wire_link w i)))" for g
    using assms that True unfolding wire_inv_def wire_link_def by blast
  with assms(1) True show ?thesis
    by (auto simp: wire_inv_def wire_update_link_def nth_list_update)
qed (use assms(1) in \<open>simp add: wire_update_link_def wire_inv_def\<close>)

lemma wire_inv_enqueue: "wire_inv H q w \<Longrightarrow> carried H q i g \<Longrightarrow> wire_inv H q (link_enqueue i g w)"
  unfolding link_enqueue_def by (rule wire_inv_update_queue [where G = "{g}"]) auto

lemma wire_inv_deliver: "wire_inv H q w \<Longrightarrow> carried H q i g \<Longrightarrow> wire_inv H q (wire_deliver now delay g i w)"
  by (auto simp: wire_deliver_def wire_inv_enqueue) (auto simp: wire_inv_def)

lemma wire_inv_fold_deliver:
  "wire_inv H q w \<Longrightarrow> \<forall>i \<in> set peers. carried H q i g \<Longrightarrow> wire_inv H q (fold (wire_deliver now delay g) peers w)"
  by (induction peers arbitrary: w) (auto intro: wire_inv_deliver)

lemma wire_inv_transmit:
  assumes inv: "wire_inv H q w" and rng: "rng_ok (vw_rng w)" and sent: "(i, f) \<in> H"
    and q: "fp_corrupt (vw_fault w) \<noteq> 0 \<Longrightarrow> q"
  shows "wire_inv H q (wire_transmit i f now w)"
proof (cases rule: transmit_cases [OF rng, of i f now, case_names nothing carried])
  case nothing
  then show ?thesis using inv wire_inv_traffic by blast
next
  case (carried v g delay copies)
  have "\<forall>j \<in> set (concat (replicate copies (wire_peers i w))). carried H q j g"
    using sent carried(3) q by (auto simp: carried_def wire_peers_def)
  then show ?thesis
    unfolding carried(2) using inv wire_inv_traffic [OF carried(1)] by (intro wire_inv_fold_deliver) simp_all
qed

lemma fold_enqueue_rest [simp]:
  "vw_pending (fold (\<lambda>(_, peer, frame). link_enqueue peer frame) due w) = vw_pending w"
  "vw_links (fold (\<lambda>(_, peer, frame). link_enqueue peer frame) due w) = vw_links w"
  "length (vw_store (fold (\<lambda>(_, peer, frame). link_enqueue peer frame) due w)) = length (vw_store w)"
  "vw_rng (fold (\<lambda>(_, peer, frame). link_enqueue peer frame) due w) = vw_rng w"
  "vw_fault (fold (\<lambda>(_, peer, frame). link_enqueue peer frame) due w) = vw_fault w"
  by (induction due arbitrary: w) (auto simp: link_enqueue_def wire_update_link_def)

lemma pump_eq:
  "wire_pump now w = fold (\<lambda>(_, peer, frame). link_enqueue peer frame) (filter (\<lambda>(t, _, _). t \<le> now) (vw_pending w))
     (w\<lparr>vw_pending := filter (\<lambda>(t, _, _). t > now) (vw_pending w)\<rparr>)"
proof -
  have "filter (\<lambda>(t, _, _). t \<le> now) xs = [] \<Longrightarrow> filter (\<lambda>(t, _, _). t > now) xs = xs" for xs :: "(time \<times> link_id \<times> bytes) list"
    by (auto simp: filter_empty_conv intro!: filter_True)
  from this [of "vw_pending w"] show ?thesis
    by (auto simp: wire_pump_def Let_def)
qed

lemma wire_inv_fold_enqueue:
  "wire_inv H q w \<Longrightarrow> \<forall>(t, i, g) \<in> set due. carried H q i g
     \<Longrightarrow> wire_inv H q (fold (\<lambda>(_, peer, frame). link_enqueue peer frame) due w)"
  by (induction due arbitrary: w) (auto intro: wire_inv_enqueue)

lemma wire_inv_pump: "wire_inv H q w \<Longrightarrow> wire_inv H q (wire_pump now w)"
  unfolding pump_eq by (rule wire_inv_fold_enqueue) (auto simp: wire_inv_def)

lemma wire_inv_get: "wire_inv H q w \<Longrightarrow> wire_inv H q (fst (link_get i w))"
proof (cases "sl_queue (wire_link w i)")
  case (Cons f fs)
  moreover assume "wire_inv H q w"
  ultimately show ?thesis
    unfolding link_get_def Cons list.case fst_conv by (intro wire_inv_update_queue [where G = "{}"]) (auto simp: Cons)
qed (simp add: link_get_def)

text \<open>What the random generator and the profile are never changes.\<close>

definition same_setup :: "virtual_wire \<Rightarrow> virtual_wire \<Rightarrow> bool" where
  "same_setup v w \<longleftrightarrow> vw_rng v = vw_rng w \<and> vw_fault v = vw_fault w"

lemma update_link_setup [simp]: "same_setup (wire_update_link i f w) w"
  by (simp add: same_setup_def wire_update_link_def)

lemma fold_deliver_setup: "same_setup (fold (wire_deliver now delay g) peers w) w"
  by (induction peers arbitrary: w) (simp_all add: same_setup_def wire_deliver_def link_enqueue_def wire_update_link_def)

lemma transmit_setup:
  assumes "rng_ok (vw_rng w)"
  shows "same_setup (wire_transmit i f now w) w"
proof (cases rule: transmit_cases [OF assms, of i f now, case_names nothing carried])
  case nothing
  then show ?thesis by (simp add: same_setup_def same_traffic_def)
next
  case (carried v g delay copies)
  then show ?thesis
    unfolding carried(2) using fold_deliver_setup [of now delay g "concat (replicate copies (wire_peers i w))" v]
    by (simp add: same_setup_def same_traffic_def)
qed

lemma wire_event_setup: "rng_ok (vw_rng w) \<Longrightarrow> same_setup (wire_event e w) w"
proof (cases e)
  case (Send i f now)
  then show "rng_ok (vw_rng w) \<Longrightarrow> same_setup (wire_event e w) w"
    using transmit_setup [of w i f now] by (simp add: link_send_frame_def) (simp add: same_setup_def)
next
  case (Receive i)
  then show ?thesis by (cases "sl_queue (wire_link w i)") (simp_all add: link_get_def, simp_all add: same_setup_def)
qed (simp_all add: same_setup_def wire_attach_def wire_detach_def link_close_def wire_update_link_def pump_eq Let_def)

fun sends :: "wire_step list \<Rightarrow> (link_id \<times> bytes) set" where
  "sends [] = {}"
| "sends (Send i f now # es) = insert (i, f) (sends es)"
| "sends (e # es) = sends es"

lemma wire_inv_event:
  assumes "wire_inv H q w" and "rng_ok (vw_rng w)" and "sends [e] \<subseteq> H" and "fp_corrupt (vw_fault w) \<noteq> 0 \<Longrightarrow> q"
  shows "wire_inv H q (wire_event e w)"
proof (cases e)
  case (Attach i)
  have "wire_inv H q (wire_update_link i (sl_attached_update (\<lambda>_. True)) w)"
    by (rule wire_inv_update_queue [OF assms(1), where G = "{}"]) simp_all
  with Attach assms(1) show ?thesis by (simp add: wire_attach_def Let_def) (simp add: wire_inv_def)
next
  case (Detach i)
  with assms(1) show ?thesis by (simp add: wire_detach_def) (simp add: wire_inv_def)
next
  case (Close i)
  have "wire_inv H q (wire_update_link i (sl_up_update (\<lambda>_. False)) w)"
    by (rule wire_inv_update_queue [OF assms(1), where G = "{}"]) simp_all
  with Close assms(1) show ?thesis by (simp add: link_close_def wire_detach_def Let_def) (simp add: wire_inv_def)
next
  case (Send i f now)
  with assms show ?thesis by (simp add: link_send_frame_def wire_inv_transmit)
next
  case (Pump now)
  with assms(1) show ?thesis by (simp add: wire_inv_pump)
next
  case (Receive i)
  with assms(1) show ?thesis by (simp add: wire_inv_get)
qed

lemma sends_Cons: "sends (e # es) = sends [e] \<union> sends es"
  by (cases e) simp_all

lemma wire_inv_run:
  "wire_inv H q w \<Longrightarrow> rng_ok (vw_rng w) \<Longrightarrow> sends es \<subseteq> H \<Longrightarrow> (fp_corrupt (vw_fault w) \<noteq> 0 \<Longrightarrow> q)
     \<Longrightarrow> wire_inv H q (fold wire_event es w)"
proof (induction es arbitrary: w)
  case (Cons e es)
  have "sends [e] \<subseteq> H" "sends es \<subseteq> H" using Cons.prems(3) sends_Cons [of e es] by auto
  moreover have "same_setup (wire_event e w) w" by (rule wire_event_setup [OF Cons.prems(2)])
  ultimately show ?case
    using Cons.IH [of "wire_event e w"] Cons.prems wire_inv_event [OF Cons.prems(1,2), of e] by (simp add: same_setup_def)
qed simp

text \<open>C13. A wire invents nothing: whatever its endpoints do, in whatever order, every frame waiting at an
  endpoint or still under way to it was sent by another endpoint, and is that frame, or that frame with
  one bit inverted if the profile corrupts frames at all.\<close>

theorem wire_never_invents:
  assumes "rng_ok (vw_rng w)" and "\<forall>l \<in> set (vw_store w). sl_queue l = []" and "vw_pending w = []"
    and "w' = fold wire_event events w"
    and "i < length (vw_store w') \<and> g \<in> set (sl_queue (wire_link w' i)) \<or> (\<exists>t. (t, i, g) \<in> set (vw_pending w'))"
  shows "\<exists>j f. (j, f) \<in> sends events \<and> j \<noteq> i \<and> (g = f \<or> fp_corrupt (vw_fault w) \<noteq> 0 \<and> bit_flipped f g)"
proof -
  have "wire_inv (sends events) (fp_corrupt (vw_fault w) \<noteq> 0) w"
    using assms(2,3) by (simp add: wire_inv_def)
  then have "wire_inv (sends events) (fp_corrupt (vw_fault w) \<noteq> 0) w'"
    unfolding assms(4) by (rule wire_inv_run [OF _ assms(1)]) simp_all
  then have "carried (sends events) (fp_corrupt (vw_fault w) \<noteq> 0) i g"
    using assms(5) by (auto simp: wire_inv_def wire_link_def)
  then show ?thesis by (simp add: carried_def)
qed

text \<open>Two endpoints on a wire that inverts the first bit of every frame it carries.\<close>

definition sample_wire :: virtual_wire where
  "sample_wire =
     (let w = VirtualWire (Some \<lparr>fp_loss = 0, fp_duplicate = 0, fp_reorder = 0, fp_corrupt = 1, fp_delay_ms = (0, 0)\<rparr>) False (\<lambda>_. 0);
          w = fst (projr (SimulatedLink [2, 0, 0, 0, 0, 1] True 1500 w))
      in fst (projr (SimulatedLink [2, 0, 0, 0, 0, 2] True 1500 w)))"

theorem wire_never_invents_witness:
  "sl_queue (wire_link (wire_event (Send 0 [8, 9] 5) sample_wire) 1) = [[9, 9]] \<and> bit_flipped [8, 9] [9, 9]"
proof -
  let ?w = "fold wire_event [Send 0 [8, 9] 5] sample_wire"
  have "fp_corrupt (vw_fault sample_wire) \<noteq> 0 \<and> length (vw_store ?w) = 2 \<and> sl_queue (wire_link ?w 1) = [[9, 9]]
      \<and> list_all (\<lambda>l. sl_queue l = []) (vw_store sample_wire) \<and> vw_pending sample_wire = []"
    by code_simp
  moreover have "rng_ok (vw_rng sample_wire)" by (simp add: rng_ok_def sample_wire_def VirtualWire_def SimulatedLink_def
        wire_attach_def wire_update_link_def Let_def)
  ultimately have "\<exists>j f. (j, f) \<in> sends [Send 0 [8, 9] 5] \<and> j \<noteq> 1 \<and> ([9, 9] = f \<or> fp_corrupt (vw_fault sample_wire) \<noteq> 0
      \<and> bit_flipped f [9, 9])"
    by (intro wire_never_invents [of sample_wire ?w]) (auto simp: list_all_iff)
  with \<open>fp_corrupt (vw_fault sample_wire) \<noteq> 0 \<and> _\<close> show ?thesis by auto
qed


section \<open>Receiving\<close>

lemma enqueue_queue:
  "i < length (vw_store w) \<Longrightarrow>
     sl_queue (wire_link (link_enqueue j g w) i) = sl_queue (wire_link w i) @ (if j = i then [g] else [])"
  by (auto simp: link_enqueue_def wire_update_link_def wire_link_def nth_list_update)

lemma fold_enqueue_queue:
  "i < length (vw_store w) \<Longrightarrow>
     sl_queue (wire_link (fold (\<lambda>(_, peer, frame). link_enqueue peer frame) due w) i)
       = sl_queue (wire_link w i) @ map (\<lambda>(_, _, f). f) (filter (\<lambda>(_, j, _). j = i) due)"
proof (induction due arbitrary: w)
  case (Cons d due)
  obtain t j g where d: "d = (t, j, g)" by (cases d)
  have "i < length (vw_store (link_enqueue j g w))" using Cons.prems by (simp add: link_enqueue_def wire_update_link_def)
  from Cons.IH [OF this] Cons.prems show ?case by (simp add: d enqueue_queue)
qed simp

text \<open>Pumping hands every endpoint exactly the frames that are due, in the order in which they were sent,
  and leaves the others.\<close>

lemma pump_delivers:
  assumes "i < length (vw_store w)"
  shows "sl_queue (wire_link (wire_pump now w) i)
       = sl_queue (wire_link w i) @ map (\<lambda>(_, _, f). f) (filter (\<lambda>(t, j, _). t \<le> now \<and> j = i) (vw_pending w))"
    and "vw_pending (wire_pump now w) = filter (\<lambda>(t, _, _). t > now) (vw_pending w)"
    and "length (vw_store (wire_pump now w)) = length (vw_store w)"
proof -
  have *: "filter (\<lambda>(_, j, _). j = i) (filter (\<lambda>(t, _, _). t \<le> now) xs) = filter (\<lambda>(t, j, _). t \<le> now \<and> j = i) xs"
    for xs :: "(time \<times> link_id \<times> bytes) list"
    by (induction xs) auto
  show "sl_queue (wire_link (wire_pump now w) i)
       = sl_queue (wire_link w i) @ map (\<lambda>(_, _, f). f) (filter (\<lambda>(t, j, _). t \<le> now \<and> j = i) (vw_pending w))"
    unfolding pump_eq * [symmetric] using assms by (subst fold_enqueue_queue) (simp_all add: wire_link_def)
  show "vw_pending (wire_pump now w) = filter (\<lambda>(t, _, _). t > now) (vw_pending w)"
    "length (vw_store (wire_pump now w)) = length (vw_store w)"
    by (simp_all add: pump_eq)
qed

lemma fold_enqueue_attached:
  "sl_attached (wire_link (fold (\<lambda>(_, peer, frame). link_enqueue peer frame) due w) i) = sl_attached (wire_link w i)"
proof (induction due arbitrary: w)
  case (Cons d due)
  obtain t j g where "d = (t, j, g)" by (cases d)
  with Cons.IH [of "link_enqueue j g w"] show ?case
    by (cases "j < length (vw_store w)")
      (auto simp: link_enqueue_def wire_update_link_def wire_link_def nth_list_update list_update_beyond)
qed simp

lemma pump_attached: "sl_attached (wire_link (wire_pump now w) i) = sl_attached (wire_link w i)"
  unfolding pump_eq fold_enqueue_attached by (simp add: wire_link_def)

text \<open>What one endpoint can still receive: its queue and what is pending for it.\<close>

definition incoming :: "virtual_wire \<Rightarrow> link_id \<Rightarrow> time \<Rightarrow> bytes \<Rightarrow> bool" where
  "incoming w i until g \<longleftrightarrow>
     g \<in> set (sl_queue (wire_link w i))
     \<or> sl_attached (wire_link w i) \<and> (\<exists>t \<le> until. (t, i, g) \<in> set (vw_pending w))"

lemma incoming_mono: "incoming w i t g \<Longrightarrow> t \<le> t' \<Longrightarrow> incoming w i t' g"
  unfolding incoming_def by (meson order_trans)

lemma incoming_pump:
  assumes "i < length (vw_store w)" and "sl_attached (wire_link w i)"
  shows "incoming (wire_pump now w) i t g \<longleftrightarrow> incoming w i (max now t) g"
proof -
  let ?Q = "set (sl_queue (wire_link w i))" and ?P = "set (vw_pending w)"
  have q: "g \<in> set (sl_queue (wire_link (wire_pump now w) i)) \<longleftrightarrow> g \<in> ?Q \<or> (\<exists>s \<le> now. (s, i, g) \<in> ?P)"
    using pump_delivers(1) [OF assms(1), of now] by force
  have p: "(s, i, g) \<in> set (vw_pending (wire_pump now w)) \<longleftrightarrow> now < s \<and> (s, i, g) \<in> ?P" for s
    using pump_delivers(2) [OF assms(1), of now] by auto
  show ?thesis
    unfolding incoming_def q p pump_attached using assms(2) by (meson le_max_iff_disj not_le)
qed

text \<open>The first round of the loop.\<close>

lemma recv_round:
  assumes "i < length (vw_store w)"
  obtains (got) g where "snd (link_recv_frame i (Some d) (now # clock) w) = Some (Some g)" and "incoming w i now g"
  | (waits) w1 where "\<And>g. \<not> incoming w i now g" and "i < length (vw_store w1)"
      and "\<And>t g. now \<le> t \<Longrightarrow> incoming w1 i t g \<longleftrightarrow> incoming w i t g"
      and "snd (link_recv_frame i (Some d) (now # clock) w)
         = (if d \<le> now then Some None else snd (link_recv_frame i (Some d) clock w1))"
proof -
  define w1 where "w1 = (if sl_attached (wire_link w i) then wire_pump now w else w)"
  have len: "i < length (vw_store w1)" using assms pump_delivers(3) [OF assms] by (simp add: w1_def)
  have inc: "incoming w1 i t g \<longleftrightarrow> incoming w i t g" if "now \<le> t" for t g
    using incoming_pump [OF assms, of now t g] that by (simp add: w1_def max_absorb2)
  show thesis
  proof (cases "sl_queue (wire_link w1 i)")
    case (Cons g rest)
    have "incoming w1 i now g" by (simp add: incoming_def Cons)
    then have "incoming w i now g" using inc by simp
    moreover have "snd (link_recv_frame i (Some d) (now # clock) w) = Some (Some g)"
      by (simp add: w1_def [symmetric] link_get_def Cons)
    ultimately show thesis by (rule got [rotated])
  next
    case Nil
    have "\<not> incoming w i now g" for g
    proof
      assume "incoming w i now g"
      then have a: "incoming w1 i now g" using inc by simp
      then have "sl_attached (wire_link w i)" "\<exists>t \<le> now. (t, i, g) \<in> set (vw_pending w1)"
        using Nil by (auto simp: incoming_def w1_def pump_attached split: if_splits)
      then show False using pump_delivers(2) [OF assms, of now] by (auto simp: w1_def)
    qed
    moreover have "snd (link_recv_frame i (Some d) (now # clock) w)
         = (if d \<le> now then Some None else snd (link_recv_frame i (Some d) clock w1))"
      by (simp add: w1_def [symmetric] link_get_def Nil)
    ultimately show thesis using waits len inc by blast
  qed
qed

text \<open>\<open>recv_frame\<close> with a deadline returns once the clock has reached it: with a frame that waited or
  fell due before the last reading, or without one, and then nothing was there for this endpoint by the
  deadline.\<close>

lemma recv_frame_returns:
  assumes "i < length (vw_store w)" and "now \<in> set clock" and "d \<le> now"
  shows "\<exists>got. snd (link_recv_frame i (Some d) clock w) = Some got
     \<and> (\<forall>g. got = Some g \<longrightarrow> (\<exists>t \<in> set clock. incoming w i t g))
     \<and> (got = None \<longrightarrow> (\<forall>g. \<not> incoming w i d g))"
  using assms
proof (induction clock arbitrary: w now)
  case (Cons c clock)
  show ?case
  proof (cases rule: recv_round [OF Cons.prems(1), of d c clock, case_names got waits])
    case (got g)
    then show ?thesis by auto
  next
    case (waits w1)
    show ?thesis
    proof (cases "d \<le> c")
      case True
      then have "\<not> incoming w i d g" for g using waits(1) [of g] incoming_mono [of w i d g c] by blast
      with True waits(4) show ?thesis by auto
    next
      case False
      with Cons.prems obtain now' where "now' \<in> set clock" "d \<le> now'" by auto
      from Cons.IH [OF waits(2) this] obtain got where got: "snd (link_recv_frame i (Some d) clock w1) = Some got"
        and some: "\<forall>g. got = Some g \<longrightarrow> (\<exists>t \<in> set clock. incoming w1 i t g)"
        and none: "got = None \<longrightarrow> (\<forall>g. \<not> incoming w1 i d g)"
        by blast
      have "\<exists>t \<in> set (c # clock). incoming w i t g" if g: "got = Some g" for g
      proof -
        obtain t where t: "t \<in> set clock" "incoming w1 i t g" using some g by blast
        then have "incoming w1 i (max c t) g" using incoming_mono [of w1 i t g "max c t"] by simp
        then have "incoming w i (max c t) g" using waits(3) by simp
        then show ?thesis using t(1) by (auto simp: max_def split: if_splits)
      qed
      moreover have "\<not> incoming w i d g" if "got = None" for g using none that waits(3) [of d g] False by simp
      moreover have "snd (link_recv_frame i (Some d) (c # clock) w) = Some got" using got waits(4) False by simp
      ultimately show ?thesis by blast
    qed
  qed
qed simp

lemma recv_frame_returns_witness:
  "\<exists>got. snd (link_recv_frame 1 (Some 3) [1, 2, 4] sample_wire) = Some got
     \<and> (got = None \<longrightarrow> (\<forall>g. \<not> incoming sample_wire 1 3 g))"
proof -
  have "1 < length (vw_store sample_wire)" by code_simp
  from recv_frame_returns [OF this, of 4 "[1, 2, 4]" 3] show ?thesis by auto
qed

section \<open>Draining, perfect wires and closed endpoints\<close>

lemma link_get_cons:
  "i < length (vw_store w) \<Longrightarrow> sl_queue (wire_link w i) = f # fs \<Longrightarrow>
     link_get i w = (wire_update_link i (\<lambda>l. l\<lparr>sl_queue := fs\<rparr>) w, Some f)"
  by (simp add: link_get_def)

lemma update_queue_queue [simp]:
  "i < length (vw_store w) \<Longrightarrow> sl_queue (wire_link (wire_update_link i (\<lambda>l. l\<lparr>sl_queue := q\<rparr>) w) i) = q"
  "length (vw_store (wire_update_link i f w)) = length (vw_store w)"
  by (simp_all add: wire_update_link_def wire_link_def)

lemma update_queue_twice [simp]:
  "i < length (vw_store w) \<Longrightarrow>
     wire_update_link i (\<lambda>l. l\<lparr>sl_queue := p\<rparr>) (wire_update_link i (\<lambda>l. l\<lparr>sl_queue := q\<rparr>) w)
       = wire_update_link i (\<lambda>l. l\<lparr>sl_queue := p\<rparr>) w"
  by (simp add: wire_update_link_def wire_link_def)

lemma update_queue_same: "i < length (vw_store w) \<Longrightarrow> sl_queue (wire_link w i) = q \<Longrightarrow>
     wire_update_link i (\<lambda>l. l\<lparr>sl_queue := q\<rparr>) w = w"
  by (auto simp: wire_update_link_def wire_link_def)

lemma drain_loop_all:
  "i < length (vw_store w) \<Longrightarrow> sl_queue (wire_link w i) = q \<Longrightarrow>
     link_drain_loop (Suc (length q)) i out w = Some (wire_update_link i (\<lambda>l. l\<lparr>sl_queue := []\<rparr>) w, out @ q)"
proof (induction q arbitrary: w out)
  case Nil
  then show ?case using update_queue_same [OF Nil] by (simp add: link_get_def)
next
  case (Cons f fs)
  from Cons.IH [of "wire_update_link i (\<lambda>l. l\<lparr>sl_queue := fs\<rparr>) w" "out @ [f]"] Cons.prems show ?case
    by (simp add: link_get_cons)
qed

text \<open>\<open>drain\<close> returns the whole queue in order and leaves it empty.\<close>

lemma link_drain_all:
  "i < length (vw_store w) \<Longrightarrow>
     link_drain i w = Some (wire_update_link i (\<lambda>l. l\<lparr>sl_queue := []\<rparr>) w, sl_queue (wire_link w i))"
  by (simp only: link_drain_def drain_loop_all append_Nil)

text \<open>Without faults a frame is at once the last in the queue of every other live endpoint, once, and nowhere
  else.\<close>

definition faultless :: "fault_profile \<Rightarrow> bool" where
  "faultless p \<longleftrightarrow> fp_loss p = 0 \<and> fp_duplicate p = 0 \<and> fp_reorder p = 0 \<and> fp_corrupt p = 0 \<and> snd (fp_delay_ms p) \<le> 0"

lemma fold_deliver_queue:
  "j < length (vw_store w) \<Longrightarrow> distinct peers \<Longrightarrow>
     sl_queue (wire_link (fold (wire_deliver now 0 f) peers w) j)
       = sl_queue (wire_link w j) @ (if j \<in> set peers then [f] else [])"
proof (induction peers arbitrary: w)
  case (Cons i peers)
  have "j < length (vw_store (link_enqueue i f w))" using Cons.prems by (simp add: link_enqueue_def)
  from Cons.IH [OF this] Cons.prems show ?case by (auto simp: wire_deliver_def enqueue_queue)
qed simp

lemma chance_zero [simp]: "wire_chance 0 v = (False, v)"
  by (simp add: wire_chance_def)

lemma faultless_steps:
  assumes "faultless (vw_fault v)"
  shows "wire_chance (fp_loss (vw_fault v)) v = (False, v)" "wire_corrupt f v = (f, v)" "wire_delay v = (0, v)" "wire_copies v = (1, v)"
  using assms
  by (cases "fp_delay_ms (vw_fault v)", simp add: faultless_def wire_corrupt_def wire_delay_def wire_copies_def)+

lemma faultless_transmit_delivers:
  assumes "faultless (vw_fault w)" and "distinct (vw_links w)" and "j < length (vw_store w)"
  shows "sl_queue (wire_link (wire_transmit i f now w) j)
       = sl_queue (wire_link w j) @ (if j \<in> set (vw_links w) \<and> j \<noteq> i \<and> sl_up (wire_link w j) then [f] else [])"
proof -
  let ?w0 = "if vw_on_frame w then w\<lparr>vw_seen := vw_seen w @ [(i, f)]\<rparr> else w"
  let ?w1 = "?w0\<lparr>vw_transmitted := vw_transmitted ?w0 + 1\<rparr>"
  have "wire_transmit i f now w = fold (wire_deliver now 0 f) (wire_peers i w) ?w1"
  proof -
    have "faultless (vw_fault ?w1)" using assms(1) by simp
    note steps = faultless_steps [OF this]
    have peers: "wire_peers i ?w1 = wire_peers i w" by (simp add: wire_peers_def wire_link_def)
    have "wire_transmit i f now w
        = (if wire_peers i w = [] then ?w1 else fold (wire_deliver now 0 f) (concat (replicate 1 (wire_peers i w))) ?w1)"
      unfolding wire_transmit_def Let_def peers steps prod.case if_False ..
    then show ?thesis by simp
  qed
  moreover have "distinct (wire_peers i w)" "j \<in> set (wire_peers i w) \<longleftrightarrow> j \<in> set (vw_links w) \<and> j \<noteq> i \<and> sl_up (wire_link w j)"
    using assms(2) by (auto simp: wire_peers_def)
  moreover have "sl_queue (wire_link ?w1 j) = sl_queue (wire_link w j)" "j < length (vw_store ?w1)"
    using assms(3) by (simp_all add: wire_link_def)
  ultimately show ?thesis using fold_deliver_queue [of j ?w1 "wire_peers i w" now f] by simp
qed

text \<open>A closed endpoint still receives what was under way to it: \<open>pump\<close> does not look at \<open>is_up\<close>.\<close>

lemma closed_endpoint_receives:
  assumes "i < length (vw_store w)" and "(t, i, g) \<in> set (vw_pending w)" and "t \<le> now"
  shows "\<not> sl_up (wire_link (link_close i w) i)"
    and "g \<in> set (sl_queue (wire_link (wire_pump now (link_close i w)) i))"
proof -
  have w: "i < length (vw_store (link_close i w))" "vw_pending (link_close i w) = vw_pending w"
    using assms(1) by (simp_all add: link_close_def wire_detach_def wire_update_link_def Let_def)
  show "\<not> sl_up (wire_link (link_close i w) i)"
    using assms(1) by (simp add: link_close_def wire_detach_def wire_update_link_def wire_link_def Let_def)
  show "g \<in> set (sl_queue (wire_link (wire_pump now (link_close i w)) i))"
    using assms(2,3) unfolding pump_delivers(1) [OF w(1)] w(2) by force
qed

end
