(* ===== verification/Tun.thy ===== *)
theory Tun
  imports IPv4_Text Ethernet
begin

text \<open>
  \<open>minitcp/link/tun.py\<close>: an Ethernet interface backed by a TAP device of Linux.

  \<^item> The operating system is the argument \<open>os\<close>: a record of the calls the module makes, each a function of the
    state \<open>'w\<close> of the world. What the theorems rely on is \<open>system_ok\<close>, the documented life of file descriptors.
  \<^item> An interface name is a list of code points, encoded by \<open>str.encode("utf-8")\<close>; the text of the address file is
    ASCII. \<open>struct.pack("16sH", ...)\<close> is native, here little endian. Locks are left out.
\<close>

section \<open>The operating system\<close>

record 'w system =
  os_fcntl :: bool
  os_exists :: "string \<Rightarrow> 'w \<Rightarrow> bool"
  os_open :: "string \<Rightarrow> 'w \<Rightarrow> (py_error + int) \<times> 'w"
  os_ioctl :: "int \<Rightarrow> int \<Rightarrow> bytes \<Rightarrow> 'w \<Rightarrow> (py_error + unit) \<times> 'w"
  os_write :: "int \<Rightarrow> bytes \<Rightarrow> 'w \<Rightarrow> (py_error + int) \<times> 'w"
  os_select :: "int \<Rightarrow> time \<Rightarrow> 'w \<Rightarrow> (py_error + bool) \<times> 'w"
  os_read :: "int \<Rightarrow> int \<Rightarrow> 'w \<Rightarrow> (py_error + bytes) \<times> 'w"
  os_close :: "int \<Rightarrow> 'w \<Rightarrow> (py_error + unit) \<times> 'w"
  os_read_text :: "int list \<Rightarrow> 'w \<Rightarrow> (py_error + string) \<times> 'w"

text \<open>\<open>except OSError as exc: raise LinkError\<close>.\<close>

definition as_link_error :: "py_error \<Rightarrow> py_error" where
  "as_link_error e = (if is_os_error e then LinkError else e)"


section \<open>Constants and helpers\<close>

definition TUNSETIFF :: int where "TUNSETIFF = 0x400454CA"
definition IFF_TAP :: int where "IFF_TAP = 0x0002"
definition IFF_NO_PI :: int where "IFF_NO_PI = 0x1000"
definition IFNAMSIZ :: int where "IFNAMSIZ = 16"

definition DEFAULT_DEVICE :: string where "DEFAULT_DEVICE = ''/dev/net/tun''"

definition load_platform_modules :: "'w system \<Rightarrow> py_error + unit" where
  "load_platform_modules os = (if os_fcntl os then Inr () else Inl LinkError)"

definition TUN_AVAILABLE :: "'w system \<Rightarrow> 'w \<Rightarrow> bool" where
  "TUN_AVAILABLE os w =
     (if \<not> os_exists os DEFAULT_DEVICE w then False
      else case load_platform_modules os of Inl _ \<Rightarrow> False | Inr _ \<Rightarrow> True)"

text \<open>\<open>name.encode("utf-8")\<close>: surrogates are a \<open>UnicodeEncodeError\<close>, a kind of \<open>ValueError\<close>.\<close>

definition utf8_char :: "int \<Rightarrow> py_error + bytes" where
  "utf8_char c =
     (if 0xD800 \<le> c \<and> c \<le> 0xDFFF then Inl ValueError
      else Inr (map of_int
        (if c < 0x80 then [c]
         else if c < 0x800 then [0xC0 + c div 64, 0x80 + c mod 64]
         else if c < 0x10000 then [0xE0 + c div 4096, 0x80 + c div 64 mod 64, 0x80 + c mod 64]
         else [0xF0 + c div 262144, 0x80 + c div 4096 mod 64, 0x80 + c div 64 mod 64, 0x80 + c mod 64])))"

fun utf8_encode :: "int list \<Rightarrow> py_error + bytes" where
  "utf8_encode [] = Inr []"
| "utf8_encode (c # cs) = sum_bind (utf8_char c) (\<lambda>b. sum_bind (utf8_encode cs) (\<lambda>bs. Inr (b @ bs)))"

text \<open>\<open>struct.pack("16sH", name, flags)\<close>: the name is cut or filled with zeros to 16 bytes.\<close>

definition pack_ifreq :: "bytes \<Rightarrow> int \<Rightarrow> bytes" where
  "pack_ifreq name flags =
     take 16 name @ replicate (16 - length name) 0 @ [of_int (flags mod 256), of_int (flags div 256)]"

definition tun_request :: "int list \<Rightarrow> py_error + bytes" where
  "tun_request name = sum_bind (utf8_encode name) (\<lambda>b. Inr (pack_ifreq b (IFF_TAP OR IFF_NO_PI)))"


section \<open>The hardware address\<close>

text \<open>\<open>text.strip()\<close> and \<open>int(part, 16)\<close>, with its spaces, sign, prefix and single underscores.\<close>

definition is_str_space :: "char \<Rightarrow> bool" where
  "is_str_space c \<longleftrightarrow> is_space c \<or> (of_char c :: nat) \<in> {28, 29, 30, 31}"

definition strip_chars :: "(char \<Rightarrow> bool) \<Rightarrow> string \<Rightarrow> string" where
  "strip_chars P s = rev (dropWhile P (rev (dropWhile P s)))"

fun hex_run :: "bool \<Rightarrow> nat \<Rightarrow> string \<Rightarrow> nat option" where
  "hex_run after_digit n [] = (if after_digit then Some n else None)"
| "hex_run after_digit n (c # cs) =
     (if c = CHR ''_'' then if after_digit then hex_run False n cs else None
      else case hex_value c of None \<Rightarrow> None | Some d \<Rightarrow> hex_run True (16 * n + d) cs)"

fun hex_unsigned :: "string \<Rightarrow> nat option" where
  "hex_unsigned (z # x # cs) =
     (if z = CHR ''0'' \<and> (x = CHR ''x'' \<or> x = CHR ''X'')
      then hex_run False 0 (case cs of [] \<Rightarrow> [] | c # cs' \<Rightarrow> if c = CHR ''_'' then cs' else cs)
      else hex_run False 0 (z # x # cs))"
| "hex_unsigned cs = hex_run False 0 cs"

definition int_base16 :: "string \<Rightarrow> py_error + int" where
  "int_base16 text =
     (let s = strip_chars is_space text;
          r = (case s of
                 [] \<Rightarrow> None
               | c # cs \<Rightarrow>
                   if c = CHR ''-'' then map_option (\<lambda>n. - int n) (hex_unsigned cs)
                   else if c = CHR ''+'' then map_option int (hex_unsigned cs)
                   else map_option int (hex_unsigned s))
      in case r of None \<Rightarrow> Inl ValueError | Some n \<Rightarrow> Inr n)"

fun bytes_of_parts :: "string list \<Rightarrow> py_error + bytes" where
  "bytes_of_parts [] = Inr []"
| "bytes_of_parts (part # parts) =
     sum_bind (int_base16 part) (\<lambda>n. if n < 0 \<or> 255 < n then Inl ValueError
       else sum_bind (bytes_of_parts parts) (\<lambda>bs. Inr (of_int n # bs)))"

definition address_path :: "int list \<Rightarrow> int list" where
  "address_path name = map of_char ''/sys/class/net/'' @ name @ map of_char ''/address''"

definition parse_hardware_address :: "string \<Rightarrow> bytes option" where
  "parse_hardware_address text =
     (case bytes_of_parts (split_at (CHR '':'') (strip_chars is_str_space text)) of Inl _ \<Rightarrow> None | Inr b \<Rightarrow> Some b)"

definition read_hardware_address :: "'w system \<Rightarrow> int list \<Rightarrow> 'w \<Rightarrow> (py_error + bytes option) \<times> 'w" where
  "read_hardware_address os name w =
     (case os_read_text os (address_path name) w of
        (Inl e, w1) \<Rightarrow> (if is_os_error e then Inr None else Inl e, w1)
      | (Inr text, w1) \<Rightarrow> (Inr (parse_hardware_address text), w1))"


section \<open>The link\<close>

record tun_link =
  tl_name :: "int list"
  tl_mtu :: int
  tl_device :: string
  tl_fd :: int
  tl_mac :: bytes

text \<open>The second \<open>try\<close> of the constructor: build the request and attach the descriptor to the interface.\<close>

definition tun_attach :: "'w system \<Rightarrow> int \<Rightarrow> int list \<Rightarrow> 'w \<Rightarrow> (py_error + unit) \<times> 'w" where
  "tun_attach os fd name w =
     (case tun_request name of
        Inl e \<Rightarrow> (Inl e, w)
      | Inr request \<Rightarrow>
          (case os_ioctl os fd TUNSETIFF request w of
             (Inr _, w1) \<Rightarrow> (Inr (), w1)
           | (Inl e, w1) \<Rightarrow>
               if is_os_error e then
                 (case os_close os fd w1 of (Inl e', w2) \<Rightarrow> (Inl e', w2) | (Inr _, w2) \<Rightarrow> (Inl LinkError, w2))
               else (Inl e, w1)))"

definition TunLink_init :: "'w system \<Rightarrow> int list \<Rightarrow> int \<Rightarrow> string \<Rightarrow> 'w \<Rightarrow> (py_error + tun_link) \<times> 'w" where
  "TunLink_init os name mtu device w =
     (case load_platform_modules os of
        Inl e \<Rightarrow> (Inl e, w)
      | Inr _ \<Rightarrow>
          if IFNAMSIZ \<le> len name then (Inl LinkError, w)
          else case os_open os device w of
            (Inl e, w1) \<Rightarrow> (Inl (as_link_error e), w1)
          | (Inr fd, w1) \<Rightarrow>
              (case tun_attach os fd name w1 of
                 (Inl e, w2) \<Rightarrow> (Inl e, w2)
               | (Inr _, w2) \<Rightarrow>
                   (case read_hardware_address os name w2 of
                      (Inl e, w3) \<Rightarrow> (Inl e, w3)
                    | (Inr addr, w3) \<Rightarrow>
                        (Inr \<lparr>tl_name = name, tl_mtu = mtu, tl_device = device, tl_fd = fd,
                           tl_mac = (if addr = None \<or> addr = Some [] then [2, 0, 0, 0, 0, 1] else the addr)\<rparr>, w3))))"

definition tun_mac :: "tun_link \<Rightarrow> bytes" where
  "tun_mac t = tl_mac t"

definition tun_fileno :: "tun_link \<Rightarrow> int" where
  "tun_fileno t = tl_fd t"

definition tun_send_frame :: "'w system \<Rightarrow> bytes \<Rightarrow> tun_link \<Rightarrow> 'w \<Rightarrow> (py_error + unit) \<times> 'w" where
  "tun_send_frame os frame t w =
     (case os_write os (tl_fd t) frame w of
        (Inl e, w1) \<Rightarrow> (Inl (as_link_error e), w1)
      | (Inr _, w1) \<Rightarrow> (Inr (), w1))"

text \<open>\<open>try: return os.read(...) except OSError: return None\<close>.\<close>

definition tun_read :: "'w system \<Rightarrow> tun_link \<Rightarrow> 'w \<Rightarrow> (py_error + bytes option) \<times> 'w" where
  "tun_read os t w =
     (case os_read os (tl_fd t) (tl_mtu t + 18) w of
        (Inl e, w1) \<Rightarrow> (if is_os_error e then Inr None else Inl e, w1)
      | (Inr b, w1) \<Rightarrow> (Inr (Some b), w1))"

definition tun_recv_frame :: "'w system \<Rightarrow> time option \<Rightarrow> tun_link \<Rightarrow> 'w \<Rightarrow> (py_error + bytes option) \<times> 'w" where
  "tun_recv_frame os timeout t w =
     (if tl_fd t < 0 then (Inr None, w)
      else case timeout of
        None \<Rightarrow> tun_read os t w
      | Some s \<Rightarrow>
          (case os_select os (tl_fd t) s w of
             (Inl e, w1) \<Rightarrow> (Inl e, w1)
           | (Inr ready, w1) \<Rightarrow> if \<not> ready then (Inr None, w1) else tun_read os t w1))"

definition tun_close :: "'w system \<Rightarrow> tun_link \<Rightarrow> 'w \<Rightarrow> (py_error + unit) \<times> tun_link \<times> 'w" where
  "tun_close os t w =
     (let fd = tl_fd t; t1 = t\<lparr>tl_fd := -1\<rparr>
      in if fd \<ge> 0 then
           (case os_close os fd w of
              (Inl e, w1) \<Rightarrow> (if is_os_error e then Inr () else Inl e, t1, w1)
            | (Inr _, w1) \<Rightarrow> (Inr (), t1, w1))
         else (Inr (), t1, w))"

section \<open>The life of the descriptor\<close>

text \<open>What POSIX says of descriptors, \<open>fds w\<close> being the open ones: \<open>open\<close> gives a new one, \<open>close\<close> releases one
  even when it reports an error, nothing else opens or closes any, and a closed one cannot be written.\<close>

definition system_ok :: "'w system \<Rightarrow> ('w \<Rightarrow> int set) \<Rightarrow> bool" where
  "system_ok os fds \<longleftrightarrow>
     (\<forall>device w r w'. os_open os device w = (r, w') \<longrightarrow>
        (case r of Inl e \<Rightarrow> is_os_error e \<and> fds w' = fds w | Inr fd \<Rightarrow> 0 \<le> fd \<and> fd \<notin> fds w \<and> fds w' = insert fd (fds w)))
     \<and> (\<forall>fd request arg w r w'. os_ioctl os fd request arg w = (r, w') \<longrightarrow> fds w' = fds w \<and> (\<forall>e. r = Inl e \<longrightarrow> is_os_error e))
     \<and> (\<forall>fd b w r w'. os_write os fd b w = (r, w') \<longrightarrow> fds w' = fds w \<and> (fd < 0 \<or> fd \<notin> fds w \<longrightarrow> r = Inl OSError))
     \<and> (\<forall>fd s w r w'. os_select os fd s w = (r, w') \<longrightarrow> fds w' = fds w)
     \<and> (\<forall>fd n w r w'. os_read os fd n w = (r, w') \<longrightarrow> fds w' = fds w)
     \<and> (\<forall>fd w r w'. os_close os fd w = (r, w') \<longrightarrow> fds w' = fds w - {fd} \<and> (\<forall>e. r = Inl e \<longrightarrow> is_os_error e))
     \<and> (\<forall>path w r w'. os_read_text os path w = (r, w') \<longrightarrow> fds w' = fds w)"

lemma system_okD:
  assumes "system_ok os fds"
  shows "os_open os device w = (Inl e, w') \<Longrightarrow> is_os_error e \<and> fds w' = fds w"
    and "os_open os device w = (Inr fd, w') \<Longrightarrow> 0 \<le> fd \<and> fd \<notin> fds w \<and> fds w' = insert fd (fds w)"
    and "os_ioctl os fd request arg w = (r, w') \<Longrightarrow> fds w' = fds w \<and> (\<forall>e. r = Inl e \<longrightarrow> is_os_error e)"
    and "os_write os fd b w = (r', w') \<Longrightarrow> fds w' = fds w \<and> (fd < 0 \<or> fd \<notin> fds w \<longrightarrow> r' = Inl OSError)"
    and "os_select os fd s w = (sr, w') \<Longrightarrow> fds w' = fds w"
    and "os_read os fd n w = (rr, w') \<Longrightarrow> fds w' = fds w"
    and "os_close os fd w = (r, w') \<Longrightarrow> fds w' = fds w - {fd} \<and> (\<forall>e. r = Inl e \<longrightarrow> is_os_error e)"
    and "os_read_text os path w = (tr, w') \<Longrightarrow> fds w' = fds w"
  using assms by (fastforce simp: system_ok_def)+

lemma read_hardware_address_fds:
  "system_ok os fds \<Longrightarrow> read_hardware_address os name w = (r, w') \<Longrightarrow> fds w' = fds w"
  by (auto simp: read_hardware_address_def split: prod.splits sum.splits dest: system_okD(8))

text \<open>Attaching a descriptor keeps it on success, and gives it back when the kernel refuses.\<close>

lemma tun_attach_fds:
  assumes "system_ok os fds" and "tun_attach os fd name w = (r, w')" and "utf8_encode name = Inr b"
  shows "case r of Inl e \<Rightarrow> fds w' = fds w - {fd} \<and> (e = LinkError \<or> is_os_error e) | Inr _ \<Rightarrow> fds w' = fds w"
  using assms(2,3)
  by (auto simp: tun_attach_def tun_request_def split: prod.splits sum.splits if_splits dest!: system_okD(3,7) [OF assms(1)])

lemma TunLink_init_fds:
  assumes "system_ok os fds" and "TunLink_init os name mtu device w = (Inr t, w')"
  shows "0 \<le> tl_fd t \<and> tl_fd t \<notin> fds w \<and> fds w' = insert (tl_fd t) (fds w)"
proof -
  obtain w1 w2 where opened: "os_open os device w = (Inr (tl_fd t), w1)" and attached: "tun_attach os (tl_fd t) name w1 = (Inr (), w2)"
    and addr: "snd (read_hardware_address os name w2) = w'"
    using assms(2) by (auto simp: TunLink_init_def split: prod.splits sum.splits if_splits)
  have "fds w2 = fds w1"
    using attached by (auto simp: tun_attach_def split: prod.splits sum.splits if_splits dest: system_okD(3) [OF assms(1)])
  then show ?thesis
    using system_okD(2) [OF assms(1) opened] read_hardware_address_fds [OF assms(1), of name w2 "fst (read_hardware_address os name w2)" w'] addr
    by (simp add: prod_eq_iff)
qed

lemma tun_close_fds:
  assumes "system_ok os fds" and "tun_close os t w = (r, t', w')"
  shows "r = Inr () \<and> tl_fd t' = -1 \<and> fds w' = fds w - (if 0 \<le> tl_fd t then {tl_fd t} else {})"
  using assms(2)
  by (auto simp: tun_close_def Let_def split: prod.splits sum.splits if_splits dest!: system_okD(7) [OF assms(1)])

text \<open>Frames come and go without opening or closing anything.\<close>

lemma tun_frames_fds:
  assumes "system_ok os fds"
  shows "tun_send_frame os frame t w = (r, w') \<Longrightarrow> fds w' = fds w"
    and "tun_recv_frame os timeout t w = (r', w') \<Longrightarrow> fds w' = fds w"
proof -
  have read: "tun_read os t w = (r', w') \<Longrightarrow> fds w' = fds w" for w r' w'
    by (auto simp: tun_read_def split: prod.splits sum.splits dest: system_okD(6) [OF assms])
  show "tun_send_frame os frame t w = (r, w') \<Longrightarrow> fds w' = fds w"
    by (auto simp: tun_send_frame_def split: prod.splits sum.splits dest: system_okD(4) [OF assms])
  show "tun_recv_frame os timeout t w = (r', w') \<Longrightarrow> fds w' = fds w"
    by (auto simp: tun_recv_frame_def split: prod.splits sum.splits if_splits option.splits
        dest: system_okD(5) [OF assms] read)
qed

lemma closed_tun:
  assumes "tl_fd t < 0"
  shows "tun_close os t w = (Inr (), t\<lparr>tl_fd := -1\<rparr>, w)" and "tun_recv_frame os timeout t w = (Inr None, w)"
    and "system_ok os fds \<Longrightarrow> fst (tun_send_frame os frame t w) = Inl LinkError"
  using assms system_okD(4) [of os fds "tl_fd t" frame w]
  by (auto simp: tun_close_def tun_recv_frame_def tun_send_frame_def as_link_error_def Let_def split: prod.splits sum.splits)

text \<open>A constructor that raises has opened nothing, when the name can be encoded and the address file, if it can be
  opened, is text.\<close>

lemma TunLink_init_refused:
  assumes "system_ok os fds" and "utf8_encode name = Inr b"
    and "\<And>v e. fst (os_read_text os (address_path name) v) = Inl e \<Longrightarrow> is_os_error e"
    and "TunLink_init os name mtu device w = (Inl e, w')"
  shows "fds w' = fds w \<and> (e = LinkError \<or> is_os_error e)"
proof -
  have no_error: "fst (read_hardware_address os name v) \<noteq> Inl e'" for v e'
    using assms(3) [of v] by (auto simp: read_hardware_address_def split: prod.splits sum.splits)
  consider "fds w' = fds w" "e = LinkError"
    | e' where "os_open os device w = (Inl e', w')" "e = as_link_error e'"
    | fd w1 where "os_open os device w = (Inr fd, w1)" "tun_attach os fd name w1 = (Inl e, w')"
    using assms(4) no_error
    by (auto simp: TunLink_init_def load_platform_modules_def split: prod.splits sum.splits if_splits)
      (metis fst_conv)+
  then show ?thesis
  proof cases
    case 2
    then show ?thesis using system_okD(1) [OF assms(1)] by (auto simp: as_link_error_def)
  next
    case 3
    then show ?thesis
      using tun_attach_fds [OF assms(1) 3(2) assms(2)] system_okD(2) [OF assms(1) 3(1)] by auto
  qed simp
qed


text \<open>A machine with one TAP device for the witness: it counts the descriptors it has given out.\<close>

definition sample_system :: "(nat \<times> int list) system" where
  "sample_system =
     \<lparr>os_fcntl = True, os_exists = (\<lambda>_ _. True),
      os_open = (\<lambda>_ (n, open_fds). (Inr (int n), (n + 1, int n # open_fds))),
      os_ioctl = (\<lambda>_ _ request w. (if hd request = 116 then Inr () else Inl OSError, w)),
      os_write = (\<lambda>fd b (n, open_fds). (if 0 \<le> fd \<and> fd < int n \<and> fd \<in> set open_fds then Inr (len b) else Inl OSError, (n, open_fds))),
      os_select = (\<lambda>_ _ w. (Inr False, w)), os_read = (\<lambda>_ _ w. (Inl OSError, w)),
      os_close = (\<lambda>fd (n, open_fds). (Inr (), (n, removeAll fd open_fds))),
      os_read_text = (\<lambda>_ w. (Inr ''02:00:00:00:00:07'', w))\<rparr>"

definition sample_fds :: "nat \<times> int list \<Rightarrow> int set" where
  "sample_fds w = set (filter (\<lambda>fd. 0 \<le> fd \<and> fd < int (fst w)) (snd w))"



section \<open>What the name becomes\<close>

text \<open>An ASCII name that is short enough arrives whole, closed by a zero, with the flags behind it.\<close>

lemma utf8_ascii: "list_all (\<lambda>c. 0 \<le> c \<and> c < 0x80) name \<Longrightarrow> utf8_encode name = Inr (map of_int name)"
  by (induction name) (simp_all add: utf8_char_def)

lemma ascii_request:
  assumes "list_all (\<lambda>c. 0 \<le> c \<and> c < 0x80) name" and "len name < IFNAMSIZ"
  shows "tun_request name = Inr (map of_int name @ replicate (16 - length name) 0 @ [0x02, 0x10])"
  using assms by (simp add: tun_request_def utf8_ascii pack_ifreq_def IFNAMSIZ_def IFF_TAP_def IFF_NO_PI_def)

text \<open>The limit of 15 counts characters, the field 16 bytes: two names of nine characters ask for the same device.\<close>

lemma long_names_collide:
  "len (replicate 8 233 @ [97]) < IFNAMSIZ" "tun_request (replicate 8 233 @ [97]) = tun_request (replicate 8 233 @ [98])"
  by (simp add: IFNAMSIZ_def) (simp add: tun_request_def utf8_char_def pack_ifreq_def numeral_eq_Suc)

text \<open>A name with a lone surrogate raises a \<open>ValueError\<close> and leaves the descriptor open.\<close>

lemma unencodable_name_leaks:
  assumes "system_ok os fds" and "os_fcntl os" and "len name < IFNAMSIZ" and "utf8_encode name = Inl e"
    and "os_open os device w = (Inr fd, w1)"
  shows "TunLink_init os name mtu device w = (Inl e, w1) \<and> fds w1 = insert fd (fds w) \<and> fd \<notin> fds w"
  using assms system_okD(2) [OF assms(1,5)]
  by (simp add: TunLink_init_def load_platform_modules_def tun_attach_def tun_request_def)


section \<open>The address file\<close>

lemma hex_digit_not_underscore: "n < 16 \<Longrightarrow> hex_digit n \<noteq> CHR ''_'' \<and> hex_digit n \<noteq> CHR ''x'' \<and> hex_digit n \<noteq> CHR ''X''
    \<and> hex_digit n \<noteq> CHR ''-'' \<and> hex_digit n \<noteq> CHR ''+'' \<and> \<not> is_str_space (hex_digit n)"
proof -
  assume n: "n < 16"
  then have "(of_char (hex_digit n) :: nat) \<noteq> of_char (CHR ''_'')" "(of_char (hex_digit n) :: nat) \<noteq> of_char (CHR ''x'')"
    "(of_char (hex_digit n) :: nat) \<noteq> of_char (CHR ''X'')" "(of_char (hex_digit n) :: nat) \<noteq> of_char (CHR ''+'')"
    by (auto simp: hex_digit_def)
  moreover have "\<not> is_str_space (hex_digit n)" using n by (auto simp: is_str_space_def is_space_def hex_digit_def)
  ultimately show ?thesis using hex_digit_plain [OF n] unfolding of_char_eq_iff by simp
qed

lemma int_base16_digits:
  assumes "h < 16" and "l < 16"
  shows "int_base16 [hex_digit h, hex_digit l] = Inr (int (16 * h + l))"
proof -
  note h = hex_digit_not_underscore [OF assms(1)] hex_digit_plain [OF assms(1)]
    and l = hex_digit_not_underscore [OF assms(2)] hex_digit_plain [OF assms(2)]
  have strip: "strip_chars is_space [hex_digit h, hex_digit l] = [hex_digit h, hex_digit l]" using h l by (simp add: strip_chars_def)
  have "hex_unsigned [hex_digit h, hex_digit l] = hex_run False 0 [hex_digit h, hex_digit l]" using l by simp
  also have "\<dots> = Some (16 * h + l)" using h l assms by (simp add: hex_value_digit del: hex_value.simps)
  finally show ?thesis using h by (simp add: int_base16_def strip del: hex_unsigned.simps)
qed

lemma int_base16_byte: "int_base16 (hex_byte b) = Inr (uint b)"
proof -
  have "16 * (unat b div 16) + unat b mod 16 = unat b" by simp
  moreover have "int (unat b) = uint b" by simp
  moreover have "unat b div 16 < 16" "unat b mod 16 < 16" using unat_byte_lt [of b] by simp_all
  ultimately show ?thesis using int_base16_digits [of "unat b div 16" "unat b mod 16"] by (metis hex_byte_def)
qed

lemma bytes_of_hex: "bytes_of_parts (map hex_byte bs) = Inr bs"
proof (induction bs)
  case (Cons b bs)
  have "int (unat b) = uint b" by simp
  then have "\<not> uint b < 0" "\<not> 255 < uint b" using unat_byte_lt [of b] by linarith+
  then show ?case using Cons by (simp only: list.map bytes_of_parts.simps int_base16_byte sum_bind_simps) simp
qed simp

lemma mac_to_str_join: "mac_to_str bs = join_at (CHR '':'') (map hex_byte bs)"
  by (induction bs rule: mac_to_str.induct) simp_all

lemma split_join: "\<forall>p \<in> set ps. sep \<notin> set p \<Longrightarrow> ps \<noteq> [] \<Longrightarrow> split_at sep (join_at sep ps) = ps"
  by (induction sep ps rule: join_at.induct) (simp_all add: split_at_part split_at_last)

lemma strip_trailing:
  assumes "s \<noteq> [] \<and> \<not> P (hd s) \<and> \<not> P (last s)" and "P c"
  shows "strip_chars P (s @ [c]) = s"
proof -
  have "dropWhile P (s @ [c]) = s @ [c]" using assms by (cases s) simp_all
  moreover have "dropWhile P (rev s) = rev s" using assms by (simp add: dropWhile_eq_self_iff hd_rev)
  ultimately show ?thesis using assms(2) by (simp add: strip_chars_def)
qed

text \<open>The file the kernel writes, colon-separated octets and a newline, gives the address back.\<close>

lemma hardware_address_roundtrip:
  assumes "mac \<noteq> []"
  shows "parse_hardware_address (mac_to_str mac @ [CHR 0x0A]) = Some mac"
proof -
  have digits: "unat b div 16 < 16" "unat b mod 16 < 16" for b :: byte using unat_byte_lt [of b] by simp_all
  have plain: "\<not> is_str_space (hd (hex_byte b))" "\<not> is_str_space (last (hex_byte b))" "CHR '':'' \<notin> set (hex_byte b)" "hex_byte b \<noteq> []" for b
    using hex_digit_not_underscore [OF digits(1), of b] hex_digit_not_underscore [OF digits(2), of b]
      hex_digit_plain [OF digits(1), of b] hex_digit_plain [OF digits(2), of b] by (auto simp: hex_byte_def)
  have ends: "mac_to_str bs \<noteq> [] \<and> \<not> is_str_space (hd (mac_to_str bs)) \<and> \<not> is_str_space (last (mac_to_str bs))" if "bs \<noteq> []" for bs
    using that plain by (induction bs rule: mac_to_str.induct) auto
  have "is_str_space (CHR 0x0A)" by (simp add: is_str_space_def is_space_def)
  then have "strip_chars is_str_space (mac_to_str mac @ [CHR 0x0A]) = mac_to_str mac"
    using strip_trailing [of _ is_str_space] ends [OF assms] by blast
  moreover have "split_at (CHR '':'') (mac_to_str mac) = map hex_byte mac"
    unfolding mac_to_str_join by (rule split_join) (use plain(3) assms in auto)
  ultimately show ?thesis by (simp add: parse_hardware_address_def bytes_of_hex)
qed

end
