(* ===== verification/Pcap.thy ===== *)
theory Pcap
  imports Byteio
begin

text \<open>
  \<open>minitcp/pcap.py\<close>: the writer of capture files.

  \<^item> The file is the list of the bytes written so far, with the flag \<open>pw_closed\<close>. Whether \<open>open\<close>
    succeeds is an argument; writes to an open file succeed.
  \<^item> The reader at the end is not in the program: it is the pcap format, and states what the bytes mean.
\<close>

section \<open>Little-endian fields\<close>

text \<open>\<open>struct\<close>'s \<open><H\<close> and \<open><I\<close>, and \<open><i\<close>, which has a sign.\<close>

definition le16 :: "int \<Rightarrow> bytes" where
  "le16 v = rev (be16 v)"

definition le32 :: "int \<Rightarrow> bytes" where
  "le32 v = rev (be32 v)"

datatype lfield = LH int | LI int | LSI int

fun lpack_field :: "lfield \<Rightarrow> py_error + bytes" where
  "lpack_field (LH v) = (if 0 \<le> v \<and> v < 2 ^ 16 then Inr (le16 v) else Inl StructError)"
| "lpack_field (LI v) = (if 0 \<le> v \<and> v < 2 ^ 32 then Inr (le32 v) else Inl StructError)"
| "lpack_field (LSI v) = (if - (2 ^ 31) \<le> v \<and> v < 2 ^ 31 then Inr (le32 v) else Inl StructError)"

fun lstruct_pack :: "lfield list \<Rightarrow> py_error + bytes" where
  "lstruct_pack [] = Inr []"
| "lstruct_pack (f # fs) = sum_bind (lpack_field f) (\<lambda>b. sum_bind (lstruct_pack fs) (\<lambda>bs. Inr (b @ bs)))"

definition get_le32 :: "bytes \<Rightarrow> nat \<Rightarrow> int" where
  "get_le32 d i = get_u32 (rev (take 4 (drop i d))) 0"

lemma length_le [simp]: "length (le16 v) = 2" "length (le32 v) = 4" "le32 v \<noteq> []"
  by (simp_all add: le16_def le32_def) (simp add: be32_def)

lemma get_le32_at:
  "d = p @ le32 v @ r \<Longrightarrow> length p = n \<Longrightarrow> 0 \<le> v \<Longrightarrow> v < 2 ^ 32 \<Longrightarrow> get_le32 d n = v"
  using get_u32_be32 [of v "[]"] by (simp add: get_le32_def le32_def)


section \<open>The writer\<close>

definition PCAP_MAGIC :: int where "PCAP_MAGIC = 0xA1B2C3D4"
definition PCAP_VERSION_MAJOR :: int where "PCAP_VERSION_MAJOR = 2"
definition PCAP_VERSION_MINOR :: int where "PCAP_VERSION_MINOR = 4"
definition LINKTYPE_ETHERNET :: int where "LINKTYPE_ETHERNET = 1"
definition DEFAULT_SNAPLEN :: int where "DEFAULT_SNAPLEN = 65535"

record pcap_writer =
  pw_snaplen :: int
  pw_file :: bytes
  pw_closed :: bool
  pw_packets :: int
  pw_bytes :: int

definition PcapWriter :: "bool \<Rightarrow> int \<Rightarrow> py_error + pcap_writer" where
  "PcapWriter opens snaplen =
     (if \<not> opens then Inl OSError
      else
        sum_bind (lstruct_pack [LI PCAP_MAGIC, LH PCAP_VERSION_MAJOR, LH PCAP_VERSION_MINOR, LSI 0, LI 0, LI snaplen,
                                LI LINKTYPE_ETHERNET])
          (\<lambda>header. Inr \<lparr>pw_snaplen = snaplen, pw_file = header, pw_closed = False, pw_packets = 0, pw_bytes = 0\<rparr>))"

text \<open>Python's \<open>int\<close> of a number, which drops the fraction, and \<open>round\<close>, which goes to the even neighbour
  from halfway.\<close>

definition py_trunc :: "rat \<Rightarrow> int" where
  "py_trunc x = (if 0 \<le> x then \<lfloor>x\<rfloor> else \<lceil>x\<rceil>)"

definition py_round :: "rat \<Rightarrow> int" where
  "py_round x =
     (let d = x - of_int \<lfloor>x\<rfloor>
      in if d < 1 / 2 then \<lfloor>x\<rfloor> else if d > 1 / 2 then \<lfloor>x\<rfloor> + 1 else if even \<lfloor>x\<rfloor> then \<lfloor>x\<rfloor> else \<lfloor>x\<rfloor> + 1)"

definition pcap_stamp :: "time \<Rightarrow> int \<times> int" where
  "pcap_stamp when =
     (let seconds = py_trunc when;
          microseconds = py_round ((when - of_int seconds) * 1000000)
      in if microseconds \<ge> 1000000 then (seconds + 1, microseconds - 1000000) else (seconds, microseconds))"

text \<open>\<open>now\<close> is the reading of \<open>time.time()\<close>.\<close>

definition pcap_write :: "time \<Rightarrow> bytes \<Rightarrow> time option \<Rightarrow> pcap_writer \<Rightarrow> py_error + pcap_writer" where
  "pcap_write now frame timestamp w =
     (if pw_closed w then Inl ValueError
      else
        let when = (case timestamp of None \<Rightarrow> now | Some t \<Rightarrow> t);
            (seconds, microseconds) = pcap_stamp when;
            captured = py_upto frame (pw_snaplen w)
        in sum_bind (lstruct_pack [LI seconds, LI microseconds, LI (len captured), LI (len frame)])
             (\<lambda>header. Inr (w\<lparr>pw_file := pw_file w @ header @ captured, pw_packets := pw_packets w + 1,
                              pw_bytes := pw_bytes w + len captured\<rparr>)))"

definition pcap_close :: "pcap_writer \<Rightarrow> pcap_writer" where
  "pcap_close w = (if \<not> pw_closed w then w\<lparr>pw_closed := True\<rparr> else w)"

definition pcap_packet_count :: "pcap_writer \<Rightarrow> int" where
  "pcap_packet_count w = pw_packets w"

definition pcap_byte_count :: "pcap_writer \<Rightarrow> int" where
  "pcap_byte_count w = pw_bytes w"

definition pcap_len :: "pcap_writer \<Rightarrow> int" where
  "pcap_len w = pw_packets w"


section \<open>Time stamps\<close>

lemma py_round_near: "\<bar>of_int (py_round x) - x\<bar> \<le> 1 / 2"
proof -
  have "of_int \<lfloor>x\<rfloor> \<le> x" "x < of_int \<lfloor>x\<rfloor> + 1" by linarith+
  then show ?thesis by (auto simp: py_round_def Let_def abs_le_iff)
qed

lemma py_round_between: "of_int a \<le> x \<Longrightarrow> x \<le> of_int b \<Longrightarrow> a \<le> py_round x \<and> py_round x \<le> b"
proof -
  assume "of_int a \<le> x" "x \<le> of_int b"
  moreover have "of_int (py_round x) \<le> x + 1 / 2" "x - 1 / 2 \<le> of_int (py_round x)"
    using py_round_near [of x] unfolding abs_le_iff by linarith+
  ultimately have "rat_of_int (py_round x) < of_int (b + 1)" "rat_of_int a < of_int (py_round x + 1)" by simp_all
  then show ?thesis unfolding of_int_less_iff by simp
qed

text \<open>A stamp is within half a microsecond of the time, and its fraction is below a second.\<close>

lemma pcap_stamp_range:
  assumes "0 \<le> t" and "pcap_stamp t = (s, u)"
  shows "0 \<le> u" and "u < 1000000" and "of_int s \<le> t + 1" and "0 \<le> s"
    and "\<bar>of_int s + of_int u / 1000000 - t\<bar> \<le> 1 / 2000000"
proof -
  let ?s = "\<lfloor>t\<rfloor>" and ?x = "(t - of_int \<lfloor>t\<rfloor>) * 1000000"
  have f: "of_int ?s \<le> t" "t < of_int ?s + 1" "0 \<le> ?s" "of_int ?s \<le> t + 1" using assms(1) by simp_all linarith+
  then have "0 \<le> py_round ?x \<and> py_round ?x \<le> 1000000" by (intro py_round_between) simp_all
  moreover have su: "(s, u) = (if py_round ?x \<ge> 1000000 then (?s + 1, py_round ?x - 1000000) else (?s, py_round ?x))"
    using assms(2) unfolding pcap_stamp_def py_trunc_def Let_def by (simp only: assms(1) if_True split: if_split)
  ultimately show "0 \<le> u" "u < 1000000" "of_int s \<le> t + 1" "0 \<le> s"
    using f by (auto split: if_splits)
  have "of_int s + of_int u / 1000000 = of_int ?s + (of_int (py_round ?x) / 1000000 :: rat)"
    using su by (auto split: if_splits simp: field_simps)
  then show "\<bar>of_int s + of_int u / 1000000 - t\<bar> \<le> 1 / 2000000"
    using py_round_near [of ?x] unfolding abs_le_iff by (auto simp: field_simps)
qed


section \<open>The format\<close>

text \<open>Reading a capture file by its format: the header with the magic number and the link type, then records
  of seconds, microseconds, original length and captured bytes.\<close>

type_synonym pcap_packet = "int \<times> int \<times> int \<times> bytes"

function pcap_records :: "bytes \<Rightarrow> pcap_packet list option" where
  "pcap_records d =
     (if d = [] then Some []
      else if length d < 16 \<or> length d < 16 + nat (get_le32 d 8) then None
      else
        let n = nat (get_le32 d 8);
            p = (get_le32 d 0, get_le32 d 4, get_le32 d 12, take n (drop 16 d))
        in map_option (Cons p) (pcap_records (drop (16 + n) d)))"
  by pat_completeness auto
termination by (relation "measure length") auto

declare pcap_records.simps [simp del]

definition pcap_read :: "bytes \<Rightarrow> (int \<times> pcap_packet list) option" where
  "pcap_read d =
     (if length d < 24 \<or> get_le32 d 0 \<noteq> 0xA1B2C3D4 \<or> get_le32 d 20 \<noteq> 1 then None
      else map_option (Pair (get_le32 d 16)) (pcap_records (drop 24 d)))"

definition pcap_record :: "int \<Rightarrow> bytes \<times> time \<Rightarrow> bytes" where
  "pcap_record s ft = (case ft of (f, t) \<Rightarrow> case pcap_stamp t of (sec, us) \<Rightarrow>
     le32 sec @ le32 us @ le32 (len (py_upto f s)) @ le32 (len f) @ py_upto f s)"

definition pcap_packet :: "int \<Rightarrow> bytes \<times> time \<Rightarrow> pcap_packet" where
  "pcap_packet s ft = (case ft of (f, t) \<Rightarrow> case pcap_stamp t of (sec, us) \<Rightarrow> (sec, us, len f, take (nat s) f))"

text \<open>Frames and times the format can represent.\<close>

definition pcap_fits :: "bytes \<times> time \<Rightarrow> bool" where
  "pcap_fits ft \<longleftrightarrow> len (fst ft) < 2 ^ 32 \<and> 0 \<le> snd ft \<and> snd ft < 2 ^ 32 - 1"

lemma pcap_stamp_fits:
  assumes "pcap_fits (f, t)" and "pcap_stamp t = (sec, us)"
  shows "0 \<le> sec" "sec < 2 ^ 32" "0 \<le> us" "us < 2 ^ 32"
proof -
  have t: "0 \<le> t" "t < 2 ^ 32 - 1" using assms(1) by (simp_all add: pcap_fits_def)
  note r = pcap_stamp_range [OF t(1) assms(2)]
  have "rat_of_int sec < rat_of_int (2 ^ 32)"
    by (rule le_less_trans [OF r(3)]) (use t(2) in simp)
  then have "sec < 2 ^ 32" by (simp only: of_int_less_iff)
  then show "0 \<le> sec" "sec < 2 ^ 32" "0 \<le> us" "us < 2 ^ 32" using r by simp_all
qed

lemma pcap_write_fits:
  assumes "pcap_fits (f, t)" and "\<not> pw_closed w" and "0 \<le> pw_snaplen w"
  shows "pcap_write now f (Some t) w = Inr (w\<lparr>pw_file := pw_file w @ pcap_record (pw_snaplen w) (f, t),
    pw_packets := pw_packets w + 1, pw_bytes := pw_bytes w + min (pw_snaplen w) (len f)\<rparr>)"
proof -
  obtain sec us where s: "pcap_stamp t = (sec, us)" by (cases "pcap_stamp t")
  note r = pcap_stamp_fits [OF assms(1) s]
  have f: "len f < 2 ^ 32" using assms(1) by (simp add: pcap_fits_def)
  then have c: "len (take (nat (pw_snaplen w)) f) < 2 ^ 32" by simp
  show ?thesis using assms(2,3) r f c by (simp add: pcap_write_def s pcap_record_def)
qed

lemma pcap_records_step:
  assumes "pcap_fits ft" and "0 \<le> s"
  shows "pcap_records (pcap_record s ft @ d) = map_option (Cons (pcap_packet s ft)) (pcap_records d)"
proof -
  obtain f t where ft: "ft = (f, t)" by (cases ft)
  obtain sec us where st: "pcap_stamp t = (sec, us)" by (cases "pcap_stamp t")
  note r = pcap_stamp_fits [OF assms(1) [unfolded ft] st]
  let ?c = "take (nat s) f"
  have f: "len f < 2 ^ 32" using assms(1) by (simp add: pcap_fits_def ft)
  then have c: "len ?c < 2 ^ 32" by simp
  let ?r = "pcap_record s ft @ d"
  have eq: "?r = le32 sec @ le32 us @ le32 (len ?c) @ le32 (len f) @ ?c @ d"
    using assms(2) by (simp add: pcap_record_def ft st)
  have g0: "get_le32 ?r 0 = sec" by (rule get_le32_at [of _ "[]"]) (use r in \<open>simp_all add: eq\<close>)
  have g4: "get_le32 ?r 4 = us" by (rule get_le32_at [of _ "le32 sec"]) (use r in \<open>simp_all add: eq\<close>)
  have g8: "get_le32 ?r 8 = len ?c" by (rule get_le32_at [of _ "le32 sec @ le32 us"]) (use c in \<open>simp_all add: eq\<close>)
  have g12: "get_le32 ?r 12 = len f"
    by (rule get_le32_at [of _ "le32 sec @ le32 us @ le32 (len ?c)"]) (use f in \<open>simp_all add: eq\<close>)
  have len: "length ?r = 16 + length ?c + length d" and ne: "?r \<noteq> []" unfolding eq by auto
  have "take (length ?c) (drop 16 ?r) = ?c" "drop (16 + length ?c) ?r = d"
    unfolding eq by (simp_all only: append_assoc [symmetric]) (simp_all add: drop_append)
  moreover have "pcap_packet s ft = (sec, us, len f, ?c)" by (simp add: pcap_packet_def ft st)
  moreover have "nat (get_le32 ?r 8) = length ?c" unfolding g8 by simp
  ultimately show ?thesis
    using ne len unfolding pcap_records.simps [of ?r] by (simp only: g0 g4 g12 Let_def) auto
qed

text \<open>Writing frames one after another; \<open>now\<close> plays no part, since every frame comes with its time.\<close>

fun pcap_write_all :: "time \<Rightarrow> (bytes \<times> time) list \<Rightarrow> pcap_writer \<Rightarrow> py_error + pcap_writer" where
  "pcap_write_all now [] w = Inr w"
| "pcap_write_all now ((f, t) # fts) w = sum_bind (pcap_write now f (Some t) w) (pcap_write_all now fts)"

lemma pcap_write_all_fits:
  assumes "\<forall>ft \<in> set fts. pcap_fits ft" and "\<not> pw_closed w" and "0 \<le> pw_snaplen w"
  obtains w' where "pcap_write_all now fts w = Inr w'" and "pw_packets w' = pw_packets w + len fts"
    and "pw_file w' = pw_file w @ concat (map (pcap_record (pw_snaplen w)) fts)"
  using assms
proof (induction fts arbitrary: w thesis)
  case (Cons ft fts)
  obtain f t where ft: "ft = (f, t)" by (cases ft)
  let ?w1 = "w\<lparr>pw_file := pw_file w @ pcap_record (pw_snaplen w) ft, pw_packets := pw_packets w + 1,
    pw_bytes := pw_bytes w + min (pw_snaplen w) (len f)\<rparr>"
  have "pcap_write now f (Some t) w = Inr ?w1" using pcap_write_fits [of f t w now] Cons.prems(2-4) by (simp add: ft)
  then have run: "pcap_write_all now (ft # fts) w = pcap_write_all now fts ?w1" by (simp add: ft)
  show ?case
    by (rule Cons.IH [of ?w1]) (use Cons.prems run in \<open>simp_all\<close>)
qed simp

lemma pcap_records_concat:
  "0 \<le> s \<Longrightarrow> \<forall>ft \<in> set fts. pcap_fits ft \<Longrightarrow>
     pcap_records (concat (map (pcap_record s) fts)) = Some (map (pcap_packet s) fts)"
  by (induction fts) (simp_all add: pcap_records_step pcap_records.simps [of "[]"])

lemma PcapWriter_header:
  assumes "0 \<le> s" and "s < 2 ^ 32"
  obtains w where "PcapWriter True s = Inr w" and "pw_snaplen w = s" and "\<not> pw_closed w" and "pw_packets w = 0"
    and "pw_file w = le32 0xA1B2C3D4 @ le16 2 @ le16 4 @ le32 0 @ le32 0 @ le32 s @ le32 1"
  using assms
  by (simp add: PcapWriter_def PCAP_MAGIC_def PCAP_VERSION_MAJOR_def PCAP_VERSION_MINOR_def LINKTYPE_ETHERNET_def)

text \<open>C14. Reading a capture back by the pcap format gives what was written: the snapshot length, and for each
  frame, in order, its stamp, its length and its first \<open>snaplen\<close> bytes.\<close>

theorem pcap_roundtrip:
  assumes "0 \<le> s" and "s < 2 ^ 32" and "\<forall>ft \<in> set fts. pcap_fits ft"
  shows "\<exists>w. sum_bind (PcapWriter True s) (pcap_write_all now fts) = Inr w \<and> pcap_packet_count w = len fts
     \<and> pcap_read (pw_file w) = Some (s, map (pcap_packet s) fts)"
proof -
  obtain w0 where w0: "PcapWriter True s = Inr w0" "pw_snaplen w0 = s" "\<not> pw_closed w0" "pw_packets w0 = 0"
    and capture: "pw_file w0 = le32 0xA1B2C3D4 @ le16 2 @ le16 4 @ le32 0 @ le32 0 @ le32 s @ le32 1"
    by (rule PcapWriter_header [OF assms(1,2)])
  obtain w where w: "pcap_write_all now fts w0 = Inr w" "pw_packets w = len fts"
    and data: "pw_file w = pw_file w0 @ concat (map (pcap_record s) fts)"
    by (rule pcap_write_all_fits [of fts w0 now]) (use assms w0 in auto)
  let ?d = "pw_file w"
  have eq: "?d = le32 0xA1B2C3D4 @ le16 2 @ le16 4 @ le32 0 @ le32 0 @ le32 s @ le32 1 @ concat (map (pcap_record s) fts)"
    using data capture by simp
  have "get_le32 ?d 0 = 0xA1B2C3D4" by (rule get_le32_at [of _ "[]"]) (simp_all add: eq)
  moreover have "get_le32 ?d 16 = s"
    by (rule get_le32_at [of _ "le32 0xA1B2C3D4 @ le16 2 @ le16 4 @ le32 0 @ le32 0"]) (use assms in \<open>simp_all add: eq\<close>)
  moreover have "get_le32 ?d 20 = 1"
    by (rule get_le32_at [of _ "le32 0xA1B2C3D4 @ le16 2 @ le16 4 @ le32 0 @ le32 0 @ le32 s"]) (simp_all add: eq)
  moreover have "drop 24 ?d = concat (map (pcap_record s) fts)" "\<not> length ?d < 24" by (simp_all add: eq)
  ultimately have "pcap_read ?d = Some (s, map (pcap_packet s) fts)"
    using pcap_records_concat [OF assms(1,3)] by (simp add: pcap_read_def)
  with w w0(1) show ?thesis by (simp add: pcap_packet_count_def)
qed

theorem pcap_roundtrip_witness:
  "\<exists>w. sum_bind (PcapWriter True 2) (pcap_write_all 0 [([7, 8, 9], 3 / 2)]) = Inr w
     \<and> pcap_read (pw_file w) = Some (2, [(1, 500000, 3, [7, 8])])"
proof -
  have "pcap_fits ([7, 8, 9], 3 / 2)" by (simp add: pcap_fits_def)
  moreover have "pcap_stamp (3 / 2) = (1, 500000)" by code_simp
  ultimately show ?thesis using pcap_roundtrip [of 2 "[([7, 8, 9], 3 / 2)]" 0] by (auto simp: pcap_packet_def)
qed

text \<open>A closed writer refuses frames, and closing twice is closing once.\<close>

lemma pcap_closed:
  "pcap_write now f t (pcap_close w) = Inl ValueError" "pcap_close (pcap_close w) = pcap_close w"
  by (simp_all add: pcap_write_def pcap_close_def)

text \<open>A time before 1970 cannot be written.\<close>

lemma pcap_negative_time:
  "\<not> pw_closed w \<Longrightarrow> t \<le> - 1 \<Longrightarrow> pcap_write now f (Some t) w = Inl StructError"
proof -
  assume "\<not> pw_closed w" "t \<le> - 1"
  moreover from this have "\<lceil>t\<rceil> \<le> - 1" by (simp add: ceiling_le_iff)
  moreover have "py_round ((t - of_int \<lceil>t\<rceil>) * 1000000) \<le> 0"
    using py_round_between [of "\<lfloor>(t - of_int \<lceil>t\<rceil>) * 1000000\<rfloor>" "(t - of_int \<lceil>t\<rceil>) * 1000000" 0] by simp
  ultimately show ?thesis by (simp add: pcap_write_def pcap_stamp_def py_trunc_def Let_def)
qed

end
