(* ===== verification/Socket.thy ===== *)
theory Socket
  imports Stack
begin

text \<open>
  \<open>minitcp/socket.py\<close>: the socket API on top of the stack.

  \<^item> The world is one stack, its sockets (a store: the handler a datagram socket registers is its index) and
    the clock. Threads other than the caller run while the caller waits: \<open>wd_future\<close> lists, for every time
    the caller goes to sleep, the reading of the clock when it wakes and what the others did to the stack.
  \<^item> An operation returns a value, raises, or is \<open>Blocked\<close>: still waiting when the future ends.
  \<^item> The waiting loops of \<open>Stack.tcp_accept\<close>, \<open>tcp_connect\<close> and \<open>tcp_close\<close> are modelled here. The
    length of a sleep is not: the clock may advance by anything. Handlers of UDP datagrams run with the
    frame that brings them; here they run when the other threads' step is over.
\<close>

section \<open>State\<close>

definition AF_INET :: int where "AF_INET = 2"
definition SOCK_STREAM :: int where "SOCK_STREAM = 1"
definition SOCK_DGRAM :: int where "SOCK_DGRAM = 2"
definition SHUT_RD :: int where "SHUT_RD = 0"
definition SHUT_WR :: int where "SHUT_WR = 1"
definition SHUT_RDWR :: int where "SHUT_RDWR = 2"

record sock =
  so_family :: int
  so_type :: int
  so_timeout :: "time option"
  so_bound_port :: "int option"
  so_conn :: "cid option"
  so_listener :: "cid option"
  so_closed :: bool
  so_udp_queue :: "(bytes \<times> string \<times> int) list"
  so_udp_event :: bool
  so_peer :: "(bytes \<times> int) option"

type_synonym sock_id = nat
type_synonym future = "(time \<times> (stack \<Rightarrow> stack)) list"

record world =
  wd_stack :: stack
  wd_socks :: "sock list"
  wd_now :: time
  wd_future :: future

datatype 'a outcome = Done 'a | Raised py_error | Blocked

type_synonym 'a prog = "world \<Rightarrow> world \<times> 'a outcome"

definition prog_return :: "'a \<Rightarrow> 'a prog" where
  "prog_return x w = (w, Done x)"

definition prog_raise :: "py_error \<Rightarrow> 'a prog" where
  "prog_raise e w = (w, Raised e)"

definition prog_bind :: "'a prog \<Rightarrow> ('a \<Rightarrow> 'b prog) \<Rightarrow> 'b prog" where
  "prog_bind m f w =
     (case m w of (w', Done x) \<Rightarrow> f x w' | (w', Raised e) \<Rightarrow> (w', Raised e) | (w', Blocked) \<Rightarrow> (w', Blocked))"

definition prog_then :: "unit prog \<Rightarrow> 'b prog \<Rightarrow> 'b prog" where
  "prog_then m k = prog_bind m (\<lambda>_. k)"

definition prog_lift :: "py_error + 'a \<Rightarrow> 'a prog" where
  "prog_lift r w = (case r of Inl e \<Rightarrow> (w, Raised e) | Inr x \<Rightarrow> (w, Done x))"

definition prog_modify :: "(world \<Rightarrow> world) \<Rightarrow> unit prog" where
  "prog_modify f w = (f w, Done ())"

text \<open>An operation of the stack, at the present time.\<close>

definition on_stack :: "(time \<Rightarrow> 'a act) \<Rightarrow> 'a prog" where
  "on_stack m w =
     (case m (wd_now w) (wd_stack w) of
        (s, Inl e) \<Rightarrow> (w\<lparr>wd_stack := s\<rparr>, Raised e)
      | (s, Inr x) \<Rightarrow> (w\<lparr>wd_stack := s\<rparr>, Done x))"

definition sock_at :: "world \<Rightarrow> sock_id \<Rightarrow> sock" where
  "sock_at w i = wd_socks w ! i"

definition sock_update :: "sock_id \<Rightarrow> (sock \<Rightarrow> sock) \<Rightarrow> world \<Rightarrow> world" where
  "sock_update i f w = w\<lparr>wd_socks := (wd_socks w)[i := f (sock_at w i)]\<rparr>"

definition world_conn :: "world \<Rightarrow> cid \<Rightarrow> conn" where
  "world_conn w c = ob_conn (stack_object (wd_stack w) c)"

text \<open>Python's \<open>p or 0\<close>.\<close>

fun or_zero :: "int option \<Rightarrow> int" where
  "or_zero None = 0"
| "or_zero (Some p) = p"


section \<open>Waiting\<close>

text \<open>\<open>_on_udp\<close>. The address of a datagram the stack accepted has four bytes.\<close>

definition sock_on_udp :: "bytes \<Rightarrow> bytes \<Rightarrow> int \<Rightarrow> sock \<Rightarrow> sock" where
  "sock_on_udp payload src_ip src_port so =
     (case ip_to_str src_ip of
        Inl e \<Rightarrow> so
      | Inr hostname \<Rightarrow> so\<lparr>so_udp_queue := so_udp_queue so @ [(payload, hostname, src_port)], so_udp_event := True\<rparr>)"

definition world_upcall :: "nat \<times> bytes \<times> bytes \<times> int \<Rightarrow> world \<Rightarrow> world" where
  "world_upcall u w = (case u of (h, payload, src_ip, src_port) \<Rightarrow> sock_update h (sock_on_udp payload src_ip src_port) w)"

definition world_deliver :: "world \<Rightarrow> world" where
  "world_deliver w = (fold world_upcall (st_upcalls (wd_stack w)) w)\<lparr>wd_stack := (wd_stack w)\<lparr>st_upcalls := []\<rparr>\<rparr>"

text \<open>One step of the other threads, ending at the time \<open>t\<close>.\<close>

definition world_turn :: "time \<Rightarrow> (stack \<Rightarrow> stack) \<Rightarrow> world \<Rightarrow> world" where
  "world_turn t f w = world_deliver (w\<lparr>wd_stack := f (wd_stack w), wd_now := t\<rparr>)"

text \<open>A loop that sleeps in every round it does not end in. A round ends the loop (\<open>Inl\<close>) or goes on with a
  new loop state after the sleep (\<open>Inr\<close>).\<close>

primrec poll_loop :: "future \<Rightarrow> ('s \<Rightarrow> world \<Rightarrow> world \<times> ('a outcome + 's)) \<Rightarrow> 's \<Rightarrow> world \<Rightarrow> world \<times> 'a outcome" where
  "poll_loop [] step x w = (case step x w of (w1, Inl r) \<Rightarrow> (w1, r) | (w1, Inr _) \<Rightarrow> (w1, Blocked))"
| "poll_loop (tf # rest) step x w =
     (case step x w of
        (w1, Inl r) \<Rightarrow> (w1, r)
      | (w1, Inr y) \<Rightarrow> poll_loop rest step y (world_turn (fst tf) (snd tf) (w1\<lparr>wd_future := rest\<rparr>)))"

definition poll :: "('s \<Rightarrow> world \<Rightarrow> world \<times> ('a outcome + 's)) \<Rightarrow> 's \<Rightarrow> 'a prog" where
  "poll step x w = poll_loop (wd_future w) step x w"

definition deadline_from :: "time option \<Rightarrow> world \<Rightarrow> time option" where
  "deadline_from timeout w = map_option (\<lambda>d. wd_now w + d) timeout"

text \<open>\<open>deadline is not None and deadline - time.monotonic() <= 0\<close>\<close>

definition expired :: "time option \<Rightarrow> world \<Rightarrow> bool" where
  "expired deadline w = (case deadline of None \<Rightarrow> False | Some d \<Rightarrow> d - wd_now w \<le> 0)"

text \<open>\<open>event.wait(timeout)\<close>: whether the event was set by then.\<close>

definition event_wait :: "(world \<Rightarrow> bool) \<Rightarrow> time option \<Rightarrow> bool prog" where
  "event_wait event timeout w =
     (let deadline = deadline_from timeout w
      in poll (\<lambda>_ w. if event w then (w, Inl (Done True)) else if expired deadline w then (w, Inl (Done False)) else (w, Inr ()))
           () w)"


section \<open>The stack's waiting calls\<close>

definition accept_round :: "int \<Rightarrow> time option \<Rightarrow> unit \<Rightarrow> world \<Rightarrow> world \<times> (cid outcome + unit)" where
  "accept_round port deadline u w =
     (case stack_tcp_accept port (wd_stack w) of
        (s, Inr (Some c)) \<Rightarrow> (w\<lparr>wd_stack := s\<rparr>, Inl (Done c))
      | _ \<Rightarrow> if expired deadline w then (w, Inl (Raised TimeoutError)) else (w, Inr ()))"

definition tcp_accept :: "int \<Rightarrow> time option \<Rightarrow> cid prog" where
  "tcp_accept port timeout w =
     (if map_of (st_accept_queues (wd_stack w)) port = None then (w, Raised StackError)
      else poll (accept_round port (deadline_from timeout w)) () w)"

definition tcp_connect :: "ip_arg \<Rightarrow> int \<Rightarrow> int \<Rightarrow> time \<Rightarrow> 32 word \<Rightarrow> cid prog" where
  "tcp_connect remote remote_port local_port timeout rnd =
     prog_bind (on_stack (stack_tcp_connect remote remote_port local_port rnd)) (\<lambda>c.
     prog_bind (event_wait (\<lambda>w. ob_established (stack_object (wd_stack w) c)) (Some timeout)) (\<lambda>waited.
     on_stack (stack_tcp_connect_finish waited c)))"

definition tcp_close :: "cid \<Rightarrow> time \<Rightarrow> unit prog" where
  "tcp_close c timeout =
     prog_then (on_stack (stack_tcp_close c))
       (\<lambda>w. let deadline = wd_now w + timeout
             in poll (\<lambda>_ w. if \<not> wd_now w < deadline \<or> conn_is_closed (world_conn w c) then (w, Inl (Done ())) else (w, Inr ()))
                  () w)"

text \<open>\<open>conn.send\<close>, \<open>conn.recv\<close>, \<open>conn.close\<close> and \<open>conn.abort\<close> of a connection of the stack.\<close>

definition stack_conn_send :: "cid \<Rightarrow> bytes \<Rightarrow> time \<Rightarrow> int act" where
  "stack_conn_send c data now s =
     act_bind (act_lift (conn_send data now (ob_conn (stack_object s c)))) (\<lambda>(conn, written).
       act_then (stack_update_conn c conn now) (act_return written)) s"

definition stack_conn_recv :: "cid \<Rightarrow> int \<Rightarrow> time \<Rightarrow> bytes act" where
  "stack_conn_recv c max_bytes now s =
     (let (conn, data) = conn_recv max_bytes now (ob_conn (stack_object s c))
      in act_then (stack_update_conn c conn now) (act_return data) s)"

definition stack_conn_abort :: "cid \<Rightarrow> time \<Rightarrow> unit act" where
  "stack_conn_abort c now s = stack_update_conn c (conn_abort now (ob_conn (stack_object s c))) now s"


section \<open>Addresses\<close>

definition new_sock :: "int \<Rightarrow> int \<Rightarrow> sock" where
  "new_sock family type' =
     \<lparr>so_family = family, so_type = type', so_timeout = None, so_bound_port = None, so_conn = None, so_listener = None,
      so_closed = False, so_udp_queue = [], so_udp_event = False, so_peer = None\<rparr>"

definition socket :: "int \<Rightarrow> int \<Rightarrow> sock_id prog" where
  "socket family type' w =
     (if family \<noteq> AF_INET then (w, Raised ValueError)
      else if \<not> (type' = SOCK_STREAM \<or> type' = SOCK_DGRAM) then (w, Raised ValueError)
      else (w\<lparr>wd_socks := wd_socks w @ [new_sock family type']\<rparr>, Done (length (wd_socks w))))"

definition sock_check_open :: "sock_id \<Rightarrow> unit prog" where
  "sock_check_open i w = (if so_closed (sock_at w i) then (w, Raised OSError) else (w, Done ()))"

text \<open>The host of the address is ignored.\<close>

definition sock_bind :: "sock_id \<Rightarrow> int \<Rightarrow> unit prog" where
  "sock_bind i port =
     prog_then (sock_check_open i) (\<lambda>w.
       if \<not> (0 \<le> port \<and> port \<le> 0xFFFF) then (w, Raised ValueError)
       else
         let w1 = sock_update i (so_bound_port_update (\<lambda>_. Some port)) w
         in if so_type (sock_at w1 i) = SOCK_DGRAM
            then (w1\<lparr>wd_stack := stack_udp_bind port i (wd_stack w1)\<rparr>, Done ()) else (w1, Done ()))"

definition sock_listen :: "sock_id \<Rightarrow> unit prog" where
  "sock_listen i =
     prog_then (sock_check_open i) (\<lambda>w.
       if so_type (sock_at w i) \<noteq> SOCK_STREAM then (w, Raised OSError)
       else
         case so_bound_port (sock_at w i) of
           None \<Rightarrow> (w, Raised OSError)
         | Some port \<Rightarrow>
             prog_bind (on_stack (\<lambda>_. stack_tcp_listen port)) (\<lambda>c.
               prog_modify (sock_update i (so_listener_update (\<lambda>_. Some c)))) w)"

text \<open>\<open>accept\<close> returns the new socket and the address of its peer. A listener was bound.\<close>

definition sock_accept :: "sock_id \<Rightarrow> (sock_id \<times> string \<times> int) prog" where
  "sock_accept i =
     prog_then (sock_check_open i) (\<lambda>w.
       if so_listener (sock_at w i) = None then (w, Raised OSError)
       else
         prog_bind (tcp_accept (or_zero (so_bound_port (sock_at w i))) (so_timeout (sock_at w i))) (\<lambda>child w.
           prog_bind (socket (so_family (sock_at w i)) (so_type (sock_at w i))) (\<lambda>peer w.
             let cfg = c_cfg (world_conn w child);
                 w1 = sock_update peer (\<lambda>so. so\<lparr>so_timeout := so_timeout (sock_at w i), so_conn := Some child,
                                                so_bound_port := Some (cfg_local_port cfg)\<rparr>) w
             in prog_bind (prog_lift (ip_to_str (cfg_remote_ip cfg))) (\<lambda>hostname.
                  prog_return (peer, hostname, cfg_remote_port cfg)) w1) w) w)"

definition sock_connect :: "sock_id \<Rightarrow> string \<Rightarrow> int \<Rightarrow> 32 word \<Rightarrow> unit prog" where
  "sock_connect i hostname port rnd =
     prog_then (sock_check_open i) (\<lambda>w.
       if so_type (sock_at w i) = SOCK_DGRAM then
         prog_bind (prog_lift (ip_to_bytes hostname)) (\<lambda>ip.
           prog_modify (sock_update i (\<lambda>so. so\<lparr>so_peer := Some (ip, port),
             so_bound_port := (case so_bound_port so of None \<Rightarrow> Some 0 | Some p \<Rightarrow> Some p)\<rparr>))) w
       else
         let timeout = (case so_timeout (sock_at w i) of None \<Rightarrow> 5 | Some d \<Rightarrow> d)
         in prog_bind (tcp_connect (IpText hostname) port (or_zero (so_bound_port (sock_at w i))) timeout rnd) (\<lambda>c.
              prog_modify (\<lambda>w. sock_update i (\<lambda>so. so\<lparr>so_conn := Some c,
                so_bound_port := Some (cfg_local_port (c_cfg (world_conn w c)))\<rparr>) w)) w)"

definition sock_connect_ex :: "sock_id \<Rightarrow> string \<Rightarrow> int \<Rightarrow> 32 word \<Rightarrow> int prog" where
  "sock_connect_ex i hostname port rnd w =
     (case sock_connect i hostname port rnd w of
        (w', Done _) \<Rightarrow> (w', Done 0)
      | (w', Raised e) \<Rightarrow> (w', if is_os_error e then Done 1 else Raised e)
      | (w', Blocked) \<Rightarrow> (w', Blocked))"

section \<open>Data transfer\<close>

text \<open>The stream part of \<open>send\<close>: what the connection does not take at once is offered again after each
  sleep.
  A round is one call of \<open>conn.send\<close> and the test of the loop that follows it.\<close>

definition conn_send_round :: "cid \<Rightarrow> bytes \<Rightarrow> int \<Rightarrow> world \<Rightarrow> world \<times> (int outcome + int)" where
  "conn_send_round c data written w =
     (case on_stack (stack_conn_send c (py_from data written)) w of
        (w1, Raised e) \<Rightarrow> (w1, Inl (Raised e))
      | (w1, Blocked) \<Rightarrow> (w1, Inl Blocked)
      | (w1, Done n) \<Rightarrow>
          if \<not> written + n < len data then (w1, Inl (Done (written + n)))
          else if is_closed (c_state (world_conn w1 c)) then (w1, Inl (Done (written + n)))
          else (w1, Inr (written + n)))"

definition sock_send :: "sock_id \<Rightarrow> bytes \<Rightarrow> int prog" where
  "sock_send i data =
     prog_then (sock_check_open i) (\<lambda>w.
       if data = [] then (w, Done 0)
       else if so_type (sock_at w i) = SOCK_DGRAM then
         case so_peer (sock_at w i) of
           None \<Rightarrow> (w, Raised OSError)
         | Some (ip, port) \<Rightarrow>
             prog_bind (on_stack (stack_udp_send data (IpBytes ip) port (or_zero (so_bound_port (sock_at w i))))) (\<lambda>ok.
               prog_return (if ok then len data else 0)) w
       else
         case so_conn (sock_at w i) of
           None \<Rightarrow> (w, Raised OSError)
         | Some c \<Rightarrow> poll (conn_send_round c data) 0 w)"

text \<open>The loop of \<open>sendall\<close>; \<open>fuel\<close> bounds its rounds. A round without progress sleeps, any other sends.\<close>

definition prog_sleep :: "unit prog" where
  "prog_sleep w =
     (case wd_future w of
        [] \<Rightarrow> (w, Blocked)
      | (t, f) # rest \<Rightarrow> (world_turn t f (w\<lparr>wd_future := rest\<rparr>), Done ()))"

fun sock_sendall_loop :: "nat \<Rightarrow> sock_id \<Rightarrow> bytes \<Rightarrow> int \<Rightarrow> unit prog" where
  "sock_sendall_loop 0 i data sent w = (w, if sent < len data then Blocked else Done ())"
| "sock_sendall_loop (Suc fuel) i data sent w =
     (if \<not> sent < len data then (w, Done ())
      else if (case so_conn (sock_at w i) of None \<Rightarrow> True | Some c \<Rightarrow> is_closed (c_state (world_conn w c)))
      then (w, Raised ConnectionResetError)
      else
        prog_bind (sock_send i (py_from data sent)) (\<lambda>chunk.
          prog_then (if chunk = 0 then prog_sleep else prog_return ())
            (sock_sendall_loop fuel i data (sent + chunk))) w)"

definition sock_sendall :: "sock_id \<Rightarrow> bytes \<Rightarrow> unit prog" where
  "sock_sendall i data =
     prog_bind (sock_send i data) (\<lambda>sent w. sock_sendall_loop (length data + length (wd_future w) + 1) i data sent w)"

definition sock_sendto :: "sock_id \<Rightarrow> bytes \<Rightarrow> string \<Rightarrow> int \<Rightarrow> int prog" where
  "sock_sendto i data hostname port =
     prog_then (sock_check_open i) (\<lambda>w.
       if so_type (sock_at w i) \<noteq> SOCK_DGRAM then (w, Raised OSError)
       else
         prog_bind (on_stack (stack_udp_send data (IpText hostname) port (or_zero (so_bound_port (sock_at w i))))) (\<lambda>ok.
           prog_return (if ok then len data else 0)) w)"

text \<open>\<open>recvfrom\<close>: each round of its loop waits for the event and clears it.\<close>

fun sock_recvfrom_loop :: "nat \<Rightarrow> sock_id \<Rightarrow> unit prog" where
  "sock_recvfrom_loop 0 i w = (w, Blocked)"
| "sock_recvfrom_loop (Suc fuel) i w =
     (if so_udp_queue (sock_at w i) \<noteq> [] then (w, Done ())
      else
        prog_bind (event_wait (\<lambda>w. so_udp_event (sock_at w i)) (so_timeout (sock_at w i))) (\<lambda>woken.
          if \<not> woken then prog_raise TimeoutError
          else prog_then (prog_modify (sock_update i (so_udp_event_update (\<lambda>_. False)))) (sock_recvfrom_loop fuel i)) w)"

definition sock_recvfrom :: "sock_id \<Rightarrow> int \<Rightarrow> (bytes \<times> string \<times> int) prog" where
  "sock_recvfrom i bufsize =
     prog_then (sock_check_open i) (\<lambda>w.
       if so_type (sock_at w i) \<noteq> SOCK_DGRAM then (w, Raised OSError)
       else
         prog_then (sock_recvfrom_loop (length (wd_future w) + 3) i) (\<lambda>w.
           case so_udp_queue (sock_at w i) of
             [] \<Rightarrow> (w, Blocked)
           | (payload, address) # rest \<Rightarrow>
               (sock_update i (so_udp_queue_update (\<lambda>_. rest)) w, Done (py_upto payload bufsize, address))) w)"

text \<open>A round of the stream part of \<open>recv\<close>, and the wait at its end.\<close>

definition conn_recv_round :: "cid \<Rightarrow> int \<Rightarrow> time option \<Rightarrow> unit \<Rightarrow> world \<Rightarrow> world \<times> (bytes outcome + unit)" where
  "conn_recv_round c bufsize deadline u w =
     (case on_stack (stack_conn_recv c bufsize) w of
        (w1, Raised e) \<Rightarrow> (w1, Inl (Raised e))
      | (w1, Blocked) \<Rightarrow> (w1, Inl Blocked)
      | (w1, Done data) \<Rightarrow>
          if data \<noteq> [] then (w1, Inl (Done data))
          else if is_closed (c_state (world_conn w1 c)) \<or> conn_peer_closed (world_conn w1 c) then (w1, Inl (Done []))
          else if expired deadline w1 then (w1, Inl (Raised TimeoutError))
          else (w1, Inr ()))"

definition sock_recv :: "sock_id \<Rightarrow> int \<Rightarrow> bytes prog" where
  "sock_recv i bufsize =
     prog_then (sock_check_open i) (\<lambda>w.
       if so_type (sock_at w i) = SOCK_DGRAM
       then prog_bind (sock_recvfrom i bufsize) (\<lambda>(payload, _). prog_return payload) w
       else
         case so_conn (sock_at w i) of
           None \<Rightarrow> (w, Raised OSError)
         | Some c \<Rightarrow> poll (conn_recv_round c bufsize (deadline_from (so_timeout (sock_at w i)) w)) () w)"

fun sock_recv_all_loop :: "nat \<Rightarrow> sock_id \<Rightarrow> int \<Rightarrow> bytes \<Rightarrow> bytes prog" where
  "sock_recv_all_loop 0 i chunk_size out w = (w, Blocked)"
| "sock_recv_all_loop (Suc fuel) i chunk_size out w =
     prog_bind (sock_recv i chunk_size) (\<lambda>chunk.
       if chunk = [] then prog_return out else sock_recv_all_loop fuel i chunk_size (out @ chunk)) w"

text \<open>\<open>fuel\<close> bounds the number of chunks.\<close>

definition sock_recv_all :: "nat \<Rightarrow> sock_id \<Rightarrow> int \<Rightarrow> bytes prog" where
  "sock_recv_all fuel i chunk_size = sock_recv_all_loop fuel i chunk_size []"


section \<open>Teardown and options\<close>

definition sock_shutdown :: "sock_id \<Rightarrow> int \<Rightarrow> unit prog" where
  "sock_shutdown i how w =
     (case so_conn (sock_at w i) of
        None \<Rightarrow> (w, Done ())
      | Some c \<Rightarrow> if how = SHUT_WR \<or> how = SHUT_RDWR then on_stack (stack_tcp_close c) w else (w, Done ()))"

definition sock_close :: "sock_id \<Rightarrow> unit prog" where
  "sock_close i w =
     (if so_closed (sock_at w i) then (w, Done ())
      else
        let w1 = sock_update i (so_closed_update (\<lambda>_. True)) w;
            w2 = (case so_bound_port (sock_at w1 i) of
                    None \<Rightarrow> w1
                  | Some port \<Rightarrow>
                      if so_type (sock_at w1 i) = SOCK_DGRAM then w1\<lparr>wd_stack := stack_udp_unbind port (wd_stack w1)\<rparr> else w1);
            forget = prog_modify (sock_update i (\<lambda>so. so\<lparr>so_conn := None, so_listener := None\<rparr>))
        in case so_conn (sock_at w2 i) of
             None \<Rightarrow> forget w2
           | Some c \<Rightarrow>
               (case tcp_close c 5 w2 of
                  (w3, Done _) \<Rightarrow> forget w3
                | (w3, Raised _) \<Rightarrow> prog_then (on_stack (stack_conn_abort c)) forget w3
                | (w3, Blocked) \<Rightarrow> (w3, Blocked)))"

definition sock_settimeout :: "sock_id \<Rightarrow> time option \<Rightarrow> unit prog" where
  "sock_settimeout i value = prog_modify (sock_update i (so_timeout_update (\<lambda>_. value)))"

definition sock_gettimeout :: "sock_id \<Rightarrow> time option prog" where
  "sock_gettimeout i w = (w, Done (so_timeout (sock_at w i)))"

definition sock_setblocking :: "sock_id \<Rightarrow> bool \<Rightarrow> unit prog" where
  "sock_setblocking i flag = prog_modify (sock_update i (so_timeout_update (\<lambda>_. if flag then None else Some 0)))"

definition sock_getsockname :: "sock_id \<Rightarrow> (string \<times> int) prog" where
  "sock_getsockname i w =
     prog_bind (prog_lift (ip_to_str (st_ip (wd_stack w)))) (\<lambda>hostname.
       prog_return (hostname, or_zero (so_bound_port (sock_at w i)))) w"

definition sock_getpeername :: "sock_id \<Rightarrow> (string \<times> int) prog" where
  "sock_getpeername i w =
     (case so_conn (sock_at w i) of
        None \<Rightarrow> (w, Raised OSError)
      | Some c \<Rightarrow>
          prog_bind (prog_lift (ip_to_str (cfg_remote_ip (c_cfg (world_conn w c))))) (\<lambda>hostname.
            prog_return (hostname, cfg_remote_port (c_cfg (world_conn w c)))) w)"

definition sock_connection :: "sock_id \<Rightarrow> cid option prog" where
  "sock_connection i w = (w, Done (so_conn (sock_at w i)))"

definition create_connection :: "string \<Rightarrow> int \<Rightarrow> time option \<Rightarrow> 32 word \<Rightarrow> sock_id prog" where
  "create_connection hostname port timeout rnd =
     prog_bind (socket AF_INET SOCK_STREAM) (\<lambda>i.
     prog_then (sock_settimeout i timeout)
     (prog_then (sock_connect i hostname port rnd) (prog_return i)))"

end
