(* ===== verification/Stack_Conns.thy ===== *)
theory Stack_Conns
  imports Stack_Tables
begin

text \<open>
  What the outbound path and the callbacks leave alone: the connections themselves. The logic of operations
  is interpreted once more, now with the preorder "the objects hold the same connections"; the result is
  that driving a connection stores exactly the new connection.
\<close>

definition same_conns :: "stack \<Rightarrow> stack \<Rightarrow> bool" where
  "same_conns s t \<longleftrightarrow> map ob_conn (st_objects t) = map ob_conn (st_objects s)"

interpretation conns: act_logic "\<lambda>_. True" same_conns
  by unfold_locales (simp_all add: same_conns_def)

abbreviation spares :: "stack \<Rightarrow> stack \<times> (py_error + 'a) \<Rightarrow> bool" where
  "spares \<equiv> act_safe (\<lambda>_. True) same_conns (\<lambda>_ _. True)"

named_theorems spare_rules \<open>operations of the stack that change no connection\<close>

lemmas spares_intros = conns.safe_compute conns.safe_after conns.safe_seq

lemma spares_modify: "same_conns s (f s) \<Longrightarrow> spares s (act_modify f s)"
  by (rule conns.safe_modify) simp

lemma spares_skip [simp]: "spares s (act_modify (\<lambda>s. s) s)" "spares s (s, r)" "spares s (act_return x s)"
  by (simp_all add: act_safe_def act_modify_def act_return_def conns.grows_refl)

lemma spares_from: "same_conns s t \<Longrightarrow> spares t out \<Longrightarrow> spares s out"
  using conns.grows_trans by (auto simp: act_safe_def)

lemma spares_tally [spare_rules]: "spares s (act_modify (tally f) s)"
  by (rule spares_modify) (simp add: same_conns_def)

lemma spares_emit [spare_rules]: "spares s (stack_emit m t p s)"
proof -
  have "spares s (act_modify (if t = ETHERTYPE_IPV4 then tally sx_ipv4_out_update else (\<lambda>s. s)) s)" for s
    by (simp add: spares_tally)
  moreover have "spares s (act_modify (\<lambda>s. s\<lparr>st_frames := st_frames s @ [raw]\<rparr>) s)" for s raw
    by (rule spares_modify) (simp add: same_conns_def)
  ultimately show ?thesis
    unfolding stack_emit_def by (intro spares_intros spares_tally)
qed

lemma spares_send_arp_request [spare_rules]: "spares s (stack_send_arp_request ip s)"
  unfolding stack_send_arp_request_def Let_def by (intro spares_intros spare_rules)

lemma spares_park_pending [spare_rules]: "spares s (stack_park_pending ip p s)"
  unfolding stack_park_pending_def Let_def
  by (auto intro: spares_from [OF _ spares_tally] spares_from [OF _ spares_send_arp_request] simp: same_conns_def)

lemma spares_arp_lookup [spare_rules]: "spares s (stack_arp_lookup ip now s)"
  by (simp add: stack_arp_lookup_def act_safe_def same_conns_def split: prod.split)

lemma spares_send_ipv4 [spare_rules]: "spares s (stack_send_ipv4 p now s)"
proof (cases "ip_dst p = IP_BROADCAST")
  case True
  then show ?thesis
    unfolding stack_send_ipv4_def if_P [OF True] by (intro spares_intros spare_rules) simp
next
  case False
  have "spares t ((case mac of None \<Rightarrow> act_then (stack_park_pending hop p) (act_return False)
     | Some m \<Rightarrow> act_bind (act_lift (IPv4Packet_to_bytes p)) (\<lambda>raw.
         act_then (stack_emit m ETHERTYPE_IPV4 raw) (act_return True))) t)" for mac hop t
    by (cases mac) (simp_all, (intro spares_intros spare_rules; simp)+)
  then show ?thesis
    unfolding stack_send_ipv4_def if_not_P [OF False] by (intro spares_intros spare_rules)
qed

lemma spares_allocate_id [spare_rules]: "spares s (stack_allocate_id s)"
  by (simp add: stack_allocate_id_def act_safe_def same_conns_def Let_def)

lemma spares_send_payload [spare_rules]: "spares s (stack_send_payload dst proto r now s)"
  unfolding stack_send_payload_def by (intro spares_intros spare_rules)

lemma spares_transmit_segment [spare_rules]: "spares s (stack_transmit_segment seg ip now s)"
  unfolding stack_transmit_segment_def by (intro spares_intros spare_rules) simp

lemma same_conns_flags: "same_conns s (stack_set_flags c e f s)"
proof (cases "c < length (st_objects s)")
  case True
  then show ?thesis
    by (simp add: same_conns_def stack_set_flags_def stack_object_def map_update)
      (metis list_update_id nth_map)
qed (simp add: same_conns_def stack_set_flags_def list_update_beyond)

lemma spares_perform [spare_rules]: "spares s (stack_perform c now ev s)"
proof (cases ev)
  case (Transmit segment remote_ip)
  then show ?thesis by (simp add: spares_transmit_segment)
qed (auto intro!: spares_modify simp: same_conns_flags split: conn_role.split,
     auto simp: same_conns_def stack_forget_def stack_signal_readable_def split: option.split)

text \<open>Storing a connection and performing what it recorded stores that connection and changes no other,
  whether or not a transmission raises.\<close>

lemma update_conn_object:
  assumes "c < length (st_objects s)" and "stack_update_conn c k now s = (t, r)"
  shows "ob_conn (stack_object t c) = k\<lparr>c_out := []\<rparr>" and "length (st_objects t) = length (st_objects s)"
    and "d < length (st_objects s) \<Longrightarrow> d \<noteq> c \<Longrightarrow> ob_conn (stack_object t d) = ob_conn (stack_object s d)"
proof -
  let ?s = "stack_set_conn c k s"
  have "spares ?s (act_each (c_out k) (stack_perform c now) ?s)"
    by (intro conns.safe_each spare_rules)
  moreover have "act_each (c_out k) (stack_perform c now) ?s = (t, r)"
    using assms(2) by (simp add: stack_update_conn_def act_then_def act_bind_def act_modify_def)
  ultimately have same: "map ob_conn (st_objects t) = map ob_conn (st_objects ?s)"
    by (simp add: act_safe_def same_conns_def)
  from arg_cong [OF this, of length] show len: "length (st_objects t) = length (st_objects s)"
    by (simp add: stack_set_conn_def)
  have at: "ob_conn (st_objects t ! d) = ob_conn (st_objects ?s ! d)" if "d < length (st_objects s)" for d
    using arg_cong [OF same, of "\<lambda>xs. xs ! d"] that len by (simp add: stack_set_conn_def)
  show "ob_conn (stack_object t c) = k\<lparr>c_out := []\<rparr>"
    using at [OF assms(1)] assms(1) by (simp add: stack_object_def stack_set_conn_def)
  show "d < length (st_objects s) \<Longrightarrow> d \<noteq> c \<Longrightarrow> ob_conn (stack_object t d) = ob_conn (stack_object s d)"
    using at [of d] by (simp add: stack_object_def stack_set_conn_def)
qed

end
