(* ===== verification/Socket_Theorems.thy ===== *)
theory Socket_Theorems
  imports Socket Stack_Delivery Stack_Conns IPv4_Text
begin

text \<open>
  What the socket API promises: blocking calls time out, a closed socket refuses everything, \<open>send\<close> reports
  what the connection took, \<open>recv_all\<close> reads the stream to its end, a datagram goes from \<open>sendto\<close> to
  \<open>recvfrom\<close>. The loops are treated by rules for \<open>poll\<close>: what every round and every sleep keeps holds at
  the end, and a loop that ends at its deadline ends.
\<close>

section \<open>Sockets under the operations\<close>

lemmas prog_simps = prog_then_def prog_bind_def prog_return_def prog_raise_def prog_modify_def prog_lift_def

lemma sock_at_update [simp]:
  "i < length (wd_socks w) \<Longrightarrow> sock_at (sock_update i f w) i = f (sock_at w i)"
  "i \<noteq> j \<Longrightarrow> sock_at (sock_update i f w) j = sock_at w j"
  by (simp_all add: sock_at_def sock_update_def)

lemma sock_update_fields [simp]:
  "wd_stack (sock_update i f w) = wd_stack w" "wd_now (sock_update i f w) = wd_now w"
  "wd_future (sock_update i f w) = wd_future w" "length (wd_socks (sock_update i f w)) = length (wd_socks w)"
  by (simp_all add: sock_update_def)

text \<open>What other threads and the stack leave alone of a socket: everything but the queue of datagrams.\<close>

definition sock_frame :: "sock \<Rightarrow> sock" where
  "sock_frame so = so\<lparr>so_udp_queue := [], so_udp_event := False\<rparr>"

lemma sock_frame_fields:
  assumes "sock_frame so = sock_frame so'"
  shows "so_type so = so_type so'" "so_closed so = so_closed so'" "so_timeout so = so_timeout so'"
    "so_conn so = so_conn so'" "so_bound_port so = so_bound_port so'" "so_listener so = so_listener so'" "so_peer so = so_peer so'"
proof -
  have "f (sock_frame so) = f (sock_frame so')" for f :: "sock \<Rightarrow> 'a" using assms by simp
  from this [of so_type] this [of so_closed] this [of so_timeout] this [of so_conn] this [of so_bound_port]
    this [of so_listener] this [of so_peer]
  show "so_type so = so_type so'" "so_closed so = so_closed so'" "so_timeout so = so_timeout so'"
    "so_conn so = so_conn so'" "so_bound_port so = so_bound_port so'" "so_listener so = so_listener so'" "so_peer so = so_peer so'"
    by (simp_all add: sock_frame_def)
qed

definition same_socks :: "world \<Rightarrow> world \<Rightarrow> bool" where
  "same_socks v w \<longleftrightarrow> map sock_frame (wd_socks v) = map sock_frame (wd_socks w)"

lemma same_socks_refl [simp]: "same_socks w w"
  by (simp add: same_socks_def)

lemma same_socks_trans: "same_socks u v \<Longrightarrow> same_socks v w \<Longrightarrow> same_socks u w"
  by (simp add: same_socks_def)

lemma same_socks_D:
  assumes "same_socks v w" and "i < length (wd_socks w)"
  shows "length (wd_socks v) = length (wd_socks w)" "sock_frame (sock_at v i) = sock_frame (sock_at w i)"
proof -
  show *: "length (wd_socks v) = length (wd_socks w)" using map_eq_imp_length_eq assms(1) unfolding same_socks_def by blast
  have "map sock_frame (wd_socks v) ! i = map sock_frame (wd_socks w) ! i" using assms(1) by (simp add: same_socks_def)
  then show "sock_frame (sock_at v i) = sock_frame (sock_at w i)" using assms(2) * by (simp add: sock_at_def)
qed

lemma same_socks_stack [simp]:
  "same_socks (v\<lparr>wd_stack := s\<rparr>) w = same_socks v w" "same_socks (v\<lparr>wd_future := fut\<rparr>) w = same_socks v w"
  "same_socks (v\<lparr>wd_now := t\<rparr>) w = same_socks v w"
  by (simp_all add: same_socks_def)

lemma upcall_socks: "same_socks (world_upcall u w) w"
proof -
  obtain h payload ip port where u: "u = (h, payload, ip, port)" by (cases u)
  have "sock_frame (sock_on_udp payload ip port so) = sock_frame so" for so
    by (simp add: sock_on_udp_def sock_frame_def split: sum.split)
  then show ?thesis by (simp add: u world_upcall_def same_socks_def sock_update_def sock_at_def map_update)
    (metis list_update_beyond list_update_id length_map not_le nth_map)
qed

lemma upcalls_socks: "same_socks (fold world_upcall us w) w"
proof (induction us arbitrary: w)
  case (Cons u us)
  from same_socks_trans [OF Cons.IH upcall_socks] show ?case by simp
qed simp

lemma turn_socks: "same_socks (world_turn t f w) w"
  unfolding world_turn_def world_deliver_def same_socks_stack
  by (rule same_socks_trans [OF upcalls_socks]) simp

lemma upcalls_now: "wd_now (fold world_upcall us w) = wd_now w"
  by (induction us arbitrary: w) (simp_all add: world_upcall_def split: prod.split)

lemma turn_now [simp]: "wd_now (world_turn t f w) = t"
  by (simp add: world_turn_def world_deliver_def upcalls_now)

lemma on_stack_world:
  "fst (on_stack m w) = w\<lparr>wd_stack := fst (m (wd_now w) (wd_stack w))\<rparr>" "snd (on_stack m w) \<noteq> Blocked"
  by (simp_all add: on_stack_def split: prod.split sum.split)

text \<open>The rule for loops: a relation to the world at the beginning that the rounds and the sleeps keep.\<close>

lemma poll_loop_socks:
  assumes "\<And>x w. same_socks (fst (step x w)) w"
  shows "same_socks (fst (poll_loop fut step x w)) w"
proof (induction fut arbitrary: x w)
  case (Cons tf fut)
  show ?case
  proof (cases "step x w")
    case (Pair w1 r)
    with assms [of x w] have w1: "same_socks w1 w" by simp
    show ?thesis
    proof (cases r)
      case (Inr y)
      have "same_socks (world_turn (fst tf) (snd tf) (w1\<lparr>wd_future := fut\<rparr>)) w"
        by (rule same_socks_trans [OF turn_socks]) (simp add: w1)
      from same_socks_trans [OF Cons.IH this] show ?thesis by (simp add: Pair Inr)
    qed (simp add: Pair w1)
  qed
next
  case Nil
  show ?case using assms [of x w] by (cases "step x w") (simp split: sum.split)
qed

text \<open>A loop that ends in any round at or after the deadline ends if the clock reaches the deadline.\<close>

lemma poll_loop_expires:
  assumes "\<And>x w w1 r. step x w = (w1, Inl r) \<Longrightarrow> r \<noteq> Blocked"
    and "\<And>x w w1 y. d \<le> wd_now w \<Longrightarrow> step x w \<noteq> (w1, Inr y)"
    and "(t, f) \<in> set fut" and "d \<le> t"
  shows "snd (poll_loop fut step x w) \<noteq> Blocked"
  using assms(3)
proof (induction fut arbitrary: x w)
  case (Cons tf fut)
  show ?case
  proof (cases "step x w")
    case (Pair w1 r)
    show ?thesis
    proof (cases r)
      case (Inl r')
      with assms(1) Pair show ?thesis by simp
    next
      case (Inr y)
      let ?w2 = "world_turn (fst tf) (snd tf) (w1\<lparr>wd_future := fut\<rparr>)"
      have next_round: "poll_loop (tf # fut) step x w = poll_loop fut step y ?w2" by (simp add: Pair Inr)
      show ?thesis
      proof (cases "(t, f) \<in> set fut")
        case True
        from Cons.IH [OF this] next_round show ?thesis by simp
      next
        case False
        with Cons.prems have "tf = (t, f)" by simp
        then have late: "d \<le> wd_now ?w2" using assms(4) by simp
        obtain w3 r3 where 3: "step y ?w2 = (w3, r3)" by (cases "step y ?w2")
        with assms(2) [OF late] obtain q where q: "r3 = Inl q" by (cases r3) auto
        then have "poll_loop fut step y ?w2 = (w3, q)" using 3 by (cases fut) simp_all
        with assms(1) 3 q next_round show ?thesis by simp
      qed
    qed
  qed
qed simp

section \<open>Blocking calls\<close>

lemma on_stack_result: "on_stack m w = (w1, r) \<Longrightarrow> wd_now w1 = wd_now w \<and> wd_future w1 = wd_future w \<and> wd_socks w1 = wd_socks w \<and> r \<noteq> Blocked"
  using on_stack_world [of m w] by auto

lemma poll_expires:
  assumes "\<And>x w w1 r. step x w = (w1, Inl r) \<Longrightarrow> r \<noteq> Blocked"
    and "\<And>x w w1 y. d \<le> wd_now w \<Longrightarrow> step x w \<noteq> (w1, Inr y)"
    and "\<exists>tf \<in> set (wd_future w). d \<le> fst tf"
  shows "snd (poll step x w) \<noteq> Blocked"
proof -
  obtain t f where "(t, f) \<in> set (wd_future w)" "d \<le> t" using assms(3) by auto
  show ?thesis
    unfolding poll_def
  proof (rule poll_loop_expires [of step d t f])
    show "step x w = (w1, Inl r) \<Longrightarrow> r \<noteq> Blocked" for x w w1 r by (rule assms(1))
    show "d \<le> wd_now w \<Longrightarrow> step x w \<noteq> (w1, Inr y)" for x w w1 y by (rule assms(2))
  qed fact+
qed

lemma expired_deadline: "expired (Some d) w \<longleftrightarrow> d \<le> wd_now w"
  by (simp add: expired_def)

lemma event_wait_returns:
  "\<exists>tf \<in> set (wd_future w). wd_now w + d \<le> fst tf \<Longrightarrow> snd (event_wait event (Some d) w) \<noteq> Blocked"
  unfolding event_wait_def Let_def
  by (rule poll_expires [where d = "wd_now w + d"]) (auto simp: deadline_from_def expired_deadline split: if_splits)

lemma accept_round_result:
  "accept_round port deadline u w = (w1, Inl r) \<Longrightarrow> r \<noteq> Blocked"
  "d \<le> wd_now w \<Longrightarrow> accept_round port (Some d) u w \<noteq> (w1, Inr v)"
  by (auto simp: accept_round_def expired_deadline split: prod.splits sum.splits option.splits if_splits)

lemma tcp_accept_returns:
  assumes "\<exists>tf \<in> set (wd_future w). wd_now w + d \<le> fst tf"
  shows "snd (tcp_accept port (Some d) w) \<noteq> Blocked"
  using poll_expires [of "accept_round port (Some (wd_now w + d))", OF accept_round_result assms]
  by (simp add: tcp_accept_def deadline_from_def)

lemma tcp_connect_returns:
  assumes "\<exists>tf \<in> set (wd_future w). wd_now w + d \<le> fst tf"
  shows "snd (tcp_connect remote rport port d rnd w) \<noteq> Blocked"
proof -
  obtain w1 r where 1: "on_stack (stack_tcp_connect remote rport port rnd) w = (w1, r)"
    by (cases "on_stack (stack_tcp_connect remote rport port rnd) w")
  note w1 = on_stack_result [OF 1]
  show ?thesis
  proof (cases r)
    case (Done c)
    obtain w2 waited where 2: "event_wait (\<lambda>w. ob_established (stack_object (wd_stack w) c)) (Some d) w1 = (w2, waited)"
      by (cases "event_wait (\<lambda>w. ob_established (stack_object (wd_stack w) c)) (Some d) w1")
    have "waited \<noteq> Blocked"
      using event_wait_returns [of w1 d "\<lambda>w. ob_established (stack_object (wd_stack w) c)"] assms w1 2 by simp
    then show ?thesis
      by (cases waited) (simp_all add: tcp_connect_def prog_bind_def 1 Done 2 on_stack_world)
  qed (use w1 in \<open>simp_all add: tcp_connect_def prog_bind_def 1\<close>)
qed

lemma recv_round_result:
  "conn_recv_round c n deadline u w = (w1, Inl r) \<Longrightarrow> r \<noteq> Blocked"
  "d \<le> wd_now w \<Longrightarrow> conn_recv_round c n (Some d) u w \<noteq> (w1, Inr v)"
proof -
  obtain w2 q where 2: "on_stack (stack_conn_recv c n) w = (w2, q)" by (cases "on_stack (stack_conn_recv c n) w")
  note w2 = on_stack_result [OF 2]
  show "conn_recv_round c n deadline u w = (w1, Inl r) \<Longrightarrow> r \<noteq> Blocked"
    using w2 by (cases q) (auto simp: conn_recv_round_def 2 split: if_splits)
  show "d \<le> wd_now w \<Longrightarrow> conn_recv_round c n (Some d) u w \<noteq> (w1, Inr v)"
    using w2 by (cases q) (auto simp: conn_recv_round_def 2 expired_deadline split: if_splits)
qed

lemma check_open_then:
  "prog_then (sock_check_open i) k w = (if so_closed (sock_at w i) then (w, Raised OSError) else k w)"
  by (simp add: prog_simps sock_check_open_def)

text \<open>C11. A socket with a timeout does not block for ever: once the clock has passed the deadline, \<open>accept\<close>,
  \<open>connect\<close> (which has a deadline of five seconds when there is no timeout) and \<open>recv\<close> on a stream have returned
  or raised, whatever the other threads do.\<close>

theorem socket_calls_time_out:
  assumes "so_timeout (sock_at w i) = Some d" and "\<exists>tf \<in> set (wd_future w). wd_now w + d \<le> fst tf"
    and "so_type (sock_at w i) = SOCK_STREAM"
  shows "snd (sock_accept i w) \<noteq> Blocked \<and> snd (sock_recv i n w) \<noteq> Blocked
     \<and> snd (sock_connect i hostname port rnd w) \<noteq> Blocked"
proof (intro conjI)
  have stream: "so_type (sock_at w i) \<noteq> SOCK_DGRAM" using assms(3) by (simp add: SOCK_STREAM_def SOCK_DGRAM_def)
  show "snd (sock_accept i w) \<noteq> Blocked"
  proof -
    have "snd (tcp_accept (or_zero (so_bound_port (sock_at w i))) (Some d) w) \<noteq> Blocked"
      by (rule tcp_accept_returns [OF assms(2)])
    then show ?thesis
      by (auto simp: sock_accept_def check_open_then assms(1) prog_bind_def socket_def prog_lift_def prog_return_def Let_def
        split: prod.splits outcome.splits sum.splits if_splits)
  qed
  show "snd (sock_recv i n w) \<noteq> Blocked"
    using poll_expires [of "conn_recv_round c n (Some (wd_now w + d))" for c, OF recv_round_result(1) recv_round_result(2) assms(2)]
    by (auto simp: sock_recv_def check_open_then stream deadline_from_def assms(1) split: option.splits)
  have "snd (tcp_connect (IpText hostname) port (or_zero (so_bound_port (sock_at w i))) d rnd w) \<noteq> Blocked"
    by (rule tcp_connect_returns [OF assms(2)])
  then show "snd (sock_connect i hostname port rnd w) \<noteq> Blocked"
    by (auto simp: sock_connect_def check_open_then stream assms(1) prog_bind_def prog_modify_def Let_def
      split: prod.splits outcome.splits)
qed

text \<open>A world with one client socket and one second to go.\<close>

definition sample_world :: world where
  "sample_world = \<lparr>wd_stack = sample_stack,
     wd_socks = [(new_sock AF_INET SOCK_STREAM)\<lparr>so_timeout := Some 1, so_bound_port := Some 80, so_listener := Some 0\<rparr>],
     wd_now = 0, wd_future = [(1 / 2, \<lambda>s. s), (2, \<lambda>s. s)]\<rparr>"

theorem socket_calls_time_out_witness:
  "snd (sock_accept 0 sample_world) \<noteq> Blocked \<and> snd (sock_recv 0 9 sample_world) \<noteq> Blocked
     \<and> snd (sock_connect 0 ''10.0.0.9'' 80 7 sample_world) \<noteq> Blocked"
  by (rule socket_calls_time_out [of _ _ 1])
    (simp_all add: sample_world_def sock_at_def new_sock_def)


section \<open>Closing\<close>

lemma tcp_close_socks: "same_socks (fst (tcp_close c d w)) w"
proof -
  obtain w1 r where 1: "on_stack (stack_tcp_close c) w = (w1, r)" by (cases "on_stack (stack_tcp_close c) w")
  then have w1: "same_socks w1 w" using on_stack_result [OF 1] by (simp add: same_socks_def)
  have "same_socks (fst (poll step () w1)) w" if "\<And>x w. same_socks (fst (step x w)) w" for step :: "unit \<Rightarrow> world \<Rightarrow> world \<times> (unit outcome + unit)"
    unfolding poll_def by (rule same_socks_trans [OF poll_loop_socks w1]) (rule that)
  then show ?thesis
    using w1 by (cases r) (simp_all add: tcp_close_def prog_simps 1 Let_def)
qed

lemma same_closed: "same_socks v w \<Longrightarrow> i < length (wd_socks w) \<Longrightarrow> so_closed (sock_at v i) = so_closed (sock_at w i)"
  by (rule sock_frame_fields(2)) (rule same_socks_D(2))

lemma close_result:
  assumes "sock_close i w = (w1, Done u)" and "i < length (wd_socks w)"
  shows "so_closed (sock_at w1 i)" and "length (wd_socks w1) = length (wd_socks w)"
proof -
  let ?w1 = "sock_update i (so_closed_update (\<lambda>_. True)) w"
  define w2 where "w2 = (case so_bound_port (sock_at ?w1 i) of None \<Rightarrow> ?w1
    | Some port \<Rightarrow> if so_type (sock_at ?w1 i) = SOCK_DGRAM then ?w1\<lparr>wd_stack := stack_udp_unbind port (wd_stack ?w1)\<rparr> else ?w1)"
  let ?forget = "prog_modify (sock_update i (\<lambda>so. so\<lparr>so_conn := None, so_listener := None\<rparr>))"
  have 2: "so_closed (sock_at w2 i)" "length (wd_socks w2) = length (wd_socks w)"
    using assms(2) by (auto simp: w2_def sock_at_def sock_update_def split: option.split)
  have forget: "so_closed (sock_at v i) \<and> length (wd_socks v) = length (wd_socks w)"
    if "?forget w3 = (v, Done u)" "so_closed (sock_at w3 i)" "length (wd_socks w3) = length (wd_socks w)" for w3 v
    using that assms(2) by (auto simp: prog_modify_def)
  have "so_closed (sock_at w1 i) \<and> length (wd_socks w1) = length (wd_socks w)"
  proof (cases "so_closed (sock_at w i)")
    case True
    with assms(1) show ?thesis by (simp add: sock_close_def)
  next
    case False
    have run: "sock_close i w = (case so_conn (sock_at w2 i) of None \<Rightarrow> ?forget w2
      | Some c \<Rightarrow> (case tcp_close c 5 w2 of (w3, Done _) \<Rightarrow> ?forget w3
         | (w3, Raised _) \<Rightarrow> prog_then (on_stack (stack_conn_abort c)) ?forget w3 | (w3, Blocked) \<Rightarrow> (w3, Blocked)))"
      using False unfolding sock_close_def Let_def w2_def by (simp only: if_False)
    show ?thesis
    proof (cases "so_conn (sock_at w2 i)")
      case None
      with run assms(1) forget [OF _ 2] show ?thesis by simp
    next
      case (Some c)
      obtain w3 r where 3: "tcp_close c 5 w2 = (w3, r)" by (cases "tcp_close c 5 w2")
      have s3: "same_socks w3 w2" using tcp_close_socks [of c 5 w2] 3 by simp
      have i: "i < length (wd_socks w2)" using 2 assms(2) by simp
      have c3: "so_closed (sock_at w3 i)" "length (wd_socks w3) = length (wd_socks w)"
        using same_closed [OF s3 i] same_socks_D(1) [OF s3 i] 2 by simp_all
      show ?thesis
      proof (cases r)
        case Done
        with run Some 3 assms(1) forget [OF _ c3] show ?thesis by simp
      next
        case (Raised e)
        obtain w4 q where 4: "on_stack (stack_conn_abort c) w3 = (w4, q)" by (cases "on_stack (stack_conn_abort c) w3")
        then have "wd_socks w4 = wd_socks w3" by (simp add: on_stack_result)
        then have c4: "so_closed (sock_at w4 i)" "length (wd_socks w4) = length (wd_socks w)"
          using c3 by (simp_all add: sock_at_def)
        with run Some 3 Raised 4 assms(1) forget [OF _ c4] show ?thesis
          by (cases q) (auto simp: prog_then_def prog_bind_def)
      qed (use run Some 3 assms(1) in simp)
    qed
  qed
  then show "so_closed (sock_at w1 i)" "length (wd_socks w1) = length (wd_socks w)" by simp_all
qed

text \<open>A closed socket is finished: once \<open>close\<close> has returned, whatever the other threads do, every call
  that binds, connects, sends or receives raises \<open>OSError\<close> and changes nothing, and closing again does nothing.\<close>

lemma closed_socket_refuses:
  assumes "sock_close i w = (w1, Done u)" and "i < length (wd_socks w)"
    and "w2 = fold (\<lambda>(t, f). world_turn t f) others w1"
  shows "sock_bind i port w2 = (w2, Raised OSError) \<and> sock_listen i w2 = (w2, Raised OSError)
     \<and> sock_accept i w2 = (w2, Raised OSError) \<and> sock_connect i hostname port rnd w2 = (w2, Raised OSError)
     \<and> sock_send i data w2 = (w2, Raised OSError) \<and> sock_sendall i data w2 = (w2, Raised OSError)
     \<and> sock_sendto i data hostname port w2 = (w2, Raised OSError) \<and> sock_recv i n w2 = (w2, Raised OSError)
     \<and> sock_recvfrom i n w2 = (w2, Raised OSError) \<and> sock_close i w2 = (w2, Done ())"
proof -
  note w1 = close_result [OF assms(1,2)]
  have "same_socks (fold (\<lambda>(t, f). world_turn t f) others w1) w1"
  proof (induction others arbitrary: w1)
    case (Cons tf others)
    from same_socks_trans [OF Cons.IH turn_socks] show ?case by (cases tf) simp
  qed simp
  then have "so_closed (sock_at w2 i)" using same_closed [of w2 w1 i] w1 assms(2,3) by simp
  note closed = this
  then have send: "sock_send i data w2 = (w2, Raised OSError)" by (simp add: sock_send_def check_open_then)
  then have "sock_sendall i data w2 = (w2, Raised OSError)" by (simp add: sock_sendall_def prog_bind_def)
  moreover have "sock_close i w2 = (w2, Done ())" using closed by (simp add: sock_close_def)
  ultimately show ?thesis
    using send closed
    by (simp add: sock_bind_def sock_listen_def sock_accept_def sock_connect_def sock_sendto_def sock_recv_def
      sock_recvfrom_def check_open_then)
qed

lemma closed_socket_refuses_witness:
  "\<exists>w. fst (sock_close 0 sample_world) = w \<and> sock_accept 0 w = (w, Raised OSError) \<and> sock_close 0 w = (w, Done ())"
proof -
  have "sock_close 0 sample_world = (fst (sock_close 0 sample_world), Done ())"
    by (simp add: sock_close_def sample_world_def sock_at_def sock_update_def new_sock_def prog_modify_def Let_def)
  from closed_socket_refuses [OF this, of _ "[]"] show ?thesis by (simp add: sample_world_def)
qed

section \<open>Sending\<close>

text \<open>One \<open>send\<close> on a connection: between nothing and everything is taken, and that much is counted.\<close>

lemma send_write:
  assumes "SendQueue_write q data = (q', n)"
  shows "0 \<le> n" and "n \<le> len data" and "sq_bytes_written q' = sq_bytes_written q + n"
  using assms by (auto simp: SendQueue_write_def Let_def split: if_splits)

lemma set_snd_nxt_written [simp]: "sq_bytes_written (c_send (conn_set_snd_nxt n c)) = sq_bytes_written (c_send c)"
  by (simp add: conn_set_snd_nxt_def)

lemma flush_loop_written: "sq_bytes_written (c_send (conn_flush_loop fuel now c)) = sq_bytes_written (c_send c)"
proof (induction fuel arbitrary: c)
  case (Suc fuel)
  show ?case unfolding conn_flush_loop.simps Let_def by (simp add: Suc.IH)
qed simp

lemma flush_written: "sq_bytes_written (c_send (conn_flush now c)) = sq_bytes_written (c_send c)"
  unfolding conn_flush_def Let_def conn_arm_persist_timer_def by (simp add: flush_loop_written del: conn_flush_loop.simps)

lemma conn_send_result:
  assumes "conn_send data now c = Inr (c', n)"
  shows "0 \<le> n" and "n \<le> len data" and "sq_bytes_written (c_send c') = sq_bytes_written (c_send c) + n"
proof -
  obtain q m where q: "SendQueue_write (c_send c) data = (q, m)" by (cases "SendQueue_write (c_send c) data")
  note w = send_write [OF q]
  show "0 \<le> n" "n \<le> len data" "sq_bytes_written (c_send c') = sq_bytes_written (c_send c) + n"
    using assms w by (auto simp: conn_send_def q flush_written Let_def split: if_splits)
qed

definition bytes_taken :: "world \<Rightarrow> cid \<Rightarrow> int" where
  "bytes_taken w c = sq_bytes_written (c_send (world_conn w c))"

definition conn_exists :: "world \<Rightarrow> cid \<Rightarrow> bool" where
  "conn_exists w c \<longleftrightarrow> c < length (st_objects (wd_stack w))"

lemma send_on_stack:
  assumes "on_stack (stack_conn_send c data) w = (w1, Done n)" and "conn_exists w c"
  shows "0 \<le> n" and "n \<le> len data" and "bytes_taken w1 c = bytes_taken w c + n" and "conn_exists w1 c"
proof -
  obtain k m where k: "conn_send data (wd_now w) (world_conn w c) = Inr (k, m)"
    using assms(1) by (cases "conn_send data (wd_now w) (world_conn w c)")
      (auto simp: on_stack_def stack_conn_send_def act_bind_def act_lift_def world_conn_def)
  obtain t r where t: "stack_update_conn c k (wd_now w) (wd_stack w) = (t, r)"
    by (cases "stack_update_conn c k (wd_now w) (wd_stack w)")
  have "w1 = w\<lparr>wd_stack := t\<rparr> \<and> n = m"
    using assms(1) k t by (cases r) (simp_all add: on_stack_def stack_conn_send_def act_bind_def act_lift_def act_then_def
      act_return_def world_conn_def)
  with update_conn_object(1,2) [OF _ t] assms(2) conn_send_result [OF k]
  show "0 \<le> n" "n \<le> len data" "bytes_taken w1 c = bytes_taken w c + n" "conn_exists w1 c"
    by (simp_all add: bytes_taken_def world_conn_def conn_exists_def)
qed

text \<open>Other threads that do not send on the connection.\<close>

definition leaves_sending :: "cid \<Rightarrow> (stack \<Rightarrow> stack) \<Rightarrow> bool" where
  "leaves_sending c f \<longleftrightarrow> (\<forall>s. c < length (st_objects s) \<longrightarrow> c < length (st_objects (f s))
     \<and> sq_bytes_written (c_send (ob_conn (stack_object (f s) c))) = sq_bytes_written (c_send (ob_conn (stack_object s c))))"

lemma upcalls_stack [simp]: "wd_stack (fold world_upcall us w) = wd_stack w"
  by (induction us arbitrary: w) (simp_all add: world_upcall_def split: prod.split)

lemma turn_stack: "wd_stack (world_turn t f w) = (f (wd_stack w))\<lparr>st_upcalls := []\<rparr>"
  by (simp add: world_turn_def world_deliver_def)

lemma turn_sending:
  "leaves_sending c f \<Longrightarrow> conn_exists w c \<Longrightarrow> conn_exists (world_turn t f w) c \<and> bytes_taken (world_turn t f w) c = bytes_taken w c"
  by (auto simp: leaves_sending_def conn_exists_def bytes_taken_def world_conn_def turn_stack stack_object_def)

lemma send_round_result:
  assumes "conn_send_round c data written w = (w1, r)" and "conn_exists w c" and "0 \<le> written" and "written \<le> len data"
  shows "r = Inl (Done n) \<Longrightarrow> written \<le> n \<and> n \<le> len data \<and> bytes_taken w1 c = bytes_taken w c + (n - written)
      \<and> (n = len data \<or> is_closed (c_state (world_conn w1 c)))"
    and "r = Inr n \<Longrightarrow> written \<le> n \<and> n \<le> len data \<and> bytes_taken w1 c = bytes_taken w c + (n - written) \<and> conn_exists w1 c"
proof -
  obtain w2 q where 2: "on_stack (stack_conn_send c (py_from data written)) w = (w2, q)"
    by (cases "on_stack (stack_conn_send c (py_from data written)) w")
  have *: "0 \<le> m" "written + m \<le> len data" "bytes_taken w2 c = bytes_taken w c + m" "conn_exists w2 c" if "q = Done m" for m
    using send_on_stack [OF 2 [unfolded that] assms(2)] assms(3,4) by simp_all
  show "r = Inl (Done n) \<Longrightarrow> written \<le> n \<and> n \<le> len data \<and> bytes_taken w1 c = bytes_taken w c + (n - written)
      \<and> (n = len data \<or> is_closed (c_state (world_conn w1 c)))"
    "r = Inr n \<Longrightarrow> written \<le> n \<and> n \<le> len data \<and> bytes_taken w1 c = bytes_taken w c + (n - written) \<and> conn_exists w1 c"
    using assms(1) * by (cases q; auto simp: conn_send_round_def 2 split: if_splits)+
qed

lemma send_loop_result:
  assumes "poll_loop fut (conn_send_round c data) written w = (w', Done n)" and "conn_exists w c" and "0 \<le> written"
    and "written \<le> len data" and "\<forall>tf \<in> set fut. leaves_sending c (snd tf)"
  shows "written \<le> n \<and> n \<le> len data \<and> bytes_taken w' c = bytes_taken w c + (n - written)
      \<and> (n = len data \<or> is_closed (c_state (world_conn w' c)))"
  using assms
proof (induction fut arbitrary: written w)
  case Nil
  obtain w1 r where 1: "conn_send_round c data written w = (w1, r)" by (cases "conn_send_round c data written w")
  with Nil.prems(1) have "r = Inl (Done n) \<and> w1 = w'" by (cases r) simp_all
  with send_round_result(1) [OF 1 Nil.prems(2-4)] show ?case by simp
next
  case (Cons tf fut)
  obtain w1 r where 1: "conn_send_round c data written w = (w1, r)" by (cases "conn_send_round c data written w")
  show ?case
  proof (cases r)
    case (Inl q)
    with Cons.prems(1) 1 have "r = Inl (Done n) \<and> w1 = w'" by simp
    with send_round_result(1) [OF 1 Cons.prems(2-4)] show ?thesis by simp
  next
    case (Inr m)
    let ?w2 = "world_turn (fst tf) (snd tf) (w1\<lparr>wd_future := fut\<rparr>)"
    have m: "written \<le> m" "m \<le> len data" "bytes_taken w1 c = bytes_taken w c + (m - written)" "conn_exists w1 c"
      using send_round_result(2) [OF 1 Cons.prems(2-4) Inr] by simp_all
    have "conn_exists (w1\<lparr>wd_future := fut\<rparr>) c" "bytes_taken (w1\<lparr>wd_future := fut\<rparr>) c = bytes_taken w1 c"
      using m(4) by (simp_all add: conn_exists_def bytes_taken_def world_conn_def)
    then have 2: "conn_exists ?w2 c" "bytes_taken ?w2 c = bytes_taken w1 c"
      using turn_sending [of c "snd tf" "w1\<lparr>wd_future := fut\<rparr>" "fst tf"] Cons.prems(5) by simp_all
    have "poll_loop fut (conn_send_round c data) m ?w2 = (w', Done n)" using Cons.prems(1) 1 Inr by simp
    from Cons.IH [OF this 2(1)] m 2 Cons.prems(3,5) show ?thesis by simp
  qed
qed

text \<open>C10. \<open>send\<close> on a stream gives up only when the connection is gone: when it returns, it has handed the
  connection all the bytes, or the connection is closed and the number returned is smaller; and the number
  it returns is the number of bytes that went into the send buffer of the connection, however often the
  buffer was full in between.\<close>

theorem send_reports_what_was_taken:
  assumes "so_type (sock_at w i) = SOCK_STREAM" and "so_conn (sock_at w i) = Some c" and "conn_exists w c"
    and "\<forall>tf \<in> set (wd_future w). leaves_sending c (snd tf)" and "data \<noteq> []" and "sock_send i data w = (w', Done n)"
  shows "0 \<le> n \<and> n \<le> len data \<and> bytes_taken w' c = bytes_taken w c + n
     \<and> (n = len data \<or> is_closed (c_state (world_conn w' c)))"
proof -
  have "so_type (sock_at w i) \<noteq> SOCK_DGRAM" using assms(1) by (simp add: SOCK_STREAM_def SOCK_DGRAM_def)
  then have "poll_loop (wd_future w) (conn_send_round c data) 0 w = (w', Done n)"
    using assms(2,5,6) by (simp add: sock_send_def check_open_then poll_def split: if_splits)
  from send_loop_result [OF this assms(3) _ _ assms(4)] show ?thesis by simp
qed

text \<open>An established connection whose peer has closed its window: the bytes wait in the send buffer.\<close>

definition busy_conn :: conn where
  "busy_conn = (projr (TCPConnection_init (stack_conn_config sample_stack 80 [10, 0, 0, 9] 4000)))
     \<lparr>c_state := ESTABLISHED, c_peer_window := 0\<rparr>"

definition busy_world :: world where
  "busy_world = \<lparr>wd_stack = fst (stack_new_object busy_conn Accepted sample_stack),
     wd_socks = [(new_sock AF_INET SOCK_STREAM)\<lparr>so_conn := Some 0\<rparr>], wd_now = 0, wd_future = [(1, \<lambda>s. s)]\<rparr>"

theorem send_reports_what_was_taken_witness:
  "\<exists>w'. sock_send 0 [1, 2] busy_world = (w', Done 2) \<and> bytes_taken w' 0 = bytes_taken busy_world 0 + 2"
proof -
  have "snd (sock_send 0 [1, 2] busy_world) = Done 2" by code_simp
  then obtain w' where run: "sock_send 0 [1, 2] busy_world = (w', Done 2)" by (cases "sock_send 0 [1, 2] busy_world") simp
  have "so_type (sock_at busy_world 0) = SOCK_STREAM" "so_conn (sock_at busy_world 0) = Some 0" "conn_exists busy_world 0"
    "\<forall>tf \<in> set (wd_future busy_world). leaves_sending 0 (snd tf)"
    by (simp_all add: busy_world_def sock_at_def new_sock_def conn_exists_def stack_new_object_def leaves_sending_def)
  from send_reports_what_was_taken [OF this _ run] run show ?thesis by auto
qed


section \<open>Receiving to the end\<close>

lemma recv_after_fin:
  assumes "conn_peer_closed k" and "recv_inv (c_recv k)" and "0 < n"
  shows "conn_recv n now k = (k\<lparr>c_recv := fst (ReceiveQueue_read (c_recv k) n)\<rparr>, take (nat n) (unread (c_recv k)))
    \<or> conn_recv n now k = (k, []) \<and> unread (c_recv k) = []"
proof (cases "ReceiveQueue_available (c_recv k) = 0")
  case True
  then have "unread (c_recv k) = []" using unread_length [OF assms(2)] by simp
  then show ?thesis using True by (simp add: conn_recv_def)
next
  case False
  have "c_state k \<noteq> ESTABLISHED" "c_state k \<noteq> FIN_WAIT_1" "c_state k \<noteq> FIN_WAIT_2"
    using assms(1) by (auto simp: conn_peer_closed_def)
  moreover obtain q data where q: "ReceiveQueue_read (c_recv k) n = (q, data)" by (cases "ReceiveQueue_read (c_recv k) n")
  ultimately show ?thesis
    using False unread_read(1) [OF assms(2), of n] assms(3) by (simp add: conn_recv_def q Let_def)
qed

text \<open>A world whose connection \<open>c\<close> has been closed by its peer and has the bytes \<open>d\<close> left to read.\<close>

definition at_end :: "world \<Rightarrow> cid \<Rightarrow> bytes \<Rightarrow> bool" where
  "at_end w c d \<longleftrightarrow> conn_exists w c \<and> conn_peer_closed (world_conn w c) \<and> c_out (world_conn w c) = []
     \<and> recv_inv (c_recv (world_conn w c)) \<and> unread (c_recv (world_conn w c)) = d"

lemma recv_at_end:
  assumes "at_end w c d" and "0 < n"
  obtains w1 where "on_stack (stack_conn_recv c n) w = (w1, Done (take (nat n) d))" and "at_end w1 c (drop (nat n) d)"
    and "wd_socks w1 = wd_socks w"
proof -
  note w = assms(1) [unfolded at_end_def]
  let ?k = "world_conn w c"
  obtain k where k: "conn_recv n (wd_now w) ?k = (k, take (nat n) d)" and peer: "conn_peer_closed k" "c_out k = []"
    and q: "recv_inv (c_recv k)" "unread (c_recv k) = drop (nat n) d"
    using recv_after_fin [of ?k n "wd_now w"] w assms(2) unread_read(2) [of "c_recv ?k" n] recv_inv_read [of "c_recv ?k" n]
    by (auto simp: conn_peer_closed_def)
  let ?w1 = "w\<lparr>wd_stack := stack_set_conn c k (wd_stack w)\<rparr>"
  have run: "on_stack (stack_conn_recv c n) w = (?w1, Done (take (nat n) d))"
    using k peer(2) by (simp add: on_stack_def stack_conn_recv_def world_conn_def stack_update_conn_def act_then_def act_bind_def
      act_modify_def act_return_def)
  have "world_conn ?w1 c = k\<lparr>c_out := []\<rparr>"
    using w by (simp add: world_conn_def stack_set_conn_def stack_object_def conn_exists_def)
  then have "at_end ?w1 c (drop (nat n) d)"
    using w peer q by (simp add: at_end_def conn_exists_def stack_set_conn_def conn_peer_closed_def)
  with run show thesis by (rule that) simp
qed

lemma sock_recv_at_end:
  assumes "at_end w c d" and "0 < n" and "so_type (sock_at w i) = SOCK_STREAM" and "so_conn (sock_at w i) = Some c"
    and "\<not> so_closed (sock_at w i)"
  obtains w1 where "sock_recv i n w = (w1, Done (take (nat n) d))" and "at_end w1 c (drop (nat n) d)"
    and "sock_at w1 i = sock_at w i"
proof -
  have type': "so_type (sock_at w i) \<noteq> SOCK_DGRAM" using assms(3) by (simp add: SOCK_STREAM_def SOCK_DGRAM_def)
  obtain w1 where w1: "on_stack (stack_conn_recv c n) w = (w1, Done (take (nat n) d))" "at_end w1 c (drop (nat n) d)"
    "wd_socks w1 = wd_socks w"
    by (rule recv_at_end [OF assms(1,2)])
  then have "conn_peer_closed (world_conn w1 c)" by (simp add: at_end_def)
  then have round1: "conn_recv_round c n deadline () w = (w1, Inl (Done (take (nat n) d)))" for deadline
    by (simp add: conn_recv_round_def w1(1))
  have "sock_recv i n w = (w1, Done (take (nat n) d))"
    using assms(4,5) type' by (cases "wd_future w") (simp_all add: sock_recv_def check_open_then poll_def round1)
  then show thesis by (rule that) (use w1 in \<open>simp_all add: sock_at_def\<close>)
qed


definition ended_world :: world where
  "ended_world = (let conn = busy_conn\<lparr>c_state := CLOSE_WAIT, c_recv := fst (ReceiveQueue_insert (c_recv busy_conn) (rq_nxt (c_recv busy_conn)) [7, 8, 9])\<rparr>
     in busy_world\<lparr>wd_stack := fst (stack_new_object conn Accepted sample_stack)\<rparr>)"


section \<open>Datagrams from socket to socket\<close>

lemma udp_send_arg: "coerce_ip r = coerce_ip r' \<Longrightarrow> stack_udp_send p r = stack_udp_send p r'"
  by (simp add: fun_eq_iff stack_udp_send_def)

lemma event_wait_one:
  assumes "\<not> event w" and "\<not> expired (deadline_from timeout w) w" and "wd_future w = (t, f) # rest"
    and "event (world_turn t f (w\<lparr>wd_future := rest\<rparr>))"
  shows "event_wait event timeout w = (world_turn t f (w\<lparr>wd_future := rest\<rparr>), Done True)"
  using assms by (cases rest) (simp_all add: event_wait_def poll_def Let_def)

text \<open>Waiting for a datagram that comes with the next thing the other threads do.\<close>

lemma recvfrom_next:
  assumes "i < length (wd_socks w)" and "so_type (sock_at w i) = SOCK_DGRAM" and "\<not> so_closed (sock_at w i)"
    and "so_udp_queue (sock_at w i) = []" and "\<not> so_udp_event (sock_at w i)"
    and "\<forall>d. so_timeout (sock_at w i) = Some d \<longrightarrow> 0 < d"
    and "wd_future w = (t, f) # rest" and "st_upcalls (f (wd_stack w)) = [(i, payload, src, port)]"
    and "ip_to_str src = Inr hostname"
  shows "\<exists>w'. sock_recvfrom i n w = (w', Done (py_upto payload n, hostname, port)) \<and> so_udp_queue (sock_at w' i) = []"
proof -
  let ?w1 = "world_turn t f (w\<lparr>wd_future := rest\<rparr>)"
  let ?so = "(sock_at w i)\<lparr>so_udp_queue := [(payload, hostname, port)], so_udp_event := True\<rparr>"
  have at1: "sock_at ?w1 i = ?so" "i < length (wd_socks ?w1)"
    using assms(1,4,8,9) by (simp_all add: world_turn_def world_deliver_def world_upcall_def sock_on_udp_def sock_at_def sock_update_def)
  have wait: "event_wait (\<lambda>w. so_udp_event (sock_at w i)) (so_timeout (sock_at w i)) w = (?w1, Done True)"
    using assms(5-7) at1 by (intro event_wait_one) (auto simp: expired_def deadline_from_def split: option.splits)
  let ?w2 = "sock_update i (so_udp_event_update (\<lambda>_. False)) ?w1"
  have at2: "sock_at ?w2 i = ?so\<lparr>so_udp_event := False\<rparr>" using at1 by simp
  have loop: "sock_recvfrom_loop (Suc (Suc fuel)) i w = (?w2, Done ())" for fuel
    using assms(4) at2 by (simp add: prog_simps wait)
  have "sock_recvfrom_loop (length (wd_future w) + 3) i w = (?w2, Done ())"
    using loop [of "length (wd_future w) + 1"] by (simp del: sock_recvfrom_loop.simps add: numeral_3_eq_3)
  then have "sock_recvfrom i n w = (sock_update i (so_udp_queue_update (\<lambda>_. [])) ?w2, Done (py_upto payload n, hostname, port))"
    using assms(2,3) at2 by (simp add: sock_recvfrom_def check_open_then prog_then_def [of "sock_recvfrom_loop m i" for m]
      prog_bind_def del: sock_recvfrom_loop.simps)
  then show ?thesis using at1 at2 by simp
qed

text \<open>C9. A datagram goes from socket to socket: what \<open>sendto\<close> is given leaves in one frame, and \<open>recvfrom\<close> on a
  socket bound to the port of the destination wakes up when its stack handles that frame and returns the
  payload, cut to the size asked for, with the address and the port of the sender; nothing stays queued.\<close>

theorem udp_socket_to_socket:
  assumes "host (wd_stack a)" and "host (wd_stack b)" and "st_ip (wd_stack b) \<noteq> IP_BROADCAST"
    and "resolves (wd_stack a) (st_ip (wd_stack b)) (wd_now a) (st_mac (wd_stack b))"
    and "ip_to_str (st_ip (wd_stack a)) = Inr here" and "ip_to_str (st_ip (wd_stack b)) = Inr there"
    and "so_type (sock_at a i) = SOCK_DGRAM" and "\<not> so_closed (sock_at a i)" and "so_bound_port (sock_at a i) = Some port"
    and "0 < port" and "port \<le> MAX_PORT" and "length payload \<le> 65507"
    and "j < length (wd_socks b)" and "so_type (sock_at b j) = SOCK_DGRAM" and "so_udp_queue (sock_at b j) = []"
    and "\<not> so_udp_event (sock_at b j)" and "\<forall>d. so_timeout (sock_at b j) = Some d \<longrightarrow> 0 < d"
    and "st_upcalls (wd_stack b) = []" and "sock_bind j rport b = (b1, Done ())"
  shows "\<exists>a' frame b2. sock_sendto i payload there rport a = (a', Done (len payload))
     \<and> st_frames (wd_stack a') = st_frames (wd_stack a) @ [frame]
     \<and> sock_recvfrom j n (b1\<lparr>wd_future := (t, \<lambda>s. fst (stack_handle_frame frame rnd t s)) # rest\<rparr>)
         = (b2, Done (py_upto payload n, here, port))
     \<and> so_udp_queue (sock_at b2 j) = []"
proof -
  have open_b: "\<not> so_closed (sock_at b j)" and rport: "0 \<le> rport" "rport \<le> MAX_PORT"
    and b1: "b1 = (sock_update j (so_bound_port_update (\<lambda>_. Some rport)) b)\<lparr>wd_stack := stack_udp_bind rport j (wd_stack b)\<rparr>"
    using assms(13,14,19) by (auto simp: sock_bind_def check_open_then Let_def MAX_PORT_def split: if_splits)
  let ?b = "wd_stack b1"
  have stack_b: "?b = stack_udp_bind rport j (wd_stack b)" by (simp add: b1)
  have host_b: "host ?b"
    using assms(2) stack_reachable.step [OF _ stack_step.udp_bind] by (simp add: host_def stack_b stack_udp_bind_def)
  have same: "st_ip ?b = st_ip (wd_stack b)" "st_mac ?b = st_mac (wd_stack b)" "st_upcalls ?b = []"
    "map_of (st_udp_handlers ?b) rport = Some j"
    using assms(18) by (simp_all add: stack_b stack_udp_bind_def update_conv')
  obtain frame a' b' where send: "stack_udp_send payload (IpBytes (st_ip ?b)) rport port (wd_now a) (wd_stack a) = (a', Inr True)"
    and frame: "st_frames a' = st_frames (wd_stack a) @ [frame]"
    and handle: "stack_handle_frame frame rnd t ?b = (b', Inr ())"
    and up: "st_upcalls b' = st_upcalls ?b @ [(j, payload, st_ip (wd_stack a), port)]"
    using udp_delivery [OF assms(1) host_b, of "wd_now a" rport j port payload rnd t] assms same rport by auto
  have there: "coerce_ip (IpText there) = coerce_ip (IpBytes (st_ip ?b))"
    using text_of_ip assms(6) by (simp add: same)
  have "sock_sendto i payload there rport a = (a\<lparr>wd_stack := a'\<rparr>, Done (len payload))"
    using send assms(7-9) by (simp add: sock_sendto_def check_open_then prog_bind_def on_stack_def prog_return_def
      udp_send_arg [OF there])
  moreover have "\<exists>b2. sock_recvfrom j n (b1\<lparr>wd_future := (t, \<lambda>s. fst (stack_handle_frame frame rnd t s)) # rest\<rparr>)
         = (b2, Done (py_upto payload n, here, port)) \<and> so_udp_queue (sock_at b2 j) = []"
  proof (rule recvfrom_next)
    let ?w = "b1\<lparr>wd_future := (t, \<lambda>s. fst (stack_handle_frame frame rnd t s)) # rest\<rparr>"
    have at: "sock_at ?w j = (sock_at b j)\<lparr>so_bound_port := Some rport\<rparr>" "length (wd_socks ?w) = length (wd_socks b)"
      using assms(13) by (simp_all add: b1 sock_at_def sock_update_def)
    show "j < length (wd_socks ?w)" "so_type (sock_at ?w j) = SOCK_DGRAM" "\<not> so_closed (sock_at ?w j)"
      "so_udp_queue (sock_at ?w j) = []" "\<not> so_udp_event (sock_at ?w j)" "\<forall>d. so_timeout (sock_at ?w j) = Some d \<longrightarrow> 0 < d"
      unfolding at using assms open_b by simp_all
    show "wd_future ?w = (t, \<lambda>s. fst (stack_handle_frame frame rnd t s)) # rest" by simp
    show "st_upcalls (fst (stack_handle_frame frame rnd t (wd_stack ?w))) = [(j, payload, st_ip (wd_stack a), port)]"
      using handle up same by simp
  qed (rule assms(5))
  ultimately show ?thesis using frame by auto
qed

definition udp_world :: "stack \<Rightarrow> int option \<Rightarrow> time \<Rightarrow> world" where
  "udp_world s port now = \<lparr>wd_stack = s, wd_socks = [(new_sock AF_INET SOCK_DGRAM)\<lparr>so_bound_port := port\<rparr>], wd_now = now,
     wd_future = []\<rparr>"

theorem udp_socket_to_socket_witness:
  "\<exists>a' frame b1 b2. sock_sendto 0 [104, 105] ''10.0.0.2'' 53 (udp_world sample_sender (Some 4000) 6) = (a', Done 2)
     \<and> sock_bind 0 53 (udp_world sample_peer None 6) = (b1, Done ())
     \<and> sock_recvfrom 0 1 (b1\<lparr>wd_future := [(7, \<lambda>s. fst (stack_handle_frame frame 0 7 s))]\<rparr>)
         = (b2, Done ([104], ''10.0.0.1'', 4000))"
proof -
  let ?a = "udp_world sample_sender (Some 4000) 6" and ?b = "udp_world sample_peer None 6"
  have facts: "st_ip sample_peer \<noteq> IP_BROADCAST" "ip_to_str (st_ip sample_sender) = Inr ''10.0.0.1''"
    "ip_to_str (st_ip sample_peer) = Inr ''10.0.0.2''" "st_upcalls sample_peer = []"
    by code_simp+
  obtain b1 where b1: "sock_bind 0 53 ?b = (b1, Done ())"
    by (simp add: sock_bind_def check_open_then udp_world_def sock_at_def new_sock_def sock_update_def)
  have "host (wd_stack ?a)" "host (wd_stack ?b)" "resolves (wd_stack ?a) (st_ip (wd_stack ?b)) (wd_now ?a) (st_mac (wd_stack ?b))"
    "so_type (sock_at ?a 0) = SOCK_DGRAM" "\<not> so_closed (sock_at ?a 0)" "so_bound_port (sock_at ?a 0) = Some 4000"
    "so_type (sock_at ?b 0) = SOCK_DGRAM" "so_udp_queue (sock_at ?b 0) = []" "\<not> so_udp_event (sock_at ?b 0)"
    "so_timeout (sock_at ?b 0) = None" "0 < length (wd_socks ?b)" "wd_stack ?a = sample_sender" "wd_stack ?b = sample_peer"
    using sample_hosts sample_resolves by (simp_all add: udp_world_def sock_at_def new_sock_def)
  then have "\<exists>a' frame b2. sock_sendto 0 [104, 105] ''10.0.0.2'' 53 ?a = (a', Done (len [104 :: byte, 105]))
     \<and> st_frames (wd_stack a') = st_frames (wd_stack ?a) @ [frame]
     \<and> sock_recvfrom 0 1 (b1\<lparr>wd_future := (7, \<lambda>s. fst (stack_handle_frame frame 0 7 s)) # []\<rparr>)
         = (b2, Done (py_upto [104 :: byte, 105] 1, ''10.0.0.1'', 4000))
     \<and> so_udp_queue (sock_at b2 0) = []"
    using facts b1 by (intro udp_socket_to_socket) (simp_all add: MAX_PORT_def)
  then show ?thesis using b1 by auto
qed

text \<open>Closing a listening socket leaves the listener with the stack: the port cannot be listened on again.\<close>

lemma close_keeps_listener:
  assumes "so_type (sock_at w i) = SOCK_STREAM" and "so_conn (sock_at w i) = None" and "i < length (wd_socks w)"
    and "map_of (st_listeners (wd_stack w)) port = Some c" and "sock_close i w = (w', Done ())"
  shows "map_of (st_listeners (wd_stack w')) port = Some c"
    and "stack_tcp_listen port (wd_stack w') = (wd_stack w', Inl StackError)"
proof -
  have "so_type (sock_at w i) \<noteq> SOCK_DGRAM" using assms(1) by (simp add: SOCK_STREAM_def SOCK_DGRAM_def)
  then have "wd_stack w' = wd_stack w"
    using assms by (auto simp: sock_close_def prog_modify_def Let_def split: if_splits option.splits)
  then show "map_of (st_listeners (wd_stack w')) port = Some c"
    "stack_tcp_listen port (wd_stack w') = (wd_stack w', Inl StackError)"
    using assms(4) by (simp_all add: stack_tcp_listen_def)
qed

text \<open>\<open>connect_ex\<close> catches only what is an \<open>OSError\<close>: a host that is no address still raises.\<close>

lemma connect_ex_raises:
  assumes "so_type (sock_at w i) = SOCK_DGRAM" and "\<not> so_closed (sock_at w i)" and "ip_to_bytes hostname = Inl ValueError"
  shows "sock_connect_ex i hostname port rnd w = (w, Raised ValueError)"
  using assms by (simp add: sock_connect_ex_def sock_connect_def check_open_then prog_bind_def prog_lift_def is_os_error_def)

section \<open>Fuel\<close>

text \<open>A loop that sleeps uses up the future, never extends it; a loop that has slept has used some of it.\<close>

lemma turn_future [simp]: "wd_future (world_turn t f w) = wd_future w"
proof -
  have "wd_future (fold world_upcall us w) = wd_future w" for us and w :: world
    by (induction us arbitrary: w) (simp_all add: world_upcall_def split: prod.split)
  then show ?thesis by (simp add: world_turn_def world_deliver_def)
qed

lemma poll_loop_future:
  assumes "\<And>x w. wd_future (fst (step x w)) = wd_future w" and "wd_future w = fut"
  shows "length (wd_future (fst (poll_loop fut step x w))) \<le> length fut"
  using assms(2)
proof (induction fut arbitrary: x w)
  case (Cons tf fut)
  show ?case
  proof (cases "step x w")
    case (Pair w1 r)
    with assms(1) [of x w] Cons.prems have w1: "wd_future w1 = tf # fut" by simp
    show ?thesis
    proof (cases r)
      case (Inr y)
      show ?thesis
        using Cons.IH [of "world_turn (fst tf) (snd tf) (w1\<lparr>wd_future := fut\<rparr>)" y] by (simp add: Pair Inr)
    qed (use w1 in \<open>simp add: Pair\<close>)
  qed
next
  case Nil
  show ?case using assms(1) [of x w] Nil by (cases "step x w") (simp split: sum.split)
qed

lemma event_wait_future:
  assumes "event_wait event timeout w = (w1, Done True)"
  shows "event w \<and> w1 = w \<or> length (wd_future w1) < length (wd_future w)"
proof (cases "event w")
  case True
  then show ?thesis using assms by (cases "wd_future w") (simp_all add: event_wait_def poll_def Let_def)
next
  case False
  let ?step = "\<lambda>(_ :: unit) v. if event v then (v, Inl (Done True))
    else if expired (deadline_from timeout w) v then (v, Inl (Done False)) else (v, Inr ())"
  show ?thesis
  proof (cases "wd_future w")
    case Nil
    with assms False show ?thesis by (simp add: event_wait_def poll_def Let_def split: if_splits)
  next
    case (Cons tf rest)
    let ?w2 = "world_turn (fst tf) (snd tf) (w\<lparr>wd_future := rest\<rparr>)"
    have "poll_loop rest ?step () ?w2 = (w1, Done True)"
      using assms False by (simp add: event_wait_def poll_def Let_def Cons split: if_splits)
    moreover have "length (wd_future (fst (poll_loop rest ?step () ?w2))) \<le> length rest"
      by (rule poll_loop_future) auto
    ultimately show ?thesis by (simp add: Cons)
  qed
qed

text \<open>The rounds of \<open>recvfrom\<close>: one that finds the event set clears it, any other sleeps. More fuel than the future
  is long, and two, changes nothing.\<close>

lemma recvfrom_fuel:
  assumes "i < length (wd_socks w)" and "length (wd_future w) + (if so_udp_event (sock_at w i) then 1 else 0) < fuel"
  shows "sock_recvfrom_loop (fuel + extra) i w = sock_recvfrom_loop fuel i w"
  using assms
proof (induction fuel arbitrary: w)
  case (Suc fuel)
  show ?case
  proof (cases "so_udp_queue (sock_at w i) = []")
    case True
    obtain w1 r where 1: "event_wait (\<lambda>w. so_udp_event (sock_at w i)) (so_timeout (sock_at w i)) w = (w1, r)"
      by (cases "event_wait (\<lambda>w. so_udp_event (sock_at w i)) (so_timeout (sock_at w i)) w")
    show ?thesis
    proof (cases "r = Done True")
      case woken: True
      let ?w2 = "sock_update i (so_udp_event_update (\<lambda>_. False)) w1"
      have "same_socks w1 w"
        using poll_loop_socks [of "\<lambda>_ v. if so_udp_event (sock_at v i) then (v, Inl (Done True))
            else if expired (deadline_from (so_timeout (sock_at w i)) w) v then (v, Inl (Done False)) else (v, Inr ())" "wd_future w" "()" w] 1
        by (simp add: event_wait_def poll_def Let_def)
      then have len: "i < length (wd_socks w1)" using same_socks_D(1) Suc.prems(1) by metis
      have "length (wd_future ?w2) + (if so_udp_event (sock_at ?w2 i) then 1 else 0) < fuel"
        using event_wait_future [OF 1 [unfolded woken]] Suc.prems(2) len by (auto split: if_splits)
      from Suc.IH [OF _ this] len have "sock_recvfrom_loop (fuel + extra) i ?w2 = sock_recvfrom_loop fuel i ?w2" by simp
      with True 1 woken show ?thesis by (simp add: prog_simps)
    next
      case False
      with True 1 show ?thesis by (cases r) (simp_all add: prog_simps)
    qed
  qed simp
qed simp

end
