(* ===== verification/Dissect.thy ===== *)
theory Dissect
  imports IPv4_Wire Arp Udp Icmp Segment Ethernet
begin

text \<open>
  \<open>minitcp/dissect.py\<close>: one-line summaries of frames, and the renderings of TCP options and segments they use.

  \<^item> The text of an exception is an argument: \<open>why d\<close> is the message of the error that parsing \<open>d\<close> raises.
  \<^item> Only \<open>ValueError\<close> is caught; any other error of a parser would be the result. The theorem is that none is left.
\<close>

section \<open>Formatting\<close>

text \<open>\<open>%d\<close> and \<open>%u\<close>, \<open>%04x\<close>, and \<open>" ".join\<close>.\<close>

definition fmt_d :: "int \<Rightarrow> string" where
  "fmt_d n = (if n < 0 then CHR ''-'' # decimal (nat (- n)) else decimal (nat n))"

fun hexadecimal :: "nat \<Rightarrow> string" where
  "hexadecimal n = (if n < 16 then [hex_digit n] else hexadecimal (n div 16) @ [hex_digit (n mod 16)])"

definition fmt_04x :: "int \<Rightarrow> string" where
  "fmt_04x n = (let digits = hexadecimal (nat n) in replicate (4 - length digits) (CHR ''0'') @ digits)"

fun join_space :: "string list \<Rightarrow> string" where
  "join_space [] = []"
| "join_space [s] = s"
| "join_space (s # t # r) = s @ '' '' @ join_space (t # r)"

text \<open>\<open>try\<close> with \<open>except ValueError\<close>.\<close>

definition try_value_error :: "py_error + 'a \<Rightarrow> py_error + 'b \<Rightarrow> ('a \<Rightarrow> py_error + 'b) \<Rightarrow> py_error + 'b" where
  "try_value_error r handler k =
     (case r of Inl e \<Rightarrow> if e = ValueError then handler else Inl e | Inr x \<Rightarrow> k x)"


section \<open>TCP segments as text\<close>

definition TCPOptions_repr :: "tcp_options \<Rightarrow> string" where
  "TCPOptions_repr opts =
     (let bits = (case opt_mss opts of None \<Rightarrow> [] | Some v \<Rightarrow> [''mss='' @ fmt_d v])
               @ (case opt_window_scale opts of None \<Rightarrow> [] | Some v \<Rightarrow> [''wscale='' @ fmt_d v])
               @ (if opt_sack_permitted opts then [''sack-ok''] else [])
               @ (if opt_sack_blocks opts \<noteq> [] then [''sack='' @ fmt_d (len (opt_sack_blocks opts))] else [])
               @ (case opt_timestamp opts of None \<Rightarrow> [] | Some v \<Rightarrow> [''ts='' @ fmt_d v])
      in ''<TCPOptions '' @ (if join_space bits = [] then ''empty'' else join_space bits) @ ''>'')"

text \<open>What the two renderings of a segment have in common: everything from the sequence number on.\<close>

definition segment_parts :: "tcp_segment \<Rightarrow> string list" where
  "segment_parts s =
     [''seq='' @ fmt_d (seg_seq s)]
     @ (if is_ack s then [''ack='' @ fmt_d (seg_ack s)] else [])
     @ [''win='' @ fmt_d (seg_window s)]
     @ (if seg_payload s \<noteq> [] then [''len='' @ fmt_d (len (seg_payload s))] else [])
     @ (if \<not> TCPOptions_is_empty (seg_options s) then [TCPOptions_repr (seg_options s)] else [])"

definition TCPSegment_describe :: "tcp_segment \<Rightarrow> string" where
  "TCPSegment_describe s =
     join_space ([fmt_d (seg_src_port s) @ '' > '' @ fmt_d (seg_dst_port s), describe_flags (seg_flags s)] @ segment_parts s)"


section \<open>Frames as text\<close>

definition describe_tcp :: "(bytes \<Rightarrow> string) \<Rightarrow> ipv4_packet \<Rightarrow> py_error + string" where
  "describe_tcp why p =
     try_value_error (TCPSegment_parse (ip_payload p) (Some (ip_src p)) (Some (ip_dst p)) False)
       (Inr (''TCP malformed: '' @ why (ip_payload p)))
       (\<lambda>s. Inr (join_space ([''TCP'', fmt_d (seg_src_port s) @ '' > '' @ fmt_d (seg_dst_port s),
                               ''['' @ describe_flags (seg_flags s) @ '']''] @ segment_parts s)))"

text \<open>\<open>int.from_bytes(b, "big")\<close>\<close>

definition int_from_bytes :: "bytes \<Rightarrow> int" where
  "int_from_bytes d = fold (\<lambda>b n. n * 256 + uint b) d 0"

text \<open>The fallback of \<open>_describe_udp\<close> builds a datagram from slices, which never raises: its own
  \<open>except\<close> is not reached.\<close>

definition describe_udp :: "ipv4_packet \<Rightarrow> py_error + string" where
  "describe_udp p =
     (let line = (\<lambda>src dst payload. ''UDP '' @ fmt_d src @ '' > '' @ fmt_d dst @ '' len='' @ fmt_d (len payload));
          d = ip_payload p
      in try_value_error (UDPSegment_parse d (ip_src p) (ip_dst p))
           (Inr (line (int_from_bytes (take 2 d)) (int_from_bytes (take 2 (drop 2 d))) (drop 8 d) @ '' [bad checksum]''))
           (\<lambda>s. Inr (line (udp_src_port s) (udp_dst_port s) (udp_payload s))))"

definition icmp_labels :: "(int \<times> string) list" where
  "icmp_labels = [(ECHO_REQUEST, ''echo-request''), (ECHO_REPLY, ''echo-reply''),
     (DEST_UNREACHABLE, ''destination-unreachable''), (TIME_EXCEEDED, ''time-exceeded'')]"

definition describe_icmp :: "(bytes \<Rightarrow> string) \<Rightarrow> ipv4_packet \<Rightarrow> py_error + string" where
  "describe_icmp why p =
     try_value_error (ICMPMessage_parse (ip_payload p)) (Inr (''ICMP malformed: '' @ why (ip_payload p))) (\<lambda>m.
       let label = (case map_of icmp_labels (icmp_type m) of Some l \<Rightarrow> l | None \<Rightarrow> ''type-'' @ fmt_d (icmp_type m));
           by_code = Inr (''ICMP '' @ label @ '' code='' @ fmt_d (icmp_code m))
       in if icmp_type m = ECHO_REQUEST \<or> icmp_type m = ECHO_REPLY
          then try_value_error (EchoMessage_from_icmp m) by_code (\<lambda>e.
                 Inr (''ICMP '' @ label @ '' id='' @ fmt_d (echo_identifier e) @ '' seq='' @ fmt_d (echo_sequence e)
                        @ '' len='' @ fmt_d (len (echo_data e))))
          else by_code)"

definition describe_ipv4 :: "(bytes \<Rightarrow> string) \<Rightarrow> ethernet_frame \<Rightarrow> py_error + string" where
  "describe_ipv4 why frame =
     try_value_error (IPv4Packet_parse (eth_payload frame)) (Inr (''IPv4 malformed: '' @ why (eth_payload frame))) (\<lambda>p.
       sum_bind (ip_to_str (ip_src p)) (\<lambda>src.
       sum_bind (ip_to_str (ip_dst p)) (\<lambda>dst.
       let prefix = src @ '' > '' @ dst
             @ (if ip_is_fragmented p
                then '' (frag offset='' @ fmt_d (ip_fragment_offset p * 8)
                       @ (if ip_flags p AND 0x2000 \<noteq> 0 then '' more'' else '' last'') @ '')'' else [])
       in if ip_protocol p = PROTO_TCP then sum_bind (describe_tcp why p) (\<lambda>t. Inr (prefix @ '' '' @ t))
          else if ip_protocol p = PROTO_UDP then sum_bind (describe_udp p) (\<lambda>t. Inr (prefix @ '' '' @ t))
          else if ip_protocol p = PROTO_ICMP then sum_bind (describe_icmp why p) (\<lambda>t. Inr (prefix @ '' '' @ t))
          else Inr (prefix @ '' protocol='' @ fmt_d (ip_protocol p) @ '' len='' @ fmt_d (len (ip_payload p))))))"

definition describe_arp :: "(bytes \<Rightarrow> string) \<Rightarrow> ethernet_frame \<Rightarrow> py_error + string" where
  "describe_arp why frame =
     try_value_error (ARPPacket_parse (eth_payload frame)) (Inr (''ARP malformed: '' @ why (eth_payload frame))) (\<lambda>p.
       if arp_is_request p then
         sum_bind (ip_to_str (arp_target_ip p)) (\<lambda>target.
         sum_bind (ip_to_str (arp_sender_ip p)) (\<lambda>sender. Inr (''ARP who-has '' @ target @ '' tell '' @ sender)))
       else
         sum_bind (ip_to_str (arp_sender_ip p)) (\<lambda>sender.
           Inr (''ARP '' @ sender @ '' is-at '' @ mac_to_str (arp_sender_mac p))))"

definition describe_frame :: "(bytes \<Rightarrow> string) \<Rightarrow> bytes \<Rightarrow> py_error + string" where
  "describe_frame why raw =
     try_value_error (EthernetFrame_parse raw) (Inr (''<unparseable frame: '' @ why raw @ ''>'')) (\<lambda>frame.
       if eth_ethertype frame = ETHERTYPE_ARP then describe_arp why frame
       else if eth_ethertype frame = ETHERTYPE_IPV4 then describe_ipv4 why frame
       else Inr (''ethertype=0x'' @ fmt_04x (eth_ethertype frame) @ '' len='' @ fmt_d (len (eth_payload frame))))"


section \<open>Every frame has a summary\<close>

definition described :: "py_error + string \<Rightarrow> bool" where
  "described r \<longleftrightarrow> (\<exists>line. r = Inr line)"

lemma described_Inr [simp]: "described (Inr line)"
  by (simp add: described_def)

lemma described_bind: "described m \<Longrightarrow> described (sum_bind m (\<lambda>t. Inr (f t)))"
  by (auto simp: described_def)

lemma described_try:
  assumes "\<And>e. r = Inl e \<Longrightarrow> e = ValueError" and "described h" and "\<And>x. r = Inr x \<Longrightarrow> described (k x)"
  shows "described (try_value_error r h k)"
  using assms by (cases r) (auto simp: try_value_error_def)

lemma ip_to_str_total: "length a = 4 \<Longrightarrow> \<exists>t. ip_to_str a = Inr t"
  by (auto simp: ip_to_str_def length_Suc_conv numeral_eq_Suc)

lemma described_tcp: "described (describe_tcp why p)"
  unfolding describe_tcp_def
  by (rule described_try) (auto simp: TCPSegment_parse_def Let_def sum_bind_Inl split: if_splits)

lemma described_udp: "described (describe_udp p)"
  unfolding describe_udp_def Let_def
  by (rule described_try) (auto dest: udp_parse_error)

lemma described_icmp: "described (describe_icmp why p)"
  unfolding describe_icmp_def Let_def
  by (rule described_try)
    (auto simp: ICMPMessage_parse_def EchoMessage_from_icmp_def intro!: described_try split: if_splits)

lemma described_ipv4: "described (describe_ipv4 why frame)"
  unfolding describe_ipv4_def
proof (rule described_try)
  fix p
  assume "IPv4Packet_parse (eth_payload frame) = Inr p"
  then have "length (ip_src p) = 4" "length (ip_dst p) = 4" using ip_parse_carried ip_carried_def by auto
  then obtain src dst where "ip_to_str (ip_src p) = Inr src" "ip_to_str (ip_dst p) = Inr dst" using ip_to_str_total by blast
  then show "described (sum_bind (ip_to_str (ip_src p)) (\<lambda>src. sum_bind (ip_to_str (ip_dst p)) (\<lambda>dst.
       let prefix = src @ '' > '' @ dst
             @ (if ip_is_fragmented p
                then '' (frag offset='' @ fmt_d (ip_fragment_offset p * 8)
                       @ (if ip_flags p AND 0x2000 \<noteq> 0 then '' more'' else '' last'') @ '')'' else [])
       in if ip_protocol p = PROTO_TCP then sum_bind (describe_tcp why p) (\<lambda>t. Inr (prefix @ '' '' @ t))
          else if ip_protocol p = PROTO_UDP then sum_bind (describe_udp p) (\<lambda>t. Inr (prefix @ '' '' @ t))
          else if ip_protocol p = PROTO_ICMP then sum_bind (describe_icmp why p) (\<lambda>t. Inr (prefix @ '' '' @ t))
          else Inr (prefix @ '' protocol='' @ fmt_d (ip_protocol p) @ '' len='' @ fmt_d (len (ip_payload p))))))"
    by (simp add: Let_def described_bind described_tcp described_udp described_icmp)
qed (auto dest: ip_parse_error)

lemma described_arp: "described (describe_arp why frame)"
  unfolding describe_arp_def
proof (rule described_try)
  fix p
  assume "ARPPacket_parse (eth_payload frame) = Inr p"
  then have "length (arp_sender_ip p) = 4" "length (arp_target_ip p) = 4"
    by (auto simp: ARPPacket_parse_def PACKET_LEN_def Let_def split: if_splits)
  then obtain s t where "ip_to_str (arp_sender_ip p) = Inr s" "ip_to_str (arp_target_ip p) = Inr t" using ip_to_str_total by blast
  then show "described (if arp_is_request p then
         sum_bind (ip_to_str (arp_target_ip p)) (\<lambda>target.
         sum_bind (ip_to_str (arp_sender_ip p)) (\<lambda>sender. Inr (''ARP who-has '' @ target @ '' tell '' @ sender)))
       else sum_bind (ip_to_str (arp_sender_ip p)) (\<lambda>sender.
           Inr (''ARP '' @ sender @ '' is-at '' @ mac_to_str (arp_sender_mac p))))"
    by simp
qed (auto simp: ARPPacket_parse_def Let_def split: if_splits)


text \<open>The checksum of an ICMP message is verified even here, so a corrupt one shows only an error; and a UDP
  datagram that is cut short is reported with a bad checksum it does not have.\<close>

lemma corrupt_icmp_hidden:
  "\<not> len (ip_payload p) < ICMP_HEADER_LEN \<Longrightarrow> checksum (ip_payload p) \<noteq> 0 \<Longrightarrow>
     describe_icmp why p = Inr (''ICMP malformed: '' @ why (ip_payload p))"
  by (simp add: describe_icmp_def ICMPMessage_parse_def try_value_error_def)

lemma short_udp_bad_checksum:
  "describe_udp (p\<lparr>ip_payload := [0, 53, 0]\<rparr>) = Inr ''UDP 53 > 0 len=0 [bad checksum]''"
proof -
  have "fmt_d 53 = ''53''" "fmt_d 0 = ''0''" by code_simp+
  then show ?thesis
    by (simp add: describe_udp_def UDPSegment_parse_def UDP_HEADER_LEN_def try_value_error_def int_from_bytes_def)
qed

end
