(* ===== verification/Handshake.thy ===== *)
theory Handshake
  imports Conn_Steps
begin

text \<open>
  The three-way handshake between two connections: what \<open>connect\<close>, the listener, the answer to the SYN+ACK and
  the answer to the final ACK do, one lemma each, and their composition.
\<close>

section \<open>A connection whose SYN is out\<close>

text \<open>What no part of the handshake changes.\<close>

definition pristine :: "conn \<Rightarrow> bool" where
  "pristine c \<longleftrightarrow> sq_capacity (c_send c) = cfg_send_capacity (c_cfg c) \<and> rx_capacity (c_retx c) = 2 ^ 20 \<and> c_fin_seq c = None
     \<and> c_delayed_ack_at c = None \<and> re_mss (c_reno c) = cfg_mss (c_cfg c)"

lemma pristine_fields [simp]:
  "pristine (c\<lparr>c_out := evs\<rparr>) = pristine c"
  "cfg_send_capacity cfg = cfg_send_capacity (c_cfg c) \<Longrightarrow> cfg_mss cfg = cfg_mss (c_cfg c) \<Longrightarrow> pristine (c\<lparr>c_cfg := cfg\<rparr>) = pristine c"
  by (simp_all add: pristine_def)

text \<open>Before the peer has answered: the SYN or SYN+ACK takes the first sequence number and is the only thing
  in flight.\<close>

definition syn_out :: "conn \<Rightarrow> int \<Rightarrow> time \<Rightarrow> bool" where
  "syn_out c flags now \<longleftrightarrow>
     valid_seq (c_iss c) \<and> sq_una (c_send c) = c_iss c \<and> sq_nxt (c_send c) = seq_add (c_iss c) 1 \<and> sq_buf (c_send c) = []
     \<and> segs c = [new_entry (c_iss c) flags [] now] \<and> os_seq_len (new_entry (c_iss c) flags [] now) = 1
     \<and> \<not> is_synchronised (c_state c) \<and> pristine c"

text \<open>Everything the other side must have, once the handshake is over.\<close>

definition settled :: "conn \<Rightarrow> bool" where
  "settled c \<longleftrightarrow> c_state c = ESTABLISHED \<and> sq_una (c_send c) = seq_add (c_iss c) 1 \<and> sq_nxt (c_send c) = seq_add (c_iss c) 1
     \<and> segs c = [] \<and> c_retransmit_at c = None \<and> sq_buf (c_send c) = [] \<and> pristine c"

lemma flush_unsynchronised: "\<not> is_synchronised (c_state c) \<Longrightarrow> conn_flush now c = c"
  by (simp add: conn_flush_def)

lemma after_iss:
  assumes "valid_seq iss"
  shows "seq_gt (seq_add iss 1) iss" and "seq_diff (seq_add iss 1) iss = 1" and "\<not> seq_lt (seq_add iss 1) (seq_add iss 1)"
    and "seq_le (seq_add iss 1) (seq_add iss 1)" and "seq_ge (seq_add iss 1) (seq_add iss 1)"
proof -
  have iss: "iss = wrap iss" using assms by simp
  have h: "SEQ_HALF = 2147483648" by (simp add: SEQ_HALF_def)
  show "seq_gt (seq_add iss 1) iss"
    using seq_gt_wrap [of "iss + 1" iss] by (simp add: seq_add_valid h assms)
  show "seq_diff (seq_add iss 1) iss = 1"
    using seq_diff_wrap [of "iss + 1" iss] by (simp add: seq_add_valid h assms)
  show "\<not> seq_lt (seq_add iss 1) (seq_add iss 1)" "seq_le (seq_add iss 1) (seq_add iss 1)" "seq_ge (seq_add iss 1) (seq_add iss 1)"
    using seq_lt_wrap [of "iss + 1" "iss + 1"] seq_le_wrap [of "iss + 1" "iss + 1"] seq_ge_wrap [of "iss + 1" "iss + 1"]
    by (simp_all add: seq_add_valid h)
qed

lemma syn_acknowledged:
  assumes "syn_out c flags sent" and "seg_ack seg = seq_add (c_iss c) 1"
  obtains q rto reno where "conn_process_ack seg now c
      = c\<lparr>c_send := q, c_retx := (c_retx c)\<lparr>rx_segments := []\<rparr>, c_rto := rto, c_reno := reno,
           c_peer_window := push_bit (nat (c_snd_wscale c)) (seg_window seg), c_retransmit_at := None\<rparr>"
    and "sq_una q = seq_add (c_iss c) 1" and "sq_nxt q = seq_add (c_iss c) 1"
    and "sq_buf q = []" and "sq_capacity q = sq_capacity (c_send c)" and "re_mss reno = re_mss (c_reno c)"
proof -
  have syn: "valid_seq (c_iss c)" "sq_una (c_send c) = c_iss c" "sq_nxt (c_send c) = seq_add (c_iss c) 1" "sq_buf (c_send c) = []"
    "segs c = [new_entry (c_iss c) flags [] sent]" "os_seq_len (new_entry (c_iss c) flags [] sent) = 1"
    and state: "\<not> is_synchronised (c_state c)"
    using assms(1) by (simp_all add: syn_out_def)
  note ord = after_iss [OF syn(1)]
  let ?q = "(c_send c)\<lparr>sq_una := seq_add (c_iss c) 1, sq_buf := drop 1 (sq_buf (c_send c))\<rparr>"
  have ack: "SendQueue_acknowledge (c_send c) (seg_ack seg) = (?q, 1)"
    using SendQueue_acknowledge_new [of "seg_ack seg" "c_send c"] ord syn(2,3) assms(2)
    by (cases "c_send c") simp
  have entry: "os_seq_end (new_entry (c_iss c) flags [] sent) = seq_add (c_iss c) 1"
    using syn(6) by (simp add: os_seq_end_def seq_add_def SEQ_MASK_def)
  have retx: "RetransmitQueue_acknowledge (c_retx c) (seg_ack seg)
      = ((c_retx c)\<lparr>rx_segments := []\<rparr>, [new_entry (c_iss c) flags [] sent])"
    using syn(5) entry ord(4) assms(2) by (simp add: RetransmitQueue_acknowledge_def)
  have gt: "seq_gt (seg_ack seg) (sq_una (c_send c))" using ord(1) syn(2) assms(2) by simp
  let ?c2 = "c\<lparr>c_send := ?q, c_retx := (c_retx c)\<lparr>rx_segments := []\<rparr>,
      c_rto := conn_rtt_update now [new_entry (c_iss c) flags [] sent] (c_rto c),
      c_reno := RenoCongestion_on_ack (c_reno c) 1 (Some (seg_ack seg))\<rparr>"
  have "conn_process_ack seg now c = conn_flush now (conn_arm_retransmit_timer now (fst (conn_update_peer_window seg ?c2)))"
    using gt by (simp add: conn_process_ack_def ack retx Let_def)
  moreover have "conn_arm_retransmit_timer now (fst (conn_update_peer_window seg ?c2))
      = ?c2\<lparr>c_peer_window := push_bit (nat (c_snd_wscale c)) (seg_window seg), c_retransmit_at := None\<rparr>"
    by (simp add: conn_arm_retransmit_timer_def conn_update_peer_window_def RetransmitQueue_len_def Let_def)
  ultimately have "conn_process_ack seg now c
      = ?c2\<lparr>c_peer_window := push_bit (nat (c_snd_wscale c)) (seg_window seg), c_retransmit_at := None\<rparr>"
    using state by (simp add: flush_unsynchronised)
  then have run: "conn_process_ack seg now c = c\<lparr>c_send := ?q, c_retx := (c_retx c)\<lparr>rx_segments := []\<rparr>,
      c_rto := conn_rtt_update now [new_entry (c_iss c) flags [] sent] (c_rto c),
      c_reno := RenoCongestion_on_ack (c_reno c) 1 (Some (seg_ack seg)),
      c_peer_window := push_bit (nat (c_snd_wscale c)) (seg_window seg), c_retransmit_at := None\<rparr>" by simp
  show thesis by (rule that [OF run]) (use syn(3,4) in simp_all)
qed


section \<open>The four steps\<close>

text \<open>The constructor succeeds only with positive capacities and MSS, and later calls with the same ones
  succeed too.\<close>

lemma init_fields:
  assumes "TCPConnection_init cfg = Inr c"
  shows "c_state c = CLOSED" "c_cfg c = cfg" "c_out c = []" "segs c = []" "rx_capacity (c_retx c) = 2 ^ 20"
    "0 < cfg_send_capacity cfg" "0 < cfg_receive_capacity cfg" "0 < cfg_mss cfg" "c_fin_seq c = None"
    "c_delayed_ack_at c = None"
  using assms
  by (auto simp: TCPConnection_init_def sum_bind_Inr SendQueue_init_def ReceiveQueue_init_def ReorderQueue_init_def
      RenoCongestion_init_def RetransmitQueue_init_def split: if_splits sum.splits)

definition syn_segment :: "tcp_segment \<Rightarrow> int \<Rightarrow> conn \<Rightarrow> bool" where
  "syn_segment seg flags c \<longleftrightarrow> seg_flags seg = flags \<and> seg_seq seg = c_iss c \<and> seg_payload seg = []
     \<and> opt_mss (seg_options seg) = Some (cfg_mss (c_cfg c))"

text \<open>Where the segments of the handshake come from: what is needed to put them on the wire.\<close>

definition from_conn :: "conn_config \<Rightarrow> tcp_segment \<Rightarrow> bool" where
  "from_conn cfg seg \<longleftrightarrow> (\<exists>c sq f ack opts. seg = conn_segment sq f [] ack opts c \<and> c_cfg c = cfg \<and> valid_seq sq
     \<and> valid_seq (case ack of None \<Rightarrow> rq_nxt (c_recv c) | Some a \<Rightarrow> a) \<and> 0 \<le> f \<and> f < 2 ^ 9
     \<and> (opts = None \<or> opts = Some (conn_syn_options c)))"

lemma from_connI:
  "c_cfg c = cfg \<Longrightarrow> valid_seq sq \<Longrightarrow> valid_seq (case ack of None \<Rightarrow> rq_nxt (c_recv c) | Some a \<Rightarrow> a) \<Longrightarrow> 0 \<le> f \<Longrightarrow> f < 2 ^ 9
     \<Longrightarrow> opts = None \<or> opts = Some (conn_syn_options c) \<Longrightarrow> from_conn cfg (conn_segment sq f [] ack opts c)"
  unfolding from_conn_def by blast

lemma receive_queue_next: "ReceiveQueue_init s cap = Inr q \<Longrightarrow> rq_nxt q = seq_add s 1"
  by (auto simp: ReceiveQueue_init_def split: if_splits sum.splits)

lemma advertised_cong:
  "c_cfg d = c_cfg c \<Longrightarrow> c_recv d = c_recv c \<Longrightarrow> seg_window (conn_segment sq f p a opts c) = conn_advertised_window d"
  by (simp add: conn_segment_def conn_advertised_window_def Let_def)

lemma connect_syn:
  assumes "TCPConnection_init cfg = Inr c"
  obtains c1 syn where "conn_connect rnd now c = Inr c1" and "c_state c1 = SYN_SENT" and "c_cfg c1 = cfg"
    and "c_out c1 = [Transmit syn (cfg_remote_ip cfg)]" and "syn_out c1 FLAG_SYN now" and "syn_segment syn FLAG_SYN c1"
    and "seg_src_port syn = cfg_local_port cfg" and "seg_dst_port syn = cfg_remote_port cfg" and "from_conn cfg syn"
proof -
  note f = init_fields [OF assms]
  let ?iss = "conn_choose_iss rnd c"
  obtain q where q: "SendQueue_init ?iss (cfg_send_capacity cfg) = Inr q" "sq_una q = ?iss" "sq_buf q = []"
      "sq_capacity q = cfg_send_capacity cfg"
    using f(6) by (simp add: SendQueue_init_def)
  obtain r where r: "ReceiveQueue_init 0 (cfg_receive_capacity cfg) = Inr r"
    using f(7) by (simp add: ReceiveQueue_init_def ReorderQueue_init_def)
  obtain reno where reno: "RenoCongestion_init (cfg_mss cfg) None None = Inr reno" "re_mss reno = cfg_mss cfg"
    using f(8) by (simp add: RenoCongestion_init_def)
  let ?c1 = "c\<lparr>c_iss := ?iss, c_send := q, c_recv := r, c_reno := reno\<rparr>"
  let ?c2 = "conn_transmit ?iss FLAG_SYN [] now None (Some (conn_syn_options ?c1)) True ?c1"
  let ?c4 = "(conn_set_snd_nxt (seq_add ?iss 1) ?c2)\<lparr>c_state := SYN_SENT, c_syn_sent_at := Some now\<rparr>"
  have run: "conn_connect rnd now c = Inr ?c4" using f q r reno by (simp add: conn_connect_def Let_def)
  have tracked: "c_retx ?c2 = (c_retx ?c1)\<lparr>rx_segments := segs ?c1 @ [new_entry ?iss FLAG_SYN [] now]\<rparr>"
    by (rule conn_transmit_tracked) (use f in simp_all)
  show thesis
  proof (rule that [OF run])
    show "c_out ?c4 = [Transmit (conn_segment ?iss FLAG_SYN [] None (Some (conn_syn_options ?c1)) ?c1) (cfg_remote_ip cfg)]"
      using f by (simp add: conn_set_snd_nxt_def)
    show "syn_out ?c4 FLAG_SYN now"
      using choose_iss_valid q reno(2) tracked f(2,4,5,9,10)
      by (simp add: syn_out_def pristine_def conn_set_snd_nxt_def is_synchronised_def)
    show "syn_segment (conn_segment ?iss FLAG_SYN [] None (Some (conn_syn_options ?c1)) ?c1) FLAG_SYN ?c4"
      using f by (simp add: syn_segment_def conn_segment_def conn_syn_options_def conn_set_snd_nxt_def)
    show "from_conn cfg (conn_segment ?iss FLAG_SYN [] None (Some (conn_syn_options ?c1)) ?c1)"
      using f choose_iss_valid receive_queue_next [OF r] by (intro from_connI) (simp_all add: flag_defs)
  qed (use f in \<open>simp_all add: conn_set_snd_nxt_def conn_segment_def\<close>)
qed

lemma apply_options_fields [simp]:
  "c_cfg (conn_apply_peer_options opts c) = c_cfg c" "c_state (conn_apply_peer_options opts c) = c_state c"
  "c_iss (conn_apply_peer_options opts c) = c_iss c" "c_send (conn_apply_peer_options opts c) = c_send c"
  "c_recv (conn_apply_peer_options opts c) = c_recv c" "c_retx (conn_apply_peer_options opts c) = c_retx c"
  "c_out (conn_apply_peer_options opts c) = c_out c" "c_retransmit_at (conn_apply_peer_options opts c) = c_retransmit_at c"
  "c_fin_seq (conn_apply_peer_options opts c) = c_fin_seq c"
  "c_delayed_ack_at (conn_apply_peer_options opts c) = c_delayed_ack_at c"
  "c_reno (conn_apply_peer_options opts c) = c_reno c"
  by (simp_all add: conn_apply_peer_options_def Let_def split: option.split)

lemma apply_options_full_mss:
  "opt_mss opts = Some m \<Longrightarrow> c_peer_mss (conn_apply_peer_options opts c) = max (min m (cfg_mss (c_cfg c))) 64"
  by (simp add: conn_apply_peer_options_def Let_def split: option.split)

lemma is_flags [simp]:
  "seg_flags s = FLAG_SYN \<Longrightarrow> is_syn s \<and> \<not> is_ack s \<and> \<not> is_rst s"
  "seg_flags s = FLAG_SYN OR FLAG_ACK \<Longrightarrow> is_syn s \<and> is_ack s \<and> \<not> is_rst s"
  "seg_flags s = FLAG_ACK \<Longrightarrow> \<not> is_syn s \<and> is_ack s \<and> \<not> is_rst s"
  by (simp_all add: is_syn_def is_ack_def is_rst_def flag_defs)

text \<open>The listener makes a child that has the peer's SYN and answers with a SYN+ACK.\<close>

lemma listener_answers:
  assumes "TCPConnection_init cfg = Inr l0" and "c_state l = LISTEN" and "c_cfg l = cfg"
    and "seg_flags syn = FLAG_SYN" and "opt_mss (seg_options syn) = Some m"
  obtains l' child answer where "conn_on_segment syn (Some ip) rnd now l = Inr (l', Some child)" and "c_state l' = LISTEN" and "c_out l' = c_out l" and "c_cfg l' = c_cfg l"
    and "c_state child = SYN_RECEIVED" and "c_cfg child = cfg\<lparr>cfg_remote_ip := ip, cfg_remote_port := seg_src_port syn, cfg_initial_window := None\<rparr>"
    and "c_out child = [Transmit answer ip]" and "syn_out child (FLAG_SYN OR FLAG_ACK) now"
    and "syn_segment answer (FLAG_SYN OR FLAG_ACK) child" and "seg_ack answer = seq_add (seg_seq syn) 1"
    and "from_conn (c_cfg child) answer" and "seg_src_port answer = cfg_local_port cfg" and "seg_dst_port answer = seg_src_port syn"
    and "rq_nxt (c_recv child) = seq_add (seg_seq syn) 1" and "c_peer_mss child = max (min m (cfg_mss cfg)) 64"
    and "ReceiveQueue_init (seg_seq syn) (cfg_receive_capacity cfg) = Inr (c_recv child)"
    and "seg_window answer = conn_advertised_window child"
proof -
  note l = init_fields [OF assms(1)]
  let ?cfg = "cfg\<lparr>cfg_remote_ip := ip, cfg_remote_port := seg_src_port syn, cfg_initial_window := None\<rparr>"
  let ?l = "l\<lparr>c_segments_received := c_segments_received l + 1, c_last_activity := now\<rparr>"
  have cc: "conn_child_config syn (Some ip) ?l = ?cfg" using assms(3) by (simp add: conn_child_config_def)
  obtain fresh where fresh: "TCPConnection_init ?cfg = Inr fresh"
    using assms(1) l(6-8) by (auto simp: TCPConnection_init_def sum_bind_Inr SendQueue_init_def ReceiveQueue_init_def
        ReorderQueue_init_def RenoCongestion_init_def split: if_splits)
  note f = init_fields [OF fresh]
  let ?iss = "conn_choose_iss rnd fresh"
  obtain q where q: "SendQueue_init ?iss (cfg_send_capacity ?cfg) = Inr q" "sq_una q = ?iss" "sq_buf q = []"
      "sq_capacity q = cfg_send_capacity cfg"
    using l(6) by (simp add: SendQueue_init_def)
  obtain r where r: "ReceiveQueue_init (seg_seq syn) (cfg_receive_capacity ?cfg) = Inr r"
    using l(7) by (simp add: ReceiveQueue_init_def ReorderQueue_init_def)
  obtain reno where reno: "RenoCongestion_init (cfg_mss ?cfg) None None = Inr reno" "re_mss reno = cfg_mss cfg"
    using l(8) by (simp add: RenoCongestion_init_def)
  let ?c0 = "fresh\<lparr>c_irs := seg_seq syn, c_iss := ?iss, c_send := q, c_recv := r, c_reno := reno, c_peer_window := seg_window syn\<rparr>"
  let ?c1 = "conn_apply_peer_options (seg_options syn) ?c0"
  let ?c2 = "conn_transmit ?iss (FLAG_SYN OR FLAG_ACK) [] now (Some (rq_nxt (c_recv ?c1))) (Some (conn_syn_options ?c1)) True ?c1"
  let ?child = "(conn_set_snd_nxt (seq_add ?iss 1) ?c2)\<lparr>c_state := SYN_RECEIVED\<rparr>"
  let ?answer = "conn_segment ?iss (FLAG_SYN OR FLAG_ACK) [] (Some (rq_nxt (c_recv ?c1))) (Some (conn_syn_options ?c1)) ?c1"
  have "conn_begin_passive_open syn rnd now fresh = Inr ?child"
    unfolding conn_begin_passive_open_def f(2) Let_def q(1) r reno(1) sum_bind_simps ..
  then have run: "conn_on_segment syn (Some ip) rnd now l = Inr (?l, Some ?child)"
    using assms(2,4) fresh by (simp add: conn_on_segment_def conn_handle_segment_in_listen_def cc Let_def)
  have tracked: "c_retx ?c2 = (c_retx ?c1)\<lparr>rx_segments := segs ?c1 @ [new_entry ?iss (FLAG_SYN OR FLAG_ACK) [] now]\<rparr>"
    by (rule conn_transmit_tracked) (use f in simp_all)
  show thesis
  proof (rule that [OF run])
    show "c_state ?l = LISTEN" using assms(2) by simp
    show "c_out ?child = [Transmit ?answer ip]" using f by (simp add: conn_set_snd_nxt_def)
    show "syn_out ?child (FLAG_SYN OR FLAG_ACK) now"
      using choose_iss_valid q reno(2) tracked f(2,4,5,9,10)
      by (simp add: syn_out_def pristine_def conn_set_snd_nxt_def is_synchronised_def)
    show "syn_segment ?answer (FLAG_SYN OR FLAG_ACK) ?child"
      using f by (simp add: syn_segment_def conn_segment_def conn_syn_options_def conn_set_snd_nxt_def)
    show "from_conn (c_cfg ?child) ?answer"
      using f choose_iss_valid receive_queue_next [OF r] by (intro from_connI) (simp_all add: conn_set_snd_nxt_def flag_defs)
    show "seg_ack ?answer = seq_add (seg_seq syn) 1" "rq_nxt (c_recv ?child) = seq_add (seg_seq syn) 1"
      using receive_queue_next [OF r] by (simp_all add: conn_segment_def conn_set_snd_nxt_def)
    show "c_peer_mss ?child = max (min m (cfg_mss cfg)) 64"
      using apply_options_full_mss [OF assms(5), of ?c0] f by (simp add: conn_set_snd_nxt_def)
    show "seg_window ?answer = conn_advertised_window ?child"
      by (rule advertised_cong) (simp_all add: conn_set_snd_nxt_def)
  qed (use f r in \<open>simp_all add: conn_set_snd_nxt_def conn_segment_def\<close>)
qed

text \<open>The SYN+ACK establishes the client, which acknowledges it.\<close>

lemma client_establishes:
  assumes "syn_out c FLAG_SYN sent" and "c_state c = SYN_SENT" and "0 < cfg_receive_capacity (c_cfg c)"
    and "seg_flags seg = FLAG_SYN OR FLAG_ACK" and "seg_ack seg = seq_add (c_iss c) 1" and "opt_mss (seg_options seg) = Some m"
  obtains c' ack where "conn_on_segment seg src rnd now c = Inr (c', None)" and "settled c'" and "c_cfg c' = c_cfg c" and "c_iss c' = c_iss c"
    and "rq_nxt (c_recv c') = seq_add (seg_seq seg) 1" and "c_peer_mss c' = max (min m (cfg_mss (c_cfg c))) 64"
    and "c_out c' = c_out c @ [Transmit ack (cfg_remote_ip (c_cfg c))]
           @ (if cfg_on_established (c_cfg c) then [NotifyEstablished] else [])"
    and "seg_flags ack = FLAG_ACK" and "seg_seq ack = seq_add (c_iss c) 1" and "seg_ack ack = seq_add (seg_seq seg) 1"
    and "from_conn (c_cfg c) ack" and "seg_src_port ack = cfg_local_port (c_cfg c)" and "seg_dst_port ack = cfg_remote_port (c_cfg c)"
    and "ReceiveQueue_init (seg_seq seg) (cfg_receive_capacity (c_cfg c)) = Inr (c_recv c')" and "seg_payload ack = []"
    and "c_peer_window c' = push_bit (nat (c_snd_wscale c')) (seg_window seg)" and "seg_window ack = conn_advertised_window c'"
proof -
  let ?c = "c\<lparr>c_segments_received := c_segments_received c + 1, c_last_activity := now\<rparr>"
  obtain r where r: "ReceiveQueue_init (seg_seq seg) (cfg_receive_capacity (c_cfg c)) = Inr r"
    using assms(3) by (simp add: ReceiveQueue_init_def ReorderQueue_init_def)
  let ?c1 = "conn_apply_peer_options (seg_options seg) (?c\<lparr>c_irs := seg_seq seg, c_recv := r\<rparr>)"
  let ?c2 = "?c1\<lparr>c_peer_window := push_bit (nat (c_snd_wscale ?c1)) (seg_window seg)\<rparr>"
  have "syn_out ?c2 FLAG_SYN sent" using assms(1) by (simp add: syn_out_def pristine_def)
  moreover have "seg_ack seg = seq_add (c_iss ?c2) 1" using assms(5) by simp
  ultimately obtain q rto reno where p: "conn_process_ack seg now ?c2
      = ?c2\<lparr>c_send := q, c_retx := (c_retx ?c2)\<lparr>rx_segments := []\<rparr>, c_rto := rto, c_reno := reno,
           c_peer_window := push_bit (nat (c_snd_wscale ?c2)) (seg_window seg), c_retransmit_at := None\<rparr>"
    and q: "sq_una q = seq_add (c_iss ?c2) 1" "sq_nxt q = seq_add (c_iss ?c2) 1" "sq_buf q = []" "sq_capacity q = sq_capacity (c_send ?c2)"
    "re_mss reno = re_mss (c_reno ?c2)"
    by (rule syn_acknowledged)
  let ?c3 = "conn_process_ack seg now ?c2"
  let ?c4 = "(conn_send_ack now ?c3)\<lparr>c_state := ESTABLISHED\<rparr>"
  have ge: "seq_ge (seg_ack seg) (seq_add (c_iss ?c) 1)"
    using assms(1,5) after_iss(5) [of "c_iss c"] by (simp add: syn_out_def)
  have run: "conn_on_segment seg src rnd now c = Inr (conn_notify_established ?c4, None)"
    using assms(2,4) ge r by (simp add: conn_on_segment_def conn_handle_syn_ack_def Let_def)
  have s3: "c_state ?c3 = SYN_SENT" "c_cfg ?c3 = c_cfg c" "c_iss ?c3 = c_iss c" "rq_nxt (c_recv ?c3) = seq_add (seg_seq seg) 1"
    "c_out ?c3 = c_out c" "sq_una (c_send ?c3) = seq_add (c_iss c) 1" "sq_nxt (c_send ?c3) = seq_add (c_iss c) 1"
    "segs ?c3 = []" "c_retransmit_at ?c3 = None" "c_peer_mss ?c3 = max (min m (cfg_mss (c_cfg c))) 64"
    "sq_buf (c_send ?c3) = []" "c_recv ?c3 = r" "pristine ?c3" "c_peer_window ?c3 = push_bit (nat (c_snd_wscale ?c3)) (seg_window seg)"
    using assms(1,2) q receive_queue_next [OF r] apply_options_full_mss [OF assms(6), of "?c\<lparr>c_irs := seg_seq seg, c_recv := r\<rparr>"]
    unfolding p by (simp_all add: syn_out_def pristine_def)
  let ?ack = "conn_segment (sq_nxt (c_send ?c3)) FLAG_ACK [] (Some (rq_nxt (c_recv ?c3))) None (?c3\<lparr>c_delayed_ack_at := None\<rparr>)"
  have ack: "conn_send_ack now ?c3 = conn_transmit (sq_nxt (c_send ?c3)) FLAG_ACK [] now (Some (rq_nxt (c_recv ?c3))) None True
      (?c3\<lparr>c_delayed_ack_at := None\<rparr>)"
    using s3(1) by (simp add: conn_send_ack_def Let_def)
  have notify: "c_out (conn_notify_established d) = c_out d @ (if cfg_on_established (c_cfg d) then [NotifyEstablished] else [])"
    "c_state (conn_notify_established d) = c_state d" "c_cfg (conn_notify_established d) = c_cfg d"
    "c_iss (conn_notify_established d) = c_iss d" "c_send (conn_notify_established d) = c_send d"
    "c_recv (conn_notify_established d) = c_recv d" "c_retx (conn_notify_established d) = c_retx d"
    "c_retransmit_at (conn_notify_established d) = c_retransmit_at d" "c_peer_mss (conn_notify_established d) = c_peer_mss d"
    "c_fin_seq (conn_notify_established d) = c_fin_seq d" "c_delayed_ack_at (conn_notify_established d) = c_delayed_ack_at d"
    "c_reno (conn_notify_established d) = c_reno d" "c_peer_window (conn_notify_established d) = c_peer_window d"
    "c_snd_wscale (conn_notify_established d) = c_snd_wscale d" for d
    by (simp_all add: conn_notify_established_def conn_emit_def)
  show thesis
  proof (rule that [OF run])
    show "settled (conn_notify_established ?c4)" using s3 by (simp add: settled_def pristine_def notify ack)
    show "c_out (conn_notify_established ?c4) = c_out c @ [Transmit ?ack (cfg_remote_ip (c_cfg c))]
           @ (if cfg_on_established (c_cfg c) then [NotifyEstablished] else [])"
      using s3 by (simp add: notify ack)
    show "from_conn (c_cfg c) ?ack" using s3 by (intro from_connI) (simp_all add: flag_defs)
    show "seg_window ?ack = conn_advertised_window (conn_notify_established ?c4)"
      by (rule advertised_cong) (simp_all add: notify ack)
    show "c_peer_window (conn_notify_established ?c4) = push_bit (nat (c_snd_wscale (conn_notify_established ?c4))) (seg_window seg)"
      using s3 by (simp add: notify ack)
  qed (use s3 r in \<open>simp_all add: notify ack conn_segment_def\<close>)
qed

text \<open>The final ACK establishes the child.\<close>

lemma child_establishes:
  assumes "syn_out c (FLAG_SYN OR FLAG_ACK) sent" and "c_state c = SYN_RECEIVED" and "seg_flags seg = FLAG_ACK"
    and "seg_ack seg = seq_add (c_iss c) 1"
  obtains c' where "conn_on_segment seg src rnd now c = Inr (c', None)" and "settled c'" and "c_cfg c' = c_cfg c"
    and "c_recv c' = c_recv c" and "c_iss c' = c_iss c" and "c_peer_mss c' = c_peer_mss c"
    and "c_out c' = c_out c @ (if cfg_on_established (c_cfg c) then [NotifyEstablished] else [])"
    and "c_peer_window c' = push_bit (nat (c_snd_wscale c')) (seg_window seg)"
proof -
  let ?c = "c\<lparr>c_segments_received := c_segments_received c + 1, c_last_activity := now\<rparr>"
  have "syn_out ?c (FLAG_SYN OR FLAG_ACK) sent" "seg_ack seg = seq_add (c_iss ?c) 1" using assms(1,4) by (simp_all add: syn_out_def pristine_def)
  then obtain q rto reno where p: "conn_process_ack seg now ?c
      = ?c\<lparr>c_send := q, c_retx := (c_retx ?c)\<lparr>rx_segments := []\<rparr>, c_rto := rto, c_reno := reno,
           c_peer_window := push_bit (nat (c_snd_wscale ?c)) (seg_window seg), c_retransmit_at := None\<rparr>"
    and q: "sq_una q = seq_add (c_iss ?c) 1" "sq_nxt q = seq_add (c_iss ?c) 1" "sq_buf q = []" "sq_capacity q = sq_capacity (c_send ?c)"
    "re_mss reno = re_mss (c_reno ?c)"
    by (rule syn_acknowledged)
  have ge: "seq_ge (seg_ack seg) (seq_add (c_iss ?c) 1)"
    using assms(1,4) after_iss(5) [of "c_iss c"] by (simp add: syn_out_def)
  have pristine: "pristine c" using assms(1) by (simp add: syn_out_def)
  let ?c' = "conn_notify_established ((conn_process_ack seg now ?c)\<lparr>c_state := ESTABLISHED\<rparr>)"
  have "conn_on_segment seg src rnd now c = Inr (?c', None)"
    using assms(2,3) ge by (simp add: conn_on_segment_def conn_handle_final_ack_of_handshake_def Let_def)
  then show thesis
    by (rule that) (use q pristine in \<open>simp_all add: p settled_def pristine_def conn_notify_established_def conn_emit_def\<close>)
qed


section \<open>The handshake\<close>

text \<open>C5. The three-way handshake: \<open>connect\<close> emits one SYN; a listener that is given it stays in LISTEN and makes
  a child that emits one SYN+ACK; the client that is given that is established and emits one ACK; the child that is
  given the ACK is established. Both then agree on both sequence numbers, nothing is outstanding and no
  retransmission timer runs, and each sends segments no larger than both announced MSS allow (at least 64 bytes). None
  of the calls raises.\<close>

theorem three_way_handshake:
  assumes "TCPConnection_init ccfg = Inr client" and "TCPConnection_init lcfg = Inr l0" and "conn_listen l0 = Inr listener"
  shows "\<exists>client1 client2 child child2 listener' syn answer ack.
     conn_connect rnd1 t1 client = Inr client1 \<and> c_out client1 = [Transmit syn (cfg_remote_ip ccfg)]
     \<and> conn_on_segment syn (Some ip) rnd2 t2 listener = Inr (listener', Some child) \<and> c_state listener' = LISTEN
     \<and> c_out child = [Transmit answer ip]
     \<and> conn_on_segment answer src3 rnd3 t3 client1 = Inr (client2, None)
     \<and> filter (\<lambda>ev. \<exists>seg dst. ev = Transmit seg dst) (c_out client2) = c_out client1 @ [Transmit ack (cfg_remote_ip ccfg)]
     \<and> conn_on_segment ack src4 rnd4 t4 child = Inr (child2, None)
     \<and> conn_is_established client2 \<and> conn_is_established child2
     \<and> conn_snd_nxt client2 = conn_rcv_nxt child2 \<and> conn_snd_nxt child2 = conn_rcv_nxt client2
     \<and> conn_snd_una client2 = conn_snd_nxt client2 \<and> conn_snd_una child2 = conn_snd_nxt child2
     \<and> c_retransmit_at client2 = None \<and> c_retransmit_at child2 = None
     \<and> c_peer_mss client2 = max (min (cfg_mss lcfg) (cfg_mss ccfg)) 64 \<and> c_peer_mss child2 = max (min (cfg_mss ccfg) (cfg_mss lcfg)) 64"
proof -
  obtain client1 syn where connect: "conn_connect rnd1 t1 client = Inr client1" "c_out client1 = [Transmit syn (cfg_remote_ip ccfg)]"
    and 1: "c_state client1 = SYN_SENT" "c_cfg client1 = ccfg" "syn_out client1 FLAG_SYN t1" and syn: "syn_segment syn FLAG_SYN client1"
    by (rule connect_syn [OF assms(1), of rnd1 t1])
  have l: "c_state listener = LISTEN" "c_cfg listener = lcfg"
    using assms(3) init_fields(1,2) [OF assms(2)] by (auto simp: conn_listen_def)
  obtain listener' child answer where listen: "conn_on_segment syn (Some ip) rnd2 t2 listener = Inr (listener', Some child)"
      "c_state listener' = LISTEN" "c_out child = [Transmit answer ip]"
    and 2: "c_state child = SYN_RECEIVED" "syn_out child (FLAG_SYN OR FLAG_ACK) t2"
      "rq_nxt (c_recv child) = seq_add (seg_seq syn) 1" "c_peer_mss child = max (min (cfg_mss ccfg) (cfg_mss lcfg)) 64"
      "c_cfg child = lcfg\<lparr>cfg_remote_ip := ip, cfg_remote_port := seg_src_port syn, cfg_initial_window := None\<rparr>"
    and answer: "syn_segment answer (FLAG_SYN OR FLAG_ACK) child" "seg_ack answer = seq_add (seg_seq syn) 1"
    by (rule listener_answers [OF assms(2) l, of syn "cfg_mss ccfg" ip rnd2 t2]) (use syn 1 in \<open>simp_all add: syn_segment_def\<close>)
  obtain client2 ack where answered: "conn_on_segment answer src3 rnd3 t3 client1 = Inr (client2, None)"
    and 3: "settled client2" "c_iss client2 = c_iss client1" "rq_nxt (c_recv client2) = seq_add (seg_seq answer) 1"
      "c_peer_mss client2 = max (min (cfg_mss lcfg) (cfg_mss ccfg)) 64"
    and out: "c_out client2 = c_out client1 @ [Transmit ack (cfg_remote_ip (c_cfg client1))]
           @ (if cfg_on_established (c_cfg client1) then [NotifyEstablished] else [])"
    and ack: "seg_flags ack = FLAG_ACK" "seg_seq ack = seq_add (c_iss client1) 1" "seg_ack ack = seq_add (seg_seq answer) 1"
    by (rule client_establishes [OF 1(3,1), of answer "cfg_mss lcfg" src3 rnd3 t3])
      (use init_fields(7) [OF assms(1)] 1(2) 2(5) syn answer in \<open>simp_all add: syn_segment_def\<close>)
  obtain child2 where acked: "conn_on_segment ack src4 rnd4 t4 child = Inr (child2, None)"
    and 4: "settled child2" "c_recv child2 = c_recv child" "c_iss child2 = c_iss child" "c_peer_mss child2 = c_peer_mss child"
    by (rule child_establishes [OF 2(2,1) ack(1), of src4 rnd4 t4]) (use ack(3) answer(1) in \<open>simp_all add: syn_segment_def\<close>)
  have "filter (\<lambda>ev. \<exists>seg dst. ev = Transmit seg dst) (c_out client2) = c_out client1 @ [Transmit ack (cfg_remote_ip ccfg)]"
    using out connect(2) 1(2) by simp
  moreover have "conn_is_established client2" "conn_is_established child2" "conn_snd_nxt client2 = conn_rcv_nxt child2"
    "conn_snd_nxt child2 = conn_rcv_nxt client2" "conn_snd_una client2 = conn_snd_nxt client2"
    "conn_snd_una child2 = conn_snd_nxt child2" "c_retransmit_at client2 = None" "c_retransmit_at child2 = None"
    using 2 3 4 syn answer
    by (simp_all add: settled_def conn_is_established_def conn_snd_nxt_def conn_rcv_nxt_def conn_snd_una_def syn_segment_def)
  moreover have "c_peer_mss child2 = max (min (cfg_mss ccfg) (cfg_mss lcfg)) 64" using 2(4) 4(4) by simp
  ultimately show ?thesis
    using connect listen answered acked 3(4)
    by (intro exI [of _ client1] exI [of _ client2] exI [of _ child] exI [of _ child2] exI [of _ listener'] exI [of _ syn]
        exI [of _ answer] exI [of _ ack] conjI)
qed

definition end_config :: "bytes \<Rightarrow> int \<Rightarrow> bytes \<Rightarrow> int \<Rightarrow> int \<Rightarrow> conn_config" where
  "end_config local_ip local_port remote_ip remote_port mss =
     \<lparr>cfg_local_ip = local_ip, cfg_local_port = local_port, cfg_remote_ip = remote_ip, cfg_remote_port = remote_port, cfg_mss = mss,
      cfg_receive_capacity = 65535, cfg_send_capacity = 65536, cfg_window_scale = 0, cfg_initial_window = None, cfg_iss = None,
      cfg_msl = DEFAULT_MSL, cfg_delayed_ack = False, cfg_delayed_ack_delay = DEFAULT_DELAYED_ACK, cfg_on_established = True,
      cfg_on_data = False, cfg_on_closed = False, cfg_on_accept = False, cfg_on_reset = False\<rparr>"

lemma end_config_init: "0 < mss \<Longrightarrow> \<exists>c. TCPConnection_init (end_config a p b q mss) = Inr c"
  by (simp add: end_config_def TCPConnection_init_def SendQueue_init_def ReceiveQueue_init_def ReorderQueue_init_def
      RenoCongestion_init_def RTOEstimator_init_def DEFAULT_INITIAL_RTO_def DEFAULT_MIN_RTO_def DEFAULT_MAX_RTO_def)

definition sample_client :: conn where
  "sample_client = projr (TCPConnection_init (end_config [10, 0, 0, 1] 4000 [10, 0, 0, 2] 80 1460))"

definition sample_listener :: conn where
  "sample_listener = projr (conn_listen (projr (TCPConnection_init (end_config [10, 0, 0, 2] 80 [0, 0, 0, 0] 0 536))))"

theorem three_way_handshake_witness:
  "\<exists>client1 client2 child child2 listener syn answer ack. conn_connect 9 0 sample_client = Inr client1
     \<and> c_out client1 = [Transmit syn [10, 0, 0, 2]]
     \<and> conn_on_segment syn (Some [10, 0, 0, 1]) 8 1 sample_listener = Inr (listener, Some child)
     \<and> c_out child = [Transmit answer [10, 0, 0, 1]] \<and> conn_on_segment answer None 0 2 client1 = Inr (client2, None)
     \<and> conn_on_segment ack None 0 3 child = Inr (child2, None) \<and> conn_is_established client2 \<and> conn_is_established child2
     \<and> c_peer_mss client2 = 536 \<and> c_peer_mss child2 = 536"
proof -
  have c: "TCPConnection_init (end_config [10, 0, 0, 1] 4000 [10, 0, 0, 2] 80 1460) = Inr sample_client"
    using end_config_init [of 1460 "[10, 0, 0, 1]" 4000 "[10, 0, 0, 2]" 80] by (auto simp: sample_client_def)
  obtain l0 where l0: "TCPConnection_init (end_config [10, 0, 0, 2] 80 [0, 0, 0, 0] 0 536) = Inr l0"
    using end_config_init [of 536 "[10, 0, 0, 2]" 80 "[0, 0, 0, 0]" 0] by auto
  have l: "conn_listen l0 = Inr sample_listener"
    using init_fields(1) [OF l0] by (simp add: conn_listen_def sample_listener_def l0)
  have mss: "cfg_mss (end_config a p b q m) = m" "cfg_remote_ip (end_config a p b q m) = b" for a p b q m
    by (simp_all add: end_config_def)
  from three_way_handshake [OF c l0 l, of 9 0 "[10, 0, 0, 1]" 8 1 None 0 2 None 0 3] show ?thesis
    unfolding mss by (elim exE conjE) (intro exI conjI, (assumption | simp)+)
qed

end
