(* ===== verification/Stack_Connect.thy ===== *)
theory Stack_Connect
  imports Handshake Stack_Delivery Stack_Conns
begin

text \<open>
  A TCP connection between two stacks: the application of one calls \<open>tcp_listen\<close>, that of the other \<open>tcp_connect\<close>, and
  three frames cross the wire. The handshake of the connections, the wire formats of the four layers, the routing and
  address resolution of the senders and the demultiplexing of the receivers are composed.
\<close>

section \<open>Segments of the handshake on the wire\<close>

text \<open>A configuration whose options can be encoded.\<close>

definition wire_config :: "conn_config \<Rightarrow> bool" where
  "wire_config cfg \<longleftrightarrow> 0 < cfg_mss cfg \<and> cfg_mss cfg \<le> 0xFFFF \<and> cfg_window_scale cfg \<le> 14
     \<and> 0 \<le> cfg_local_port cfg \<and> cfg_local_port cfg \<le> 0xFFFF \<and> 0 \<le> cfg_remote_port cfg \<and> cfg_remote_port cfg \<le> 0xFFFF"

lemma syn_options_bytes:
  assumes "wire_config (c_cfg c)"
  obtains b where "TCPOptions_to_bytes (conn_syn_options c) = Inr b"
proof -
  have "\<exists>p. mss_part (conn_syn_options c) = Inr p \<and> length p = 4"
    "\<exists>p. window_scale_part (conn_syn_options c) = Inr p \<and> length p \<le> 3"
    using assms by (auto simp: mss_part_def window_scale_part_def conn_syn_options_def wire_config_def opt_defs)
  moreover have "\<exists>p. sack_permitted_part (conn_syn_options c) = Inr p \<and> length p = 2"
    "timestamp_part (conn_syn_options c) = Inr []" "sack_part (opt_sack_blocks (conn_syn_options c)) = Inr []"
    by (simp_all add: sack_permitted_part_def timestamp_part_def conn_syn_options_def no_options_def opt_defs)
  ultimately show thesis using that by (auto simp: TCPOptions_to_bytes_def Let_def)
qed

lemma from_conn_bytes:
  assumes "from_conn cfg seg" and "wire_config cfg" and "length src = 4" and "length dst = 4"
  obtains data k where "TCPSegment_to_bytes seg (Some src) (Some dst) True = Inr data" and "length data \<le> 60"
    and "TCPSegment_parse data (Some src) (Some dst) True = Inr (seg\<lparr>seg_checksum := k\<rparr>)"
proof -
  obtain c sq f ack opts where seg: "seg = conn_segment sq f [] ack opts c" "c_cfg c = cfg" "valid_seq sq"
      "valid_seq (case ack of None \<Rightarrow> rq_nxt (c_recv c) | Some a \<Rightarrow> a)" "0 \<le> f" "f < 2 ^ 9"
    and o: "opts = None \<or> opts = Some (conn_syn_options c)"
    using assms(1) unfolding from_conn_def by blast
  have options: "options_ranged (seg_options seg) \<and> length (opt_sack_blocks (seg_options seg)) \<le> 1"
    using o assms(2) seg(2)
    by (auto simp: seg(1) conn_segment_def no_options_ranged options_ranged_def conn_syn_options_def no_options_def wire_config_def
        split: if_splits)
  then have last: "with_last_sack_block (seg_options seg) = seg_options seg" by (simp add: with_last_sack_block_short)
  have ranged: "segment_ranged seg"
    using seg options by (simp add: segment_ranged_def conn_segment_def in_u32_def valid_seq_def)
  have wire: "wire_config (c_cfg c)" using assms(2) seg(2) by simp
  obtain ob where ob: "TCPOptions_to_bytes (seg_options seg) = Inr ob"
  proof (rule syn_options_bytes [OF wire])
    fix b assume "TCPOptions_to_bytes (conn_syn_options c) = Inr b"
    then show thesis using o that no_options_bytes by (elim disjE) (simp_all add: seg(1) conn_segment_def)
  qed
  have window: "0 \<le> seg_window seg" "seg_window seg \<le> 0xFFFF"
    by (simp_all add: seg(1) conn_segment_def conn_advertised_window_def ReceiveQueue_window_def Let_def)
  have fields: "0 \<le> seg_src_port seg" "seg_src_port seg \<le> 0xFFFF" "0 \<le> seg_dst_port seg" "seg_dst_port seg \<le> 0xFFFF"
    "0 \<le> seg_urgent_pointer seg" "seg_urgent_pointer seg < 2 ^ 16" "seg_payload seg = []"
    using assms(2) seg(2) by (auto simp: seg(1) conn_segment_def wire_config_def)
  obtain data where data: "TCPSegment_to_bytes seg (Some src) (Some dst) True = Inr data" "length data = 20 + length ob"
    using to_bytes_total [OF ob fields(1-4) window fields(5,6)] options_bytes_size [OF ob] fields(7) by auto
  obtain k where "TCPSegment_parse data (Some src) (Some dst) True
      = Inr (seg\<lparr>seg_options := with_last_sack_block (seg_options seg), seg_checksum := k\<rparr>)"
    by (rule segment_reparse [OF data(1) ranged]) (use assms(3,4) in simp_all)
  then have "TCPSegment_parse data (Some src) (Some dst) True = Inr (seg\<lparr>seg_checksum := k\<rparr>)" unfolding last by simp
  with data options_bytes_size [OF ob] show thesis by (intro that) auto
qed

section \<open>Frames with a segment\<close>

text \<open>\<open>frame\<close> goes from the first interface to the second and carries \<open>seg\<close>, up to the checksum the sender fills in.\<close>

definition carries :: "bytes \<Rightarrow> bytes \<Rightarrow> bytes \<Rightarrow> bytes \<Rightarrow> tcp_segment \<Rightarrow> bytes \<Rightarrow> bool" where
  "carries src_ip src_mac dst_ip dst_mac seg frame \<longleftrightarrow>
     (\<exists>p raw k. frame = link_frame dst_mac src_mac ETHERTYPE_IPV4 raw \<and> length src_mac = 6 \<and> ip_carried p
        \<and> IPv4Packet_to_bytes p = Inr raw \<and> \<not> ip_is_fragmented p \<and> ip_src p = src_ip \<and> ip_dst p = dst_ip
        \<and> ip_protocol p = PROTO_TCP
        \<and> TCPSegment_parse (ip_payload p) (Some src_ip) (Some dst_ip) True = Inr (seg\<lparr>seg_checksum := k\<rparr>))"

lemma transmit_carries:
  assumes "addressed s" and "resolves s dst now mac" and "dst \<noteq> IP_BROADCAST" and "length mac = 6" and "length dst = 4"
    and "from_conn cfg seg" and "wire_config cfg"
  obtains n st frame where "stack_transmit_segment seg dst now s
      = (s\<lparr>st_next_id := n, st_stats := st, st_frames := st_frames s @ [frame]\<rparr>, Inr ())"
    and "carries (st_ip s) (st_mac s) dst mac seg frame"
proof -
  have len: "length (st_ip s) = 4" "length (st_mac s) = 6" using assms(1) by (simp_all add: addressed_def)
  obtain data k where data: "TCPSegment_to_bytes seg (Some (st_ip s)) (Some dst) True = Inr data" "length data \<le> 60"
    and parse: "TCPSegment_parse data (Some (st_ip s)) (Some dst) True = Inr (seg\<lparr>seg_checksum := k\<rparr>)"
    by (rule from_conn_bytes [OF assms(6,7) len(1) assms(5)])
  let ?s = "tally sx_tcp_out_update s"
  obtain st n raw where send: "stack_send_payload dst PROTO_TCP (Inr data) now ?s
      = (?s\<lparr>st_next_id := n, st_stats := st, st_frames := st_frames ?s @ [link_frame mac (st_mac ?s) ETHERTYPE_IPV4 raw]\<rparr>, Inr True)"
    and raw: "IPv4Packet_to_bytes (host_packet ?s dst PROTO_TCP data) = Inr raw"
    by (rule send_payload_resolved [of ?s dst now mac PROTO_TCP data]) (use assms data in \<open>simp_all add: PROTO_TCP_def\<close>)
  let ?p = "host_packet s dst PROTO_TCP data"
  have p: "ip_carried ?p" using host_packet_carried [OF assms(1,5), of PROTO_TCP data] data(2) by (simp add: PROTO_TCP_def)
  have "carries (st_ip s) (st_mac s) dst mac seg (link_frame mac (st_mac s) ETHERTYPE_IPV4 raw)"
    unfolding carries_def
    by (rule exI [of _ ?p], rule exI [of _ raw], rule exI [of _ k]) (use len p raw parse in \<open>simp add: host_packet_def ip_is_fragmented_def\<close>)
  moreover have "stack_transmit_segment seg dst now s
      = (s\<lparr>st_next_id := n, st_stats := st, st_frames := st_frames s @ [link_frame mac (st_mac s) ETHERTYPE_IPV4 raw]\<rparr>, Inr ())"
    using send data(1) by (simp add: stack_transmit_segment_def run_simps) (simp add: tally_def)
  ultimately show thesis using that by blast
qed

text \<open>The object a segment is given to: the connection of its four-tuple, else the listener of its port.\<close>

definition demux :: "stack \<Rightarrow> bytes \<Rightarrow> tcp_segment \<Rightarrow> cid option" where
  "demux s src_ip seg = (case map_of (st_connections s) (st_ip s, seg_dst_port seg, src_ip, seg_src_port seg) of
     Some c \<Rightarrow> Some c | None \<Rightarrow> map_of (st_listeners s) (seg_dst_port seg))"

lemma receive_carries:
  assumes "addressed s" and "carries src_ip src_mac (st_ip s) (st_mac s) seg frame" and "demux s src_ip seg = Some c"
  obtains k st where "\<forall>t. stack_on_segment c (seg\<lparr>seg_checksum := k\<rparr>) src_ip rnd now (s\<lparr>st_stats := st\<rparr>) = (t, Inr ())
      \<longrightarrow> stack_handle_frame frame rnd now s = (t, Inr ())"
proof -
  obtain p raw k where frame: "frame = link_frame (st_mac s) src_mac ETHERTYPE_IPV4 raw" "length src_mac = 6" "ip_carried p"
      "IPv4Packet_to_bytes p = Inr raw" "\<not> ip_is_fragmented p" "ip_src p = src_ip" "ip_dst p = st_ip s" "ip_protocol p = PROTO_TCP"
    and parse: "TCPSegment_parse (ip_payload p) (Some src_ip) (Some (st_ip s)) True = Inr (seg\<lparr>seg_checksum := k\<rparr>)"
    using assms(2) unfolding carries_def by blast
  let ?s = "tally sx_tcp_in_update (tally sx_ipv4_in_update s)"
  obtain st where st: "?s = s\<lparr>st_stats := st\<rparr>" by (simp add: tally_def)
  have "stack_handle_frame frame rnd now s = (t, Inr ())"
    if "stack_on_segment c (seg\<lparr>seg_checksum := k\<rparr>) src_ip rnd now (s\<lparr>st_stats := st\<rparr>) = (t, Inr ())" for t
    unfolding frame(1)
  proof (rule receive_datagram [OF assms(1) frame(2-5,7)])
    have "stack_handle_tcp p rnd now (tally sx_ipv4_in_update s) = (t, Inr ())"
      using that assms(3) frame parse st
      by (auto simp: stack_handle_tcp_def run_simps demux_def split: option.splits)
    then show "stack_dispatch_ipv4 p rnd now (tally sx_ipv4_in_update s) = (t, Inr ())"
      unfolding stack_dispatch_ipv4_def by (intro catch_ok) (simp add: frame(8) protocols_differ)
  qed
  then show thesis using that by blast
qed

text \<open>Driving a connection that transmits: it is stored, one frame leaves, and the other callbacks follow.\<close>

lemma update_conn_transmits:
  assumes "c_out k = Transmit seg dst # evs" and "addressed s" and "resolves s dst now mac" and "dst \<noteq> IP_BROADCAST"
    and "length mac = 6" and "length dst = 4" and "from_conn cfg seg" and "wire_config cfg"
  obtains n st frame where "stack_update_conn i k now s
      = act_each evs (stack_perform i now) ((stack_set_conn i k s)\<lparr>st_next_id := n, st_stats := st, st_frames := st_frames s @ [frame]\<rparr>)"
    and "carries (st_ip s) (st_mac s) dst mac seg frame"
proof -
  let ?s = "stack_set_conn i k s"
  have same: "addressed ?s" "resolves ?s = resolves s" "st_frames ?s = st_frames s" "st_ip ?s = st_ip s" "st_mac ?s = st_mac s"
    using assms(2) resolves_fields [of ?s s] by (simp_all add: stack_set_conn_def addressed_def)
  obtain n st frame where "stack_transmit_segment seg dst now ?s
      = (?s\<lparr>st_next_id := n, st_stats := st, st_frames := st_frames ?s @ [frame]\<rparr>, Inr ())"
    and "carries (st_ip ?s) (st_mac ?s) dst mac seg frame"
    by (rule transmit_carries [of ?s dst now mac cfg seg]) (use assms same in simp_all)
  then show thesis
    using that assms(1) same by (simp add: stack_update_conn_def run_simps)
qed


section \<open>The steps\<close>

text \<open>A listener as \<open>tcp_listen\<close> leaves it.\<close>

definition listening :: "stack \<Rightarrow> int \<Rightarrow> cid \<Rightarrow> bool" where
  "listening s port l \<longleftrightarrow> l < length (st_objects s) \<and> map_of (st_listeners s) port = Some l
     \<and> ob_role (stack_object s l) = ListenerOn port \<and> c_state (ob_conn (stack_object s l)) = LISTEN
     \<and> c_out (ob_conn (stack_object s l)) = []
     \<and> c_cfg (ob_conn (stack_object s l)) = (stack_conn_config s port IP_ANY 0)\<lparr>cfg_on_accept := True\<rparr>"

lemma listen_listens:
  assumes "stack_tcp_listen port s = (t, Inr l)"
  shows "listening t port l" and "map_of (st_accept_queues t) port = Some []" and "st_connections t = st_connections s"
    and "st_frames t = st_frames s" and "addressed t = addressed s" and "resolves t = resolves s" and "st_ip t = st_ip s"
    and "st_mac t = st_mac s" and "st_receive_capacity t = st_receive_capacity s" and "l = length (st_objects s)"
    and "0 < st_receive_capacity s"
proof -
  define cfg where "cfg = (stack_conn_config s port IP_ANY 0)\<lparr>cfg_on_accept := True\<rparr>"
  have free: "map_of (st_listeners s) port = None" by (rule ccontr) (use assms in \<open>simp add: stack_tcp_listen_def\<close>)
  note run = assms [unfolded stack_tcp_listen_def free, folded cfg_def, simplified]
  obtain L where opened: "sum_bind (TCPConnection_init cfg) conn_listen = Inr L"
    using run by (cases "sum_bind (TCPConnection_init cfg) conn_listen") (simp_all add: act_bind_def act_lift_def)
  then obtain l0 where l0: "TCPConnection_init cfg = Inr l0" and L: "conn_listen l0 = Inr L" by (auto simp: sum_bind_Inr)
  have t: "t = s\<lparr>st_objects := st_objects s @ [\<lparr>ob_conn = L\<lparr>c_out := []\<rparr>, ob_role = ListenerOn port, ob_established = False, ob_failed = False\<rparr>],
           st_listeners := AList.update port l (st_listeners s), st_accept_queues := AList.update port [] (st_accept_queues s)\<rparr>"
    and l: "l = length (st_objects s)"
    using run by (auto simp: opened run_simps stack_new_object_def)
  note f = init_fields [OF l0]
  have "c_state L = LISTEN" "c_out L = []" "c_cfg L = cfg" using L f by (auto simp: conn_listen_def)
  then show "listening t port l" by (simp add: listening_def t l cfg_def stack_object_def stack_conn_config_def update_conv')
  show "0 < st_receive_capacity s" using f(7) by (simp add: cfg_def stack_conn_config_def)
  show "resolves t = resolves s" by (rule resolves_fields) (simp_all add: t)
  show "map_of (st_accept_queues t) port = Some []" "st_connections t = st_connections s" "st_frames t = st_frames s"
    "addressed t = addressed s" "st_ip t = st_ip s" "st_mac t = st_mac s" "st_receive_capacity t = st_receive_capacity s"
    "l = length (st_objects s)"
    by (simp_all add: t l addressed_def update_conv')
qed

lemma init_succeeds:
  "0 < cfg_send_capacity cfg \<Longrightarrow> 0 < cfg_receive_capacity cfg \<Longrightarrow> 0 < cfg_mss cfg \<Longrightarrow> cfg_initial_window cfg = None
     \<Longrightarrow> \<exists>c. TCPConnection_init cfg = Inr c"
  by (simp add: TCPConnection_init_def SendQueue_init_def ReceiveQueue_init_def ReorderQueue_init_def RenoCongestion_init_def
      RTOEstimator_init_def DEFAULT_INITIAL_RTO_def DEFAULT_MIN_RTO_def DEFAULT_MAX_RTO_def)

definition client_config :: "stack \<Rightarrow> int \<Rightarrow> bytes \<Rightarrow> int \<Rightarrow> conn_config" where
  "client_config s lport ip port = (stack_conn_config s lport ip port)\<lparr>cfg_on_established := True, cfg_on_reset := True\<rparr>"

lemma client_config_fields [simp]:
  "cfg_local_ip (client_config s lport ip port) = st_ip s" "cfg_local_port (client_config s lport ip port) = lport"
  "cfg_remote_ip (client_config s lport ip port) = ip" "cfg_remote_port (client_config s lport ip port) = port"
  "cfg_receive_capacity (client_config s lport ip port) = st_receive_capacity s" "cfg_on_established (client_config s lport ip port)"
  "cfg_mss (client_config s lport ip port) = DEFAULT_MSS"
  "0 \<le> lport \<Longrightarrow> lport \<le> 0xFFFF \<Longrightarrow> 0 \<le> port \<Longrightarrow> port \<le> 0xFFFF \<Longrightarrow> wire_config (client_config s lport ip port)"
  by (simp_all add: client_config_def stack_conn_config_def wire_config_def DEFAULT_MSS_def)

text \<open>A client in SYN-SENT and a queued connection in SYN-RECEIVED, under their four-tuples in the connection table.\<close>

definition calling :: "stack \<Rightarrow> cid \<Rightarrow> conn \<Rightarrow> time \<Rightarrow> bool" where
  "calling s c client t \<longleftrightarrow> c < length (st_objects s)
     \<and> stack_object s c = \<lparr>ob_conn = client\<lparr>c_out := []\<rparr>, ob_role = Client, ob_established = False, ob_failed = False\<rparr>
     \<and> map_of (st_connections s) (st_ip s, cfg_local_port (c_cfg client), cfg_remote_ip (c_cfg client), cfg_remote_port (c_cfg client)) = Some c
     \<and> c_state client = SYN_SENT \<and> syn_out client FLAG_SYN t"

definition answering :: "stack \<Rightarrow> cid \<Rightarrow> conn \<Rightarrow> time \<Rightarrow> bool" where
  "answering s k child t \<longleftrightarrow> k < length (st_objects s) \<and> ob_conn (stack_object s k) = child \<and> c_out child = []
     \<and> map_of (st_connections s) (st_ip s, cfg_local_port (c_cfg child), cfg_remote_ip (c_cfg child), cfg_remote_port (c_cfg child)) = Some k
     \<and> c_state child = SYN_RECEIVED \<and> syn_out child (FLAG_SYN OR FLAG_ACK) t"

text \<open>\<open>tcp_connect\<close> registers a client and sends its SYN.\<close>

lemma client_calls:
  assumes "host a" and "resolves a ip now mac" and "ip \<noteq> IP_BROADCAST" and "length mac = 6" and "length ip = 4"
    and "0 < st_receive_capacity a" and "0 < lport" and "lport \<le> 0xFFFF" and "0 \<le> port" and "port \<le> 0xFFFF"
  obtains a1 c client syn frame where "stack_tcp_connect (IpBytes ip) port lport rnd now a = (a1, Inr c)"
    and "st_frames a1 = st_frames a @ [frame]" and "carries (st_ip a) (st_mac a) ip mac syn frame"
    and "host a1" and "st_ip a1 = st_ip a" and "st_mac a1 = st_mac a" and "resolves a1 = resolves a"
    and "calling a1 c client now" and "c_cfg client = client_config a lport ip port"
    and "syn_segment syn FLAG_SYN client" and "seg_src_port syn = lport" and "seg_dst_port syn = port"
proof -
  let ?cfg = "client_config a lport ip port"
  obtain c0 where c0: "TCPConnection_init ?cfg = Inr c0"
    using init_succeeds [of ?cfg] assms(6) by (auto simp: client_config_def stack_conn_config_def DEFAULT_MSS_def)
  note f = init_fields [OF c0]
  obtain client syn where connect: "conn_connect rnd now c0 = Inr client" and client: "c_state client = SYN_SENT" "c_cfg client = ?cfg"
      "c_out client = [Transmit syn ip]" "syn_out client FLAG_SYN now" "syn_segment syn FLAG_SYN client"
      "seg_src_port syn = lport" "seg_dst_port syn = port" "from_conn ?cfg syn"
    by (rule connect_syn [OF c0, of rnd now]) simp
  let ?c = "length (st_objects a)"
  let ?s = "a\<lparr>st_objects := st_objects a @ [\<lparr>ob_conn = c0\<lparr>c_out := []\<rparr>, ob_role = Client, ob_established = False, ob_failed = False\<rparr>],
      st_connections := AList.update (st_ip a, lport, ip, port) ?c (st_connections a), st_read_events := AList.update ?c False (st_read_events a)\<rparr>"
  have same: "addressed ?s" "resolves ?s = resolves a"
    using host_addressed [OF assms(1)] resolves_fields [of ?s a] by (simp_all add: addressed_def)
  obtain n st frame where update: "stack_update_conn ?c client now ?s
      = act_each [] (stack_perform ?c now) ((stack_set_conn ?c client ?s)\<lparr>st_next_id := n, st_stats := st, st_frames := st_frames ?s @ [frame]\<rparr>)"
    and frame: "carries (st_ip ?s) (st_mac ?s) ip mac syn frame"
    by (rule update_conn_transmits [OF client(3) same(1), of now mac ?cfg ?c])
      (use assms(2-5,7-10) same(2) client(8) in \<open>simp_all\<close>)
  let ?a1 = "(stack_set_conn ?c client ?s)\<lparr>st_next_id := n, st_stats := st, st_frames := st_frames a @ [frame]\<rparr>"
  have c0_out: "c0\<lparr>c_out := []\<rparr> = c0" using f(3) by simp
  have run: "stack_tcp_connect (IpBytes ip) port lport rnd now a = (?a1, Inr ?c)"
    using assms(7) c0 connect update
    by (simp add: stack_tcp_connect_def client_config_def [symmetric] run_simps stack_new_object_def stack_object_def c0_out)
  have reach: "stack_reachable ?a1"
    using stack_reachable.step [OF _ stack_step.connect [of a "IpBytes ip" port lport rnd now]] assms(1) by (simp add: run host_def)
  show thesis
    by (rule that [OF run _ _ _ _ _ _ _ client(2,5-7)])
      (use frame same(2) resolves_fields [of ?a1 a] reach assms(1) client(1,2,4) in
        \<open>simp_all add: calling_def stack_set_conn_def stack_object_def host_def update_conv'\<close>)
qed

text \<open>The other stack hands the SYN to its listener, queues the new connection for \<open>tcp_accept\<close> and answers.\<close>

definition accepted_config :: "stack \<Rightarrow> int \<Rightarrow> bytes \<Rightarrow> int \<Rightarrow> conn_config" where
  "accepted_config s port ip lport = (stack_conn_config s port IP_ANY 0)
     \<lparr>cfg_on_accept := True, cfg_remote_ip := ip, cfg_remote_port := lport, cfg_initial_window := None\<rparr>"

lemma accepted_config_fields [simp]:
  "cfg_local_ip (accepted_config s port ip lport) = st_ip s" "cfg_local_port (accepted_config s port ip lport) = port"
  "cfg_remote_ip (accepted_config s port ip lport) = ip" "cfg_remote_port (accepted_config s port ip lport) = lport"
  "\<not> cfg_on_established (accepted_config s port ip lport)" "cfg_mss (accepted_config s port ip lport) = DEFAULT_MSS"
  "0 \<le> lport \<Longrightarrow> lport \<le> 0xFFFF \<Longrightarrow> 0 \<le> port \<Longrightarrow> port \<le> 0xFFFF \<Longrightarrow> wire_config (accepted_config s port ip lport)"
  by (simp_all add: accepted_config_def stack_conn_config_def wire_config_def DEFAULT_MSS_def)

lemma server_answers:
  assumes "host b" and "listening b port l" and "map_of (st_accept_queues b) port = Some queue" and "0 < st_receive_capacity b"
    and "map_of (st_connections b) (st_ip b, port, ip, lport) = None"
    and "carries ip src_mac (st_ip b) (st_mac b) syn frame" and "seg_flags syn = FLAG_SYN"
    and "opt_mss (seg_options syn) = Some m" and "seg_src_port syn = lport" and "seg_dst_port syn = port"
    and "resolves b ip now mac" and "ip \<noteq> IP_BROADCAST" and "length mac = 6" and "length ip = 4"
    and "0 \<le> lport" and "lport \<le> 0xFFFF" and "0 \<le> port" and "port \<le> 0xFFFF"
  obtains b1 kid child answer reply where "stack_handle_frame frame rnd now b = (b1, Inr ())"
    and "st_frames b1 = st_frames b @ [reply]" and "carries (st_ip b) (st_mac b) ip mac answer reply"
    and "host b1" and "st_ip b1 = st_ip b" and "st_mac b1 = st_mac b" and "answering b1 kid child now" and "map_of (st_accept_queues b1) port = Some (queue @ [kid])"
    and "c_cfg child = (accepted_config b port ip lport)\<lparr>cfg_on_data := True, cfg_on_closed := True\<rparr>"
    and "rq_nxt (c_recv child) = seq_add (seg_seq syn) 1" and "c_peer_mss child = max (min m DEFAULT_MSS) 64"
    and "syn_segment answer (FLAG_SYN OR FLAG_ACK) child" and "seg_ack answer = seq_add (seg_seq syn) 1"
    and "seg_src_port answer = port" and "seg_dst_port answer = lport"
proof -
  let ?lcfg = "(stack_conn_config b port IP_ANY 0)\<lparr>cfg_on_accept := True\<rparr>" and ?L = "ob_conn (stack_object b l)"
  have l: "l < length (st_objects b)" "map_of (st_listeners b) port = Some l" "ob_role (stack_object b l) = ListenerOn port"
    "c_state ?L = LISTEN" "c_out ?L = []" "c_cfg ?L = ?lcfg"
    using assms(2) by (simp_all add: listening_def)
  obtain l0 where l0: "TCPConnection_init ?lcfg = Inr l0"
    using init_succeeds [of ?lcfg] assms(4) by (auto simp: stack_conn_config_def DEFAULT_MSS_def)
  have demux: "demux b ip syn = Some l" using assms(5,9,10) l(2) by (simp add: demux_def)
  obtain k st where received: "\<forall>t. stack_on_segment l (syn\<lparr>seg_checksum := k\<rparr>) ip rnd now (b\<lparr>st_stats := st\<rparr>) = (t, Inr ())
      \<longrightarrow> stack_handle_frame frame rnd now b = (t, Inr ())"
    by (rule receive_carries [OF host_addressed [OF assms(1)] assms(6) demux, where rnd = rnd and now = now])
  let ?syn = "syn\<lparr>seg_checksum := k\<rparr>" and ?cfg = "accepted_config b port ip lport"
  obtain L' child answer where run: "conn_on_segment ?syn (Some ip) rnd now ?L = Inr (L', Some child)" and L': "c_out L' = []"
    and child: "c_state child = SYN_RECEIVED" "c_cfg child = ?cfg" "c_out child = [Transmit answer ip]"
      "syn_out child (FLAG_SYN OR FLAG_ACK) now" "syn_segment answer (FLAG_SYN OR FLAG_ACK) child"
      "seg_ack answer = seq_add (seg_seq syn) 1" "from_conn ?cfg answer" "seg_src_port answer = port" "seg_dst_port answer = lport"
      "rq_nxt (c_recv child) = seq_add (seg_seq syn) 1" "c_peer_mss child = max (min m DEFAULT_MSS) 64"
    by (rule listener_answers [OF l0 l(4,6), of ?syn m ip rnd now])
      (use assms(7-10) l(5) in \<open>simp_all add: accepted_config_def stack_conn_config_def\<close>)
  let ?kid = "length (st_objects b)" and ?s1 = "stack_set_conn l L' (b\<lparr>st_stats := st\<rparr>)"
  let ?s2 = "?s1\<lparr>st_objects := st_objects ?s1 @ [\<lparr>ob_conn = child\<lparr>c_out := []\<rparr>, ob_role = Accepted, ob_established = False, ob_failed = False\<rparr>]\<rparr>"
  have same: "addressed ?s2" "resolves ?s2 = resolves b" "st_ip ?s2 = st_ip b" "st_mac ?s2 = st_mac b" "st_frames ?s2 = st_frames b"
    using host_addressed [OF assms(1)] resolves_fields [of ?s2 b] by (simp_all add: addressed_def stack_set_conn_def)
  obtain n st' reply where update: "stack_update_conn ?kid child now ?s2
      = act_each [] (stack_perform ?kid now) ((stack_set_conn ?kid child ?s2)\<lparr>st_next_id := n, st_stats := st', st_frames := st_frames ?s2 @ [reply]\<rparr>)"
    and reply: "carries (st_ip ?s2) (st_mac ?s2) ip mac answer reply"
    by (rule update_conn_transmits [OF child(3) same(1), of now mac ?cfg ?kid])
      (use assms(11-18) same(2) child(7) in simp_all)
  let ?s3 = "(stack_set_conn ?kid child ?s2)\<lparr>st_next_id := n, st_stats := st', st_frames := st_frames ?s2 @ [reply]\<rparr>"
  let ?b1 = "stack_enqueue_accept port ?kid ?s3"
  have "stack_update_conn l L' now (b\<lparr>st_stats := st\<rparr>) = (?s1, Inr ())" using L' by (simp add: stack_update_conn_def run_simps)
  moreover have "stack_new_object child Accepted ?s1 = (?s2, Inr ?kid)" by (simp add: stack_new_object_def stack_set_conn_def)
  moreover have "stack_update_conn ?kid child now ?s2 = (?s3, Inr ())" using update by (simp add: run_simps)
  moreover have "ob_role (stack_object ?s3 l) = ListenerOn port"
    using l(1,3) by (simp add: stack_object_def stack_set_conn_def nth_append)
  ultimately have "stack_on_segment l ?syn ip rnd now (b\<lparr>st_stats := st\<rparr>) = (?b1, Inr ())"
    using run by (simp add: stack_on_segment_def run_simps stack_object_def)
  with received have handled: "stack_handle_frame frame rnd now b = (?b1, Inr ())" by blast
  have reach: "stack_reachable ?b1"
    using stack_reachable.step [OF _ stack_step.on_frame [of b frame rnd now]] assms(1) by (simp add: handled host_def)
  let ?child = "child\<lparr>c_out := [], c_cfg := ?cfg\<lparr>cfg_on_data := True, cfg_on_closed := True\<rparr>\<rparr>"
  have kid: "stack_object ?s3 ?kid = \<lparr>ob_conn = child\<lparr>c_out := []\<rparr>, ob_role = Accepted, ob_established = False, ob_failed = False\<rparr>"
    by (simp add: stack_object_def stack_set_conn_def nth_append)
  have fields: "st_ip ?s3 = st_ip b" "st_mac ?s3 = st_mac b" "st_frames ?s3 = st_frames b @ [reply]" "st_connections ?s3 = st_connections b"
    "st_accept_queues ?s3 = st_accept_queues b" "length (st_objects ?s3) = Suc ?kid"
    by (simp_all add: stack_set_conn_def)
  have b1: "st_ip ?b1 = st_ip b" "st_mac ?b1 = st_mac b" "st_frames ?b1 = st_frames b @ [reply]"
    "st_connections ?b1 = AList.update (st_ip b, port, ip, lport) ?kid (st_connections b)"
    "st_accept_queues ?b1 = AList.update port (queue @ [?kid]) (st_accept_queues b)"
    "?kid < length (st_objects ?b1)" "ob_role (stack_object ?b1 ?kid) = Accepted" "ob_conn (stack_object ?b1 ?kid) = ?child"
    using assms(3) child(2)
    by (simp_all add: stack_enqueue_accept_def Let_def kid fields stack_set_conn_def stack_object_def nth_append)
  have "syn_out ?child (FLAG_SYN OR FLAG_ACK) now" "syn_segment answer (FLAG_SYN OR FLAG_ACK) ?child"
    using child(2,4,5) by (simp_all add: syn_out_def syn_segment_def)
  moreover have "carries (st_ip b) (st_mac b) ip mac answer reply" using reply same by simp
  moreover have "host ?b1" using reach assms(1) b1(1,2) by (simp add: host_def)
  ultimately show thesis
    using b1 child by (intro that [OF handled b1(3) _ _ b1(1,2), of answer ?kid ?child]) (simp_all add: answering_def update_conv')
qed

text \<open>The SYN+ACK establishes the client: it acknowledges, and the event \<open>tcp_connect\<close> waits for is set.\<close>

lemma client_confirms:
  assumes "host a" and calling: "calling a c client sent" and "c_cfg client = cfg" and "wire_config cfg" and "cfg_on_established cfg"
    and "cfg_remote_ip cfg = ip" and "cfg_local_port cfg = lport" and "cfg_remote_port cfg = port" and "0 < cfg_receive_capacity cfg"
    and "carries ip src_mac (st_ip a) (st_mac a) answer frame" and "seg_flags answer = FLAG_SYN OR FLAG_ACK"
    and "seg_ack answer = seq_add (c_iss client) 1" and "opt_mss (seg_options answer) = Some m"
    and "seg_src_port answer = port" and "seg_dst_port answer = lport"
    and "resolves a ip now mac" and "ip \<noteq> IP_BROADCAST" and "length mac = 6" and "length ip = 4"
  obtains a2 client2 ack reply where "stack_handle_frame frame rnd now a = (a2, Inr ())"
    and "st_frames a2 = st_frames a @ [reply]" and "carries (st_ip a) (st_mac a) ip mac ack reply"
    and "stack_object a2 c = \<lparr>ob_conn = client2, ob_role = Client, ob_established = True, ob_failed = False\<rparr>"
    and "settled client2" and "c_iss client2 = c_iss client" and "rq_nxt (c_recv client2) = seq_add (seg_seq answer) 1"
    and "c_peer_mss client2 = max (min m (cfg_mss cfg)) 64" and "c_cfg client2 = cfg"
    and "seg_flags ack = FLAG_ACK" and "seg_ack ack = seq_add (seg_seq answer) 1" and "seg_seq ack = seq_add (c_iss client) 1"
    and "seg_src_port ack = lport" and "seg_dst_port ack = port"
proof -
  let ?c = "client\<lparr>c_out := []\<rparr>"
  note call = calling [unfolded calling_def]
  have c: "c_state ?c = SYN_SENT" "syn_out ?c FLAG_SYN sent" "0 < cfg_receive_capacity (c_cfg ?c)" "c_cfg ?c = cfg"
    using call assms(3,9) by (simp_all add: syn_out_def)
  have demux: "demux a ip answer = Some c" using call assms(3,6-8,14,15) by (simp add: demux_def)
  obtain k st where received: "\<forall>t. stack_on_segment c (answer\<lparr>seg_checksum := k\<rparr>) ip rnd now (a\<lparr>st_stats := st\<rparr>) = (t, Inr ())
      \<longrightarrow> stack_handle_frame frame rnd now a = (t, Inr ())"
    by (rule receive_carries [OF host_addressed [OF assms(1)] assms(10) demux, where rnd = rnd and now = now])
  let ?answer = "answer\<lparr>seg_checksum := k\<rparr>"
  obtain client2 ack where run: "conn_on_segment ?answer (Some ip) rnd now ?c = Inr (client2, None)"
    and client2: "settled client2" "c_cfg client2 = cfg" "c_iss client2 = c_iss client" "rq_nxt (c_recv client2) = seq_add (seg_seq answer) 1"
      "c_peer_mss client2 = max (min m (cfg_mss cfg)) 64" "c_out client2 = [Transmit ack ip, NotifyEstablished]"
    and ack: "seg_flags ack = FLAG_ACK" "seg_seq ack = seq_add (c_iss client) 1" "seg_ack ack = seq_add (seg_seq answer) 1"
      "from_conn cfg ack" "seg_src_port ack = lport" "seg_dst_port ack = port"
    by (rule client_establishes [OF c(2,1,3), of ?answer m "Some ip" rnd now]) (use assms(3-13) in simp_all)
  let ?s = "a\<lparr>st_stats := st\<rparr>"
  have same: "addressed ?s" "resolves ?s = resolves a"
    using host_addressed [OF assms(1)] resolves_fields [of ?s a] by (simp_all add: addressed_def)
  obtain n st' reply where update: "stack_update_conn c client2 now ?s
      = act_each [NotifyEstablished] (stack_perform c now)
          ((stack_set_conn c client2 ?s)\<lparr>st_next_id := n, st_stats := st', st_frames := st_frames ?s @ [reply]\<rparr>)"
    and reply: "carries (st_ip ?s) (st_mac ?s) ip mac ack reply"
    by (rule update_conn_transmits [OF client2(6) same(1), of now mac cfg c])
      (use assms(4,16-19) same(2) ack(4) in simp_all)
  let ?s3 = "(stack_set_conn c client2 ?s)\<lparr>st_next_id := n, st_stats := st', st_frames := st_frames a @ [reply]\<rparr>"
  let ?a2 = "stack_set_flags c True False ?s3"
  have ob: "stack_object ?s3 c = \<lparr>ob_conn = client2\<lparr>c_out := []\<rparr>, ob_role = Client, ob_established = False, ob_failed = False\<rparr>"
    using call by (simp add: stack_object_def stack_set_conn_def)
  have "stack_update_conn c client2 now ?s = (?a2, Inr ())" using update ob by (simp add: run_simps)
  then have "stack_on_segment c ?answer ip rnd now ?s = (?a2, Inr ())"
    using run call by (simp add: stack_on_segment_def run_simps stack_object_def)
  with received have handled: "stack_handle_frame frame rnd now a = (?a2, Inr ())" by blast
  have o2: "stack_object ?a2 c = \<lparr>ob_conn = client2\<lparr>c_out := []\<rparr>, ob_role = Client, ob_established = True, ob_failed = False\<rparr>"
    using call ob by (simp add: stack_set_flags_def stack_object_def stack_set_conn_def)
  have "st_frames ?a2 = st_frames a @ [reply]" "carries (st_ip a) (st_mac a) ip mac ack reply"
    using reply by (simp_all add: stack_set_flags_def)
  moreover have "settled (client2\<lparr>c_out := []\<rparr>)" using client2(1) by (simp add: settled_def)
  ultimately show thesis
    by (intro that [OF handled _ _ o2 _ _ _ _ _ ack(1,3,2,5,6)]) (use client2 in simp_all)
qed

text \<open>The final ACK establishes the connection of the server, which sends nothing.\<close>

lemma server_completes:
  assumes "host b" and answering: "answering b c child sent" and "\<not> cfg_on_established (c_cfg child)"
    and "cfg_remote_ip (c_cfg child) = ip" and "cfg_local_port (c_cfg child) = port" and "cfg_remote_port (c_cfg child) = lport"
    and "carries ip src_mac (st_ip b) (st_mac b) ack frame" and "seg_flags ack = FLAG_ACK"
    and "seg_ack ack = seq_add (c_iss child) 1" and "seg_src_port ack = lport" and "seg_dst_port ack = port"
  obtains b2 child2 where "stack_handle_frame frame rnd now b = (b2, Inr ())" and "st_frames b2 = st_frames b"
    and "st_accept_queues b2 = st_accept_queues b" and "ob_conn (stack_object b2 c) = child2" and "settled child2"
    and "c_iss child2 = c_iss child" and "c_recv child2 = c_recv child" and "c_peer_mss child2 = c_peer_mss child"
    and "c_cfg child2 = c_cfg child"
proof -
  note child = answering [unfolded answering_def]
  then have syn: "syn_out child (FLAG_SYN OR FLAG_ACK) sent" and state: "c_state child = SYN_RECEIVED" by simp_all
  have demux: "demux b ip ack = Some c" using child assms(4-6,10,11) by (simp add: demux_def)
  obtain k st where received: "\<forall>t. stack_on_segment c (ack\<lparr>seg_checksum := k\<rparr>) ip rnd now (b\<lparr>st_stats := st\<rparr>) = (t, Inr ())
      \<longrightarrow> stack_handle_frame frame rnd now b = (t, Inr ())"
    by (rule receive_carries [OF host_addressed [OF assms(1)] assms(7) demux, where rnd = rnd and now = now])
  let ?ack = "ack\<lparr>seg_checksum := k\<rparr>"
  obtain child2 where run: "conn_on_segment ?ack (Some ip) rnd now child = Inr (child2, None)" and child2: "settled child2"
      "c_cfg child2 = c_cfg child" "c_recv child2 = c_recv child" "c_iss child2 = c_iss child" "c_peer_mss child2 = c_peer_mss child"
      "c_out child2 = []"
    by (rule child_establishes [OF syn state, of ?ack "Some ip" rnd now]) (use child assms(3,8,9) in simp_all)
  let ?b2 = "stack_set_conn c child2 (b\<lparr>st_stats := st\<rparr>)"
  have "stack_on_segment c ?ack ip rnd now (b\<lparr>st_stats := st\<rparr>) = (?b2, Inr ())"
    using run child child2(6) by (simp add: stack_on_segment_def run_simps stack_object_def stack_update_conn_def)
  with received have handled: "stack_handle_frame frame rnd now b = (?b2, Inr ())" by blast
  have b2: "ob_conn (stack_object ?b2 c) = child2\<lparr>c_out := []\<rparr>" "settled (child2\<lparr>c_out := []\<rparr>)"
    "st_frames ?b2 = st_frames b" "st_accept_queues ?b2 = st_accept_queues b"
    using child child2(1) by (simp_all add: stack_object_def stack_set_conn_def settled_def)
  show thesis
    by (rule that [OF handled b2(3,4,1,2)]) (use child2 in simp_all)
qed

section \<open>The connection\<close>

text \<open>The two ends of one connection with nothing outstanding: each expects the number the other sends next, and
  each has the other's address and port.\<close>

definition joined :: "conn \<Rightarrow> conn \<Rightarrow> bool" where
  "joined x y \<longleftrightarrow> conn_is_established x \<and> conn_is_established y
     \<and> conn_snd_nxt x = conn_rcv_nxt y \<and> conn_snd_nxt y = conn_rcv_nxt x
     \<and> conn_snd_una x = conn_snd_nxt x \<and> conn_snd_una y = conn_snd_nxt y
     \<and> cfg_remote_ip (c_cfg x) = cfg_local_ip (c_cfg y) \<and> cfg_remote_port (c_cfg x) = cfg_local_port (c_cfg y)
     \<and> cfg_remote_ip (c_cfg y) = cfg_local_ip (c_cfg x) \<and> cfg_remote_port (c_cfg y) = cfg_local_port (c_cfg x)
     \<and> c_peer_mss x = DEFAULT_MSS \<and> c_peer_mss y = DEFAULT_MSS"

text \<open>C6. A TCP connection between two stacks: after \<open>tcp_listen\<close> on one, \<open>tcp_connect\<close> on the other, whose neighbours
  are resolved, sends one frame; given that frame the server answers with one, given the answer the client answers with
  one and the event \<open>tcp_connect\<close> waits for is set, and given the last frame the server sends nothing. Then
  \<open>tcp_connect\<close> returns the client's connection and \<open>tcp_accept\<close> returns the other end of it: both are established,
  agree on the sequence numbers, and know each other's address and port. Nothing raises.\<close>

theorem tcp_connect_accept:
  assumes "host a" and "host b" and "stack_tcp_listen port b = (b0, Inr l)"
    and "map_of (st_connections b) (st_ip b, port, st_ip a, lport) = None" and "0 < st_receive_capacity a"
    and "0 < lport" and "lport \<le> 0xFFFF" and "0 \<le> port" and "port \<le> 0xFFFF"
    and "st_ip a \<noteq> IP_BROADCAST" and "st_ip b \<noteq> IP_BROADCAST"
    and "resolves a (st_ip b) t1 (st_mac b)" and "resolves b (st_ip a) t2 (st_mac a)" and "resolves a (st_ip b) t3 (st_mac b)"
  shows "\<exists>a1 c syn b1 answer a2 ack b2 b3 k.
     stack_tcp_connect (IpBytes (st_ip b)) port lport rnd1 t1 a = (a1, Inr c) \<and> st_frames a1 = st_frames a @ [syn]
   \<and> stack_handle_frame syn rnd2 t2 b0 = (b1, Inr ()) \<and> st_frames b1 = st_frames b @ [answer]
   \<and> stack_handle_frame answer rnd3 t3 a1 = (a2, Inr ()) \<and> st_frames a2 = st_frames a1 @ [ack]
   \<and> stack_handle_frame ack rnd4 t4 b1 = (b2, Inr ()) \<and> st_frames b2 = st_frames b1
   \<and> ob_established (stack_object a2 c) \<and> stack_tcp_connect_finish True c t5 a2 = (a2, Inr c)
   \<and> stack_tcp_accept port b2 = (b3, Inr (Some k))
   \<and> joined (ob_conn (stack_object a2 c)) (ob_conn (stack_object b3 k))"
proof -
  note b0 = listen_listens [OF assms(3)]
  have lens: "length (st_ip a) = 4" "length (st_mac a) = 6" "length (st_ip b) = 4" "length (st_mac b) = 6"
    using assms(1,2) by (simp_all add: host_def)
  have host_b0: "host b0"
    using stack_reachable.step [OF _ stack_step.listen [of b port]] assms(2) by (simp add: assms(3) host_def b0)
  obtain a1 c client syn f1 where connect: "stack_tcp_connect (IpBytes (st_ip b)) port lport rnd1 t1 a = (a1, Inr c)"
      "st_frames a1 = st_frames a @ [f1]" and f1: "carries (st_ip a) (st_mac a) (st_ip b) (st_mac b) syn f1"
    and a1: "host a1" "st_ip a1 = st_ip a" "st_mac a1 = st_mac a" "resolves a1 = resolves a" "calling a1 c client t1"
    and client: "c_cfg client = client_config a lport (st_ip b) port"
    and syn: "syn_segment syn FLAG_SYN client" "seg_src_port syn = lport" "seg_dst_port syn = port"
    by (rule client_calls [OF assms(1,12,11) lens(4,3) assms(5-9)])
  obtain b1 k child answer f2 where answered: "stack_handle_frame f1 rnd2 t2 b0 = (b1, Inr ())" "st_frames b1 = st_frames b0 @ [f2]"
    and f2: "carries (st_ip b0) (st_mac b0) (st_ip a) (st_mac a) answer f2"
    and b1: "host b1" "st_ip b1 = st_ip b0" "st_mac b1 = st_mac b0" "answering b1 k child t2" "map_of (st_accept_queues b1) port = Some ([] @ [k])"
    and child: "c_cfg child = (accepted_config b0 port (st_ip a) lport)\<lparr>cfg_on_data := True, cfg_on_closed := True\<rparr>"
      "rq_nxt (c_recv child) = seq_add (seg_seq syn) 1" "c_peer_mss child = max (min DEFAULT_MSS DEFAULT_MSS) 64"
    and answer: "syn_segment answer (FLAG_SYN OR FLAG_ACK) child" "seg_ack answer = seq_add (seg_seq syn) 1"
      "seg_src_port answer = port" "seg_dst_port answer = lport"
    by (rule server_answers [OF host_b0 b0(1,2), of "st_ip a" lport "st_mac a" syn f1 DEFAULT_MSS t2 "st_mac a" rnd2])
      (use f1 syn client lens b0 assms(4-10,13) in \<open>simp_all add: syn_segment_def\<close>)
  obtain a2 client2 ack f3 where confirmed: "stack_handle_frame f2 rnd3 t3 a1 = (a2, Inr ())" "st_frames a2 = st_frames a1 @ [f3]"
    and f3: "carries (st_ip a1) (st_mac a1) (st_ip b) (st_mac b) ack f3"
    and a2: "stack_object a2 c = \<lparr>ob_conn = client2, ob_role = Client, ob_established = True, ob_failed = False\<rparr>"
    and client2: "settled client2" "c_iss client2 = c_iss client" "rq_nxt (c_recv client2) = seq_add (seg_seq answer) 1"
      "c_peer_mss client2 = max (min DEFAULT_MSS (cfg_mss (c_cfg client))) 64" "c_cfg client2 = c_cfg client"
    and ack: "seg_flags ack = FLAG_ACK" "seg_ack ack = seq_add (seg_seq answer) 1" "seg_src_port ack = lport" "seg_dst_port ack = port"
    by (rule client_confirms [OF a1(1,5), of "c_cfg client" "st_ip b" lport port "st_mac b" answer f2 DEFAULT_MSS t3 "st_mac b" rnd3])
      (use f2 a1 b0 lens client answer syn child(1) assms(5-9,11,14) in \<open>simp_all add: syn_segment_def\<close>)
  obtain b2 child2 where acked: "stack_handle_frame f3 rnd4 t4 b1 = (b2, Inr ())" "st_frames b2 = st_frames b1"
    and b2: "st_accept_queues b2 = st_accept_queues b1" "ob_conn (stack_object b2 k) = child2"
    and child2: "settled child2" "c_iss child2 = c_iss child" "c_recv child2 = c_recv child" "c_peer_mss child2 = c_peer_mss child"
      "c_cfg child2 = c_cfg child"
    by (rule server_completes [OF b1(1,4), of "st_ip a" port lport "st_mac a" ack f3 rnd4 t4])
      (use f3 a1 b1 b0 child answer ack in \<open>simp_all add: syn_segment_def\<close>)
  let ?b3 = "b2\<lparr>st_accept_queues := AList.update port [] (st_accept_queues b2)\<rparr>"
  have "stack_tcp_connect_finish True c t5 a2 = (a2, Inr c)" by (simp add: stack_tcp_connect_finish_def a2)
  moreover have "stack_tcp_accept port b2 = (?b3, Inr (Some k))" using b1(5) b2(1) by (simp add: stack_tcp_accept_def)
  moreover have "joined client2 child2"
    using client2 child2 child answer syn client b0(7)
    by (simp add: joined_def settled_def conn_is_established_def conn_snd_nxt_def conn_rcv_nxt_def conn_snd_una_def
        syn_segment_def DEFAULT_MSS_def)
  ultimately have "ob_established (stack_object a2 c) \<and> stack_tcp_connect_finish True c t5 a2 = (a2, Inr c)
      \<and> stack_tcp_accept port b2 = (?b3, Inr (Some k)) \<and> joined (ob_conn (stack_object a2 c)) (ob_conn (stack_object ?b3 k))"
    using a2 b2(2) by (simp add: stack_object_def)
  with connect answered confirmed acked b0(4) show ?thesis
    by (intro exI [of _ a1] exI [of _ c] exI [of _ f1] exI [of _ b1] exI [of _ f2] exI [of _ a2] exI [of _ f3] exI [of _ b2]
        exI [of _ ?b3] exI [of _ k]) simp
qed

text \<open>The peer of \<open>sample_sender\<close> has heard of it as well.\<close>

definition sample_listener_host :: stack where
  "sample_listener_host = fst (stack_handle_frame (link_frame BROADCAST_MAC [2, 0, 0, 0, 0, 1] ETHERTYPE_ARP
     ([0, 1, 8, 0, 6, 4, 0, 1] @ [2, 0, 0, 0, 0, 1] @ [10, 0, 0, 1] @ [0, 0, 0, 0, 0, 0] @ [10, 0, 0, 9])) 0 5 sample_peer)"

theorem tcp_connect_accept_witness:
  "\<exists>a1 c syn b1 answer a2 ack b2 b3 k.
     stack_tcp_connect (IpBytes [10, 0, 0, 2]) 80 4000 1 6 sample_sender = (a1, Inr c) \<and> st_frames a1 = [syn]
   \<and> stack_handle_frame syn 2 7 (fst (stack_tcp_listen 80 sample_listener_host)) = (b1, Inr ()) \<and> st_frames b1 = [answer]
   \<and> stack_handle_frame answer 0 8 a1 = (a2, Inr ()) \<and> st_frames a2 = [syn, ack]
   \<and> stack_handle_frame ack 0 9 b1 = (b2, Inr ()) \<and> stack_tcp_connect_finish True c 10 a2 = (a2, Inr c)
   \<and> stack_tcp_accept 80 b2 = (b3, Inr (Some k)) \<and> joined (ob_conn (stack_object a2 c)) (ob_conn (stack_object b3 k))"
proof -
  have reach: "stack_reachable sample_listener_host"
    unfolding sample_listener_host_def
    using stack_reachable.step [OF _ stack_step.on_frame] sample_hosts(2) by (simp add: host_def)
  have facts: "length (st_mac sample_listener_host) = 6 \<and> st_ip sample_listener_host = [10, 0, 0, 2]
      \<and> st_connections sample_listener_host = [] \<and> st_frames sample_listener_host = []
      \<and> st_ip sample_sender = [10, 0, 0, 1] \<and> st_frames sample_sender = [] \<and> 0 < st_receive_capacity sample_sender
      \<and> [10, 0, 0, 1] \<noteq> IP_BROADCAST \<and> [10, 0, 0, 2] \<noteq> IP_BROADCAST" by code_simp
  have resolved: "resolves sample_sender [10, 0, 0, 2] 6 (st_mac sample_listener_host)"
    "resolves sample_sender [10, 0, 0, 2] 8 (st_mac sample_listener_host)"
    "resolves sample_listener_host [10, 0, 0, 1] 7 (st_mac sample_sender)" by code_simp+
  have listen: "case stack_tcp_listen 80 sample_listener_host of (b0, Inr l) \<Rightarrow> True | _ \<Rightarrow> False" by code_simp
  then obtain b0 l where b0: "stack_tcp_listen 80 sample_listener_host = (b0, Inr l)" by (auto split: prod.splits sum.splits)
  have "host sample_listener_host" using reach facts by (simp add: host_def)
  from tcp_connect_accept [OF sample_hosts(1) this b0, of 4000 6 7 8 1 2 0 0 9 10] facts resolved show ?thesis
    by (auto simp: b0)
qed

end
