(* ===== verification/Stack_Service.thy ===== *)
theory Stack_Service
  imports Stack
begin

text \<open>
  The life of a stack's thread: \<open>start\<close>, \<open>stop\<close> and the loop \<open>_run\<close> of \<open>minitcp/stack.py\<close>, as steps of any number of
  threads.

  \<^item> \<open>sv_running\<close>, \<open>sv_stop_event\<close> and \<open>sv_thread\<close> are the fields of the object; \<open>sv_threads\<close> lists every thread it has
    started, by the place in the loop where each is, with its \<open>next_tick\<close>.
  \<^item> \<open>stop\<close> is two steps: up to \<open>thread.join(timeout)\<close>, and from its return on. Between them other threads run;
    \<open>sv_joining\<close> holds the thread each unfinished call of \<open>stop\<close> waits for. \<open>join\<close> returns when that thread has ended, or
    because it timed out.
  \<^item> What \<open>recv_frame\<close> does is part of the step: nothing, a frame, or an exception.
\<close>

section \<open>State and steps\<close>

datatype reader = AtTest time | Reading time | Ended

record service =
  sv_stack :: stack
  sv_tick_interval :: time
  sv_running :: bool
  sv_stop_event :: bool
  sv_thread :: "nat option"
  sv_threads :: "reader list"
  sv_joining :: "nat option list"
  sv_link_open :: bool

definition service_init :: "stack \<Rightarrow> time \<Rightarrow> service" where
  "service_init s tick_interval =
     \<lparr>sv_stack = s, sv_tick_interval = tick_interval, sv_running = False, sv_stop_event = False, sv_thread = None,
      sv_threads = [], sv_joining = [], sv_link_open = True\<rparr>"

definition service_start :: "time \<Rightarrow> service \<Rightarrow> service" where
  "service_start now v =
     (if sv_running v then v
      else v\<lparr>sv_running := True, sv_stop_event := False, sv_thread := Some (length (sv_threads v)),
             sv_threads := sv_threads v @ [AtTest now]\<rparr>)"

definition service_stop :: "service \<Rightarrow> service" where
  "service_stop v =
     (if \<not> sv_running v then v
      else v\<lparr>sv_running := False, sv_stop_event := True, sv_thread := None, sv_joining := sv_joining v @ [sv_thread v]\<rparr>)"

text \<open>The \<open>i\<close>-th unfinished \<open>stop\<close> returns: \<open>None\<close> while its thread runs and the time is not over.\<close>

definition service_stopped :: "nat \<Rightarrow> bool \<Rightarrow> service \<Rightarrow> service option" where
  "service_stopped i timed_out v =
     (if i \<ge> length (sv_joining v) then None
      else if timed_out \<or> (case sv_joining v ! i of None \<Rightarrow> True | Some t \<Rightarrow> sv_threads v ! t = Ended)
      then Some (v\<lparr>sv_joining := take i (sv_joining v) @ drop (Suc i) (sv_joining v), sv_link_open := False\<rparr>)
      else None)"

text \<open>\<open>while self._running\<close>.\<close>

definition service_test :: "nat \<Rightarrow> service \<Rightarrow> service option" where
  "service_test t v =
     (case if t < length (sv_threads v) then sv_threads v ! t else Ended of
        AtTest next_tick \<Rightarrow>
          Some (v\<lparr>sv_threads := (sv_threads v)[t := if sv_running v then Reading next_tick else Ended]\<rparr>)
      | _ \<Rightarrow> None)"

text \<open>The body of the loop: \<open>received\<close> is \<open>None\<close> when \<open>recv_frame\<close> raised.\<close>

definition service_round ::
  "nat \<Rightarrow> bytes option option \<Rightarrow> 32 word \<Rightarrow> time \<Rightarrow> time \<Rightarrow> service \<Rightarrow> service option" where
  "service_round t received rnd arrival now v =
     (case if t < length (sv_threads v) then sv_threads v ! t else Ended of
        Reading next_tick \<Rightarrow>
          if received = None \<and> \<not> sv_running v then Some (v\<lparr>sv_threads := (sv_threads v)[t := Ended]\<rparr>)
          else
            let frame = (case received of None \<Rightarrow> None | Some f \<Rightarrow> f);
                (s, next) = stack_run_round (sv_tick_interval v) frame rnd arrival now (sv_stack v, next_tick)
            in Some (v\<lparr>sv_stack := s, sv_threads := (sv_threads v)[t := AtTest next]\<rparr>)
      | _ \<Rightarrow> None)"

datatype service_event =
    Start time
  | Stop
  | Stopped nat bool
  | Test nat
  | Round nat "bytes option option" "32 word" time time
  | Calls "stack \<Rightarrow> stack"

text \<open>\<open>Calls\<close> is what application threads do to the stack meanwhile.\<close>

fun service_step :: "service_event \<Rightarrow> service \<Rightarrow> service option" where
  "service_step (Start now) v = Some (service_start now v)"
| "service_step Stop v = Some (service_stop v)"
| "service_step (Stopped i timed_out) v = service_stopped i timed_out v"
| "service_step (Test t) v = service_test t v"
| "service_step (Round t received rnd arrival now) v = service_round t received rnd arrival now v"
| "service_step (Calls f) v = Some (v\<lparr>sv_stack := f (sv_stack v)\<rparr>)"

fun service_run :: "service_event list \<Rightarrow> service \<Rightarrow> service option" where
  "service_run [] v = Some v"
| "service_run (e # es) v = (case service_step e v of None \<Rightarrow> None | Some u \<Rightarrow> service_run es u)"


section \<open>One reader\<close>

text \<open>The order of calls the class can bear: every \<open>join\<close> waits until the thread has ended, and \<open>start\<close> is not
  called while a \<open>stop\<close> is unfinished.\<close>

fun orderly :: "service_event \<Rightarrow> service \<Rightarrow> bool" where
  "orderly (Start now) v = (sv_joining v = [])"
| "orderly (Stopped i timed_out) v = (\<not> timed_out)"
| "orderly _ v = True"

fun orderly_run :: "service_event list \<Rightarrow> service \<Rightarrow> bool" where
  "orderly_run [] v = True"
| "orderly_run (e # es) v = (orderly e v \<and> (case service_step e v of None \<Rightarrow> True | Some u \<Rightarrow> orderly_run es u))"

text \<open>Then only the thread in \<open>_thread\<close> runs, or after \<open>stop\<close> the one it waits for.\<close>

definition service_inv :: "service \<Rightarrow> bool" where
  "service_inv v \<longleftrightarrow>
     (\<forall>t < length (sv_threads v). sv_threads v ! t = Ended
        \<or> (sv_running v \<and> sv_thread v = Some t) \<or> (\<not> sv_running v \<and> sv_joining v = [Some t]))
     \<and> (sv_running v \<longrightarrow> sv_joining v = [] \<and> sv_stop_event v = False \<and> (\<exists>t < length (sv_threads v). sv_thread v = Some t))
     \<and> (\<not> sv_running v \<longrightarrow> sv_thread v = None \<and> (sv_joining v = [] \<or> (\<exists>t < length (sv_threads v). sv_joining v = [Some t])))"

lemma service_inv_alive:
  "service_inv v \<Longrightarrow> t < length (sv_threads v) \<Longrightarrow> sv_threads v ! t \<noteq> Ended
     \<Longrightarrow> (sv_running v \<and> sv_thread v = Some t) \<or> (\<not> sv_running v \<and> sv_joining v = [Some t])"
  by (simp add: service_inv_def) blast

lemma service_inv_init: "service_inv (service_init s i)"
  by (simp add: service_inv_def service_init_def)

lemma service_inv_update:
  assumes "service_inv v" and "t < length (sv_threads v)" and "sv_threads v ! t \<noteq> Ended \<or> r = Ended"
  shows "service_inv (v\<lparr>sv_threads := (sv_threads v)[t := r]\<rparr>)"
  using assms by (auto simp: service_inv_def nth_list_update)

lemma service_inv_stack [simp]: "service_inv (v\<lparr>sv_stack := s\<rparr>) = service_inv v"
  by (simp add: service_inv_def)

lemma service_inv_step:
  assumes "service_inv v" and "orderly e v" and "service_step e v = Some u"
  shows "service_inv u"
proof (cases e)
  case (Start now)
  show ?thesis
  proof (cases "sv_running v")
    case True
    then show ?thesis using assms Start by (simp add: service_start_def)
  next
    case False
    then show ?thesis using assms Start by (auto simp: service_start_def service_inv_def nth_append less_Suc_eq)
  qed
next
  case Stop
  then show ?thesis using assms by (auto simp: service_stop_def service_inv_def)
next
  case (Stopped i timed_out)
  then have i: "i < length (sv_joining v)" using assms(3) by (auto simp: service_stopped_def split: if_splits)
  then obtain t where j: "sv_joining v = [Some t]" "\<not> sv_running v" "sv_thread v = None"
    using assms(1) by (cases "sv_running v") (auto simp: service_inv_def)
  have threads: "\<forall>t' < length (sv_threads v). sv_threads v ! t' = Ended \<or> t' = t"
    using service_inv_alive [OF assms(1)] j by auto
  have "sv_threads v ! t = Ended \<and> u = v\<lparr>sv_joining := [], sv_link_open := False\<rparr>"
    using assms(2,3) Stopped i j by (simp add: service_stopped_def split: if_splits)
  then show ?thesis using j threads by (auto simp: service_inv_def)
next
  case (Test t)
  then show ?thesis
    using assms by (auto simp: service_test_def split: if_splits reader.splits intro!: service_inv_update)
next
  case (Round t received rnd arrival now)
  have "service_inv (v\<lparr>sv_stack := s, sv_threads := (sv_threads v)[t := AtTest n]\<rparr>)"
    if "t < length (sv_threads v)" "sv_threads v ! t = Reading k" for s n k
    using service_inv_update [of "v\<lparr>sv_stack := s\<rparr>" t "AtTest n"] assms(1) that by simp
  with assms Round show ?thesis
    by (auto simp: service_round_def Let_def split: if_splits reader.splits prod.splits option.splits intro!: service_inv_update)
next
  case (Calls f)
  then show ?thesis using assms by auto
qed

lemma service_inv_run:
  "service_run es v = Some u \<Longrightarrow> orderly_run es v \<Longrightarrow> service_inv v \<Longrightarrow> service_inv u"
  by (induction es arbitrary: v) (auto split: option.splits intro: service_inv_step)

lemma service_run_append: "service_run (es @ fs) v = (case service_run es v of None \<Rightarrow> None | Some u \<Rightarrow> service_run fs u)"
  by (induction es arbitrary: v) (auto split: option.splits)

lemma orderly_run_append:
  "service_run es v = Some u \<Longrightarrow> orderly_run (es @ fs) v \<longleftrightarrow> orderly_run es v \<and> orderly_run fs u"
  by (induction es arbitrary: v) (auto split: option.splits)

lemma one_alive:
  assumes "service_inv v"
  shows "length (filter (\<lambda>r. r \<noteq> Ended) (sv_threads v)) \<le> 1"
proof -
  have "t = t'" if "t < length (sv_threads v)" "sv_threads v ! t \<noteq> Ended" "t' < length (sv_threads v)" "sv_threads v ! t' \<noteq> Ended" for t t'
    using service_inv_alive [OF assms that(1,2)] service_inv_alive [OF assms that(3,4)] by auto
  then have "card {t. t < length (sv_threads v) \<and> sv_threads v ! t \<noteq> Ended} \<le> Suc 0"
    by (subst card_le_Suc0_iff_eq) auto
  then show ?thesis by (simp add: length_filter_conv_card)
qed

text \<open>A stopped stack: every thread has at most the rest of its round to do.\<close>

fun is_round :: "service_event \<Rightarrow> bool" where
  "is_round (Round _ _ _ _ _) = True"
| "is_round _ = False"

fun is_start :: "service_event \<Rightarrow> bool" where
  "is_start (Start _) = True"
| "is_start _ = False"

fun is_reading :: "reader \<Rightarrow> bool" where
  "is_reading (Reading _) = True"
| "is_reading _ = False"

lemma filter_update_out:
  "t < length xs \<Longrightarrow> P (xs ! t) \<Longrightarrow> \<not> P y \<Longrightarrow> Suc (length (filter P (xs[t := y]))) = length (filter P xs)"
  by (induction xs arbitrary: t) (auto split: nat.splits simp: nth_Cons')

lemma filter_update_same:
  "t < length xs \<Longrightarrow> P (xs ! t) = P y \<Longrightarrow> length (filter P (xs[t := y])) = length (filter P xs)"
  by (induction xs arbitrary: t) (auto split: nat.splits simp: nth_Cons')

lemma stopped_step:
  assumes "service_step e v = Some u" and "\<not> is_start e" and "\<not> sv_running v"
  shows "\<not> sv_running u
     \<and> length (filter is_reading (sv_threads u)) + (if is_round e then 1 else 0) = length (filter is_reading (sv_threads v))"
  using assms
  by (cases e) (auto simp: service_stop_def service_stopped_def service_test_def service_round_def Let_def filter_update_same
      filter_update_out split: if_splits reader.splits prod.splits option.splits)

lemma stopped_rounds:
  assumes "service_run es v = Some u" and "list_all (\<lambda>e. \<not> is_start e) es" and "\<not> sv_running v"
  shows "\<not> sv_running u \<and> length (filter is_round es) \<le> length (filter is_reading (sv_threads v))"
  using assms
proof (induction es arbitrary: v)
  case (Cons e es)
  then obtain w where w: "service_step e v = Some w" "service_run es w = Some u" by (auto split: option.splits)
  then show ?case using Cons stopped_step [OF w(1)] by fastforce
qed simp

text \<open>C21. One reader: in every interleaving of \<open>start\<close>, \<open>stop\<close>, the threads' steps and other calls in which \<open>join\<close> does
  not time out and \<open>start\<close> is not called while a \<open>stop\<close> is under way, at most one thread is alive, and none once every
  \<open>stop\<close> has returned and the stack is not running. After a \<open>stop\<close>, and until the next \<open>start\<close>, at most one more round
  of the loop is run by all threads together.\<close>

theorem one_reader:
  assumes "service_run (es @ Stop # fs) (service_init s i) = Some v" and "orderly_run (es @ Stop # fs) (service_init s i)"
    and "list_all (\<lambda>e. \<not> is_start e) fs"
  shows "length (filter (\<lambda>r. r \<noteq> Ended) (sv_threads v)) \<le> 1 \<and> length (filter is_round fs) \<le> 1
     \<and> (sv_joining v = [] \<longrightarrow> list_all (\<lambda>r. r = Ended) (sv_threads v))"
proof -
  obtain u where u: "service_run es (service_init s i) = Some u" and v: "service_run (Stop # fs) u = Some v"
    using assms(1) by (auto simp: service_run_append split: option.splits)
  have "orderly_run es (service_init s i)" "orderly_run (Stop # fs) u"
    using assms(2) orderly_run_append [OF u] by simp_all
  then have inv: "service_inv u" "service_inv v"
    using service_inv_run [OF u] service_inv_run [OF v] service_inv_init by simp_all
  let ?w = "service_stop u"
  have fs: "\<not> sv_running v \<and> length (filter is_round fs) \<le> length (filter is_reading (sv_threads ?w))"
    by (rule stopped_rounds [OF _ assms(3)]) (use v in \<open>simp_all add: service_stop_def\<close>)
  have "length (filter is_reading xs) \<le> length (filter (\<lambda>r. r \<noteq> Ended) xs)" for xs
    by (induction xs) auto
  with one_alive [OF inv(1)] have "length (filter is_reading (sv_threads u)) \<le> 1" by (meson le_trans)
  moreover have "sv_threads ?w = sv_threads u" by (simp add: service_stop_def)
  moreover have "list_all (\<lambda>r. r = Ended) (sv_threads v)" if "sv_joining v = []"
    using service_inv_alive [OF inv(2)] fs that by (auto simp: list_all_length)
  ultimately show ?thesis using one_alive [OF inv(2)] fs by simp
qed

definition sample_service :: service where
  "sample_service = service_init (projr (Stack_init [2, 0, 0, 0, 0, 1] (IpBytes [10, 0, 0, 1]) (MaskBytes [255, 255, 255, 0])
     None False 32 65535)) (1 / 20)"

definition sample_stop :: "service_event list" where
  "sample_stop = [Start 0, Test 0, Stop, Round 0 (Some None) 0 0 0, Test 0, Stopped 0 False]"

lemma sample_round: "stack_run_round i None rnd arrival now (s, next) = (if now \<ge> next then (stack_tick now s, now + i) else (s, next))"
  by (simp add: stack_run_round_def)

theorem one_reader_witness:
  "case service_run sample_stop sample_service of
     None \<Rightarrow> False
   | Some v \<Rightarrow> sv_threads v = [Ended] \<and> sv_joining v = [] \<and> \<not> sv_link_open v
       \<and> length (filter (\<lambda>r. r \<noteq> Ended) (sv_threads v)) \<le> 1 \<and> list_all (\<lambda>r. r = Ended) (sv_threads v)"
proof -
  define s where "s = projr (Stack_init [2, 0, 0, 0, 0, 1] (IpBytes [10, 0, 0, 1]) (MaskBytes [255, 255, 255, 0]) None False 32 65535)"
  let ?v = "(service_init s (1 / 20))\<lparr>sv_stack := stack_tick 0 s, sv_stop_event := True, sv_threads := [Ended], sv_link_open := False\<rparr>"
  have "service_run ([Start 0, Test 0] @ Stop # [Round 0 (Some None) 0 0 0, Test 0, Stopped 0 False]) (service_init s (1 / 20)) = Some ?v"
    by (simp add: service_init_def service_start_def service_test_def service_stop_def service_round_def service_stopped_def sample_round)
  moreover have "orderly_run ([Start 0, Test 0] @ Stop # [Round 0 (Some None) 0 0 0, Test 0, Stopped 0 False]) (service_init s (1 / 20))"
    by (simp add: service_init_def service_start_def service_test_def service_stop_def service_round_def service_stopped_def sample_round)
  ultimately show ?thesis
    using one_reader [of "[Start 0, Test 0]" "[Round 0 (Some None) 0 0 0, Test 0, Stopped 0 False]" s "1 / 20" ?v]
    by (simp add: sample_stop_def sample_service_def s_def [symmetric] service_init_def)
qed

text \<open>Without the two conditions there are two readers: the flag is shared, so a \<open>start\<close> that comes before the old
  thread has looked at it revives that thread. And a stack that was stopped can be started again, but its link stays
  closed.\<close>

lemma two_readers:
  "\<exists>v. service_run [Start 0, Test 0, Stop, Stopped 0 True, Start 1, Test 1] (service_init s i) = Some v
     \<and> sv_threads v = [Reading 0, Reading 1] \<and> sv_running v \<and> \<not> sv_link_open v"
  by (simp add: service_init_def service_start_def service_test_def service_stop_def service_stopped_def)

lemma overlapping_start_revives:
  "\<exists>v. service_run [Start 0, Test 0, Stop, Start 1, Test 1] (service_init s i) = Some v
     \<and> sv_threads v = [Reading 0, Reading 1] \<and> sv_running v"
  by (simp add: service_init_def service_start_def service_test_def service_stop_def service_stopped_def)

lemma restart_has_no_link:
  "\<exists>v. service_run [Start 0, Stop, Test 0, Stopped 0 False, Start 1] (service_init s i) = Some v
     \<and> sv_running v \<and> \<not> sv_link_open v"
  by (simp add: service_init_def service_start_def service_test_def service_stop_def service_stopped_def)

end
