(* ===== verification/Speaking.thy ===== *)
theory Speaking
  imports Conn_Theorems
begin

text \<open>
  The sending half of a synchronised connection, seen as a byte stream: what the application has written and what of
  it has been put into segments. Every operation of \<open>Connection\<close> that is possible once the handshake is over keeps
  the view: whatever is transmitted, again or for the first time, is the part of the written stream at its place.
\<close>

section \<open>Pieces of a stream\<close>

text \<open>A segment, or an outstanding entry, of a sender that has transmitted the stream \<open>S\<close>, whose first byte has the
  sequence number \<open>b\<close>: its payload is the part of \<open>S\<close> at its place, and a FIN comes after all of it.\<close>

definition piece :: "int \<Rightarrow> bytes \<Rightarrow> bool \<Rightarrow> seqno \<Rightarrow> int \<Rightarrow> bytes \<Rightarrow> bool" where
  "piece b S fin s f d \<longleftrightarrow> (d = [] \<or> (\<exists>p. s = wrap (b + int p) \<and> is_slice S p d))
     \<and> (f AND FLAG_FIN \<noteq> 0 \<longrightarrow> fin \<and> seq_add s (len d) = wrap (b + len S))"

definition piece_entry :: "int \<Rightarrow> bytes \<Rightarrow> bool \<Rightarrow> outstanding \<Rightarrow> bool" where
  "piece_entry b S fin e \<longleftrightarrow> piece b S fin (os_seq e) (os_flags e) (os_payload e)"

definition piece_segment :: "int \<Rightarrow> bytes \<Rightarrow> bool \<Rightarrow> tcp_segment \<Rightarrow> bool" where
  "piece_segment b S fin seg \<longleftrightarrow> piece b S fin (seg_seq seg) (seg_flags seg) (seg_payload seg)"

lemma piece_flags [simp]:
  "piece b S fin s FLAG_ACK []" "piece b S fin s FLAG_RST []" "piece b S fin s (FLAG_RST OR FLAG_ACK) []"
  by (simp_all add: piece_def flag_defs)

text \<open>A sender never takes back what it has transmitted, and transmits nothing after its FIN.\<close>

definition extends :: "bytes \<Rightarrow> bool \<Rightarrow> bytes \<Rightarrow> bool \<Rightarrow> bool" where
  "extends S fin S' fin' \<longleftrightarrow> prefix S S' \<and> (fin \<longrightarrow> S' = S \<and> fin')"

lemma extends_refl [simp]: "extends S fin S fin"
  by (simp add: extends_def)

lemma extends_trans: "extends S fin S' fin' \<Longrightarrow> extends S' fin' S'' fin'' \<Longrightarrow> extends S fin S'' fin''"
  by (auto simp: extends_def)

lemma piece_extends: "piece b S fin s f d \<Longrightarrow> extends S fin S' fin' \<Longrightarrow> piece b S' fin' s f d"
  by (auto simp: piece_def extends_def prefix_def intro: is_slice_append)


section \<open>The sending side\<close>

text \<open>After the FIN, which takes one more sequence number, the queue holds only what is not acknowledged.\<close>

definition send_side :: "int \<Rightarrow> bytes \<Rightarrow> bytes \<Rightarrow> bool \<Rightarrow> send_queue \<Rightarrow> bool" where
  "send_side b W S fin q \<longleftrightarrow>
     (if fin then \<exists>u \<le> Suc (length W). sq_una q = wrap (b + int u) \<and> sq_nxt q = wrap (b + len W + 1) \<and> sq_buf q = drop u W
      else \<exists>u. send_stream b W u (length S) q)"

definition said :: "int \<Rightarrow> bytes \<Rightarrow> bool \<Rightarrow> conn \<Rightarrow> bool" where
  "said b S fin c \<longleftrightarrow> (\<forall>e \<in> set (segs c). piece_entry b S fin e)
     \<and> (\<forall>seg dst. Transmit seg dst \<in> set (c_out c) \<longrightarrow> piece_segment b S fin seg)"

definition speaks :: "int \<Rightarrow> bytes \<Rightarrow> bytes \<Rightarrow> bool \<Rightarrow> conn \<Rightarrow> bool" where
  "speaks b W S fin c \<longleftrightarrow> prefix S W \<and> len W < SEQ_HALF - 1 \<and> (fin \<longrightarrow> S = W \<and> \<not> conn_can_send c)
     \<and> (c_state c \<noteq> CLOSED \<longrightarrow> send_side b W S fin (c_send c)) \<and> said b S fin c"

lemma said_extends: "said b S fin c \<Longrightarrow> extends S fin S' fin' \<Longrightarrow> said b S' fin' c"
  unfolding said_def piece_entry_def piece_segment_def using piece_extends by blast

lemma said_transmit:
  assumes "said b S fin c" and "piece b S fin sq f p"
  shows "said b S fin (conn_transmit sq f p now a opts t c)"
proof -
  have "set (segs (conn_transmit sq f p now a opts t c)) \<subseteq> set (segs c) \<union> {new_entry sq f p now}"
    by (auto simp: transmit_defs RetransmitQueue_add_def new_entry_def)
  moreover have "piece_entry b S fin (new_entry sq f p now)" using assms(2) by (simp add: piece_entry_def)
  ultimately show ?thesis using assms by (auto simp: said_def piece_segment_def)
qed

lemma said_resend:
  assumes "said b S fin c" and "RetransmitQueue_oldest (c_retx c) = Some e"
  shows "said b S fin (conn_resend e now c)"
proof -
  obtain e' es where es: "segs c = e # es"
    "rx_segments (RetransmitQueue_mark_retransmitted (c_retx c) now) = e' # es" "same_extent e e'"
    using oldest_mark [OF assms(2), of now] by auto
  let ?c = "c\<lparr>c_retransmissions := c_retransmissions c + 1, c_retx := RetransmitQueue_mark_retransmitted (c_retx c) now\<rparr>"
  have e: "piece_entry b S fin e" using assms(1) es(1) by (simp add: said_def)
  then have "piece_entry b S fin e'" using es(3) by (simp add: piece_entry_def same_extent_def)
  then have "said b S fin ?c" using assms(1) es by (simp add: said_def)
  then show ?thesis using e unfolding conn_resend_def piece_entry_def by (rule said_transmit)
qed

lemma send_side_peek:
  assumes "send_side b W S fin q" and "prefix S W" and "len W < SEQ_HALF - 1"
  shows "SendQueue_peek q (sq_nxt q) j = (if fin then [] else take (nat j) (drop (length S) W))"
proof (cases fin)
  case True
  then obtain u where u: "u \<le> Suc (length W)" "sq_una q = wrap (b + int u)" "sq_nxt q = wrap (b + len W + 1)" "sq_buf q = drop u W"
    using assms(1) by (auto simp: send_side_def)
  have "seq_diff (sq_nxt q) (sq_una q) = len W + 1 - int u"
    unfolding u(2,3) using u(1) assms(3) by (subst seq_diff_wrap) (auto simp: SEQ_HALF_def)
  then show ?thesis using True u(1) by (auto simp: SendQueue_peek_def Let_def u(4) nat_add_distrib nat_diff_distrib)
next
  case False
  then obtain u where u: "send_stream b W u (length S) q" using assms(1) by (auto simp: send_side_def)
  then have n: "sq_nxt q = wrap (b + int (length S))" "u \<le> length S" "length S \<le> length W" by (simp_all add: send_stream_def)
  show ?thesis unfolding n(1) using False send_stream_peek [OF u n(2,3)] by simp
qed

lemma send_side_nxt:
  "send_side b W S fin q \<Longrightarrow> sq_nxt q = wrap (b + int (if fin then Suc (length W) else length S))"
  by (auto simp: send_side_def send_stream_def ac_simps split: if_splits)

lemma send_side_ack:
  assumes "send_side b W S fin q" and "prefix S W" and "len W < SEQ_HALF - 1" and "fin \<longrightarrow> S = W"
    and "j \<le> length S + (if fin then 1 else 0)"
  shows "send_side b W S fin (fst (SendQueue_acknowledge q (wrap (b + int j))))"
proof (cases fin)
  case True
  then obtain u where u: "u \<le> Suc (length W)" "sq_una q = wrap (b + int u)" "sq_nxt q = wrap (b + len W + 1)" "sq_buf q = drop u W"
    using assms(1) by (auto simp: send_side_def)
  have j: "j \<le> Suc (length W)" using True assms(4,5) by simp
  have close: "\<bar>b + int j - (b + int u)\<bar> < SEQ_HALF" "\<bar>b + len W + 1 - (b + int j)\<bar> < SEQ_HALF" using u(1) j assms(3) by auto
  have gt: "seq_gt (wrap (b + int j)) (sq_una q) \<longleftrightarrow> u < j" using seq_gt_wrap [OF close(1)] by (simp add: u(2))
  show ?thesis
  proof (cases "u < j")
    case ahead: True
    have "seq_diff (wrap (b + int j)) (sq_una q) = int j - int u"
      unfolding u(2) using u(1) j assms(3) by (subst seq_diff_wrap) (auto simp: SEQ_HALF_def)
    then have d: "drop (nat (seq_diff (wrap (b + int j)) (sq_una q))) (sq_buf q) = drop j W"
      using ahead by (simp add: u(4) nat_diff_distrib)
    have "\<not> seq_lt (sq_nxt q) (wrap (b + int j))" unfolding u(3) using seq_lt_wrap [OF close(2)] j by simp
    then show ?thesis using True ahead gt d j u(3) by (auto simp: send_side_def SendQueue_acknowledge_new)
  next
    case False
    then show ?thesis using assms(1) gt by (simp add: SendQueue_acknowledge_old)
  qed
next
  case False
  then obtain u where u: "send_stream b W u (length S) q" using assms(1) by (auto simp: send_side_def)
  show ?thesis
  proof (cases "u \<le> j")
    case True
    then show ?thesis using False assms(5) send_stream_acknowledge(2) [OF u True] by (auto simp: send_side_def)
  next
    case old: False
    have "length S \<le> length W" "u \<le> length S" using u by (simp_all add: send_stream_def)
    then have "int u - int j < SEQ_HALF" using assms(3) by simp
    then show ?thesis using old assms(1) send_stream_acknowledge_stale [OF u, of j] by simp
  qed
qed

text \<open>What an operation that only transmits again does to the sending side.\<close>

lemma speaks_same:
  assumes "speaks b W S fin c" and "c_state c' = c_state c" and "c_send c' = c_send c" and "said b S fin c'"
  shows "speaks b W S fin c'"
  using assms by (simp add: speaks_def conn_can_send_def)

lemma speaks_data:
  assumes "speaks b W S fin c" and "c_state c \<noteq> CLOSED" and "d = SendQueue_peek (c_send c) (sq_nxt (c_send c)) j" and "d \<noteq> []"
  shows "speaks b W (S @ d) fin (conn_set_snd_nxt (seq_add (sq_nxt (c_send c)) (len d))
           (conn_transmit (sq_nxt (c_send c)) (FLAG_ACK OR FLAG_PSH) d now None None t c))"
    and "extends S fin (S @ d) fin"
proof -
  have s: "prefix S W" "len W < SEQ_HALF - 1" "send_side b W S fin (c_send c)" "said b S fin c"
    using assms(1,2) by (simp_all add: speaks_def)
  have d: "\<not> fin" "d = take (nat j) (drop (length S) W)"
    using send_side_peek [OF s(3,1,2)] assms(3,4) by (simp_all split: if_splits)
  show ext: "extends S fin (S @ d) fin" using d(1) by (simp add: extends_def)
  obtain R where R: "W = S @ R" using s(1) by (auto simp: prefix_def)
  have W: "prefix (S @ d) W" using d(2) R by (simp add: take_is_prefix)
  obtain u where u: "send_stream b W u (length S) (c_send c)" using s(3) d(1) by (auto simp: send_side_def)
  have "length S + length d \<le> length W" using prefix_length_le [OF W] by simp
  then have q: "send_side b W (S @ d) False ((c_send c)\<lparr>sq_nxt := seq_add (sq_nxt (c_send c)) (len d)\<rparr>)"
    using send_stream_advance [OF u] by (auto simp: send_side_def)
  have "is_slice (S @ d) (length S) d" by (simp add: is_slice_def)
  then have "piece b (S @ d) fin (sq_nxt (c_send c)) (FLAG_ACK OR FLAG_PSH) d"
    using send_side_nxt [OF s(3)] d(1) by (auto simp: piece_def flag_defs)
  then have "said b (S @ d) fin (conn_transmit (sq_nxt (c_send c)) (FLAG_ACK OR FLAG_PSH) d now None None t c)"
    using said_transmit [OF said_extends [OF s(4) ext]] by blast
  then have "said b (S @ d) fin (conn_set_snd_nxt (seq_add (sq_nxt (c_send c)) (len d))
      (conn_transmit (sq_nxt (c_send c)) (FLAG_ACK OR FLAG_PSH) d now None None t c))" by (simp add: said_def)
  then show "speaks b W (S @ d) fin (conn_set_snd_nxt (seq_add (sq_nxt (c_send c)) (len d))
      (conn_transmit (sq_nxt (c_send c)) (FLAG_ACK OR FLAG_PSH) d now None None t c))"
    using q W s(2) d(1) by (simp add: speaks_def)
qed

lemma speaks_flush_loop:
  assumes "speaks b W S fin c" and "c_state c \<noteq> CLOSED"
  shows "\<exists>S'. extends S fin S' fin \<and> speaks b W S' fin (conn_flush_loop fuel now c)"
  using assms
proof (induction fuel arbitrary: c S)
  case (Suc fuel)
  let ?w = "RenoCongestion_effective_window (c_reno c) (c_peer_window c)"
  define a where "a = min (?w - SendQueue_in_flight (c_send c)) (c_peer_mss c)"
  define d where "d = SendQueue_peek (c_send c) (sq_nxt (c_send c)) a"
  define c2 where "c2 = conn_set_snd_nxt (seq_add (sq_nxt (c_send c)) (len d))
      (conn_transmit (sq_nxt (c_send c)) (FLAG_ACK OR FLAG_PSH) d now None None True c)"
  have loop: "conn_flush_loop (Suc fuel) now c = (if ?w \<le> SendQueue_in_flight (c_send c) \<or> d = [] then c
      else if len d < a then c2 else conn_flush_loop fuel now c2)"
    by (simp add: conn_flush_loop.simps(2) Let_def d_def c2_def a_def)
  show ?case
  proof (cases "?w \<le> SendQueue_in_flight (c_send c) \<or> d = []")
    case True
    then show ?thesis using Suc.prems(1) loop by (intro exI [of _ S]) simp
  next
    case False
    then have d: "d \<noteq> []" by simp
    have 2: "speaks b W (S @ d) fin c2" "extends S fin (S @ d) fin"
      using speaks_data [OF Suc.prems d_def d] by (simp_all add: c2_def)
    have "c_state c2 \<noteq> CLOSED" using Suc.prems(2) by (simp add: c2_def)
    from Suc.IH [OF 2(1) this] obtain S' where S': "extends (S @ d) fin S' fin" "speaks b W S' fin (conn_flush_loop fuel now c2)" by blast
    show ?thesis
    proof (cases "len d < a")
      case True
      then show ?thesis using False 2 loop by (intro exI [of _ "S @ d"]) simp
    next
      case more: False
      then show ?thesis using False S' extends_trans [OF 2(2) S'(1)] loop by (intro exI [of _ S']) simp
    qed
  qed
next
  case 0
  then show ?case by (intro exI [of _ S]) (simp add: conn_flush_loop.simps(1))
qed

lemma speaks_flush:
  assumes "speaks b W S fin c"
  shows "\<exists>S'. extends S fin S' fin \<and> speaks b W S' fin (conn_flush now c)"
proof -
  let ?c = "c\<lparr>c_persist_at := None, c_persist_delay := DEFAULT_PERSIST_DELAY\<rparr>"
  have c: "speaks b W S fin ?c" "speaks b W S fin (conn_arm_persist_timer now c)"
    using assms by (simp_all add: speaks_def said_def conn_can_send_def conn_arm_persist_timer_def)
  show ?thesis
  proof (cases "is_synchronised (c_state c) \<and> 0 < c_peer_window c")
    case True
    then have "c_state ?c \<noteq> CLOSED" by (auto simp: is_synchronised_def)
    from speaks_flush_loop [OF c(1) this] show ?thesis using True by (simp add: conn_flush_def)
  next
    case False
    then show ?thesis using assms c(2) by (auto simp: conn_flush_def intro: exI [of _ S])
  qed
qed

lemma speaks_resend:
  assumes "speaks b W S fin c" and "RetransmitQueue_oldest (c_retx c) = Some e"
  shows "speaks b W S fin (conn_resend e now c)"
  using assms by (intro speaks_same [OF assms(1)] said_resend) (simp_all add: speaks_def)

lemma speaks_retransmit_oldest: "speaks b W S fin c \<Longrightarrow> speaks b W S fin (conn_retransmit_oldest now fast c)"
proof (cases "RetransmitQueue_oldest (c_retx c)")
  case (Some e)
  assume "speaks b W S fin c"
  from speaks_resend [OF this Some, of now] show ?thesis
    using Some by (auto simp: conn_retransmit_oldest_def speaks_def said_def conn_can_send_def Let_def)
qed (simp add: conn_retransmit_oldest_def)


lemma speaks_fields [simp]: "speaks b W S fin (c\<lparr>c_recv := q\<rparr>) = speaks b W S fin c"
  "speaks b W S fin (c\<lparr>c_bytes_received := n\<rparr>) = speaks b W S fin c"
  "speaks b W S fin (c\<lparr>c_delayed_ack_at := t\<rparr>) = speaks b W S fin c"
  "speaks b W S fin (c\<lparr>c_persist_at := t\<rparr>) = speaks b W S fin c"
  "speaks b W S fin (c\<lparr>c_persist_delay := d\<rparr>) = speaks b W S fin c"
  "speaks b W S fin (c\<lparr>c_retransmit_at := t\<rparr>) = speaks b W S fin c"
  "speaks b W S fin (c\<lparr>c_segments_received := n\<rparr>) = speaks b W S fin c"
  "speaks b W S fin (c\<lparr>c_last_activity := now\<rparr>) = speaks b W S fin c"
  "speaks b W S fin (c\<lparr>c_reset_received := r\<rparr>) = speaks b W S fin c"
  "speaks b W S fin (c\<lparr>c_reno := e\<rparr>) = speaks b W S fin c"
  "speaks b W S fin (c\<lparr>c_peer_window := w\<rparr>) = speaks b W S fin c"
  "speaks b W S fin (c\<lparr>c_rto := f\<rparr>) = speaks b W S fin c"
  by (simp_all add: speaks_def said_def conn_can_send_def)

lemma speaks_dup_ack: "speaks b W S fin c \<Longrightarrow> speaks b W S fin (dup_ack_part seg now c)"
  by (simp add: dup_ack_part_def conn_update_peer_window_def Let_def speaks_retransmit_oldest split: prod.splits)

lemma new_ack_out [simp]: "c_out (new_ack_part seg now c) = c_out c"
  by (simp add: new_ack_part_def conn_update_peer_window_def conn_arm_retransmit_timer_def Let_def split: prod.splits)

lemma speaks_new_ack:
  assumes "speaks b W S fin c" and "seg_ack seg = wrap (b + int j)" and "j \<le> length S + (if fin then 1 else 0)"
  shows "speaks b W S fin (new_ack_part seg now c)"
proof -
  have "send_side b W S fin (fst (SendQueue_acknowledge (c_send c) (seg_ack seg)))" if "c_state c \<noteq> CLOSED"
    unfolding assms(2) using assms(1,3) that by (intro send_side_ack) (simp_all add: speaks_def)
  then show ?thesis using assms(1) by (auto simp: speaks_def said_def conn_can_send_def)
qed

lemma speaks_process_ack:
  assumes "speaks b W S fin c" and "seg_ack seg = wrap (b + int j)" and "j \<le> length S + (if fin then 1 else 0)"
  shows "\<exists>S'. extends S fin S' fin \<and> speaks b W S' fin (conn_process_ack seg now c)"
  using speaks_flush [of b W S fin "ack_part seg now c"] speaks_new_ack [OF assms] speaks_dup_ack [OF assms(1)]
  by (simp add: process_ack_eq ack_part_def)

lemma speaks_state:
  "speaks b W S fin c \<Longrightarrow> c_state c \<noteq> CLOSED \<or> s = CLOSED \<Longrightarrow> fin \<longrightarrow> s \<noteq> ESTABLISHED \<and> s \<noteq> CLOSE_WAIT
     \<Longrightarrow> speaks b W S fin (c\<lparr>c_state := s\<rparr>)"
  by (auto simp: speaks_def said_def conn_can_send_def)

lemma speaks_teardown: "speaks b W S fin c \<Longrightarrow> speaks b W S fin (conn_teardown c)"
  by (simp add: speaks_def said_def conn_can_send_def conn_teardown_def RetransmitQueue_clear_def)

lemma speaks_time_wait: "speaks b W S fin c \<Longrightarrow> c_state c \<noteq> CLOSED \<Longrightarrow> speaks b W S fin (conn_enter_time_wait now c)"
  by (simp add: speaks_def said_def conn_can_send_def conn_enter_time_wait_def RetransmitQueue_clear_def)

lemma speaks_notify [simp]:
  "speaks b W S fin (conn_notify_closed c) = speaks b W S fin c" "speaks b W S fin (conn_notify_data c) = speaks b W S fin c"
  "speaks b W S fin (conn_emit NotifyReset c) = speaks b W S fin c"
  by (simp_all add: conn_notify_closed_def conn_notify_data_def conn_emit_def speaks_def said_def conn_can_send_def)

lemma speaks_transmit:
  "speaks b W S fin c \<Longrightarrow> piece b S fin sq f p \<Longrightarrow> speaks b W S fin (conn_transmit sq f p now a opts t c)"
  by (rule speaks_same [of b W S fin c]) (auto simp: speaks_def said_transmit)

lemma speaks_send_ack: "speaks b W S fin c \<Longrightarrow> speaks b W S fin (conn_send_ack now c)"
proof -
  assume "speaks b W S fin c"
  then have "speaks b W S fin (c\<lparr>c_delayed_ack_at := None\<rparr>)" by (simp add: speaks_def said_def conn_can_send_def)
  then show ?thesis by (simp add: conn_send_ack_def Let_def speaks_transmit)
qed

lemma speaks_reject: "speaks b W S fin c \<Longrightarrow> speaks b W S fin (conn_reject seg now c)"
  by (simp add: conn_reject_def speaks_transmit)

lemma speaks_maybe_advance:
  "speaks b W S fin c \<Longrightarrow> c_state c \<noteq> CLOSED \<Longrightarrow> speaks b W S fin (conn_maybe_advance_after_ack seg now c)"
  by (cases "c_fin_seq c") (simp_all add: conn_maybe_advance_after_ack_def speaks_state speaks_teardown speaks_time_wait)

lemma speaks_handle_data: "speaks b W S fin c \<Longrightarrow> speaks b W S fin (conn_handle_data seg now c)"
proof -
  assume c: "speaks b W S fin c"
  obtain q newly where q: "ReceiveQueue_insert (c_recv c) (seg_seq seg) (seg_payload seg) = (q, newly)"
    by (cases "ReceiveQueue_insert (c_recv c) (seg_seq seg) (seg_payload seg)")
  have ack: "speaks b W S fin (if P then if Q then if R then x\<lparr>c_delayed_ack_at := t\<rparr> else x else conn_send_ack now x else x)"
    if "speaks b W S fin x" for P Q R t x using that by (simp add: speaks_send_ack)
  show ?thesis unfolding conn_handle_data_def q Let_def prod.case by (rule ack) (use c in simp)
qed

lemma speaks_handle_fin: "speaks b W S fin c \<Longrightarrow> speaks b W S fin (conn_handle_fin seg now c)"
proof -
  let ?c = "conn_send_ack now (c\<lparr>c_recv := (c_recv c)\<lparr>rq_nxt := seq_add (rq_nxt (c_recv c)) 1\<rparr>\<rparr>)"
  assume c: "speaks b W S fin c"
  then have 2: "speaks b W S fin ?c" "speaks b W S fin (conn_send_ack now c)" by (simp_all add: speaks_send_ack)
  show ?thesis
  proof (cases "c_state c = ESTABLISHED")
    case True
    then have "\<not> fin" using c by (auto simp: speaks_def conn_can_send_def)
    then have "speaks b W S fin (?c\<lparr>c_state := CLOSE_WAIT\<rparr>)" using 2(1) True by (simp add: speaks_state)
    then show ?thesis using 2 True by (simp add: conn_handle_fin_def Let_def)
  next
    case False
    then show ?thesis using 2 unfolding conn_handle_fin_def Let_def by (simp add: speaks_state speaks_time_wait)
  qed
qed

lemma speaks_handle_rst: "speaks b W S fin c \<Longrightarrow> speaks b W S fin (conn_handle_rst seg now c)"
  by (simp add: conn_handle_rst_def Let_def speaks_teardown)

lemma speaks_write:
  assumes "speaks b W S fin c" and "conn_send d now c = Inr (c', k)" and "len (W @ take (nat k) d) < SEQ_HALF - 1"
  shows "\<exists>S'. extends S fin S' fin \<and> speaks b (W @ take (nat k) d) S' fin c'"
proof -
  have can: "conn_can_send c" using assms(2) by (auto simp: conn_send_def split: if_splits)
  then have st: "c_state c \<noteq> CLOSED" "\<not> fin" using assms(1) by (auto simp: speaks_def conn_can_send_def)
  then obtain u where u: "send_stream b W u (length S) (c_send c)" using assms(1) by (auto simp: speaks_def send_side_def)
  obtain m where m: "snd (SendQueue_write (c_send c) d) = int m"
    "send_stream b (W @ take m d) u (length S) (fst (SendQueue_write (c_send c) d))"
    using send_stream_write [OF u, of d] by blast
  show ?thesis
  proof (cases "d = []")
    case True
    then show ?thesis using assms can by (auto simp: conn_send_def intro: exI [of _ S])
  next
    case False
    let ?c = "c\<lparr>c_send := fst (SendQueue_write (c_send c) d)\<rparr>"
    have k: "k = int m" "c' = (if m \<noteq> 0 then conn_flush now ?c else ?c)"
      using assms(2) False can m(1) by (auto simp: conn_send_def Let_def split: prod.splits if_splits)
    have "speaks b (W @ take m d) S fin ?c"
      using assms(1,3) m(2) st(2) by (auto simp: speaks_def said_def conn_can_send_def send_side_def k(1))
    then show ?thesis using speaks_flush [of b "W @ take m d" S fin ?c now] by (auto simp: k intro: exI [of _ S])
  qed
qed

text \<open>A close sends the FIN behind everything that was written, provided nothing is left unsent.\<close>

lemma speaks_send_fin:
  assumes "speaks b W S False c" and "c_state c \<noteq> CLOSED" and "SendQueue_unsent (c_send c) = 0" and "s \<noteq> ESTABLISHED" and "s \<noteq> CLOSE_WAIT"
  shows "speaks b W W True ((conn_send_fin now c)\<lparr>c_state := s\<rparr>)" and "extends S False W True"
proof -
  have s: "prefix S W" "len W < SEQ_HALF - 1" "send_side b W S False (c_send c)" "said b S False c"
    using assms(1,2) by (simp_all add: speaks_def)
  obtain u where u: "send_stream b W u (length S) (c_send c)" using s(3) by (auto simp: send_side_def)
  then have q: "u \<le> length S" "length S \<le> length W" "sq_una (c_send c) = wrap (b + int u)"
    "sq_nxt (c_send c) = wrap (b + len S)" "sq_buf (c_send c) = drop u W" by (simp_all add: send_stream_def)
  have "seq_diff (sq_nxt (c_send c)) (sq_una (c_send c)) = len S - int u"
    unfolding q(3,4) using q(1,2) s(2) by (subst seq_diff_wrap) (auto simp: SEQ_HALF_def)
  then have "length W \<le> length S" using assms(3) q(1,2) by (auto simp: SendQueue_unsent_def SendQueue_in_flight_def q(5))
  then have W: "W = S" using s(1) by (auto simp: prefix_def)
  then show ext: "extends S False W True" by (simp add: extends_def)
  let ?c1 = "conn_transmit (sq_nxt (c_send c)) (FLAG_ACK OR FLAG_FIN) [] now None None True (c\<lparr>c_fin_seq := Some (sq_nxt (c_send c))\<rparr>)"
  have "said b W True (c\<lparr>c_fin_seq := Some (sq_nxt (c_send c))\<rparr>)" using said_extends [OF s(4) ext] by (simp add: said_def)
  moreover have "piece b W True (sq_nxt (c_send c)) (FLAG_ACK OR FLAG_FIN) []" using q(4) W by (simp add: piece_def seq_add_wrap)
  ultimately have said: "said b W True ?c1" by (rule said_transmit)
  have "send_side b W W True ((c_send c)\<lparr>sq_nxt := seq_add (sq_nxt (c_send c)) 1\<rparr>)"
    using q W by (auto simp: send_side_def seq_add_wrap intro!: exI [of _ u])
  with said s(2) assms(4,5) show "speaks b W W True ((conn_send_fin now c)\<lparr>c_state := s\<rparr>)"
    by (simp add: speaks_def said_def conn_can_send_def conn_send_fin_def Let_def)
qed

lemma speaks_retransmit_timeout: "speaks b W S fin c \<Longrightarrow> speaks b W S fin (conn_on_retransmit_timeout now c)"
proof (cases "RetransmitQueue_oldest (c_retx c)")
  case None
  assume "speaks b W S fin c"
  then show ?thesis using None by (simp add: conn_on_retransmit_timeout_def)
next
  case (Some e)
  assume c: "speaks b W S fin c"
  then have "speaks b W S fin (conn_resend e now (c\<lparr>c_reno := r, c_rto := o'\<rparr>))" for r o'
    using Some by (intro speaks_resend) simp_all
  then show ?thesis using c Some by (simp add: conn_on_retransmit_timeout_def Let_def speaks_teardown)
qed

lemma speaks_persist_timeout:
  assumes "speaks b W S fin c"
  shows "\<exists>S'. extends S fin S' fin \<and> speaks b W S' fin (conn_on_persist_timeout now c)"
proof -
  let ?c = "c\<lparr>c_persist_at := None, c_persist_delay := DEFAULT_PERSIST_DELAY\<rparr>"
  consider "0 < c_peer_window c" | "c_peer_window c \<le> 0" "\<not> is_synchronised (c_state c)" | "c_peer_window c \<le> 0" "is_synchronised (c_state c)"
    by linarith
  then show ?thesis
  proof cases
    case 1
    then show ?thesis using speaks_flush [of b W S fin ?c now] assms by (simp add: conn_on_persist_timeout_def)
  next
    case 2
    then show ?thesis using assms by (intro exI [of _ S]) (simp add: conn_on_persist_timeout_def)
  next
    case 3
    then have st: "c_state c \<noteq> CLOSED" by (auto simp: is_synchronised_def)
    let ?d = "SendQueue_peek (c_send c) (sq_nxt (c_send c)) 1"
    note run = conn_on_persist_timeout_def Let_def
    show ?thesis
    proof (cases "RetransmitQueue_oldest (c_retx c)")
      case (Some e)
      then show ?thesis using 3 speaks_resend [OF assms Some] by (intro exI [of _ S]) (simp add: run)
    next
      case None
      show ?thesis
      proof (cases "?d = []")
        case True
        then show ?thesis using 3 None assms by (intro exI [of _ S]) (simp add: run)
      next
        case False
        from speaks_data [OF assms st refl False] show ?thesis using 3 None False by (intro exI [of _ "S @ ?d"]) (simp add: run)
      qed
    qed
  qed
qed

lemma speaks_tick:
  assumes "speaks b W S fin c"
  shows "\<exists>S'. extends S fin S' fin \<and> speaks b W S' fin (conn_on_tick now c)"
proof -
  have 1: "speaks b W S fin (tick_ack now c)" using assms by (simp add: tick_ack_def speaks_send_ack)
  then have 2: "speaks b W S fin (tick_retransmit now (tick_ack now c))" by (simp add: tick_retransmit_def speaks_retransmit_timeout)
  have "\<exists>S'. extends S fin S' fin \<and> speaks b W S' fin (tick_timers now c)"
  proof (cases "timer_due now (c_persist_at (tick_retransmit now (tick_ack now c)))")
    case True
    then show ?thesis using speaks_persist_timeout [OF 2, of now] by (simp add: tick_timers_def tick_persist_def)
  next
    case False
    then show ?thesis using 2 by (intro exI [of _ S]) (simp add: tick_timers_def tick_persist_def)
  qed
  then obtain S' where "extends S fin S' fin" "speaks b W S' fin (tick_timers now c)" by blast
  then show ?thesis by (intro exI [of _ S']) (simp add: on_tick_eq Let_def speaks_teardown)
qed

lemma speaks_abort: "speaks b W S fin c \<Longrightarrow> speaks b W S fin (conn_abort now c)"
  by (simp add: conn_abort_def Let_def speaks_teardown speaks_transmit)

end
