(* ===== verification/Listening.thy ===== *)
theory Listening
  imports Speaking
begin

text \<open>
  The receiving half of a synchronised connection, seen as a byte stream: what has arrived of the stream the peer has
  transmitted, and what the application has read of it. Every operation of \<open>Connection\<close> that is possible once the
  handshake is over keeps the view, as long as what it is given was cut from that stream, and every acknowledgement
  it transmits is of something that has arrived.
\<close>

section \<open>The receiving side\<close>

text \<open>After the FIN the queue expects the number behind it, and holds what it held.\<close>

definition recv_side :: "int \<Rightarrow> bytes \<Rightarrow> bytes \<Rightarrow> nat \<Rightarrow> bool \<Rightarrow> receive_queue \<Rightarrow> bool" where
  "recv_side b T R k eof q \<longleftrightarrow>
     (if eof then \<exists>q'. recv_stream b T (length R) k q' \<and> q = q'\<lparr>rq_nxt := wrap (b + len T + 1)\<rparr>
      else recv_stream b T (length R) k q)"

definition reach :: "nat \<Rightarrow> bool \<Rightarrow> nat" where
  "reach k eof = k + (if eof then 1 else 0)"

definition acked :: "int \<Rightarrow> nat \<Rightarrow> tcp_segment \<Rightarrow> bool" where
  "acked b n seg \<longleftrightarrow> (is_ack seg \<and> \<not> is_rst seg \<longrightarrow> (\<exists>j \<le> n. seg_ack seg = wrap (b + int j)))"

definition hears :: "int \<Rightarrow> bytes \<Rightarrow> bool \<Rightarrow> bytes \<Rightarrow> nat \<Rightarrow> bool \<Rightarrow> conn \<Rightarrow> bool" where
  "hears b T tfin R k eof c \<longleftrightarrow> prefix R T \<and> len T < SEQ_HALF - 1 \<and> k \<le> length T \<and> (eof \<longrightarrow> tfin \<and> k = length T)
     \<and> (conn_peer_closed c \<longrightarrow> eof) \<and> rq_nxt (c_recv c) = wrap (b + int (reach k eof))
     \<and> (if c_state c = CLOSED then recv_inv (c_recv c) \<and> unread (c_recv c) = [] else recv_side b T R k eof (c_recv c))
     \<and> (\<forall>seg dst. Transmit seg dst \<in> set (c_out c) \<longrightarrow> acked b (reach k eof) seg)"

lemma acked_mono: "acked b n seg \<Longrightarrow> n \<le> m \<Longrightarrow> acked b m seg"
  unfolding acked_def by (meson le_trans)

text \<open>What the peer transmits later changes nothing.\<close>

lemma hears_extends:
  assumes "hears b T tfin R k eof c" and "extends T tfin T' tfin'" and "len T' < SEQ_HALF - 1"
  shows "hears b T' tfin' R k eof c"
proof (cases eof)
  case True
  then have "T' = T" "tfin'" using assms(1,2) by (auto simp: hears_def extends_def)
  then show ?thesis using assms(1) by (simp add: hears_def)
next
  case False
  have "prefix T T'" using assms(2) by (simp add: extends_def)
  then obtain X where X: "T' = T @ X" by (auto simp: prefix_def)
  then have "prefix R T'" "k \<le> length T'" "\<not> conn_peer_closed c"
      "c_state c \<noteq> CLOSED \<longrightarrow> recv_side b T' R k eof (c_recv c)"
    using False assms(1) by (auto simp: hears_def recv_side_def recv_stream_append)
  then show ?thesis using False assms(1,3) by (simp add: hears_def)
qed

text \<open>A step that transmits, and otherwise leaves the receiving side alone, acknowledges what has arrived.\<close>

definition replies :: "conn \<Rightarrow> conn \<Rightarrow> bool" where
  "replies c c' \<longleftrightarrow> c_recv c' = c_recv c \<and> c_state c' = c_state c
     \<and> (\<exists>evs. c_out c' = c_out c @ evs
          \<and> (\<forall>seg dst. Transmit seg dst \<in> set evs \<longrightarrow> is_rst seg \<or> seg_ack seg = rq_nxt (c_recv c)))"

lemma repliesI:
  assumes "c_recv c' = c_recv c" and "c_state c' = c_state c" and "c_out c' = c_out c @ evs"
    and "\<And>seg dst. Transmit seg dst \<in> set evs \<Longrightarrow> is_rst seg \<or> seg_ack seg = rq_nxt (c_recv c)"
  shows "replies c c'"
  using assms by (auto simp: replies_def)

lemma replies_refl [simp]: "replies c c"
  by (rule repliesI [of _ _ "[]"]) simp_all

lemma replies_trans [trans]:
  assumes "replies c c'" and "replies c' c''" shows "replies c c''"
proof -
  obtain evs evs' where "c_out c' = c_out c @ evs" "c_out c'' = c_out c' @ evs'"
    and "\<forall>seg dst. Transmit seg dst \<in> set evs \<longrightarrow> is_rst seg \<or> seg_ack seg = rq_nxt (c_recv c)"
    and "\<forall>seg dst. Transmit seg dst \<in> set evs' \<longrightarrow> is_rst seg \<or> seg_ack seg = rq_nxt (c_recv c)"
    using assms by (auto simp: replies_def)
  then show ?thesis using assms by (intro repliesI [of _ _ "evs @ evs'"]) (auto simp: replies_def)
qed

lemma replies_transmit:
  "a = None \<or> a = Some (rq_nxt (c_recv c)) \<or> f AND FLAG_RST \<noteq> 0 \<Longrightarrow> replies c (conn_transmit sq f p now a opts t c)"
  by (rule repliesI) (auto simp: is_rst_def conn_segment_def)

lemma replies_quiet:
  "c_recv c' = c_recv c \<Longrightarrow> c_state c' = c_state c \<Longrightarrow> c_out c' = c_out c \<Longrightarrow> replies c c'"
  by (rule repliesI [of _ _ "[]"]) simp_all

lemma replies_send_ack: "replies c (conn_send_ack now c)"
proof -
  let ?c = "c\<lparr>c_delayed_ack_at := None\<rparr>"
  have 1: "replies c ?c" by (rule replies_quiet) simp_all
  have "replies ?c (conn_transmit (sq_nxt (c_send c)) FLAG_ACK [] now (Some (rq_nxt (c_recv c))) None True ?c)"
    by (rule replies_transmit) simp
  from replies_trans [OF 1 this] 1 show ?thesis by (simp add: conn_send_ack_def Let_def)
qed

lemma replies_reject: "replies c (conn_reject seg now c)"
proof -
  have "replies c (conn_transmit (seg_ack seg) FLAG_RST [] now None None True c)"
    "replies c (conn_transmit 0 (FLAG_RST OR FLAG_ACK) [] now (Some a) None True c)" for a
    by (rule replies_transmit; simp add: flag_defs)+
  then show ?thesis by (simp add: conn_reject_def)
qed

lemma replies_resend: "replies c (conn_resend e now c)"
  by (rule repliesI) (auto simp: resend_out conn_segment_def)

lemma replies_retransmit_oldest: "replies c (conn_retransmit_oldest now fast c)"
proof (cases "RetransmitQueue_oldest (c_retx c)")
  case (Some e)
  have "replies (conn_resend e now c) ((conn_resend e now c)\<lparr>c_retransmit_at := t\<rparr>)" for t by (rule replies_quiet) simp_all
  from replies_trans [OF replies_resend this] show ?thesis
    using Some replies_resend by (simp add: conn_retransmit_oldest_def Let_def)
qed (simp add: conn_retransmit_oldest_def)

lemma replies_data:
  "replies c (conn_set_snd_nxt s (conn_transmit sq f d now None None t c))"
proof -
  have 1: "replies c (conn_transmit sq f d now None None t c)" by (rule replies_transmit) simp
  also have "replies (conn_transmit sq f d now None None t c) (conn_set_snd_nxt s (conn_transmit sq f d now None None t c))"
    by (rule replies_quiet) simp_all
  finally show ?thesis .
qed

lemma replies_flush_loop: "replies c (conn_flush_loop fuel now c)"
proof (induction fuel arbitrary: c)
  case (Suc fuel)
  have 2: "replies c (conn_flush_loop fuel now (conn_set_snd_nxt s (conn_transmit sq f d now None None t c)))" for s sq f d t
    by (rule replies_trans [OF replies_data Suc.IH])
  show ?case by (simp add: conn_flush_loop.simps(2) Let_def replies_data 2)
qed (simp add: conn_flush_loop.simps(1))

lemma replies_flush: "replies c (conn_flush now c)"
proof -
  let ?c = "c\<lparr>c_persist_at := None, c_persist_delay := DEFAULT_PERSIST_DELAY\<rparr>"
  have "replies c ?c" "replies c (conn_arm_persist_timer now c)" by (rule replies_quiet; simp add: conn_arm_persist_timer_def)+
  then show ?thesis using replies_trans [OF _ replies_flush_loop, of c ?c] by (simp add: conn_flush_def Let_def)
qed

lemma replies_process_ack: "replies c (conn_process_ack seg now c)"
proof -
  have new: "replies c (new_ack_part seg now c)" by (rule replies_quiet) simp_all
  have "replies c (c\<lparr>c_peer_window := w\<rparr>)" "replies c (c\<lparr>c_peer_window := w, c_reno := r\<rparr>)" for w r by (rule replies_quiet; simp)+
  then have "replies c (dup_ack_part seg now c)"
    using replies_trans [OF _ replies_retransmit_oldest]
    by (simp add: dup_ack_part_def conn_update_peer_window_def Let_def split: prod.splits)
  with new show ?thesis using replies_trans [OF _ replies_flush] by (simp add: process_ack_eq ack_part_def)
qed

lemma replies_persist_timeout: "replies c (conn_on_persist_timeout now c)"
proof -
  let ?c = "c\<lparr>c_persist_at := None, c_persist_delay := DEFAULT_PERSIST_DELAY\<rparr>"
  have q: "replies c ?c" "replies c (c\<lparr>c_persist_at := None\<rparr>)" "replies x (x\<lparr>c_persist_delay := d, c_persist_at := t\<rparr>)" for x d t
    by (rule replies_quiet; simp)+
  have "replies c (x\<lparr>c_persist_delay := d, c_persist_at := t\<rparr>)" if "replies c x" for x d t by (rule replies_trans [OF that q(3)])
  then show ?thesis
    using replies_trans [OF q(1) replies_flush] q(2) unfolding conn_on_persist_timeout_def Let_def
    by (cases "RetransmitQueue_oldest (c_retx c)") (simp_all add: replies_resend replies_data)
qed

text \<open>The part of the retransmission timeout that does not give up.\<close>

lemma replies_retransmit_timeout:
  "replies c (conn_on_retransmit_timeout now c) \<or> conn_on_retransmit_timeout now c = conn_notify_closed (conn_teardown c)"
proof (cases "RetransmitQueue_oldest (c_retx c)")
  case None
  have "replies c (c\<lparr>c_retransmit_at := None\<rparr>)" by (rule replies_quiet) simp_all
  then show ?thesis using None by (simp add: conn_on_retransmit_timeout_def)
next
  case (Some e)
  let ?c1 = "c\<lparr>c_reno := RenoCongestion_on_timeout (c_reno c), c_rto := RTOEstimator_backoff (c_rto c)\<rparr>"
  have q: "replies c ?c1" "replies x (x\<lparr>c_retransmit_at := t\<rparr>)" for x t by (rule replies_quiet; simp)+
  have "replies c ((conn_resend e now ?c1)\<lparr>c_retransmit_at := t\<rparr>)" for t
    by (rule replies_trans [OF replies_trans [OF q(1) replies_resend] q(2)])
  then show ?thesis using Some by (simp add: conn_on_retransmit_timeout_def Let_def)
qed


section \<open>What the steps do to the receiving side\<close>

lemma hears_replies:
  assumes "hears b T tfin R k eof c" and "replies c c'"
  shows "hears b T tfin R k eof c'"
proof -
  have same: "c_recv c' = c_recv c" "c_state c' = c_state c" using assms(2) by (simp_all add: replies_def)
  obtain evs where evs: "c_out c' = c_out c @ evs"
    and new: "\<forall>seg dst. Transmit seg dst \<in> set evs \<longrightarrow> is_rst seg \<or> seg_ack seg = rq_nxt (c_recv c)"
    using assms(2) by (auto simp: replies_def)
  have old: "\<forall>seg dst. Transmit seg dst \<in> set (c_out c) \<longrightarrow> acked b (reach k eof) seg"
    and nxt: "rq_nxt (c_recv c) = wrap (b + int (reach k eof))" using assms(1) by (simp_all add: hears_def)
  have "acked b (reach k eof) seg" if "Transmit seg dst \<in> set evs" for seg dst
    using new that nxt by (auto simp: acked_def)
  with old evs have "\<forall>seg dst. Transmit seg dst \<in> set (c_out c') \<longrightarrow> acked b (reach k eof) seg" by auto
  then show ?thesis using assms(1) same by (simp add: hears_def conn_peer_closed_def)
qed

lemma hears_quiet:
  "hears b T tfin R k eof c \<Longrightarrow> c_recv c' = c_recv c \<Longrightarrow> c_state c' = c_state c \<Longrightarrow> c_out c' = c_out c \<Longrightarrow> hears b T tfin R k eof c'"
  by (erule hears_replies) (rule replies_quiet)

lemma hears_state:
  "hears b T tfin R k eof c \<Longrightarrow> c_state c \<noteq> CLOSED \<Longrightarrow> s \<noteq> CLOSED
     \<Longrightarrow> s \<in> {CLOSE_WAIT, CLOSING, LAST_ACK, TIME_WAIT} \<longrightarrow> eof \<Longrightarrow> hears b T tfin R k eof (c\<lparr>c_state := s\<rparr>)"
  by (auto simp: hears_def conn_peer_closed_def)

lemma hears_time_wait:
  "hears b T tfin R k eof c \<Longrightarrow> c_state c \<noteq> CLOSED \<Longrightarrow> eof \<Longrightarrow> hears b T tfin R k eof (conn_enter_time_wait now c)"
  by (auto simp: hears_def conn_peer_closed_def conn_enter_time_wait_def)

lemma recv_side_inv: "recv_side b T R k eof q \<Longrightarrow> recv_inv q"
  by (auto simp: recv_side_def recv_stream_def recv_inv_nxt split: if_splits)

lemma hears_recv_inv: "hears b T tfin R k eof c \<Longrightarrow> recv_inv (c_recv c)"
  by (auto simp: hears_def recv_side_inv split: if_splits)

lemma hears_teardown:
  assumes "hears b T tfin R k eof c" shows "hears b T tfin R k eof (conn_teardown c)"
proof -
  have "recv_inv (ReceiveQueue_clear (c_recv c))" by (rule recv_inv_clear [OF hears_recv_inv [OF assms]])
  moreover have "unread (ReceiveQueue_clear q) = []" "rq_nxt (ReceiveQueue_clear q) = rq_nxt q" for q
    by (simp_all add: ReceiveQueue_clear_def unread_def)
  ultimately show ?thesis using assms by (simp add: hears_def conn_peer_closed_def conn_teardown_def)
qed

lemma hears_emit [simp]:
  "hears b T tfin R k eof (conn_notify_closed c) = hears b T tfin R k eof c"
  "hears b T tfin R k eof (conn_notify_data c) = hears b T tfin R k eof c"
  "hears b T tfin R k eof (conn_emit NotifyReset c) = hears b T tfin R k eof c"
  by (simp_all add: conn_notify_closed_def conn_notify_data_def conn_emit_def hears_def conn_peer_closed_def)

lemma insert_late:
  assumes "rq_nxt q = wrap (b + len T + 1)" and "len T < SEQ_HALF - 1" and "is_slice T p d" and "d \<noteq> []"
  shows "ReceiveQueue_insert q (wrap (b + int p)) d = (q\<lparr>rq_duplicates := rq_duplicates q + 1\<rparr>, 0)"
proof -
  have p: "p + length d \<le> length T" by (rule is_slice_length [OF assms(3,4)])
  have "wrap (b + int p) \<noteq> rq_nxt q" unfolding assms(1) using wrap_eq_iff [of "b + int p" "b + len T + 1"] p assms(2)
    by (auto simp: SEQ_HALF_def)
  moreover have "\<not> seq_gt (wrap (b + int p)) (rq_nxt q)" unfolding assms(1)
    using seq_gt_wrap [of "b + int p" "b + len T + 1"] p assms(2) by auto
  moreover have "seq_diff (rq_nxt q) (wrap (b + int p)) = len T + 1 - int p" unfolding assms(1)
    using p assms(2) by (subst seq_diff_wrap) (auto simp: SEQ_HALF_def)
  ultimately show ?thesis using p assms(4) by (simp add: ReceiveQueue_insert.simps [of q] Let_def)
qed

lemma recv_side_insert:
  assumes "recv_side b T R k eof q" and "rq_nxt q = wrap (b + int (reach k eof))" and "len T < SEQ_HALF - 1" and "eof \<longrightarrow> k = length T"
    and "d = [] \<or> (\<exists>p. s = wrap (b + int p) \<and> is_slice T p d)"
  shows "\<exists>k' \<ge> k. k' \<le> length T \<and> (eof \<longrightarrow> k' = k) \<and> recv_side b T R k' eof (fst (ReceiveQueue_insert q s d))
           \<and> rq_nxt (fst (ReceiveQueue_insert q s d)) = wrap (b + int (reach k' eof))"
proof (cases "d = []")
  case True
  have "k \<le> length T" using assms(1,4) by (auto simp: recv_side_def recv_stream_def split: if_splits)
  then show ?thesis using True assms(1,2) by (intro exI [of _ k]) (simp add: ReceiveQueue_insert.simps [of q])
next
  case False
  then obtain p where p: "s = wrap (b + int p)" "is_slice T p d" using assms(5) by auto
  show ?thesis
  proof (cases eof)
    case True
    have nxt: "rq_nxt q = wrap (b + len T + 1)" using assms(2,4) True by (simp add: reach_def ac_simps)
    obtain q' where q': "recv_stream b T (length R) k q'" "q = q'\<lparr>rq_nxt := wrap (b + len T + 1)\<rparr>"
      using assms(1) True by (auto simp: recv_side_def)
    have "recv_stream b T (length R) k (q'\<lparr>rq_duplicates := rq_duplicates q' + 1\<rparr>)" by (rule recv_stream_duplicates [OF q'(1)])
    then have "recv_side b T R k eof (q\<lparr>rq_duplicates := rq_duplicates q + 1\<rparr>)"
      using True by (auto simp: recv_side_def q'(2) intro!: exI [of _ "q'\<lparr>rq_duplicates := rq_duplicates q' + 1\<rparr>"])
    moreover have "k \<le> length T" using True assms(4) by simp
    ultimately show ?thesis using assms(2) insert_late [OF nxt assms(3) p(2) False] p(1) by (intro exI [of _ k]) simp
  next
    case on: False
    then have rep: "recv_stream b T (length R) k q" using assms(1) by (simp add: recv_side_def)
    then have "k \<le> length T" by (simp add: recv_stream_def)
    moreover have "p \<le> length T" using is_slice_length [OF p(2) False] by simp
    ultimately have "\<bar>int p - int k\<bar> < SEQ_HALF" using assms(3) by linarith
    moreover have "length T < nat SEQ_SPACE" using assms(3) by (simp add: SEQ_HALF_def)
    ultimately obtain i where i: "recv_stream b T (length R) (k + i) (fst (ReceiveQueue_insert q s d))"
      using recv_stream_insert [OF rep _ p(2)] p(1) by blast
    then have "k + i \<le> length T" "rq_nxt (fst (ReceiveQueue_insert q s d)) = wrap (b + int (k + i))" by (simp_all add: recv_stream_def)
    then show ?thesis using i on by (intro exI [of _ "k + i"]) (simp add: recv_side_def reach_def)
  qed
qed

lemma hears_fields [simp]:
  "hears b T tfin R k eof (c\<lparr>c_bytes_received := n\<rparr>) = hears b T tfin R k eof c"
  "hears b T tfin R k eof (c\<lparr>c_delayed_ack_at := t\<rparr>) = hears b T tfin R k eof c"
  "hears b T tfin R k eof (c\<lparr>c_segments_received := n\<rparr>) = hears b T tfin R k eof c"
  "hears b T tfin R k eof (c\<lparr>c_last_activity := now\<rparr>) = hears b T tfin R k eof c"
  "hears b T tfin R k eof (c\<lparr>c_reset_received := r\<rparr>) = hears b T tfin R k eof c"
  "hears b T tfin R k eof (c\<lparr>c_fin_seq := f\<rparr>) = hears b T tfin R k eof c"
  "hears b T tfin R k eof (c\<lparr>c_send := q\<rparr>) = hears b T tfin R k eof c"
  by (simp_all add: hears_def conn_peer_closed_def)

lemma hears_received:
  assumes "hears b T tfin R k eof c" and "c_state c \<noteq> CLOSED" and "recv_side b T R k' eof q"
    and "rq_nxt q = wrap (b + int (reach k' eof))" and "k \<le> k'" and "k' \<le> length T" and "eof \<longrightarrow> k' = k"
  shows "hears b T tfin R k' eof (c\<lparr>c_recv := q\<rparr>)"
proof -
  have "reach k eof \<le> reach k' eof" using assms(5) by (simp add: reach_def)
  then have "\<forall>seg dst. Transmit seg dst \<in> set (c_out c) \<longrightarrow> acked b (reach k' eof) seg"
    using assms(1) acked_mono unfolding hears_def by blast
  then show ?thesis using assms by (simp add: hears_def conn_peer_closed_def)
qed

lemma hears_send_ack: "hears b T tfin R k eof c \<Longrightarrow> hears b T tfin R k eof (conn_send_ack now c)"
  by (rule hears_replies [OF _ replies_send_ack])

lemma hears_handle_data:
  assumes "hears b T tfin R k eof c" and "c_state c = CLOSED \<longrightarrow> eof" and "piece_segment b T tfin seg"
  shows "\<exists>k' \<ge> k. hears b T tfin R k' eof (conn_handle_data seg now c)"
proof -
  obtain q newly where q: "ReceiveQueue_insert (c_recv c) (seg_seq seg) (seg_payload seg) = (q, newly)"
    by (cases "ReceiveQueue_insert (c_recv c) (seg_seq seg) (seg_payload seg)")
  have h: "rq_nxt (c_recv c) = wrap (b + int (reach k eof))" "len T < SEQ_HALF - 1" "k \<le> length T" "eof \<longrightarrow> k = length T"
    using assms(1) by (auto simp: hears_def)
  have d: "seg_payload seg = [] \<or> (\<exists>p. seg_seq seg = wrap (b + int p) \<and> is_slice T p (seg_payload seg))"
    using assms(3) by (auto simp: piece_segment_def piece_def)
  have "\<exists>k' \<ge> k. hears b T tfin R k' eof (c\<lparr>c_recv := q\<rparr>)"
  proof (cases "c_state c = CLOSED")
    case True
    then have eof: eof using assms(2) by simp
    have nxt: "rq_nxt (c_recv c) = wrap (b + len T + 1)" using h(1,4) eof by (simp add: reach_def ac_simps)
    have "q = c_recv c \<or> q = (c_recv c)\<lparr>rq_duplicates := rq_duplicates (c_recv c) + 1\<rparr>"
      using d q insert_late [OF nxt h(2)] by (cases "seg_payload seg = []") (auto simp: ReceiveQueue_insert.simps [of _ _ "[]"])
    then have "hears b T tfin R k eof (c\<lparr>c_recv := q\<rparr>)"
      using True assms(1) by (auto simp: hears_def conn_peer_closed_def recv_inv_duplicates unread_def)
    then show ?thesis by blast
  next
    case False
    then have side: "recv_side b T R k eof (c_recv c)" using assms(1) by (simp add: hears_def)
    from recv_side_insert [OF side h(1,2,4) d] q obtain k' where k': "k \<le> k'" "k' \<le> length T" "eof \<longrightarrow> k' = k" "recv_side b T R k' eof q"
      "rq_nxt q = wrap (b + int (reach k' eof))" by auto
    show ?thesis using k'(1) hears_received [OF assms(1) False k'(4,5,1,2,3)] by blast
  qed
  then obtain k' where k': "k \<le> k'" "hears b T tfin R k' eof (c\<lparr>c_recv := q\<rparr>)" by blast
  have ack: "hears b T tfin R k' eof (if P then if Q then if D then x\<lparr>c_delayed_ack_at := t\<rparr> else x else conn_send_ack now x else x)"
    if "hears b T tfin R k' eof x" for P Q D t x using that by (simp add: hears_send_ack)
  have "hears b T tfin R k' eof (conn_handle_data seg now c)"
    unfolding conn_handle_data_def q Let_def prod.case by (rule ack) (use k'(2) in simp)
  with k'(1) show ?thesis by blast
qed

lemma hears_handle_fin:
  assumes "hears b T tfin R k eof c" and "c_state c = CLOSED \<longrightarrow> eof" and "piece_segment b T tfin seg" and "is_fin seg"
  shows "\<exists>eof'. (eof \<longrightarrow> eof') \<and> hears b T tfin R k eof' (conn_handle_fin seg now c)"
proof -
  have h: "rq_nxt (c_recv c) = wrap (b + int (reach k eof))" "len T < SEQ_HALF - 1" "k \<le> length T" "eof \<longrightarrow> k = length T"
    using assms(1) by (auto simp: hears_def)
  have f: "tfin" "seq_add (seg_seq seg) (len (seg_payload seg)) = wrap (b + len T)"
    using assms(3,4) by (simp_all add: piece_segment_def piece_def is_fin_def)
  have ack: "hears b T tfin R k eof (conn_send_ack now c)" using assms(1) by (rule hears_send_ack)
  have close: "\<bar>b + len T - (b + int (reach k eof))\<bar> < SEQ_HALF" using h(2-4) by (auto simp: reach_def)
  have ord: "seq_gt (wrap (b + len T)) (rq_nxt (c_recv c)) \<longleftrightarrow> int (reach k eof) < len T"
    "seq_lt (wrap (b + len T)) (rq_nxt (c_recv c)) \<longleftrightarrow> len T < int (reach k eof)"
    unfolding h(1) using seq_gt_wrap [OF close] seq_lt_wrap [OF close] by simp_all
  show ?thesis
  proof (cases "reach k eof = length T")
    case False
    then have "conn_handle_fin seg now c = conn_send_ack now c" using ord f(2) by (simp add: conn_handle_fin_def Let_def)
    with ack show ?thesis by (intro exI [of _ eof]) simp
  next
    case True
    then have no: "\<not> eof" "k = length T" using h(4) by (auto simp: reach_def split: if_splits)
    then have open_state: "c_state c \<noteq> CLOSED" using assms(2) by simp
    let ?q = "(c_recv c)\<lparr>rq_nxt := seq_add (rq_nxt (c_recv c)) 1\<rparr>"
    have "recv_stream b T (length R) k (c_recv c)" using assms(1) open_state no(1) by (simp add: hears_def recv_side_def)
    then have "recv_side b T R k True ?q" using no h(1)
      by (auto simp: recv_side_def reach_def seq_add_wrap intro!: exI [of _ "c_recv c"])
    moreover have "rq_nxt ?q = wrap (b + int (reach k True))" using no h(1) by (simp add: reach_def seq_add_wrap ac_simps)
    moreover have "\<forall>seg dst. Transmit seg dst \<in> set (c_out c) \<longrightarrow> acked b (reach k True) seg"
      using assms(1) no(1) acked_mono [of b "reach k False" _ "reach k True"] by (auto simp: hears_def reach_def)
    ultimately have 1: "hears b T tfin R k True (c\<lparr>c_recv := ?q\<rparr>)"
      using assms(1) open_state no f(1) by (simp add: hears_def)
    let ?c2 = "conn_send_ack now (c\<lparr>c_recv := ?q\<rparr>)"
    have 2: "hears b T tfin R k True ?c2" "c_state ?c2 = c_state c" using hears_send_ack [OF 1] by simp_all
    have "hears b T tfin R k True (conn_handle_fin seg now c)"
      using ord f(2) True 2 open_state unfolding conn_handle_fin_def Let_def by (simp add: hears_state hears_time_wait)
    then show ?thesis by blast
  qed
qed

lemma hears_maybe_advance:
  assumes "hears b T tfin R k eof c" and "c_state c \<noteq> CLOSED"
  shows "hears b T tfin R k eof (conn_maybe_advance_after_ack seg now c)"
    and "c_state (conn_maybe_advance_after_ack seg now c) = CLOSED \<Longrightarrow> eof"
proof -
  have eof: "c_state c = CLOSING \<or> c_state c = LAST_ACK \<Longrightarrow> eof" using assms(1) by (auto simp: hears_def conn_peer_closed_def)
  show "hears b T tfin R k eof (conn_maybe_advance_after_ack seg now c)"
  proof (cases eof)
    case True
    then show ?thesis
      using assms by (cases "c_fin_seq c") (simp_all add: conn_maybe_advance_after_ack_def hears_state hears_teardown hears_time_wait)
  next
    case False
    then have "c_state c \<noteq> CLOSING" "c_state c \<noteq> LAST_ACK" using eof by auto
    then show ?thesis using assms by (cases "c_fin_seq c") (simp_all add: conn_maybe_advance_after_ack_def hears_state)
  qed
  show "c_state (conn_maybe_advance_after_ack seg now c) = CLOSED \<Longrightarrow> eof"
    using assms(2) eof by (cases "c_fin_seq c") (simp_all add: conn_maybe_advance_after_ack_def split: if_splits)
qed

lemma hears_tick: "hears b T tfin R k eof c \<Longrightarrow> hears b T tfin R k eof (conn_on_tick now c)"
proof -
  assume "hears b T tfin R k eof c"
  then have 1: "hears b T tfin R k eof (tick_ack now c)" by (simp add: tick_ack_def hears_send_ack)
  have "hears b T tfin R k eof (conn_on_retransmit_timeout now (tick_ack now c))"
    using replies_retransmit_timeout [of "tick_ack now c" now] hears_replies [OF 1] hears_teardown [OF 1] by auto
  then have 2: "hears b T tfin R k eof (tick_retransmit now (tick_ack now c))" using 1 by (simp add: tick_retransmit_def)
  then have "hears b T tfin R k eof (tick_timers now c)"
    using hears_replies [OF 2 replies_persist_timeout] by (simp add: tick_timers_def tick_persist_def)
  then show ?thesis by (simp add: on_tick_eq Let_def hears_teardown)
qed

lemma hears_abort: "hears b T tfin R k eof c \<Longrightarrow> hears b T tfin R k eof (conn_abort now c)"
proof -
  assume c: "hears b T tfin R k eof c"
  have "hears b T tfin R k eof (conn_transmit (sq_nxt (c_send c)) (FLAG_RST OR FLAG_ACK) [] now (Some (rq_nxt (c_recv c))) None True c)"
    by (rule hears_replies [OF c]) (rule replies_transmit, simp)
  with c show ?thesis by (simp add: conn_abort_def Let_def hears_teardown)
qed

lemma hears_handle_rst: "hears b T tfin R k eof c \<Longrightarrow> hears b T tfin R k eof (conn_handle_rst seg now c)"
  by (simp add: conn_handle_rst_def Let_def hears_teardown)

lemma hears_send_fin: "hears b T tfin R k eof c \<Longrightarrow> hears b T tfin R k eof (conn_send_fin now c)"
proof -
  assume "hears b T tfin R k eof c"
  then have "hears b T tfin R k eof (c\<lparr>c_fin_seq := Some (sq_nxt (c_send c))\<rparr>)" by simp
  from hears_replies [OF this replies_data] show ?thesis by (simp add: conn_send_fin_def Let_def)
qed

text \<open>Reading returns the next bytes that have arrived.\<close>

lemma hears_read:
  assumes "hears b T tfin R k eof c" and "conn_recv n now c = (c', d)" and "0 \<le> n"
  shows "hears b T tfin (R @ d) k eof c'"
proof -
  have inv: "recv_inv (c_recv c)" by (rule hears_recv_inv [OF assms(1)])
  show ?thesis
  proof (cases "ReceiveQueue_available (c_recv c) = 0")
    case True
    then show ?thesis using assms(1,2) by (simp add: conn_recv_def)
  next
    case False
    then have "unread (c_recv c) \<noteq> []" using unread_length [OF inv] by auto
    then have st: "c_state c \<noteq> CLOSED" using assms(1) by (auto simp: hears_def)
    then have side: "recv_side b T R k eof (c_recv c)" using assms(1) by (simp add: hears_def)
    obtain q where q: "ReceiveQueue_read (c_recv c) n = (q, d)"
      and c': "c' = c\<lparr>c_recv := q\<rparr> \<or> c' = conn_send_ack now (c\<lparr>c_recv := q\<rparr>)"
      using assms(2) False by (auto simp: conn_recv_def Let_def split: prod.splits if_splits)
    have read: "d = take (nat n) (drop (length R) (take k T))" "recv_stream b T (length (R @ d)) k q'"
      if "recv_stream b T (length R) k r" "ReceiveQueue_read r n = (q', d)" for r q'
      using recv_stream_read [OF that(1) assms(3)] that(2) by simp_all
    have "d = take (nat n) (drop (length R) (take k T)) \<and> recv_side b T (R @ d) k eof q"
    proof (cases eof)
      case True
      then obtain r where r: "recv_stream b T (length R) k r" "c_recv c = r\<lparr>rq_nxt := wrap (b + len T + 1)\<rparr>"
        using side by (auto simp: recv_side_def)
      have "ReceiveQueue_read (r\<lparr>rq_nxt := x\<rparr>) n = (fst (ReceiveQueue_read r n)\<lparr>rq_nxt := x\<rparr>, snd (ReceiveQueue_read r n))" for x
        by (simp add: ReceiveQueue_read_def Let_def)
      then have "ReceiveQueue_read r n = (fst (ReceiveQueue_read r n), d)" "q = fst (ReceiveQueue_read r n)\<lparr>rq_nxt := wrap (b + len T + 1)\<rparr>"
        using q r(2) by (auto simp: prod_eq_iff)
      then show ?thesis using read [OF r(1)] True unfolding recv_side_def by (simp del: length_append) blast
    next
      case False
      then show ?thesis using read [OF _ q] side unfolding recv_side_def by (simp del: length_append)
    qed
    then have d: "d = take (nat n) (drop (length R) (take k T))" and side': "recv_side b T (R @ d) k eof q" by blast+
    have R: "prefix R T" and k: "k \<le> length T" using assms(1) by (simp_all add: hears_def)
    obtain X where X: "T = R @ X" using R by (auto simp: prefix_def)
    have "d = take (min (nat n) (k - length R)) X" unfolding d by (simp only: drop_take X append_eq_conv_conj take_take) simp
    then have "prefix d X" by (simp only: take_is_prefix)
    then have "prefix (R @ d) T" by (simp add: X)
    moreover have "rq_nxt q = rq_nxt (c_recv c)" using unread_read(3) [OF inv assms(3)] q by simp
    ultimately have "hears b T tfin (R @ d) k eof (c\<lparr>c_recv := q\<rparr>)"
      using assms(1) st side' by (simp add: hears_def conn_peer_closed_def)
    with c' hears_send_ack show ?thesis by auto
  qed
qed

end
