(* ===== verification/Dialogue.thy ===== *)
theory Dialogue
  imports Listening Handshake
begin

text \<open>
  Two connections and a network between them that may lose, duplicate, delay and reorder what they transmit, while
  their applications write, read, close and abort and their timers run, in any order: what either application reads
  is what the other one wrote.
\<close>

section \<open>Conversations\<close>

text \<open>A connection with everything its application has written to it, as far as it was accepted, and read from it.\<close>

record endpoint =
  ep_conn :: conn
  ep_wrote :: bytes
  ep_read :: bytes

definition transmitted :: "conn \<Rightarrow> tcp_segment set" where
  "transmitted c = {seg. \<exists>dst. Transmit seg dst \<in> set (c_out c)}"

text \<open>What one side can do, when \<open>net\<close> holds what the other side has transmitted so far. A close is made only when
  nothing is left unsent: otherwise the FIN would overtake the data (\<open>fin_overtakes_unsent_data\<close>).\<close>

inductive ep_step :: "tcp_segment set \<Rightarrow> endpoint \<Rightarrow> endpoint \<Rightarrow> bool" for net where
  ep_write: "conn_send data now c = Inr (c', n) \<Longrightarrow>
     ep_step net \<lparr>ep_conn = c, ep_wrote = w, ep_read = r\<rparr> \<lparr>ep_conn = c', ep_wrote = w @ take (nat n) data, ep_read = r\<rparr>"
| ep_read: "0 \<le> n \<Longrightarrow> conn_recv n now c = (c', data) \<Longrightarrow>
     ep_step net \<lparr>ep_conn = c, ep_wrote = w, ep_read = r\<rparr> \<lparr>ep_conn = c', ep_wrote = w, ep_read = r @ data\<rparr>"
| ep_close: "SendQueue_unsent (c_send c) = 0 \<Longrightarrow>
     ep_step net \<lparr>ep_conn = c, ep_wrote = w, ep_read = r\<rparr> \<lparr>ep_conn = conn_close now c, ep_wrote = w, ep_read = r\<rparr>"
| ep_abort:
    "ep_step net \<lparr>ep_conn = c, ep_wrote = w, ep_read = r\<rparr> \<lparr>ep_conn = conn_abort now c, ep_wrote = w, ep_read = r\<rparr>"
| ep_tick:
    "ep_step net \<lparr>ep_conn = c, ep_wrote = w, ep_read = r\<rparr> \<lparr>ep_conn = conn_on_tick now c, ep_wrote = w, ep_read = r\<rparr>"
| ep_hear: "seg \<in> net \<Longrightarrow> conn_on_segment seg src rnd now c = Inr (c', child) \<Longrightarrow>
     ep_step net \<lparr>ep_conn = c, ep_wrote = w, ep_read = r\<rparr> \<lparr>ep_conn = c', ep_wrote = w, ep_read = r\<rparr>"

inductive dialogue :: "endpoint \<times> endpoint \<Rightarrow> endpoint \<times> endpoint \<Rightarrow> bool" for s where
  begins: "dialogue s s"
| left: "dialogue s (a, b) \<Longrightarrow> ep_step (transmitted (ep_conn b)) a a' \<Longrightarrow> dialogue s (a', b)"
| right: "dialogue s (a, b) \<Longrightarrow> ep_step (transmitted (ep_conn a)) b b' \<Longrightarrow> dialogue s (a, b')"


section \<open>The invariant of one side\<close>

definition ep_inv :: "int \<Rightarrow> int \<Rightarrow> bytes \<Rightarrow> bool \<Rightarrow> bytes \<Rightarrow> bool \<Rightarrow> nat \<Rightarrow> bool \<Rightarrow> endpoint \<Rightarrow> bool" where
  "ep_inv ba bb S fin T tfin k eof e \<longleftrightarrow> speaks ba (ep_wrote e) S fin (ep_conn e) \<and> hears bb T tfin (ep_read e) k eof (ep_conn e)
     \<and> (is_synchronised (c_state (ep_conn e)) \<or> c_state (ep_conn e) = CLOSED)"

text \<open>What a side may be given: pieces of the other side's stream, and acknowledgements of its own.\<close>

definition sound_for :: "int \<Rightarrow> int \<Rightarrow> bytes \<Rightarrow> bool \<Rightarrow> bytes \<Rightarrow> bool \<Rightarrow> tcp_segment \<Rightarrow> bool" where
  "sound_for ba bb S fin T tfin seg \<longleftrightarrow> piece_segment bb T tfin seg \<and> acked ba (reach (length S) fin) seg"

lemma synchronised_segment:
  assumes "speaks ba W S fin c" and "hears bb T tfin R k eof c" and "is_synchronised (c_state c)"
    and "sound_for ba bb S fin T tfin seg" and "\<not> is_rst seg"
  shows "\<exists>S' k' eof'. extends S fin S' fin \<and> speaks ba W S' fin (conn_on_synchronised_segment seg now c)
     \<and> hears bb T tfin R k' eof' (conn_on_synchronised_segment seg now c)"
proof (cases "conn_acceptable seg c")
  case False
  then show ?thesis
    using assms(1,2,5) by (intro exI [of _ S] exI [of _ k] exI [of _ eof])
      (simp add: conn_on_synchronised_segment_def speaks_send_ack hears_send_ack)
next
  case True
  define c1 where "c1 = (if is_ack seg then conn_process_ack seg now c else c)"
  define c2 where "c2 = conn_maybe_advance_after_ack seg now c1"
  define c3 where "c3 = (if seg_payload seg \<noteq> [] then conn_handle_data seg now c2 else c2)"
  have run: "conn_on_synchronised_segment seg now c = (if is_fin seg then conn_handle_fin seg now c3 else c3)"
    using True unfolding conn_on_synchronised_segment_def Let_def c3_def c2_def c1_def by simp
  have seg: "piece_segment bb T tfin seg" using assms(4) by (simp add: sound_for_def)
  have "\<exists>S'. extends S fin S' fin \<and> speaks ba W S' fin c1"
  proof (cases "is_ack seg")
    case True
    then obtain j where "j \<le> length S + (if fin then 1 else 0)" "seg_ack seg = wrap (ba + int j)"
      using assms(4,5) by (auto simp: sound_for_def acked_def reach_def)
    then show ?thesis using speaks_process_ack [OF assms(1), of seg j now] True by (simp add: c1_def)
  next
    case False
    then show ?thesis using assms(1) by (intro exI [of _ S]) (simp add: c1_def)
  qed
  then obtain S' where S': "extends S fin S' fin" "speaks ba W S' fin c1" by blast
  have st: "c_state c1 \<noteq> CLOSED" using assms(3) by (auto simp: c1_def is_synchronised_def)
  have 1: "hears bb T tfin R k eof c1" using assms(2) hears_replies [OF assms(2) replies_process_ack] by (simp add: c1_def)
  have 2: "speaks ba W S' fin c2" "hears bb T tfin R k eof c2" "c_state c2 = CLOSED \<longrightarrow> eof"
    using speaks_maybe_advance [OF S'(2) st] hears_maybe_advance [OF 1 st] by (auto simp: c2_def)
  have 3: "speaks ba W S' fin c3" "c_state c3 = c_state c2" using speaks_handle_data [OF 2(1)] 2(1) by (simp_all add: c3_def)
  have "\<exists>k'. hears bb T tfin R k' eof c3"
    using 2(2) hears_handle_data [OF 2(2,3) seg] by (auto simp: c3_def)
  then obtain k' where k': "hears bb T tfin R k' eof c3" by blast
  show ?thesis
  proof (cases "is_fin seg")
    case True
    obtain eof' where "hears bb T tfin R k' eof' (conn_handle_fin seg now c3)"
      using hears_handle_fin [OF k' _ seg True] 2(3) 3(2) by auto
    then show ?thesis using S'(1) speaks_handle_fin [OF 3(1)] True run
      by (intro exI [of _ S'] exI [of _ k'] exI [of _ eof']) simp
  next
    case False
    then show ?thesis using S'(1) 3(1) k' run by (intro exI [of _ S'] exI [of _ k'] exI [of _ eof]) simp
  qed
qed

lemma synchronised_states: "is_synchronised s \<Longrightarrow> s \<noteq> CLOSED \<and> s \<noteq> LISTEN \<and> s \<noteq> SYN_SENT \<and> s \<noteq> SYN_RECEIVED"
  by (auto simp: is_synchronised_def)

lemma segment_views:
  assumes "speaks ba W S fin c" and "hears bb T tfin R k eof c" and "is_synchronised (c_state c) \<or> c_state c = CLOSED"
    and "sound_for ba bb S fin T tfin seg" and "conn_on_segment seg src rnd now c = Inr (c', child)"
  shows "\<exists>S' k' eof'. extends S fin S' fin \<and> speaks ba W S' fin c' \<and> hears bb T tfin R k' eof' c'"
proof -
  let ?c = "c\<lparr>c_segments_received := c_segments_received c + 1, c_last_activity := now\<rparr>"
  have c: "speaks ba W S fin ?c" "hears bb T tfin R k eof ?c" using assms(1,2) by simp_all
  show ?thesis
  proof (cases "c_state c = CLOSED \<or> is_rst seg \<or> is_syn seg")
    case True
    then have "c' = conn_reject seg now ?c \<or> c' = conn_handle_rst seg now ?c"
      using assms(3,5) synchronised_states [of "c_state c"] by (auto simp: conn_on_segment_def Let_def split: if_splits)
    then show ?thesis
      using c speaks_reject [OF c(1)] speaks_handle_rst [OF c(1)] hears_replies [OF c(2) replies_reject] hears_handle_rst [OF c(2)]
      by (intro exI [of _ S] exI [of _ k] exI [of _ eof]) auto
  next
    case False
    then have sync: "is_synchronised (c_state ?c)" using assms(3) by simp
    have "c' = conn_on_synchronised_segment seg now ?c"
      using assms(5) False sync synchronised_states [of "c_state c"] by (simp add: conn_on_segment_def Let_def)
    then show ?thesis using synchronised_segment [OF c sync assms(4)] False by blast
  qed
qed

lemma ep_inv_eq:
  "ep_inv ba bb S fin T tfin k eof \<lparr>ep_conn = c, ep_wrote = w, ep_read = r\<rparr> \<longleftrightarrow>
     speaks ba w S fin c \<and> hears bb T tfin r k eof c \<and> (is_synchronised (c_state c) \<or> c_state c = CLOSED)"
  by (simp add: ep_inv_def)

lemma close_views:
  assumes "speaks ba W S fin c" and "hears bb T tfin R k eof c" and "SendQueue_unsent (c_send c) = 0"
    and "is_synchronised (c_state c) \<or> c_state c = CLOSED"
  shows "\<exists>S' fin'. extends S fin S' fin' \<and> speaks ba W S' fin' (conn_close now c) \<and> hears bb T tfin R k eof (conn_close now c)
     \<and> (is_synchronised (c_state (conn_close now c)) \<or> c_state (conn_close now c) = CLOSED)"
proof (cases "conn_can_send c")
  case True
  then have st: "c_state c \<noteq> CLOSED" and fin: "\<not> fin" using assms(1) by (auto simp: speaks_def conn_can_send_def)
  have eof: "c_state c = CLOSE_WAIT \<Longrightarrow> eof" using assms(2) by (auto simp: hears_def conn_peer_closed_def)
  let ?s = "if c_state c = ESTABLISHED then FIN_WAIT_1 else LAST_ACK"
  have run: "conn_close now c = (conn_send_fin now c)\<lparr>c_state := ?s\<rparr>"
    using True by (auto simp: conn_close_def conn_can_send_def)
  have "speaks ba W W True ((conn_send_fin now c)\<lparr>c_state := ?s\<rparr>)" "extends S fin W True"
    using speaks_send_fin(1) [of ba W S c ?s now] speaks_send_fin(2) [of ba W S c ?s] assms(1,3) st fin by simp_all
  moreover have "hears bb T tfin R k eof ((conn_send_fin now c)\<lparr>c_state := ?s\<rparr>)"
  proof (rule hears_state [OF hears_send_fin [OF assms(2)]])
    show "c_state (conn_send_fin now c) \<noteq> CLOSED" using st by (simp add: conn_send_fin_def Let_def)
  qed (use True eof in \<open>auto simp: conn_can_send_def\<close>)
  ultimately show ?thesis unfolding run by (intro exI [of _ W] exI [of _ True]) auto
next
  case False
  have "conn_close now c = c \<or> conn_close now c = conn_notify_closed (c\<lparr>c_state := CLOSED\<rparr>) \<and> c_state c = CLOSED"
    using False assms(4) synchronised_states [of "c_state c"] by (cases "c_state c") (auto simp: conn_close_def conn_can_send_def)
  moreover have "c_state c = CLOSED \<Longrightarrow> conn_notify_closed (c\<lparr>c_state := CLOSED\<rparr>) = conn_notify_closed c"
    by (rule arg_cong [where f = conn_notify_closed]) simp
  ultimately have "conn_close now c = c \<or> conn_close now c = conn_notify_closed c" by auto
  then show ?thesis using assms(1,2,4) by (intro exI [of _ S] exI [of _ fin]) auto
qed

lemma ep_step_inv:
  assumes "ep_step net e e'" and "ep_inv ba bb S fin T tfin k eof e" and "\<forall>seg \<in> net. sound_for ba bb S fin T tfin seg"
    and "len (ep_wrote e') < SEQ_HALF - 1"
  shows "\<exists>S' fin' k' eof'. extends S fin S' fin' \<and> ep_inv ba bb S' fin' T tfin k' eof' e'"
  using assms
proof (induction rule: ep_step.induct)
  case (ep_write data now c c' n w r)
  then have c: "speaks ba w S fin c" "hears bb T tfin r k eof c" by (simp_all add: ep_inv_eq)
  obtain S' where S': "extends S fin S' fin" "speaks ba (w @ take (nat n) data) S' fin c'"
    using speaks_write [OF c(1) ep_write(1)] ep_write(4) by auto
  have can: "conn_can_send c" using ep_write(1) by (auto simp: conn_send_def split: if_splits)
  let ?c = "c\<lparr>c_send := fst (SendQueue_write (c_send c) data)\<rparr>"
  have "c' = c \<or> c' = ?c \<or> c' = conn_flush now ?c"
    using ep_write(1) can by (auto simp: conn_send_def Let_def split: if_splits prod.splits)
  moreover have "hears bb T tfin r k eof ?c" using c(2) by simp
  ultimately have "hears bb T tfin r k eof c'" "c_state c' = c_state c"
    using c(2) hears_replies [OF _ replies_flush] by auto
  then show ?case using S' ep_write(2) by (intro exI [of _ S'] exI [of _ fin] exI [of _ k] exI [of _ eof]) (simp add: ep_inv_eq)
next
  case (ep_read n now c c' data w r)
  then have c: "speaks ba w S fin c" "hears bb T tfin r k eof c" by (simp_all add: ep_inv_eq)
  have "c' = c \<or> (\<exists>q. c' = c\<lparr>c_recv := q\<rparr> \<or> c' = conn_send_ack now (c\<lparr>c_recv := q\<rparr>))"
    using ep_read(2) by (auto simp: conn_recv_def Let_def split: if_splits prod.splits)
  then have "speaks ba w S fin c'" "c_state c' = c_state c" using c(1) speaks_send_ack by auto
  then show ?case using hears_read [OF c(2) ep_read(2,1)] ep_read(3)
    by (intro exI [of _ S] exI [of _ fin] exI [of _ k] exI [of _ eof]) (simp add: ep_inv_eq)
next
  case (ep_close c w r now)
  then show ?case using close_views [of ba w S fin c bb T tfin r k eof now] by (auto simp: ep_inv_eq)
next
  case (ep_abort c w r now)
  then show ?case using speaks_abort hears_abort
    by (intro exI [of _ S] exI [of _ fin] exI [of _ k] exI [of _ eof]) (auto simp: ep_inv_eq conn_abort_def Let_def)
next
  case (ep_tick c w r now)
  then have c: "speaks ba w S fin c" "hears bb T tfin r k eof c" "is_synchronised (c_state c) \<or> c_state c = CLOSED" by (simp_all add: ep_inv_eq)
  obtain S' where S': "extends S fin S' fin" "speaks ba w S' fin (conn_on_tick now c)" using speaks_tick [OF c(1)] by blast
  have "c_state (conn_on_tick now c) = c_state c \<or> c_state (conn_on_tick now c) = CLOSED"
    using tick_state [of now c] by (auto simp: on_tick_eq Let_def)
  then show ?case using S' hears_tick [OF c(2)] c(3)
    by (intro exI [of _ S'] exI [of _ fin] exI [of _ k] exI [of _ eof]) (auto simp: ep_inv_eq)
next
  case (ep_hear seg src rnd now c c' child w r)
  then have c: "speaks ba w S fin c" "hears bb T tfin r k eof c" "is_synchronised (c_state c) \<or> c_state c = CLOSED" by (simp_all add: ep_inv_eq)
  have sound: "sound_for ba bb S fin T tfin seg" using ep_hear(1,4) by blast
  have "is_synchronised (c_state c') \<or> c_state c' = CLOSED"
  proof (cases "c_state c = CLOSED")
    case True
    then show ?thesis using ep_hear(2) by (auto simp: conn_on_segment_def Let_def conn_reject_def split: if_splits)
  next
    case False
    then show ?thesis using sync_on_segment [of c seg src rnd now] ep_hear(2) c(3)
      by (auto simp: state_move_def segment_moves_def ack_moves_def fin_moves_def)
  qed
  then show ?case using segment_views [OF c sound ep_hear(2)] by (auto simp: ep_inv_eq)
qed


section \<open>Both sides\<close>

definition dialogue_inv :: "int \<Rightarrow> int \<Rightarrow> endpoint \<times> endpoint \<Rightarrow> bool" where
  "dialogue_inv ba bb s \<longleftrightarrow> (\<exists>S fin T tfin k eof l oef. ep_inv ba bb S fin T tfin k eof (fst s) \<and> ep_inv bb ba T tfin S fin l oef (snd s))"

lemma ep_inv_extends:
  assumes "ep_inv ba bb S fin T tfin k eof e" and "extends T tfin T' tfin'" and "len T' < SEQ_HALF - 1"
  shows "ep_inv ba bb S fin T' tfin' k eof e"
  using assms(1) hears_extends [OF _ assms(2,3)] by (simp add: ep_inv_def)

text \<open>What either side has transmitted is sound for the other.\<close>

lemma transmitted_sound:
  assumes "ep_inv ba bb S fin T tfin k eof e"
  shows "\<forall>seg \<in> transmitted (ep_conn e). sound_for bb ba T tfin S fin seg"
proof
  fix seg assume "seg \<in> transmitted (ep_conn e)"
  then obtain dst where seg: "Transmit seg dst \<in> set (c_out (ep_conn e))" by (auto simp: transmitted_def)
  have "piece_segment ba S fin seg" using assms seg by (auto simp: ep_inv_def speaks_def said_def)
  moreover have "acked bb (reach k eof) seg" "reach k eof \<le> reach (length T) tfin"
    using assms seg by (auto simp: ep_inv_def hears_def reach_def)
  ultimately show "sound_for bb ba T tfin S fin seg" using acked_mono by (auto simp: sound_for_def)
qed

lemma ep_inv_sent: "ep_inv ba bb S fin T tfin k eof e \<Longrightarrow> len S < SEQ_HALF - 1"
  by (auto simp: ep_inv_def speaks_def dest: prefix_length_le)

lemma step_inv:
  assumes "ep_inv ba bb S fin T tfin k eof a" and "ep_inv bb ba T tfin S fin l oef b"
    and "ep_step (transmitted (ep_conn b)) a a'" and "len (ep_wrote a') < SEQ_HALF - 1"
  shows "\<exists>S' fin' k' eof'. ep_inv ba bb S' fin' T tfin k' eof' a' \<and> ep_inv bb ba T tfin S' fin' l oef b"
proof -
  obtain S' fin' k' eof' where a': "extends S fin S' fin'" "ep_inv ba bb S' fin' T tfin k' eof' a'"
    using ep_step_inv [OF assms(3,1) transmitted_sound [OF assms(2)] assms(4)] by blast
  then show ?thesis using ep_inv_extends [OF assms(2) a'(1) ep_inv_sent [OF a'(2)]] by blast
qed

lemma ep_step_wrote: "ep_step net e e' \<Longrightarrow> prefix (ep_wrote e) (ep_wrote e')"
  by (induction rule: ep_step.induct) auto

lemma dialogue_keeps:
  assumes "dialogue s s'" and "dialogue_inv ba bb s"
    and "len (ep_wrote (fst s')) < SEQ_HALF - 1" and "len (ep_wrote (snd s')) < SEQ_HALF - 1"
  shows "dialogue_inv ba bb s'"
  using assms
proof (induction rule: dialogue.induct)
  case (left a b a')
  have "length (ep_wrote a) \<le> length (ep_wrote a')" by (rule prefix_length_le [OF ep_step_wrote [OF left(2)]])
  then have "dialogue_inv ba bb (a, b)" using left by simp
  then show ?case using step_inv [OF _ _ left(2)] left(5) by (fastforce simp: dialogue_inv_def)
next
  case (right a b b')
  have "length (ep_wrote b) \<le> length (ep_wrote b')" by (rule prefix_length_le [OF ep_step_wrote [OF right(2)]])
  then have "dialogue_inv ba bb (a, b)" using right by simp
  then show ?case using step_inv [OF _ _ right(2)] right(6) by (fastforce simp: dialogue_inv_def)
qed simp

text \<open>What the invariant says about the two streams.\<close>

lemma ep_inv_prefix:
  assumes "ep_inv ba bb S fin T tfin k eof b" and "ep_inv bb ba T tfin S fin l oef a"
  shows "prefix (ep_read b @ unread (c_recv (ep_conn b))) (ep_wrote a)"
    and "conn_peer_closed (ep_conn b) \<Longrightarrow> ep_read b @ unread (c_recv (ep_conn b)) = ep_wrote a"
proof -
  have T: "prefix T (ep_wrote a)" "tfin \<Longrightarrow> T = ep_wrote a" using assms(2) by (auto simp: ep_inv_def speaks_def)
  have h: "prefix (ep_read b) T" "k \<le> length T" "eof \<longrightarrow> tfin \<and> k = length T" "conn_peer_closed (ep_conn b) \<longrightarrow> eof"
    using assms(1) by (auto simp: ep_inv_def hears_def)
  have all: "ep_read b @ unread (c_recv (ep_conn b)) = take k T" if st: "c_state (ep_conn b) \<noteq> CLOSED"
  proof -
    have "recv_side bb T (ep_read b) k eof (c_recv (ep_conn b))" using assms(1) st by (simp add: ep_inv_def hears_def)
    then have "length (ep_read b) \<le> k" "unread (c_recv (ep_conn b)) = drop (length (ep_read b)) (take k T)"
      by (auto simp: recv_side_def recv_stream_def unread_def split: if_splits)
    moreover obtain X where "T = ep_read b @ X" using h(1) by (auto simp: prefix_def)
    ultimately show ?thesis by simp
  qed
  show "prefix (ep_read b @ unread (c_recv (ep_conn b))) (ep_wrote a)"
  proof (cases "c_state (ep_conn b) = CLOSED")
    case True
    then have "unread (c_recv (ep_conn b)) = []" using assms(1) by (simp add: ep_inv_def hears_def)
    then show ?thesis using h(1) T(1) by (simp add: prefix_order.trans)
  next
    case False
    have "prefix (take k T) T" by (rule take_is_prefix)
    then show ?thesis using all [OF False] T(1) by (simp add: prefix_order.trans)
  qed
  show "ep_read b @ unread (c_recv (ep_conn b)) = ep_wrote a" if "conn_peer_closed (ep_conn b)"
  proof -
    have "c_state (ep_conn b) \<noteq> CLOSED" using that by (auto simp: conn_peer_closed_def)
    then show ?thesis using all h(3,4) T(2) that by simp
  qed
qed


section \<open>From the handshake on\<close>

text \<open>Two connections that have just completed the three-way handshake with each other.\<close>

inductive handshaken :: "conn_config \<Rightarrow> conn_config \<Rightarrow> conn \<Rightarrow> conn \<Rightarrow> bool" where
  shaken: "handshaken ccfg lcfg a b"
    if "TCPConnection_init ccfg = Inr client" and "conn_connect rnd t1 client = Inr client'" and "c_out client' = [Transmit syn d1]"
    and "TCPConnection_init lcfg = Inr l0" and "conn_listen l0 = Inr listener"
    and "conn_on_segment syn (Some ip) rnd' t2 listener = Inr (listener', Some child)" and "c_out child = [Transmit answer d2]"
    and "conn_on_segment answer src rnd3 t3 client' = Inr (a, None)" and "Transmit ack d3 \<in> set (c_out a)" and "ack \<noteq> syn"
    and "conn_on_segment ack src' rnd4 t4 child = Inr (b, None)"

inductive_cases handshakenE: "handshaken ccfg lcfg a b"

text \<open>One side, just after the handshake: nothing has been written, received or transmitted but the handshake.\<close>

lemma settled_speaks:
  assumes "settled c" and "cfg_send_capacity (c_cfg c) < SEQ_HALF" and "0 < cfg_send_capacity (c_cfg c)"
    and "\<forall>seg dst. Transmit seg dst \<in> set (c_out c) \<longrightarrow> seg_payload seg = [] \<and> \<not> is_fin seg"
  shows "speaks (c_iss c + 1) [] [] False c"
proof -
  have "seq_diff (seq_add (c_iss c) 1) (seq_add (c_iss c) 1) = 0" by (simp add: seq_diff_self)
  then have "send_side (c_iss c + 1) [] [] False (c_send c)"
    using assms(1-3) by (auto simp: settled_def pristine_def send_side_def send_stream_def send_inv_def seq_add_valid)
  moreover have "said (c_iss c + 1) [] False c"
    using assms(1,4) by (auto simp: settled_def said_def piece_segment_def piece_def is_fin_def)
  ultimately show ?thesis by (simp add: speaks_def SEQ_HALF_def)
qed

lemma settled_hears:
  assumes "settled c" and "ReceiveQueue_init irs cap = Inr (c_recv c)"
    and "\<forall>seg dst. Transmit seg dst \<in> set (c_out c) \<longrightarrow> \<not> is_ack seg \<or> seg_ack seg = seq_add irs 1"
  shows "hears (irs + 1) [] False [] 0 False c"
proof -
  have "recv_side (irs + 1) [] [] 0 False (c_recv c)"
    using recv_stream_init [OF assms(2), of "[]"] by (simp add: recv_side_def)
  moreover have "rq_nxt (c_recv c) = wrap (irs + 1)" using receive_queue_next [OF assms(2)] by (simp add: seq_add_valid)
  moreover have "\<forall>seg dst. Transmit seg dst \<in> set (c_out c) \<longrightarrow> acked (irs + 1) 0 seg"
    using assms(3) by (auto simp: acked_def seq_add_valid)
  ultimately show ?thesis using assms(1) by (simp add: settled_def hears_def conn_peer_closed_def reach_def SEQ_HALF_def)
qed

definition begin_at :: "conn \<Rightarrow> endpoint" where
  "begin_at c = \<lparr>ep_conn = c, ep_wrote = [], ep_read = []\<rparr>"

text \<open>What the handshake leaves behind, on both sides.\<close>

lemma handshaken_ends:
  assumes "handshaken ccfg lcfg a b"
  obtains syn answer ack ip port where "settled a" and "settled b" and "c_cfg a = ccfg"
    and "c_cfg b = lcfg\<lparr>cfg_remote_ip := ip, cfg_remote_port := port, cfg_initial_window := None\<rparr>"
    and "0 < cfg_send_capacity ccfg" and "0 < cfg_send_capacity lcfg"
    and "ReceiveQueue_init (c_iss b) (cfg_receive_capacity ccfg) = Inr (c_recv a)"
    and "ReceiveQueue_init (c_iss a) (cfg_receive_capacity lcfg) = Inr (c_recv b)"
    and "c_peer_window a = push_bit (nat (c_snd_wscale a)) (conn_advertised_window b)"
    and "c_peer_window b = push_bit (nat (c_snd_wscale b)) (conn_advertised_window a)"
    and "c_peer_mss a = max (min (cfg_mss lcfg) (cfg_mss ccfg)) 64" and "c_peer_mss b = max (min (cfg_mss ccfg) (cfg_mss lcfg)) 64"
    and "\<forall>seg dst. Transmit seg dst \<in> set (c_out a) \<longrightarrow> seg = syn \<or> seg = ack"
    and "\<forall>seg dst. Transmit seg dst \<in> set (c_out b) \<longrightarrow> seg = answer"
    and "seg_flags syn = FLAG_SYN" and "seg_payload syn = []" and "seg_flags answer = FLAG_SYN OR FLAG_ACK" and "seg_payload answer = []"
    and "seg_ack answer = seq_add (c_iss a) 1" and "seg_flags ack = FLAG_ACK" and "seg_payload ack = []" and "seg_ack ack = seq_add (c_iss b) 1"
proof -
  from assms(1) obtain client client' l0 listener listener' child syn answer ack d1 d2 d3 ip rnd rnd' t1 t2 t3 t4 src src' rnd3 rnd4
    where client: "TCPConnection_init ccfg = Inr client" "conn_connect rnd t1 client = Inr client'" "c_out client' = [Transmit syn d1]"
      and l0: "TCPConnection_init lcfg = Inr l0" "conn_listen l0 = Inr listener"
      and answered: "conn_on_segment syn (Some ip) rnd' t2 listener = Inr (listener', Some child)" "c_out child = [Transmit answer d2]"
      and a: "conn_on_segment answer src rnd3 t3 client' = Inr (a, None)" "Transmit ack d3 \<in> set (c_out a)" "ack \<noteq> syn"
      and b: "conn_on_segment ack src' rnd4 t4 child = Inr (b, None)"
    by (rule handshakenE)
  have 1: "c_state client' = SYN_SENT" "c_cfg client' = ccfg" "syn_out client' FLAG_SYN t1" and syn: "syn_segment syn FLAG_SYN client'"
    by (rule connect_syn [OF client(1), of rnd t1]; use client(2,3) in simp)+
  have l: "c_state listener = LISTEN" "c_cfg listener = lcfg"
    using l0(2) init_fields(1,2) [OF l0(1)] by (auto simp: conn_listen_def)
  have flags: "seg_flags syn = FLAG_SYN" "opt_mss (seg_options syn) = Some (cfg_mss ccfg)" using syn 1(2) by (simp_all add: syn_segment_def)
  have 2: "c_state child = SYN_RECEIVED" "syn_out child (FLAG_SYN OR FLAG_ACK) t2"
      "c_cfg child = lcfg\<lparr>cfg_remote_ip := ip, cfg_remote_port := seg_src_port syn, cfg_initial_window := None\<rparr>"
      "ReceiveQueue_init (seg_seq syn) (cfg_receive_capacity lcfg) = Inr (c_recv child)" "seg_window answer = conn_advertised_window child"
      "c_peer_mss child = max (min (cfg_mss ccfg) (cfg_mss lcfg)) 64"
    and answer: "syn_segment answer (FLAG_SYN OR FLAG_ACK) child" "seg_ack answer = seq_add (seg_seq syn) 1"
    by (rule listener_answers [OF l0(1) l flags, of ip rnd' t2]; use answered in simp)+
  have "seg_flags answer = FLAG_SYN OR FLAG_ACK" "seg_ack answer = seq_add (c_iss client') 1" "0 < cfg_receive_capacity (c_cfg client')"
      "opt_mss (seg_options answer) = Some (cfg_mss lcfg)"
    using answer syn 1(2) 2(3) init_fields(7) [OF client(1)] by (simp_all add: syn_segment_def)
  note est = client_establishes [OF 1(3,1) this(3,1,2,4), of src rnd3 t3]
  have 3: "settled a" "c_iss a = c_iss client'" "c_cfg a = ccfg" "ReceiveQueue_init (seg_seq answer) (cfg_receive_capacity ccfg) = Inr (c_recv a)"
      "c_peer_window a = push_bit (nat (c_snd_wscale a)) (seg_window answer)" "c_peer_mss a = max (min (cfg_mss lcfg) (cfg_mss ccfg)) 64"
    and ack: "seg_flags ack = FLAG_ACK" "seg_ack ack = seq_add (seg_seq answer) 1" "seg_payload ack = []" "seg_window ack = conn_advertised_window a"
    and out: "\<forall>seg dst. Transmit seg dst \<in> set (c_out a) \<longrightarrow> seg = syn \<or> seg = ack"
    by (rule est; use a client(3) 1(2) in auto)+
  have acks: "seg_ack ack = seq_add (c_iss child) 1" using ack(2) answer(1) by (simp add: syn_segment_def)
  have 4: "settled b" "c_iss b = c_iss child" "c_recv b = c_recv child" "c_cfg b = c_cfg child"
      "c_peer_window b = push_bit (nat (c_snd_wscale b)) (seg_window ack)" "c_peer_mss b = c_peer_mss child"
    and outb: "\<forall>seg dst. Transmit seg dst \<in> set (c_out b) \<longrightarrow> seg = answer"
    by (rule child_establishes [OF 2(2,1) ack(1) acks, of src' rnd4 t4]; use b answered(2) in auto)+
  have seqs: "seg_seq syn = c_iss a" "seg_seq answer = c_iss b" using syn answer(1) 3(2) 4(2) by (simp_all add: syn_segment_def)
  have adv: "conn_advertised_window child = conn_advertised_window b" using 4(3,4) by (simp add: conn_advertised_window_def Let_def)
  have cfg: "c_cfg b = lcfg\<lparr>cfg_remote_ip := ip, cfg_remote_port := seg_src_port syn, cfg_initial_window := None\<rparr>" using 4(4) 2(3) by simp
  have recv: "ReceiveQueue_init (c_iss b) (cfg_receive_capacity ccfg) = Inr (c_recv a)"
    "ReceiveQueue_init (c_iss a) (cfg_receive_capacity lcfg) = Inr (c_recv b)" using 3(4) 2(4) 4(3) seqs by simp_all
  have win: "c_peer_window a = push_bit (nat (c_snd_wscale a)) (conn_advertised_window b)"
    "c_peer_window b = push_bit (nat (c_snd_wscale b)) (conn_advertised_window a)" using 3(5) 4(5) 2(5) ack(4) adv by simp_all
  have mss: "c_peer_mss b = max (min (cfg_mss ccfg) (cfg_mss lcfg)) 64" using 4(6) 2(6) by simp
  have pay: "seg_payload syn = []" "seg_payload answer = []" "seg_flags answer = FLAG_SYN OR FLAG_ACK"
    using syn answer(1) by (simp_all add: syn_segment_def)
  have agree: "seg_ack answer = seq_add (c_iss a) 1" "seg_ack ack = seq_add (c_iss b) 1" using answer(2) ack(2) seqs by simp_all
  show thesis
    by (rule that [OF 3(1) 4(1) 3(3) cfg init_fields(6) [OF client(1)] init_fields(6) [OF l0(1)] recv win 3(6) mss out outb flags(1)
        pay(1,3,2) agree(1) ack(1,3) agree(2)])
qed

lemma handshaken_views:
  assumes "handshaken ccfg lcfg a b" and "cfg_send_capacity ccfg < SEQ_HALF" and "cfg_send_capacity lcfg < SEQ_HALF"
  shows "dialogue_inv (c_iss a + 1) (c_iss b + 1) (begin_at a, begin_at b)"
proof -
  obtain syn answer ack ip port where s: "settled a" "settled b" and cfg: "c_cfg a = ccfg"
      "c_cfg b = lcfg\<lparr>cfg_remote_ip := ip, cfg_remote_port := port, cfg_initial_window := None\<rparr>"
      "0 < cfg_send_capacity ccfg" "0 < cfg_send_capacity lcfg"
    and recv: "ReceiveQueue_init (c_iss b) (cfg_receive_capacity ccfg) = Inr (c_recv a)"
      "ReceiveQueue_init (c_iss a) (cfg_receive_capacity lcfg) = Inr (c_recv b)"
    and out: "\<forall>seg dst. Transmit seg dst \<in> set (c_out a) \<longrightarrow> seg = syn \<or> seg = ack"
      "\<forall>seg dst. Transmit seg dst \<in> set (c_out b) \<longrightarrow> seg = answer"
    and seg: "seg_flags syn = FLAG_SYN" "seg_payload syn = []" "seg_flags answer = FLAG_SYN OR FLAG_ACK" "seg_payload answer = []"
      "seg_ack answer = seq_add (c_iss a) 1" "seg_flags ack = FLAG_ACK" "seg_payload ack = []" "seg_ack ack = seq_add (c_iss b) 1"
    by (rule handshaken_ends [OF assms(1)])
  have fin: "\<not> is_fin syn" "\<not> is_fin ack" "\<not> is_fin answer" "\<not> is_ack syn"
    using seg by (simp_all add: is_fin_def is_ack_def flag_defs)
  have "speaks (c_iss a + 1) [] [] False a" using settled_speaks [OF s(1)] assms(2) cfg(1,3) out(1) fin seg by auto
  moreover have "speaks (c_iss b + 1) [] [] False b" using settled_speaks [OF s(2)] assms(3) cfg(2,4) out(2) fin seg by auto
  moreover have "hears (c_iss b + 1) [] False [] 0 False a" using settled_hears [OF s(1) recv(1)] out(1) fin seg(8) by auto
  moreover have "hears (c_iss a + 1) [] False [] 0 False b" using settled_hears [OF s(2) recv(2)] out(2) seg(5) by auto
  ultimately have "ep_inv (c_iss a + 1) (c_iss b + 1) [] False [] False 0 False (begin_at a)"
    "ep_inv (c_iss b + 1) (c_iss a + 1) [] False [] False 0 False (begin_at b)"
    using s by (simp_all add: ep_inv_def begin_at_def settled_def is_synchronised_def)
  then show ?thesis unfolding dialogue_inv_def fst_conv snd_conv by blast
qed

text \<open>The handshake can always be completed.\<close>

lemma handshake_possible:
  assumes "TCPConnection_init ccfg = Inr client" and "TCPConnection_init lcfg = Inr l0"
  shows "\<exists>a b. handshaken ccfg lcfg a b"
proof -
  obtain client' syn where 1: "conn_connect 0 0 client = Inr client'" "c_out client' = [Transmit syn (cfg_remote_ip ccfg)]"
    "c_state client' = SYN_SENT" "c_cfg client' = ccfg" "syn_out client' FLAG_SYN 0" "syn_segment syn FLAG_SYN client'"
    by (rule connect_syn [OF assms(1), of 0 0])
  obtain l where l: "conn_listen l0 = Inr l" "c_state l = LISTEN" "c_cfg l = lcfg"
    using init_fields(1,2) [OF assms(2)] by (auto simp: conn_listen_def)
  have flags: "seg_flags syn = FLAG_SYN" "opt_mss (seg_options syn) = Some (cfg_mss ccfg)" using 1(4,6) by (simp_all add: syn_segment_def)
  obtain l' child answer where 2: "conn_on_segment syn (Some []) 0 0 l = Inr (l', Some child)" "c_out child = [Transmit answer []]"
    "c_state child = SYN_RECEIVED" "syn_out child (FLAG_SYN OR FLAG_ACK) 0" "syn_segment answer (FLAG_SYN OR FLAG_ACK) child"
    "seg_ack answer = seq_add (seg_seq syn) 1" by (rule listener_answers [OF assms(2) l(2,3) flags, of "[]" 0 0])
  have "seg_flags answer = FLAG_SYN OR FLAG_ACK" "seg_ack answer = seq_add (c_iss client') 1" "0 < cfg_receive_capacity (c_cfg client')"
      "opt_mss (seg_options answer) = Some (cfg_mss (c_cfg child))"
    using 2(5,6) 1(4,6) init_fields(7) [OF assms(1)] by (simp_all add: syn_segment_def)
  note est = client_establishes [OF 1(5,3) this(3,1,2,4), of None 0 0]
  obtain a ack where 3: "conn_on_segment answer None 0 0 client' = Inr (a, None)"
    "c_out a = c_out client' @ [Transmit ack (cfg_remote_ip (c_cfg client'))] @ (if cfg_on_established (c_cfg client') then [NotifyEstablished] else [])"
    "seg_flags ack = FLAG_ACK" "seg_ack ack = seq_add (seg_seq answer) 1" by (rule est)
  have "seg_ack ack = seq_add (c_iss child) 1" using 3(4) 2(5) by (simp add: syn_segment_def)
  then obtain b where 4: "conn_on_segment ack None 0 0 child = Inr (b, None)" by (rule child_establishes [OF 2(4,3) 3(3)])
  have "ack \<noteq> syn" using 3(3) flags(1) by (auto simp: flag_defs)
  then show ?thesis using shaken [OF assms(1) 1(1,2) assms(2) l(1) 2(1,2) 3(1) _ _ 4] 3(2) by auto
qed

end
