(* ===== verification/Exchange.thy ===== *)
theory Exchange
  imports Dialogue
begin

text \<open>
  Data between two established connections over a network that may lose segments for a while: what \<open>send\<close> emits, what
  the retransmission timer repeats, what the receiver makes of the first and of every later copy, what \<open>recv\<close>
  returns, and what the acknowledgements do to the sender; and the composition of these steps, any number of times.
\<close>

section \<open>Connections at rest\<close>

text \<open>Everything sent is acknowledged and nothing waits to be sent.\<close>

definition sent_all :: "conn \<Rightarrow> bool" where
  "sent_all c \<longleftrightarrow> valid_seq (sq_una (c_send c)) \<and> sq_nxt (c_send c) = sq_una (c_send c) \<and> sq_buf (c_send c) = [] \<and> segs c = []"

text \<open>Established, not closing, nothing parked out of order, and able to announce a window when its buffer is empty.\<close>

definition calm :: "conn \<Rightarrow> bool" where
  "calm c \<longleftrightarrow> c_state c = ESTABLISHED \<and> c_fin_seq c = None \<and> rx_capacity (c_retx c) = 2 ^ 20
     \<and> \<not> cfg_delayed_ack (c_cfg c) \<and> c_delayed_ack_at c = None
     \<and> recv_inv (c_recv c) \<and> ro_data (rq_ooo (c_recv c)) = [] \<and> rq_capacity (c_recv c) < SEQ_HALF
     \<and> 0 < drop_bit (cfg_window_scale (c_cfg c)) (rq_capacity (c_recv c))"

definition at_rest :: "conn \<Rightarrow> bool" where
  "at_rest c \<longleftrightarrow> calm c \<and> sent_all c \<and> unread (c_recv c) = [] \<and> 0 < c_peer_window c"

text \<open>What no exchange changes.\<close>

definition limits :: "conn \<Rightarrow> conn_config \<times> int \<times> int \<times> int \<times> int" where
  "limits c = (c_cfg c, c_peer_mss c, re_mss (c_reno c), sq_capacity (c_send c), rq_capacity (c_recv c))"

text \<open>A chunk that goes into one segment, into the send buffer and into the receive buffer.\<close>

definition fits :: "bytes \<Rightarrow> conn \<Rightarrow> conn \<Rightarrow> bool" where
  "fits data a b \<longleftrightarrow> data \<noteq> [] \<and> len data \<le> re_mss (c_reno a) \<and> len data \<le> c_peer_mss a \<and> len data \<le> sq_capacity (c_send a)
     \<and> len data \<le> 2 ^ 20 \<and> len data \<le> rq_capacity (c_recv b)"

lemma fits_limits: "limits a' = limits a \<Longrightarrow> limits b' = limits b \<Longrightarrow> fits data a' b' = fits data a b"
  by (simp add: limits_def fits_def)

lemma seq_ahead:
  assumes "valid_seq a" and "0 < k" and "k < SEQ_HALF"
  shows "seq_gt (seq_add a k) a" and "seq_diff (seq_add a k) a = k" and "seq_lt a (seq_add a k)" and "valid_seq (seq_add a k)"
proof -
  have a: "wrap a = a" using assms(1) by simp
  show "seq_gt (seq_add a k) a" "seq_lt a (seq_add a k)"
    using seq_gt_wrap [of "a + k" a] seq_lt_wrap [of a "a + k"] assms by (simp_all add: seq_add_valid a)
  show "seq_diff (seq_add a k) a = k" using seq_diff_wrap [of "a + k" a] assms by (simp add: seq_add_valid a)
  show "valid_seq (seq_add a k)" by (simp add: seq_add_valid)
qed

lemma seq_same: "seq_ge a a" "seq_le a a" "\<not> seq_gt a a" "\<not> seq_lt a a"
  by (simp_all add: seq_ge_def seq_le_def seq_gt_def seq_lt_diff)

lemma flush_nothing:
  assumes "sent_all c"
  obtains d where "conn_flush now c = c\<lparr>c_persist_at := None, c_persist_delay := d\<rparr> \<or> conn_flush now c = c"
proof -
  have q: "SendQueue_in_flight (c_send c) = 0" "SendQueue_unsent (c_send c) = 0"
    using assms by (auto simp: sent_all_def SendQueue_in_flight_def SendQueue_unsent_def)
  let ?c = "c\<lparr>c_persist_at := None, c_persist_delay := DEFAULT_PERSIST_DELAY\<rparr>"
  have "SendQueue_peek (c_send ?c) (sq_nxt (c_send ?c)) n = []" for n
    using assms by (simp add: sent_all_def SendQueue_peek_def)
  then have loop: "conn_flush_loop (Suc fuel) now ?c = ?c" for fuel
    by (simp add: conn_flush_loop.simps(2) Let_def)
  have arm: "conn_arm_persist_timer now c = c\<lparr>c_persist_at := None, c_persist_delay := c_persist_delay c\<rparr>"
    using q by (simp add: conn_arm_persist_timer_def)
  consider "\<not> is_synchronised (c_state c)" | "is_synchronised (c_state c)" "c_peer_window c \<le> 0"
    | "is_synchronised (c_state c)" "0 < c_peer_window c" by linarith
  then show thesis
  proof cases
    case 1
    then show ?thesis by (intro that [of 0] disjI2) (simp add: conn_flush_def)
  next
    case 2
    then show ?thesis using arm by (intro that [of "c_persist_delay c"] disjI1) (simp add: conn_flush_def)
  next
    case 3
    then have "conn_flush now c = conn_flush_loop (Suc (length (sq_buf (c_send ?c)))) now ?c" by (simp add: conn_flush_def Let_def)
    then show ?thesis using loop by (intro that [of DEFAULT_PERSIST_DELAY] disjI1) simp
  qed
qed


section \<open>Sending\<close>

text \<open>A copy of the data, as \<open>send\<close> or the retransmission timer puts it on the wire.\<close>

definition copy :: "bytes \<Rightarrow> conn \<Rightarrow> tcp_segment \<Rightarrow> bool" where
  "copy data c seg \<longleftrightarrow> seg_flags seg = FLAG_ACK OR FLAG_PSH \<and> seg_seq seg = sq_una (c_send c) \<and> seg_ack seg = rq_nxt (c_recv c)
     \<and> seg_payload seg = data \<and> 0 < seg_window seg"

text \<open>One segment is in flight, retransmitted at most \<open>n\<close> times, and its latest copy is the last thing transmitted.\<close>

definition waits :: "bytes \<Rightarrow> nat \<Rightarrow> conn \<Rightarrow> bool" where
  "waits data n c \<longleftrightarrow> valid_seq (sq_una (c_send c)) \<and> sq_nxt (c_send c) = seq_add (sq_una (c_send c)) (len data)
     \<and> sq_buf (c_send c) = data \<and> c_persist_at c = None
     \<and> (\<exists>e. segs c = [e] \<and> os_seq e = sq_una (c_send c) \<and> os_flags e = FLAG_ACK OR FLAG_PSH \<and> os_payload e = data \<and> os_retransmits e \<le> int n)
     \<and> (\<exists>evs seg dst. c_out c = evs @ [Transmit seg dst] \<and> copy data c seg)"

lemma calm_window:
  assumes "calm c" and "unread (c_recv c) = []"
  shows "ReceiveQueue_window (c_recv c) = rq_capacity (c_recv c)" and "0 < conn_advertised_window c"
proof -
  have inv: "recv_inv (c_recv c)" and ooo: "ro_data (rq_ooo (c_recv c)) = []"
    and scale: "0 < drop_bit (cfg_window_scale (c_cfg c)) (rq_capacity (c_recv c))" using assms(1) by (simp_all add: calm_def)
  have "ReceiveQueue_available (c_recv c) = 0" using unread_length [OF inv] assms(2) by simp
  moreover have "ReceiveQueue_held_out_of_order (c_recv c) = 0"
    using inv ooo by (simp add: recv_inv_def reorder_inv_def ReceiveQueue_held_out_of_order_def)
  moreover have "0 < rq_capacity (c_recv c)" using inv by (simp add: recv_inv_def)
  ultimately show w: "ReceiveQueue_window (c_recv c) = rq_capacity (c_recv c)" by (simp add: ReceiveQueue_window_def Let_def)
  show "0 < conn_advertised_window c"
    using scale by (cases "cfg_window_scale (c_cfg c) = 0") (simp_all add: conn_advertised_window_def w Let_def)
qed

lemma sends:
  assumes "at_rest c" and "fits data c b"
  obtains c1 where "conn_send data now c = Inr (c1, len data)" and "calm c1" and "waits data 0 c1" and "c_recv c1 = c_recv c"
    and "sq_una (c_send c1) = sq_una (c_send c)" and "limits c1 = limits c"
proof -
  have r: "calm c" "sent_all c" "unread (c_recv c) = []" "0 < c_peer_window c" using assms(1) by (simp_all add: at_rest_def)
  then have q: "valid_seq (sq_una (c_send c))" "sq_nxt (c_send c) = sq_una (c_send c)" "sq_buf (c_send c) = []" "segs c = []"
    and st: "c_state c = ESTABLISHED" "rx_capacity (c_retx c) = 2 ^ 20" by (simp_all add: sent_all_def calm_def)
  have d: "data \<noteq> []" "len data \<le> re_mss (c_reno c)" "len data \<le> c_peer_mss c" "len data \<le> sq_capacity (c_send c)" "len data \<le> 2 ^ 20"
    using assms(2) by (simp_all add: fits_def)
  have half: "0 < len data" "len data < SEQ_HALF" using d(1,5) by (simp_all add: SEQ_HALF_def)
  let ?q = "(c_send c)\<lparr>sq_buf := data, sq_bytes_written := sq_bytes_written (c_send c) + len data\<rparr>"
  have cap: "\<not> sq_capacity (c_send c) \<le> 0" using half d(4) by linarith
  have wrote: "SendQueue_write (c_send c) data = (?q, len data)"
    using d(4) by (simp add: SendQueue_write_def Let_def cap q(3))
  define c1 where "c1 = c\<lparr>c_send := ?q, c_persist_at := None, c_persist_delay := DEFAULT_PERSIST_DELAY\<rparr>"
  have 1: "c_send c1 = ?q" "c_state c1 = ESTABLISHED" "c_recv c1 = c_recv c" "c_retx c1 = c_retx c" "c_cfg c1 = c_cfg c"
    "c_peer_window c1 = c_peer_window c" "c_reno c1 = c_reno c" "c_peer_mss c1 = c_peer_mss c" "c_out c1 = c_out c"
    "c_fin_seq c1 = c_fin_seq c" "c_delayed_ack_at c1 = c_delayed_ack_at c" "c_persist_at c1 = None" using st(1) by (simp_all add: c1_def)
  define c2 where "c2 = conn_transmit (sq_una (c_send c)) (FLAG_ACK OR FLAG_PSH) data now None None True c1"
  define c3 where "c3 = conn_set_snd_nxt (seq_add (sq_una (c_send c)) (len data)) c2"
  define w where "w = RenoCongestion_effective_window (c_reno c) (c_peer_window c)"
  have w: "len data \<le> min w (c_peer_mss c)" using d(2,3) by (simp add: w_def RenoCongestion_effective_window_def)
  have peek: "SendQueue_peek ?q (sq_una (c_send c)) (min w (c_peer_mss c)) = data"
  proof -
    define m where "m = min w (c_peer_mss c)"
    have "\<not> m \<le> 0" "length data \<le> nat m" using w half unfolding m_def by linarith+
    then show ?thesis unfolding m_def [symmetric] by (simp add: SendQueue_peek_def Let_def)
  qed
  have stop: "conn_flush_loop fuel now c3 = c3" for fuel
  proof (cases fuel)
    case (Suc k)
    have "SendQueue_peek (c_send c3) (sq_nxt (c_send c3)) n = []" for n
      using seq_ahead(2) [OF q(1) half] by (simp add: c3_def c2_def 1 SendQueue_peek_def Let_def)
    then show ?thesis by (simp add: Suc conn_flush_loop.simps(2) Let_def)
  qed (simp add: conn_flush_loop.simps(1))
  have "SendQueue_in_flight (c_send c1) = 0" "sq_nxt (c_send c1) = sq_una (c_send c)" using q(2) by (simp_all add: 1 SendQueue_in_flight_def)
  moreover have "conn_set_snd_nxt (seq_add (sq_nxt (c_send c2)) (len data)) c2 = c3" using q(2) by (simp add: c3_def c2_def 1)
  moreover have "\<not> w \<le> 0" using w half by linarith
  ultimately have "conn_flush_loop (Suc (length data)) now c1 = c3"
    using d(1) by (simp add: conn_flush_loop.simps(2) Let_def 1(6-8) w_def [symmetric] c2_def [symmetric] stop) (simp add: 1 peek c2_def stop)
  then have "conn_flush now (c\<lparr>c_send := ?q\<rparr>) = c3"
    using st r(4) by (simp add: conn_flush_def c1_def [symmetric] 1)
  then have run: "conn_send data now c = Inr (c3, len data)"
    using st(1) d(1) wrote half by (simp add: conn_send_def conn_can_send_def)
  have tracked: "c_retx c2 = (c_retx c)\<lparr>rx_segments := [new_entry (sq_una (c_send c)) (FLAG_ACK OR FLAG_PSH) data now]\<rparr>"
    using conn_transmit_tracked(1) [of "FLAG_ACK OR FLAG_PSH" data c1] d(1,5) st(2) q(4) by (simp add: tracked_def c2_def 1)
  have out: "c_out c3 = c_out c @ [Transmit (conn_segment (sq_una (c_send c)) (FLAG_ACK OR FLAG_PSH) data None None c1) (cfg_remote_ip (c_cfg c))]"
    by (simp add: c3_def c2_def 1)
  have adv: "conn_advertised_window c1 = conn_advertised_window c" by (simp add: conn_advertised_window_def Let_def 1)
  show thesis
  proof (rule that [OF run])
    show "calm c3" using r(1) tracked by (simp add: c3_def c2_def calm_def 1)
    have "copy data c3 (conn_segment (sq_una (c_send c)) (FLAG_ACK OR FLAG_PSH) data None None c1)"
      using calm_window(2) [OF r(1,3)] adv by (simp add: copy_def c3_def c2_def conn_segment_def 1)
    then show "waits data 0 c3"
      using q tracked out by (auto simp: waits_def c3_def c2_def 1)
  qed (simp_all add: c3_def c2_def 1 limits_def)
qed

text \<open>A timer that fires repeats the data; one that is not due does nothing.\<close>

lemma repeats:
  assumes "calm c" and "waits data n c" and "n < 15" and "unread (c_recv c) = []"
  shows "calm (conn_on_tick now c)" and "waits data (Suc n) (conn_on_tick now c)" and "c_recv (conn_on_tick now c) = c_recv c"
    and "sq_una (c_send (conn_on_tick now c)) = sq_una (c_send c)" and "limits (conn_on_tick now c) = limits c"
proof -
  obtain e where e: "segs c = [e]" "os_seq e = sq_una (c_send c)" "os_flags e = FLAG_ACK OR FLAG_PSH" "os_payload e = data" "os_retransmits e \<le> int n"
    using assms(2) by (auto simp: waits_def)
  have st: "c_state c = ESTABLISHED" "c_delayed_ack_at c = None" "c_persist_at c = None" using assms(1,2) by (simp_all add: calm_def waits_def)
  have tick: "conn_on_tick now c = (if timer_due now (c_retransmit_at c) then conn_on_retransmit_timeout now c else c)"
    if "c_persist_at (tick_retransmit now c) = None" "c_state (tick_retransmit now c) = ESTABLISHED"
    using that st(2) unfolding on_tick_eq Let_def tick_timers_def tick_persist_def tick_ack_def by (simp add: tick_retransmit_def)
  let ?c1 = "c\<lparr>c_reno := RenoCongestion_on_timeout (c_reno c), c_rto := RTOEstimator_backoff (c_rto c)\<rparr>"
  let ?c3 = "(conn_resend e now ?c1)\<lparr>c_retransmit_at := Some (now + rto_rto (RTOEstimator_backoff (c_rto c)))\<rparr>"
  have timeout: "conn_on_retransmit_timeout now c = ?c3"
    using e(1,5) assms(3) by (simp add: conn_on_retransmit_timeout_def RetransmitQueue_oldest_def MAX_RETRANSMITS_def Let_def)
  have cases: "conn_on_tick now c = ?c3 \<or> conn_on_tick now c = c"
    using tick st timeout by (cases "timer_due now (c_retransmit_at c)") (simp_all add: tick_retransmit_def)
  have mss: "re_mss (RenoCongestion_on_timeout r) = re_mss r" for r by (simp add: RenoCongestion_on_timeout_def Let_def)
  have out: "c_out ?c3 = c_out c @ [Transmit (conn_segment (os_seq e) (os_flags e) (os_payload e) None None c) (cfg_remote_ip (c_cfg c))]"
    by (simp add: resend_out)
  have "copy data ?c3 (conn_segment (os_seq e) (os_flags e) (os_payload e) None None c)"
    using e calm_window(2) [OF assms(1,4)] by (simp add: copy_def conn_segment_def)
  then have w3: "waits data (Suc n) ?c3"
    using assms(2) e out by (auto simp: waits_def RetransmitQueue_mark_retransmitted_def)
  have "calm ?c3" using assms(1) by (simp add: calm_def)
  then show "calm (conn_on_tick now c)" using cases assms(1) by auto
  have "waits data (Suc n) c" using assms(2) by (fastforce simp: waits_def)
  then show "waits data (Suc n) (conn_on_tick now c)" using cases w3 by auto
  show "c_recv (conn_on_tick now c) = c_recv c" "sq_una (c_send (conn_on_tick now c)) = sq_una (c_send c)" using cases by auto
  show "limits (conn_on_tick now c) = limits c" using cases by (auto simp: limits_def mss)
qed


section \<open>Receiving\<close>

text \<open>An acknowledgement that acknowledges nothing new only changes the window.\<close>

lemma process_nothing_new:
  assumes "sent_all c" and "seg_ack seg = sq_una (c_send c)"
  obtains p d where "conn_process_ack seg now c
      = c\<lparr>c_peer_window := push_bit (nat (c_snd_wscale c)) (seg_window seg), c_persist_at := p, c_persist_delay := d\<rparr>"
proof -
  let ?c = "c\<lparr>c_peer_window := push_bit (nat (c_snd_wscale c)) (seg_window seg)\<rparr>"
  have "sent_all ?c" using assms(1) by (simp add: sent_all_def)
  then obtain d where flush: "conn_flush now ?c = ?c\<lparr>c_persist_at := None, c_persist_delay := d\<rparr> \<or> conn_flush now ?c = ?c"
    by (rule flush_nothing)
  have s: "SendQueue_in_flight (c_send c) = 0" "RetransmitQueue_oldest (c_retx c) = None"
    using assms by (simp_all add: sent_all_def SendQueue_in_flight_def RetransmitQueue_oldest_def)
  have run: "conn_process_ack seg now c = conn_flush now ?c"
    using s assms(2) by (simp add: conn_process_ack_def conn_duplicate_ack_def conn_update_peer_window_def Let_def seq_same)
  have same: "?c = ?c\<lparr>c_persist_at := c_persist_at c, c_persist_delay := c_persist_delay c\<rparr>" by simp
  from flush show thesis
  proof
    assume "conn_flush now ?c = ?c\<lparr>c_persist_at := None, c_persist_delay := d\<rparr>"
    with run show thesis by (intro that [of d None]) simp
  next
    assume "conn_flush now ?c = ?c"
    with run show thesis by (intro that [of "c_persist_delay c" "c_persist_at c"]) (rule trans [OF _ same], simp)
  qed
qed

lemma insert_next:
  assumes "ro_data (rq_ooo q) = []" and "data \<noteq> []" and "len data \<le> ReceiveQueue_window q"
  shows "ReceiveQueue_insert q (rq_nxt q) data = (ReceiveQueue_extend q data, len data)"
proof -
  have "ReceiveQueue_drain (ReceiveQueue_extend q data) n = (ReceiveQueue_extend q data, n)" for n
    using assms(1) by (simp add: ReceiveQueue_drain_code ReceiveQueue_extend_def)
  moreover have "0 < len data" using assms(2) by simp
  then have "0 < ReceiveQueue_window q" using assms(3) by linarith
  ultimately show ?thesis
    using assms(2,3) by (simp add: ReceiveQueue_insert.simps [of q] ReceiveQueue_accept_def Let_def)
qed

text \<open>A receiver that has the data, and an acknowledgement of it.\<close>

definition holds :: "bytes \<Rightarrow> conn \<Rightarrow> bool" where
  "holds data c \<longleftrightarrow> calm c \<and> sent_all c \<and> unread (c_recv c) = data \<and> 0 < c_peer_window c"

definition plain_ack :: "conn \<Rightarrow> tcp_segment \<Rightarrow> bool" where
  "plain_ack c seg \<longleftrightarrow> seg_flags seg = FLAG_ACK \<and> seg_seq seg = sq_nxt (c_send c) \<and> seg_ack seg = rq_nxt (c_recv c)
     \<and> seg_payload seg = [] \<and> seg_window seg = conn_advertised_window c"

definition answers :: "conn \<Rightarrow> conn_event list \<Rightarrow> bool" where
  "answers c evs \<longleftrightarrow> (\<exists>pre seg dst. evs = pre @ [Transmit seg dst] \<and> plain_ack c seg \<and> (\<forall>seg dst. Transmit seg dst \<notin> set pre))"

lemma send_ack_answers:
  assumes "calm c"
  obtains evs c' where "conn_send_ack now c = c'" and "c_out c' = c_out c @ evs" and "answers c' evs" and "calm c'" and "c_recv c' = c_recv c"
    and "c_send c' = c_send c" and "c_retx c' = c_retx c" and "c_peer_window c' = c_peer_window c" and "limits c' = limits c"
proof -
  let ?c = "c\<lparr>c_delayed_ack_at := None\<rparr>"
  let ?seg = "conn_segment (sq_nxt (c_send c)) FLAG_ACK [] (Some (rq_nxt (c_recv c))) None ?c"
  have run: "conn_send_ack now c = conn_transmit (sq_nxt (c_send c)) FLAG_ACK [] now (Some (rq_nxt (c_recv c))) None True ?c"
    using assms by (simp add: calm_def conn_send_ack_def Let_def)
  let ?d = "conn_transmit (sq_nxt (c_send c)) FLAG_ACK [] now (Some (rq_nxt (c_recv c))) None True ?c"
  have retx: "c_retx ?d = c_retx c" by simp
  have "seg_window ?seg = conn_advertised_window ?d" by (rule advertised_cong) simp_all
  then have "plain_ack ?d ?seg" by (simp add: plain_ack_def conn_segment_def)
  then have "answers ?d [Transmit ?seg (cfg_remote_ip (c_cfg c))]" by (auto simp: answers_def)
  moreover have "calm ?d" using assms retx by (simp add: calm_def)
  ultimately show thesis by (intro that [OF run]) (simp_all add: limits_def)
qed

lemma push_bit_pos: "0 < w \<Longrightarrow> 0 < push_bit n (w :: int)"
  by (simp add: push_bit_eq_mult)

lemma wraps: "seg_payload seg = data \<Longrightarrow> seg_flags seg = FLAG_ACK OR FLAG_PSH \<Longrightarrow>
    seg_seq_len seg = len data \<and> is_ack seg \<and> \<not> is_fin seg \<and> \<not> is_rst seg \<and> \<not> is_syn seg"
  "seg_payload seg = [] \<Longrightarrow> seg_flags seg = FLAG_ACK \<Longrightarrow>
    seg_seq_len seg = 0 \<and> is_ack seg \<and> \<not> is_fin seg \<and> \<not> is_rst seg \<and> \<not> is_syn seg"
  by (simp_all add: seg_seq_len_def is_ack_def is_fin_def is_rst_def is_syn_def flag_defs)

lemma seg_end: "seg_seq_end seg = seq_add (seg_seq seg) (seg_seq_len seg)"
  by (simp add: seg_seq_end_def seq_add_def)

lemma calm_on_segment:
  assumes "calm c" and "\<not> is_rst seg" and "\<not> is_syn seg"
  shows "conn_on_segment seg src rnd now c
     = Inr (conn_on_synchronised_segment seg now (c\<lparr>c_segments_received := c_segments_received c + 1, c_last_activity := now\<rparr>), None)"
  using assms by (simp add: calm_def conn_on_segment_def Let_def)

lemma receives:
  assumes "at_rest c" and "copy data d seg" and "sq_una (c_send d) = rq_nxt (c_recv c)" and "rq_nxt (c_recv d) = sq_una (c_send c)"
    and "data \<noteq> []" and "len data \<le> rq_capacity (c_recv c)"
  obtains c' evs where "conn_on_segment seg src rnd now c = Inr (c', None)" and "holds data c'" and "c_out c' = c_out c @ evs" and "answers c' evs"
    and "rq_nxt (c_recv c') = seq_add (rq_nxt (c_recv c)) (len data)" and "sq_una (c_send c') = sq_una (c_send c)" and "limits c' = limits c"
proof -
  let ?c = "c\<lparr>c_segments_received := c_segments_received c + 1, c_last_activity := now\<rparr>"
  have r: "calm c" "sent_all c" "unread (c_recv c) = []" using assms(1) by (simp_all add: at_rest_def)
  have s: "seg_flags seg = FLAG_ACK OR FLAG_PSH" "seg_seq seg = rq_nxt (c_recv c)" "seg_ack seg = sq_una (c_send c)" "seg_payload seg = data"
    "0 < seg_window seg" using assms(2-4) by (simp_all add: copy_def)
  note f = wraps(1) [OF s(4,1)]
  have inv: "recv_inv (c_recv c)" "rq_capacity (c_recv c) < SEQ_HALF" "ro_data (rq_ooo (c_recv c)) = []" using r(1) by (simp_all add: calm_def)
  then have v: "valid_seq (rq_nxt (c_recv c))" "0 < rq_capacity (c_recv c)" by (simp_all add: recv_inv_def)
  have half: "0 < len data" "len data < SEQ_HALF" using assms(5,6) inv(2) by simp_all
  have acceptable: "conn_acceptable seg ?c"
    using f s v seq_ahead(3) [OF v(1,2) inv(2)] seq_ahead(1) [OF v(1) half]
    by (simp add: conn_acceptable_def Let_def seg_end assms(5))
  obtain p d' where ack: "conn_process_ack seg now ?c
      = ?c\<lparr>c_peer_window := push_bit (nat (c_snd_wscale ?c)) (seg_window seg), c_persist_at := p, c_persist_delay := d'\<rparr>"
  proof (rule process_nothing_new)
    show "sent_all ?c" using r(2) by (simp add: sent_all_def)
    show "seg_ack seg = sq_una (c_send ?c)" using s(3) by simp
  qed
  define c1 where "c1 = ?c\<lparr>c_peer_window := push_bit (nat (c_snd_wscale ?c)) (seg_window seg), c_persist_at := p, c_persist_delay := d'\<rparr>"
  have 1: "c_fin_seq c1 = None" "c_recv c1 = c_recv c" "c_cfg c1 = c_cfg c" "c_send c1 = c_send c" "c_out c1 = c_out c" "c_retx c1 = c_retx c"
    "c_peer_mss c1 = c_peer_mss c" "c_reno c1 = c_reno c" "0 < c_peer_window c1" "\<not> cfg_delayed_ack (c_cfg c)" "calm c1"
    using r(1) s(5) by (simp_all add: c1_def calm_def push_bit_pos)
  have insert: "ReceiveQueue_insert (c_recv c) (rq_nxt (c_recv c)) data = (ReceiveQueue_extend (c_recv c) data, len data)"
    by (rule insert_next) (use inv assms(5,6) calm_window(1) [OF r(1,3)] in simp_all)
  define c2 where "c2 = conn_notify_data (c1\<lparr>c_recv := ReceiveQueue_extend (c_recv c) data, c_bytes_received := c_bytes_received c1 + len data\<rparr>)"
  have "conn_maybe_advance_after_ack seg now c1 = c1" using 1(1) by (simp add: conn_maybe_advance_after_ack_def)
  moreover have "conn_handle_data seg now c1 = conn_send_ack now c2"
    using s(2,4) assms(5) half(1) 1(2,3,10) insert by (simp add: conn_handle_data_def Let_def) (simp add: c2_def 1)
  ultimately have "conn_on_synchronised_segment seg now ?c = conn_send_ack now c2"
    using f s(4) assms(5) acceptable unfolding conn_on_synchronised_segment_def Let_def ack c1_def [symmetric] by simp
  then have run: "conn_on_segment seg src rnd now c = Inr (conn_send_ack now c2, None)"
    using calm_on_segment [OF r(1), of seg src rnd now] f by simp
  obtain ns where 2: "c_out c2 = c_out c @ ns" "\<forall>seg dst. Transmit seg dst \<notin> set ns"
    by (cases "cfg_on_data (c_cfg c)") (auto simp: c2_def conn_notify_data_def conn_emit_def 1)
  have ext: "recv_inv (ReceiveQueue_extend (c_recv c) data)" "rq_ooo (ReceiveQueue_extend (c_recv c) data) = rq_ooo (c_recv c)"
    "rq_capacity (ReceiveQueue_extend (c_recv c) data) = rq_capacity (c_recv c)"
    using recv_inv_extend [OF inv(1)] calm_window(1) [OF r(1,3)] assms(6) by simp_all (simp_all add: ReceiveQueue_extend_def)
  have 3: "c_recv c2 = ReceiveQueue_extend (c_recv c) data" "c_send c2 = c_send c" "c_retx c2 = c_retx c" "c_peer_window c2 = c_peer_window c1"
    "limits c2 = limits c" "calm c2"
    using 1 ext by (simp_all add: c2_def conn_notify_data_def conn_emit_def limits_def calm_def)
  obtain evs c' where run': "conn_send_ack now c2 = c'" and out: "c_out c' = c_out c2 @ evs" "answers c' evs" and 4: "calm c'" "c_recv c' = c_recv c2"
    "c_send c' = c_send c2" "c_retx c' = c_retx c2" "c_peer_window c' = c_peer_window c2" "limits c' = limits c2"
    by (rule send_ack_answers [OF 3(6), of now])
  have "unread (c_recv c') = data" using unread_extend [OF inv(1)] 4(2) 3(1) r(3) by simp
  then have "holds data c'" using 4 3 1(9) r(2) by (simp add: holds_def sent_all_def)
  moreover have "c_out c' = c_out c @ (ns @ evs)" "answers c' (ns @ evs)" using out 2 by (fastforce simp: answers_def)+
  ultimately show thesis using run run' 4 3 by (intro that [of c' "ns @ evs"]) (simp_all add: ReceiveQueue_extend_def)
qed

text \<open>A copy of data the receiver already has is acknowledged again.\<close>

lemma receives_again:
  assumes "holds data c" and "copy data d seg" and "rq_nxt (c_recv c) = seq_add (sq_una (c_send d)) (len data)" and "data \<noteq> []"
  obtains c' evs where "conn_on_segment seg src rnd now c = Inr (c', None)" and "holds data c'" and "c_out c' = c_out c @ evs" and "answers c' evs"
    and "rq_nxt (c_recv c') = rq_nxt (c_recv c)" and "sq_una (c_send c') = sq_una (c_send c)" and "limits c' = limits c"
proof -
  let ?c = "c\<lparr>c_segments_received := c_segments_received c + 1, c_last_activity := now\<rparr>"
  have h: "calm c" "sent_all c" "unread (c_recv c) = data" "0 < c_peer_window c" using assms(1) by (simp_all add: holds_def)
  have s: "seg_flags seg = FLAG_ACK OR FLAG_PSH" "seg_payload seg = data" "seg_seq seg = sq_una (c_send d)" using assms(2) by (simp_all add: copy_def)
  note f = wraps(1) [OF s(2,1)]
  have cap: "rq_capacity (c_recv c) \<noteq> 0" using h(1) by (auto simp: calm_def recv_inv_def)
  have "\<not> conn_acceptable seg ?c"
    using f s h(1) assms(3,4) cap by (simp add: calm_def conn_acceptable_def Let_def seg_end seq_same)
  then have run: "conn_on_segment seg src rnd now c = Inr (conn_send_ack now ?c, None)"
    using calm_on_segment [OF h(1), of seg src rnd now] f by (simp add: conn_on_synchronised_segment_def)
  have "calm ?c" using h(1) by (simp add: calm_def)
  then obtain evs c' where run': "conn_send_ack now ?c = c'" and out: "c_out c' = c_out ?c @ evs" "answers c' evs" and 4: "calm c'" "c_recv c' = c_recv ?c"
    "c_send c' = c_send ?c" "c_retx c' = c_retx ?c" "c_peer_window c' = c_peer_window ?c" "limits c' = limits ?c"
    by (rule send_ack_answers)
  have "holds data c'" using 4 h by (simp add: holds_def sent_all_def)
  then show thesis using run run' out 4 by (intro that [of c' evs]) (simp_all add: limits_def)
qed

text \<open>Reading takes all of it, and announces the window.\<close>

lemma reads:
  assumes "holds data c" and "data \<noteq> []" and "len data \<le> n"
  obtains c' evs where "conn_recv n now c = (c', data)" and "at_rest c'" and "c_out c' = c_out c @ evs" and "answers c' evs" and "0 < conn_advertised_window c'"
    and "rq_nxt (c_recv c') = rq_nxt (c_recv c)" and "sq_una (c_send c') = sq_una (c_send c)" and "limits c' = limits c"
proof -
  have h: "calm c" "sent_all c" "unread (c_recv c) = data" "0 < c_peer_window c" using assms(1) by (simp_all add: holds_def)
  have inv: "recv_inv (c_recv c)" using h(1) by (simp add: calm_def)
  have n: "0 \<le> n" using assms(3) by linarith
  obtain q d where q: "ReceiveQueue_read (c_recv c) n = (q, d)" by (cases "ReceiveQueue_read (c_recv c) n")
  note read = unread_read [OF inv n]
  have d: "d = data" "unread q = []" "rq_nxt q = rq_nxt (c_recv c)" "rq_ooo q = rq_ooo (c_recv c)"
    using read q h(3) assms(3) by (simp_all add: nat_le_iff)
  have cap: "rq_capacity q = rq_capacity (c_recv c)" "recv_inv q" using read_capacity [of "c_recv c" n] recv_inv_read [OF inv, of n] q by simp_all
  let ?c = "c\<lparr>c_recv := q\<rparr>"
  have "ReceiveQueue_available (c_recv c) \<noteq> 0" using unread_length [OF inv] h(3) assms(2) by auto
  then have run: "conn_recv n now c = (conn_send_ack now ?c, data)"
    using q d(1) assms(2) h(1) by (simp add: conn_recv_def calm_def Let_def)
  have "calm ?c" using h(1) d cap by (simp add: calm_def)
  then obtain evs c' where run': "conn_send_ack now ?c = c'" and out: "c_out c' = c_out ?c @ evs" "answers c' evs" and 4: "calm c'" "c_recv c' = c_recv ?c"
    "c_send c' = c_send ?c" "c_retx c' = c_retx ?c" "c_peer_window c' = c_peer_window ?c" "limits c' = limits ?c"
    by (rule send_ack_answers)
  have rest: "at_rest c'" using 4 h(2,4) d(2) by (simp add: at_rest_def sent_all_def)
  have "0 < conn_advertised_window c'" using calm_window(2) [OF 4(1)] 4(2) d(2) by simp
  then show thesis using run run' out 4 rest d(3) cap by (intro that [of c' evs]) (simp_all add: limits_def)
qed


section \<open>Acknowledgements\<close>

lemma new_ack_delayed: "c_delayed_ack_at (new_ack_part seg now c) = c_delayed_ack_at c"
  and new_ack_scale: "c_snd_wscale (new_ack_part seg now c) = c_snd_wscale c"
  by (simp_all add: new_ack_part_def conn_update_peer_window_def conn_arm_retransmit_timer_def Let_def split: prod.splits)

text \<open>The sender, once the data is acknowledged, has nothing in flight; further acknowledgements only set the window.\<close>

definition done_with :: "conn \<Rightarrow> conn \<Rightarrow> bool" where
  "done_with c c' \<longleftrightarrow> calm c' \<and> sent_all c' \<and> c_recv c' = c_recv c \<and> limits c' = limits c \<and> c_out c' = c_out c \<and> c_snd_wscale c' = c_snd_wscale c"

lemma ack_accepted:
  assumes "calm c" and "seg_flags seg = FLAG_ACK" and "seg_payload seg = []" and "seg_seq seg = rq_nxt (c_recv c)"
  shows "conn_on_segment seg src rnd now c
     = Inr (conn_process_ack seg now (c\<lparr>c_segments_received := c_segments_received c + 1, c_last_activity := now\<rparr>), None)"
proof -
  let ?c = "c\<lparr>c_segments_received := c_segments_received c + 1, c_last_activity := now\<rparr>"
  note f = wraps(2) [OF assms(3,2)]
  have inv: "recv_inv (c_recv c)" "rq_capacity (c_recv c) < SEQ_HALF" "c_fin_seq c = None" "c_state c = ESTABLISHED"
    using assms(1) by (simp_all add: calm_def)
  then have v: "valid_seq (rq_nxt (c_recv c))" "0 < rq_capacity (c_recv c)" by (simp_all add: recv_inv_def)
  have "conn_acceptable seg ?c"
    using f assms(3,4) v seq_ahead(3) [OF v inv(2)] by (simp add: conn_acceptable_def Let_def seq_same)
  moreover have "c_fin_seq (conn_process_ack seg now ?c) = None" using inv(3) by (simp add: process_ack_eq)
  ultimately have "conn_on_synchronised_segment seg now ?c = conn_process_ack seg now ?c"
    using f assms(3) by (simp add: conn_on_synchronised_segment_def conn_maybe_advance_after_ack_def)
  then show ?thesis using calm_on_segment [OF assms(1), of seg src rnd now] f by simp
qed

lemma acknowledged:
  assumes "calm c" and "waits data n c" and "0 < len data" and "len data < SEQ_HALF" and "seg_flags seg = FLAG_ACK" and "seg_payload seg = []"
    and "seg_seq seg = rq_nxt (c_recv c)" and "seg_ack seg = seq_add (sq_una (c_send c)) (len data)"
  obtains c' where "conn_on_segment seg src rnd now c = Inr (c', None)" and "done_with c c'" and "sq_una (c_send c') = seg_ack seg"
    and "c_peer_window c' = push_bit (nat (c_snd_wscale c)) (seg_window seg)"
proof -
  let ?c = "c\<lparr>c_segments_received := c_segments_received c + 1, c_last_activity := now\<rparr>"
  obtain e where w: "valid_seq (sq_una (c_send c))" "sq_nxt (c_send c) = seg_ack seg" "sq_buf (c_send c) = data"
    and e: "segs c = [e]" "os_seq e = sq_una (c_send c)" "os_flags e = FLAG_ACK OR FLAG_PSH" "os_payload e = data"
    using assms(2,8) by (auto simp: waits_def)
  note ahead = seq_ahead [OF w(1) assms(3,4), folded assms(8)]
  have q: "SendQueue_acknowledge (c_send c) (seg_ack seg) = ((c_send c)\<lparr>sq_una := seg_ack seg, sq_buf := []\<rparr>, len data)"
    using ahead(1,2) w(2,3) by (simp add: SendQueue_acknowledge_new seq_same)
  have "os_seq_end e = seg_ack seg" using e assms(8) by (simp add: os_seq_end_def os_seq_len_def flag_defs seq_add_def SEQ_MASK_def)
  then have left: "filter (\<lambda>e. \<not> seq_le (os_seq_end e) (seg_ack seg)) (segs c) = []" using e(1) by (simp add: seq_same)
  let ?d = "new_ack_part seg now ?c"
  have run: "conn_on_segment seg src rnd now c = Inr (conn_flush now ?d, None)"
    using ack_accepted [OF assms(1,5-7)] ahead(1) by (simp add: process_ack_eq ack_part_def)
  have d: "sent_all ?d" "c_peer_window ?d = push_bit (nat (c_snd_wscale c)) (seg_window seg)"
    "sq_una (c_send ?d) = seg_ack seg" "calm ?d" "c_recv ?d = c_recv c" "limits ?d = limits c" "c_out ?d = c_out c" "c_snd_wscale ?d = c_snd_wscale c"
    using q left ahead(4) w(2) assms(1)
    by (simp_all add: sent_all_def calm_def limits_def new_ack_delayed new_ack_scale)
  obtain p where "conn_flush now ?d = ?d\<lparr>c_persist_at := None, c_persist_delay := p\<rparr> \<or> conn_flush now ?d = ?d"
    by (rule flush_nothing [OF d(1)])
  then have "done_with c (conn_flush now ?d)" "sq_una (c_send (conn_flush now ?d)) = seg_ack seg"
    "c_peer_window (conn_flush now ?d) = push_bit (nat (c_snd_wscale c)) (seg_window seg)"
    using d by (auto simp: done_with_def sent_all_def calm_def limits_def)
  then show thesis by (rule that [OF run])
qed

lemma acknowledged_again:
  assumes "calm c" and "sent_all c" and "seg_flags seg = FLAG_ACK" and "seg_payload seg = []"
    and "seg_seq seg = rq_nxt (c_recv c)" and "seg_ack seg = sq_una (c_send c)"
  obtains c' where "conn_on_segment seg src rnd now c = Inr (c', None)" and "done_with c c'" and "sq_una (c_send c') = sq_una (c_send c)"
    and "c_peer_window c' = push_bit (nat (c_snd_wscale c)) (seg_window seg)"
proof -
  let ?c = "c\<lparr>c_segments_received := c_segments_received c + 1, c_last_activity := now\<rparr>"
  have "sent_all ?c" "seg_ack seg = sq_una (c_send ?c)" using assms(2,6) by (simp_all add: sent_all_def)
  then obtain p d where "conn_process_ack seg now ?c
      = ?c\<lparr>c_peer_window := push_bit (nat (c_snd_wscale ?c)) (seg_window seg), c_persist_at := p, c_persist_delay := d\<rparr>"
    by (rule process_nothing_new)
  then have run: "conn_on_segment seg src rnd now c
      = Inr (?c\<lparr>c_peer_window := push_bit (nat (c_snd_wscale ?c)) (seg_window seg), c_persist_at := p, c_persist_delay := d\<rparr>, None)"
    using ack_accepted [OF assms(1,3-5)] by simp
  show thesis by (rule that [OF run]) (use assms(1,2) in \<open>simp_all add: done_with_def sent_all_def calm_def limits_def\<close>)
qed


section \<open>The exchange\<close>

text \<open>A network that delivers what it is given, in order: every segment among the events is handed to the connection.\<close>

fun hear :: "time \<Rightarrow> conn_event list \<Rightarrow> conn \<Rightarrow> py_error + conn" where
  "hear now [] c = Inr c"
| "hear now (Transmit seg dst # evs) c = sum_bind (conn_on_segment seg None 0 now c) (\<lambda>(c', child). hear now evs c')"
| "hear now (NotifyEstablished # evs) c = hear now evs c"
| "hear now (NotifyData # evs) c = hear now evs c"
| "hear now (NotifyClosed # evs) c = hear now evs c"
| "hear now (NotifyReset # evs) c = hear now evs c"

text \<open>Attempts that fail: the latest copy is lost, or it arrives and the answer to it is lost; then the sender's timers
  run. An attempt is the time and whether the copy arrives.\<close>

fun attempts :: "(time \<times> bool) list \<Rightarrow> conn \<times> conn \<Rightarrow> py_error + conn \<times> conn" where
  "attempts [] (a, b) = Inr (a, b)"
| "attempts ((t, arrives) # fates) (a, b) =
     sum_bind (if arrives then hear t [last (c_out a)] b else Inr b) (\<lambda>b'. attempts fates (conn_on_tick t a, b'))"

text \<open>One exchange: the application sends, some attempts fail, the next copy arrives, the receiver's application reads,
  and everything the receiver has transmitted since comes back.\<close>

definition transfer :: "bytes \<Rightarrow> (time \<times> bool) list \<Rightarrow> time \<Rightarrow> conn \<times> conn \<Rightarrow> py_error + (conn \<times> conn) \<times> bytes" where
  "transfer data fates now ab =
     sum_bind (conn_send data now (fst ab)) (\<lambda>(a1, taken).
     sum_bind (attempts fates (a1, snd ab)) (\<lambda>(a2, b1).
     sum_bind (hear now [last (c_out a2)] b1) (\<lambda>b2.
     let (b3, out) = conn_recv (len data) now b2
     in sum_bind (hear now (drop (length (c_out b1)) (c_out b3)) a2) (\<lambda>a3. Inr ((a3, b3), out)))))"

text \<open>Any number of exchanges, in either direction; the flag says whether the left side sends. The result holds what
  was read in each.\<close>

fun transfers :: "(bool \<times> bytes \<times> (time \<times> bool) list \<times> time) list \<Rightarrow> conn \<times> conn \<Rightarrow> py_error + (conn \<times> conn) \<times> bytes list" where
  "transfers [] ab = Inr (ab, [])"
| "transfers ((rightwards, data, fates, now) # jobs) (a, b) =
     sum_bind (transfer data fates now (if rightwards then (a, b) else (b, a))) (\<lambda>((a', b'), out).
     sum_bind (transfers jobs (if rightwards then (a', b') else (b', a'))) (\<lambda>(ab, rest). Inr (ab, out # rest)))"

definition carriable :: "conn \<Rightarrow> conn \<Rightarrow> bool \<times> bytes \<times> (time \<times> bool) list \<times> time \<Rightarrow> bool" where
  "carriable a b job \<longleftrightarrow> (case job of (rightwards, data, fates, now) \<Rightarrow>
     (if rightwards then fits data a b else fits data b a) \<and> length fates \<le> 15)"

definition ready :: "conn \<Rightarrow> conn \<Rightarrow> bool" where
  "ready a b \<longleftrightarrow> at_rest a \<and> at_rest b \<and> sq_una (c_send a) = rq_nxt (c_recv b) \<and> sq_una (c_send b) = rq_nxt (c_recv a)"

text \<open>The data is on its way: the receiver is still at rest, or has it already.\<close>

definition pending :: "bytes \<Rightarrow> nat \<Rightarrow> conn \<Rightarrow> conn \<Rightarrow> bool" where
  "pending data n a b \<longleftrightarrow> calm a \<and> waits data n a \<and> unread (c_recv a) = [] \<and> rq_nxt (c_recv a) = sq_una (c_send b)
     \<and> data \<noteq> [] \<and> len data \<le> rq_capacity (c_recv b)
     \<and> (at_rest b \<and> sq_una (c_send a) = rq_nxt (c_recv b)
        \<or> holds data b \<and> rq_nxt (c_recv b) = seq_add (sq_una (c_send a)) (len data))"

lemma capacity_limits: "limits b' = limits b \<Longrightarrow> rq_capacity (c_recv b') = rq_capacity (c_recv b)"
  by (simp add: limits_def)

lemma copy_arrives:
  assumes "pending data n a b"
  obtains b' evs where "hear now [last (c_out a)] b = Inr b'" and "pending data n a b'" and "holds data b'"
    and "rq_nxt (c_recv b') = seq_add (sq_una (c_send a)) (len data)" and "c_out b' = c_out b @ evs" and "answers b' evs" and "limits b' = limits b"
proof -
  have p: "rq_nxt (c_recv a) = sq_una (c_send b)" "data \<noteq> []" "len data \<le> rq_capacity (c_recv b)" using assms by (simp_all add: pending_def)
  obtain pre seg dst where out: "c_out a = pre @ [Transmit seg dst]" and copy: "copy data a seg"
    using assms by (auto simp: pending_def waits_def)
  have run: "hear now [last (c_out a)] b = sum_bind (conn_on_segment seg None 0 now b) (\<lambda>(c', child). Inr c')" by (simp add: out)
  have "\<exists>b' evs. conn_on_segment seg None 0 now b = Inr (b', None) \<and> holds data b' \<and> c_out b' = c_out b @ evs \<and> answers b' evs
      \<and> rq_nxt (c_recv b') = seq_add (sq_una (c_send a)) (len data) \<and> sq_una (c_send b') = sq_una (c_send b) \<and> limits b' = limits b"
  proof (cases "at_rest b \<and> sq_una (c_send a) = rq_nxt (c_recv b)")
    case True
    then show ?thesis by (auto intro: receives [OF _ copy _ p, of None 0 now])
  next
    case False
    then have "holds data b" and nxt: "rq_nxt (c_recv b) = seq_add (sq_una (c_send a)) (len data)" using assms by (auto simp: pending_def)
    then show ?thesis by (auto intro: receives_again [OF _ copy nxt p(2), of None 0 now])
  qed
  then obtain b' evs where b': "conn_on_segment seg None 0 now b = Inr (b', None)" "holds data b'" "c_out b' = c_out b @ evs" "answers b' evs"
    "rq_nxt (c_recv b') = seq_add (sq_una (c_send a)) (len data)" "sq_una (c_send b') = sq_una (c_send b)" "limits b' = limits b" by blast
  have "pending data n a b'" using assms b' capacity_limits [OF b'(7)] by (simp add: pending_def)
  then show thesis using that run b' by simp
qed

lemma attempts_pending:
  assumes "pending data n a b" and "n + length fates \<le> 15"
  shows "\<exists>a' b'. attempts fates (a, b) = Inr (a', b') \<and> pending data (n + length fates) a' b'
    \<and> sq_una (c_send a') = sq_una (c_send a) \<and> c_recv a' = c_recv a \<and> limits a' = limits a \<and> limits b' = limits b"
  using assms
proof (induction fates arbitrary: n a b)
  case (Cons f fates)
  obtain t arrives where f: "f = (t, arrives)" by (cases f)
  obtain b1 where b1: "(if arrives then hear t [last (c_out a)] b else Inr b) = Inr b1" "pending data n a b1" "limits b1 = limits b"
    by (cases arrives; rule copy_arrives [OF Cons.prems(1), of t]) (use Cons.prems(1) in auto)
  have w: "calm a" "waits data n a" "unread (c_recv a) = []" using b1(2) by (simp_all add: pending_def)
  have n: "n < 15" using Cons.prems(2) by simp
  note r = repeats [OF w(1,2) n w(3), of t]
  have "pending data (Suc n) (conn_on_tick t a) b1" using b1(2) r by (simp add: pending_def)
  from Cons.IH [OF this] Cons.prems(2) obtain a' b' where "attempts fates (conn_on_tick t a, b1) = Inr (a', b')"
    "pending data (Suc n + length fates) a' b'" "sq_una (c_send a') = sq_una (c_send a)" "c_recv a' = c_recv a" "limits a' = limits a" "limits b' = limits b1"
    using r by auto
  then show ?case using b1(1,3) f by (intro exI [of _ a'] exI [of _ b']) simp
qed simp

lemma hear_answers: "answers d evs \<Longrightarrow> \<exists>seg. plain_ack d seg
    \<and> hear now (evs @ rest) c = sum_bind (conn_on_segment seg None 0 now c) (\<lambda>(c', child). hear now rest c')"
proof -
  assume "answers d evs"
  then obtain pre seg dst where evs: "evs = pre @ [Transmit seg dst]" "plain_ack d seg" "\<forall>seg dst. Transmit seg dst \<notin> set pre"
    by (auto simp: answers_def)
  have "hear now (pre @ more_evs) c = hear now more_evs c" for more_evs
    using evs(3)
  proof (induction pre)
    case (Cons ev pre)
    then show ?case by (cases ev) auto
  qed simp
  then show ?thesis using evs(1,2) by (intro exI [of _ seg]) simp
qed

lemma transfer_ready:
  assumes "ready a b" and "fits data a b" and "length fates \<le> 15"
  shows "\<exists>a' b'. transfer data fates now (a, b) = Inr ((a', b'), data) \<and> ready a' b' \<and> limits a' = limits a \<and> limits b' = limits b"
proof -
  have r: "at_rest a" "at_rest b" "sq_una (c_send a) = rq_nxt (c_recv b)" "sq_una (c_send b) = rq_nxt (c_recv a)"
    using assms(1) by (simp_all add: ready_def)
  have d: "data \<noteq> []" "len data \<le> rq_capacity (c_recv b)" "len data \<le> 2 ^ 20" using assms(2) by (simp_all add: fits_def)
  have half: "0 < len data" "len data < SEQ_HALF" using d(1,3) by (simp_all add: SEQ_HALF_def)
  obtain a1 where a1: "conn_send data now a = Inr (a1, len data)" "calm a1" "waits data 0 a1" "c_recv a1 = c_recv a"
    "sq_una (c_send a1) = sq_una (c_send a)" "limits a1 = limits a" by (rule sends [OF r(1) assms(2)])
  have "pending data 0 a1 b" using a1 r d by (simp add: pending_def at_rest_def)
  then have "\<exists>a2 b1. attempts fates (a1, b) = Inr (a2, b1) \<and> pending data (length fates) a2 b1
      \<and> sq_una (c_send a2) = sq_una (c_send a1) \<and> c_recv a2 = c_recv a1 \<and> limits a2 = limits a1 \<and> limits b1 = limits b"
    using attempts_pending [of data 0 a1 b fates] assms(3) by simp
  then obtain a2 b1 where 2: "attempts fates (a1, b) = Inr (a2, b1)" "pending data (length fates) a2 b1"
    "sq_una (c_send a2) = sq_una (c_send a)" "c_recv a2 = c_recv a" "limits a2 = limits a" "limits b1 = limits b" unfolding a1(4-6) by blast
  obtain b2 evs where b2: "hear now [last (c_out a2)] b1 = Inr b2" "pending data (length fates) a2 b2" "holds data b2"
    "rq_nxt (c_recv b2) = seq_add (sq_una (c_send a2)) (len data)" "c_out b2 = c_out b1 @ evs" "answers b2 evs" "limits b2 = limits b1"
    by (rule copy_arrives [OF 2(2), of now])
  obtain b3 evs' where b3: "conn_recv (len data) now b2 = (b3, data)" "at_rest b3" "c_out b3 = c_out b2 @ evs'" "answers b3 evs'"
    "0 < conn_advertised_window b3" "rq_nxt (c_recv b3) = rq_nxt (c_recv b2)" "sq_una (c_send b3) = sq_una (c_send b2)" "limits b3 = limits b2"
    by (rule reads [OF b2(3) d(1) order_refl, of now])
  have w: "calm a2" "waits data (length fates) a2" "rq_nxt (c_recv a2) = sq_una (c_send b2)" using b2(2) by (simp_all add: pending_def)
  obtain seg where seg: "plain_ack b2 seg" and h1: "hear now (evs @ evs') a2 = sum_bind (conn_on_segment seg None 0 now a2) (\<lambda>(c', child). hear now evs' c')"
    using hear_answers [OF b2(6)] by blast
  have s: "sq_nxt (c_send b2) = sq_una (c_send b2)" "sq_nxt (c_send b3) = sq_una (c_send b3)"
    using b2(3) b3(2) by (simp_all add: holds_def at_rest_def sent_all_def)
  obtain a3 where a3: "conn_on_segment seg None 0 now a2 = Inr (a3, None)" "done_with a2 a3" "sq_una (c_send a3) = seg_ack seg"
    by (rule acknowledged [OF w(1,2) half, of seg None 0 now]) (use seg s w(3) b2(4) in \<open>simp_all add: plain_ack_def\<close>)
  obtain seg' where seg': "plain_ack b3 seg'" and h2: "hear now (evs' @ []) a3 = sum_bind (conn_on_segment seg' None 0 now a3) (\<lambda>(c', child). hear now [] c')"
    using hear_answers [OF b3(4)] by blast
  have 3: "calm a3" "sent_all a3" "c_recv a3 = c_recv a2" "limits a3 = limits a2" using a3(2) by (simp_all add: done_with_def)
  obtain a4 where a4: "conn_on_segment seg' None 0 now a3 = Inr (a4, None)" "done_with a3 a4" "sq_una (c_send a4) = sq_una (c_send a3)"
    "c_peer_window a4 = push_bit (nat (c_snd_wscale a3)) (seg_window seg')"
    by (rule acknowledged_again [OF 3(1,2), of seg' None 0 now])
      (use seg seg' s w(3) 3(3) a3(3) b3(6,7) in \<open>simp_all add: plain_ack_def\<close>)
  have "0 < c_peer_window a4" using a4(4) seg' b3(5) by (simp add: push_bit_pos plain_ack_def)
  then have "at_rest a4" using a4(2) 3(3) 2(4) r(1) by (simp add: at_rest_def done_with_def)
  moreover have "sq_una (c_send a4) = rq_nxt (c_recv b3)" using a4(3) a3(3) seg b3(6) by (simp add: plain_ack_def)
  moreover have "sq_una (c_send b3) = rq_nxt (c_recv a4)" using a4(2) 3(3) w(3) b3(7) by (simp add: done_with_def)
  ultimately have "ready a4 b3" using b3(2) by (simp add: ready_def)
  moreover have "transfer data fates now (a, b) = Inr ((a4, b3), data)"
    using a1(1) 2(1) b2(1,5) b3(1,3) h1 h2 a3(1) a4(1) by (simp add: transfer_def Let_def)
  moreover have "limits a4 = limits a" "limits b3 = limits b" using a4(2) 3(4) 2(5,6) b2(7) b3(8) by (simp_all add: done_with_def)
  ultimately show ?thesis by blast
qed

lemma ready_sym: "ready a b \<Longrightarrow> ready b a"
  by (simp add: ready_def)

lemma transfers_ready:
  assumes "ready a b" and "list_all (carriable a b) jobs"
  shows "\<exists>a' b'. transfers jobs (a, b) = Inr ((a', b'), map (fst \<circ> snd) jobs) \<and> ready a' b'"
  using assms
proof (induction jobs arbitrary: a b)
  case (Cons job jobs)
  obtain r data fates now where job: "job = (r, data, fates, now)" by (cases job)
  have ok: "if r then fits data a b else fits data b a" "length fates \<le> 15" using Cons.prems(2) job by (simp_all add: carriable_def)
  have "\<exists>a1 b1. transfer data fates now (if r then (a, b) else (b, a)) = Inr (if r then (a1, b1) else (b1, a1), data)
      \<and> ready a1 b1 \<and> limits a1 = limits a \<and> limits b1 = limits b"
  proof (cases r)
    case True
    then show ?thesis using transfer_ready [OF Cons.prems(1) _ ok(2)] ok(1) by simp
  next
    case False
    then show ?thesis using transfer_ready [OF ready_sym [OF Cons.prems(1)] _ ok(2), of data now] ok(1) ready_sym by fastforce
  qed
  then obtain a1 b1 where 1: "transfer data fates now (if r then (a, b) else (b, a)) = Inr (if r then (a1, b1) else (b1, a1), data)"
    "ready a1 b1" "limits a1 = limits a" "limits b1 = limits b" by blast
  have "carriable a1 b1 j = carriable a b j" for j
    using fits_limits [OF 1(3,4)] fits_limits [OF 1(4,3)] by (simp add: carriable_def split: prod.split)
  then have "list_all (carriable a1 b1) jobs" using Cons.prems(2) by (simp add: list_all_def)
  from Cons.IH [OF 1(2) this] obtain a' b' where 2: "transfers jobs (a1, b1) = Inr ((a', b'), map (fst \<circ> snd) jobs)" "ready a' b'" by blast
  have "transfers (job # jobs) (a, b) = Inr ((a', b'), map (fst \<circ> snd) (job # jobs))"
    using 1(1) 2(1) job by (cases r) simp_all
  with 2(2) show ?case by blast
qed simp


section \<open>From the handshake on\<close>

lemma fresh_queue:
  assumes "ReceiveQueue_init irs cap = Inr q"
  shows "recv_inv q" and "unread q = []" and "ro_data (rq_ooo q) = []" and "rq_capacity q = cap"
  using recv_inv_init [OF assms] assms
  by (auto simp: ReceiveQueue_init_def ReorderQueue_init_def unread_def split: if_splits)

text \<open>What the configuration must allow: acknowledgements at once, and a receive buffer that can be announced.\<close>

definition talkative :: "conn_config \<Rightarrow> bool" where
  "talkative cfg \<longleftrightarrow> \<not> cfg_delayed_ack cfg \<and> cfg_receive_capacity cfg < SEQ_HALF
     \<and> 0 < drop_bit (cfg_window_scale cfg) (cfg_receive_capacity cfg)"

lemma settled_calm:
  assumes "settled c" and "ReceiveQueue_init irs cap = Inr (c_recv c)" and "talkative (c_cfg c)" and "cap = cfg_receive_capacity (c_cfg c)"
  shows "calm c" and "sent_all c" and "unread (c_recv c) = []"
  using assms fresh_queue [OF assms(2)]
  by (simp_all add: settled_def pristine_def calm_def sent_all_def talkative_def)

lemma handshaken_ready:
  assumes "handshaken ccfg lcfg a b" and "talkative ccfg" and "talkative lcfg"
  shows "ready a b" and "limits a = (ccfg, max (min (cfg_mss lcfg) (cfg_mss ccfg)) 64, cfg_mss ccfg, cfg_send_capacity ccfg, cfg_receive_capacity ccfg)"
    and "snd (limits b) = (max (min (cfg_mss ccfg) (cfg_mss lcfg)) 64, cfg_mss lcfg, cfg_send_capacity lcfg, cfg_receive_capacity lcfg)"
proof -
  obtain ip port where s: "settled a" "settled b" and cfg: "c_cfg a = ccfg"
      "c_cfg b = lcfg\<lparr>cfg_remote_ip := ip, cfg_remote_port := port, cfg_initial_window := None\<rparr>"
    and recv: "ReceiveQueue_init (c_iss b) (cfg_receive_capacity ccfg) = Inr (c_recv a)"
      "ReceiveQueue_init (c_iss a) (cfg_receive_capacity lcfg) = Inr (c_recv b)"
    and win: "c_peer_window a = push_bit (nat (c_snd_wscale a)) (conn_advertised_window b)"
      "c_peer_window b = push_bit (nat (c_snd_wscale b)) (conn_advertised_window a)"
    and mss: "c_peer_mss a = max (min (cfg_mss lcfg) (cfg_mss ccfg)) 64" "c_peer_mss b = max (min (cfg_mss ccfg) (cfg_mss lcfg)) 64"
    by (rule handshaken_ends [OF assms(1)])
  have t: "talkative (c_cfg a)" "cfg_receive_capacity ccfg = cfg_receive_capacity (c_cfg a)" "talkative (c_cfg b)"
    "cfg_receive_capacity lcfg = cfg_receive_capacity (c_cfg b)" using assms(2,3) cfg by (simp_all add: talkative_def)
  note ca = settled_calm [OF s(1) recv(1) t(1,2)] and cb = settled_calm [OF s(2) recv(2) t(3,4)]
  have "0 < c_peer_window a" "0 < c_peer_window b"
    using calm_window(2) [OF ca(1,3)] calm_window(2) [OF cb(1,3)] win by (simp_all add: push_bit_pos)
  then show "ready a b"
    using ca cb s receive_queue_next [OF recv(1)] receive_queue_next [OF recv(2)] by (simp add: ready_def at_rest_def settled_def)
  show "limits a = (ccfg, max (min (cfg_mss lcfg) (cfg_mss ccfg)) 64, cfg_mss ccfg, cfg_send_capacity ccfg, cfg_receive_capacity ccfg)"
    "snd (limits b) = (max (min (cfg_mss ccfg) (cfg_mss lcfg)) 64, cfg_mss lcfg, cfg_send_capacity lcfg, cfg_receive_capacity lcfg)"
    using s cfg mss fresh_queue(4) [OF recv(1)] fresh_queue(4) [OF recv(2)] by (simp_all add: limits_def settled_def pristine_def)
qed

text \<open>A job the two configurations allow: a chunk of at most one segment that both buffers can hold, and at most as many
  failed attempts as the code makes retransmissions.\<close>

definition chunk_fits :: "bytes \<Rightarrow> conn_config \<Rightarrow> conn_config \<Rightarrow> bool" where
  "chunk_fits data sender receiver \<longleftrightarrow> data \<noteq> [] \<and> len data \<le> cfg_mss sender \<and> len data \<le> cfg_mss receiver
     \<and> len data \<le> cfg_send_capacity sender \<and> len data \<le> cfg_receive_capacity receiver \<and> len data \<le> 2 ^ 20"

definition deliverable :: "conn_config \<Rightarrow> conn_config \<Rightarrow> bool \<times> bytes \<times> (time \<times> bool) list \<times> time \<Rightarrow> bool" where
  "deliverable ccfg lcfg job \<longleftrightarrow> (case job of (rightwards, data, fates, now) \<Rightarrow>
     (if rightwards then chunk_fits data ccfg lcfg else chunk_fits data lcfg ccfg) \<and> length fates \<le> 15)"

lemma deliverable_carriable:
  assumes "limits a = (ccfg, max (min (cfg_mss lcfg) (cfg_mss ccfg)) 64, cfg_mss ccfg, cfg_send_capacity ccfg, cfg_receive_capacity ccfg)"
    and "snd (limits b) = (max (min (cfg_mss ccfg) (cfg_mss lcfg)) 64, cfg_mss lcfg, cfg_send_capacity lcfg, cfg_receive_capacity lcfg)"
    and "deliverable ccfg lcfg job"
  shows "carriable a b job"
  using assms by (auto simp: limits_def deliverable_def carriable_def fits_def chunk_fits_def split: if_splits)




section \<open>Both streams\<close>


text \<open>An exchange without losses as a conversation.\<close>

lemma dialogue_exchange:
  assumes "ready a b" and "fits data a b"
  shows "\<exists>a1 b2. dialogue (begin_at a, begin_at b)
     (\<lparr>ep_conn = a1, ep_wrote = data, ep_read = []\<rparr>, \<lparr>ep_conn = b2, ep_wrote = [], ep_read = data\<rparr>)"
proof -
  have r: "at_rest a" "at_rest b" "sq_una (c_send a) = rq_nxt (c_recv b)" "rq_nxt (c_recv a) = sq_una (c_send b)"
    and d: "data \<noteq> []" "len data \<le> rq_capacity (c_recv b)" using assms by (simp_all add: ready_def fits_def)
  obtain a1 where a1: "conn_send data 0 a = Inr (a1, len data)" "waits data 0 a1" "c_recv a1 = c_recv a" "sq_una (c_send a1) = sq_una (c_send a)"
    by (rule sends [OF r(1) assms(2)])
  obtain evs seg dst where out: "c_out a1 = evs @ [Transmit seg dst]" and copy: "copy data a1 seg" using a1(2) by (auto simp: waits_def)
  have "sq_una (c_send a1) = rq_nxt (c_recv b)" "rq_nxt (c_recv a1) = sq_una (c_send b)" using a1(3,4) r(3,4) by simp_all
  then obtain b1 where b1: "conn_on_segment seg None 0 0 b = Inr (b1, None)" "holds data b1"
    using receives [OF r(2) copy _ _ d, of None 0 0] by blast
  obtain b2 where b2: "conn_recv (len data) 0 b1 = (b2, data)" by (rule reads [OF b1(2) d(1) order_refl])
  let ?a = "\<lparr>ep_conn = a1, ep_wrote = data, ep_read = []\<rparr>"
  have "ep_step (transmitted b) (begin_at a) ?a" using ep_write [OF a1(1)] by (simp add: begin_at_def) (metis append_Nil take_all order_refl)
  then have 1: "dialogue (begin_at a, begin_at b) (?a, begin_at b)" using left [OF begins] by (simp add: begin_at_def)
  have "seg \<in> transmitted a1" using out by (auto simp: transmitted_def)
  then have 2: "dialogue (begin_at a, begin_at b) (?a, \<lparr>ep_conn = b1, ep_wrote = [], ep_read = []\<rparr>)"
    using right [OF 1] ep_hear [OF _ b1(1)] by (simp add: begin_at_def)
  have "dialogue (begin_at a, begin_at b) (?a, \<lparr>ep_conn = b2, ep_wrote = [], ep_read = [] @ data\<rparr>)"
    by (rule right [OF 2 ep_read [OF _ b2]]) simp
  then show ?thesis by auto
qed


end
